(* ===== verification/Prelude.thy ===== *)
theory Prelude
  imports Main "HOL-Library.Word" "HOL-Library.Sublist"
begin

text \<open>
  Shared vocabulary of the development: machine integers, Rust's \<open>Result\<close> with the
  \<open>?\<close> operator, native-endian 32-bit prefixes, UTF-8 strings as byte sequences, and
  deterministic state machines run over lists of events with the locale that lifts a
  one-step invariant to whole runs.
\<close>

section \<open>Machine integers and results\<close>

type_synonym byte = "8 word"
type_synonym u32 = "32 word"
type_synonym u64 = "64 word"
type_synonym i32 = "32 word"
type_synonym errno = nat
type_synonym fd = nat
type_synonym pid = u32
type_synonym os_error = errno

definition EAGAIN :: errno where "EAGAIN = 11"
definition EMSGSIZE :: errno where "EMSGSIZE = 90"

text \<open>
  What one \<open>recvmsg\<close> gave: an error, or the datagram with its control messages (each
  one the descriptors of an \<open>SCM_RIGHTS\<close> message, or \<open>None\<close> for another kind) unless
  they could not be read.
\<close>

type_synonym recvmsg_result = "errno + byte list \<times> (errno + fd list option list)"

named_theorems inv_simps \<open>definitions of the components' well-formedness invariants\<close>
named_theorems step_simps \<open>one-step equations of the components' machines\<close>

text \<open>Rust's \<open>e?\<close>: an error returns early, a value goes on.\<close>

definition rbind :: "'e + 'a \<Rightarrow> ('a \<Rightarrow> 'e + 'b) \<Rightarrow> 'e + 'b" where
  "rbind r f = (case r of Inl e \<Rightarrow> Inl e | Inr x \<Rightarrow> f x)"

definition map_err :: "('e \<Rightarrow> 'f) \<Rightarrow> 'e + 'a \<Rightarrow> 'f + 'a" where
  "map_err f r = (case r of Inl e \<Rightarrow> Inl (f e) | Inr x \<Rightarrow> Inr x)"

definition ok_or :: "'e \<Rightarrow> 'a option \<Rightarrow> 'e + 'a" where
  "ok_or e r = (case r of None \<Rightarrow> Inl e | Some x \<Rightarrow> Inr x)"

lemma rbind_simps [simp]:
  "rbind (Inl e) f = Inl e"
  "rbind (Inr x) f = f x"
  by (simp_all add: rbind_def)

lemma map_err_simps [simp]:
  "map_err g (Inl e) = Inl (g e)"
  "map_err g (Inr x) = Inr x"
  by (simp_all add: map_err_def)

lemma ok_or_simps [simp]:
  "ok_or e None = Inl e"
  "ok_or e (Some x) = Inr x"
  by (simp_all add: ok_or_def)

lemma rbind_eq_Inr: "rbind r f = Inr y \<longleftrightarrow> (\<exists>x. r = Inr x \<and> f x = Inr y)"
  by (cases r) auto

lemma rbind_eq_Inl: "rbind r f = Inl e \<longleftrightarrow> r = Inl e \<or> (\<exists>x. r = Inr x \<and> f x = Inl e)"
  by (cases r) auto

lemma map_err_eq_Inr [simp]: "map_err g r = Inr y \<longleftrightarrow> r = Inr y"
  by (cases r) auto

lemma ok_or_eq_Inr [simp]: "ok_or e r = Inr y \<longleftrightarrow> r = Some y"
  by (cases r) auto

text \<open>\<open>collect::<Result<Vec<_>, _>>\<close>: the values in order, or the first error.\<close>

fun collect_results :: "('e + 'a) list \<Rightarrow> 'e + 'a list" where
  "collect_results [] = Inr []"
| "collect_results (r # rs) = rbind r (\<lambda>x. rbind (collect_results rs) (\<lambda>xs. Inr (x # xs)))"

lemma collect_results_Inr: "collect_results rs = Inr xs \<longleftrightarrow> rs = map Inr xs"
proof (induction rs arbitrary: xs)
  case Nil
  then show ?case by auto
next
  case (Cons r rs)
  then show ?case by (cases r; cases xs) (auto simp: rbind_eq_Inr)
qed

section \<open>The 4-byte native-endian prefix\<close>

text \<open>
  \<open>u32::to_ne_bytes\<close> and \<open>u32::from_ne_bytes\<close>; the byte order of the host is a
  parameter (\<open>le\<close>: little-endian).
\<close>

definition le_bytes :: "u32 \<Rightarrow> byte list" where
  "le_bytes w = map (\<lambda>i. of_nat (unat w div 256 ^ i mod 256)) [0, 1, 2, 3]"

definition to_ne_bytes :: "bool \<Rightarrow> u32 \<Rightarrow> byte list" where
  "to_ne_bytes le w = (if le then le_bytes w else rev (le_bytes w))"

definition from_le_bytes :: "byte list \<Rightarrow> u32" where
  "from_le_bytes bs = of_nat (foldr (\<lambda>b acc. unat b + 256 * acc) bs 0)"

definition from_ne_bytes :: "bool \<Rightarrow> byte list \<Rightarrow> u32" where
  "from_ne_bytes le bs = (if le then from_le_bytes bs else from_le_bytes (rev bs))"

lemma length_to_ne_bytes [simp]: "length (to_ne_bytes le w) = 4"
  by (simp add: to_ne_bytes_def le_bytes_def)

lemma unat_of_nat_byte [simp]: "unat (of_nat (n mod 256) :: byte) = n mod 256"
  by (simp add: unat_of_nat)

lemma base256_digits:
  fixes n :: nat
  assumes "n < 2 ^ 32"
  shows "n mod 256 + 256 * (n div 256 mod 256 + 256 * (n div 65536 mod 256 +
    256 * (n div 16777216 mod 256))) = n"
proof -
  have "n div 65536 = n div 256 div 256" and "n div 16777216 = n div 256 div 256 div 256"
    by (simp_all add: div_mult2_eq [symmetric])
  moreover have "n div 256 div 256 div 256 < 256"
    using assms by (simp add: div_mult2_eq [symmetric] less_mult_imp_div_less)
  ultimately show ?thesis
    by (simp add: mod_mult_div_eq)
qed

lemma from_le_bytes_le_bytes [simp]: "from_le_bytes (le_bytes w) = w"
proof -
  have "unat w < 2 ^ 32" using unsigned_less [of w] by simp
  then have "foldr (\<lambda>b acc. unat b + 256 * acc) (le_bytes w) 0 = unat w"
    using base256_digits [of "unat w"] by (simp add: le_bytes_def unat_of_nat)
  then show ?thesis by (simp add: from_le_bytes_def)
qed

lemma from_to_ne_bytes [simp]: "from_ne_bytes le (to_ne_bytes le w) = w"
  by (simp add: from_ne_bytes_def to_ne_bytes_def)

section \<open>Deterministic machines and their runs\<close>

text \<open>
  A component with state is a step function; \<open>run\<close> feeds it a list of events and
  collects the outputs in order.
\<close>

fun run :: "('s \<Rightarrow> 'e \<Rightarrow> 's \<times> 'o) \<Rightarrow> 's \<Rightarrow> 'e list \<Rightarrow> 's \<times> 'o list" where
  "run step s [] = (s, [])"
| "run step s (e # es) =
     (let (s', out) = step s e; (s'', outs) = run step s' es in (s'', out # outs))"

abbreviation final :: "('s \<Rightarrow> 'e \<Rightarrow> 's \<times> 'o) \<Rightarrow> 's \<Rightarrow> 'e list \<Rightarrow> 's" where
  "final step s es \<equiv> fst (run step s es)"

abbreviation outputs :: "('s \<Rightarrow> 'e \<Rightarrow> 's \<times> 'o) \<Rightarrow> 's \<Rightarrow> 'e list \<Rightarrow> 'o list" where
  "outputs step s es \<equiv> snd (run step s es)"

lemma final_Cons [simp]: "final step s (e # es) = final step (fst (step s e)) es"
  by (simp add: split_beta Let_def)

lemma outputs_Cons [simp]:
  "outputs step s (e # es) = snd (step s e) # outputs step (fst (step s e)) es"
  by (simp add: split_beta Let_def)

lemmas run_Cons_raw = run.simps(2)
declare run.simps(2) [simp del]

lemma final_append [simp]: "final step s (es @ fs) = final step (final step s es) fs"
  by (induction es arbitrary: s) simp_all

lemma outputs_append [simp]:
  "outputs step s (es @ fs) = outputs step s es @ outputs step (final step s es) fs"
  by (induction es arbitrary: s) simp_all

lemma length_outputs [simp]: "length (outputs step s es) = length es"
  by (induction es arbitrary: s) simp_all

lemma outputs_nth:
  "i < length es \<Longrightarrow> outputs step s es ! i = snd (step (final step s (take i es)) (es ! i))"
  by (induction es arbitrary: s i) (auto simp: nth_Cons split: nat.splits)

lemma in_outputs_iff:
  "out \<in> set (outputs step s es) \<longleftrightarrow>
     (\<exists>pre e post. es = pre @ e # post \<and> out = snd (step (final step s pre) e))"
proof
  assume "out \<in> set (outputs step s es)"
  then obtain i where i: "i < length es" "out = outputs step s es ! i"
    by (auto simp: in_set_conv_nth)
  then have "es = take i es @ es ! i # drop (Suc i) es"
    by (simp add: id_take_nth_drop)
  with i show "\<exists>pre e post. es = pre @ e # post \<and> out = snd (step (final step s pre) e)"
    by (metis outputs_nth)
qed auto

text \<open>
  The interface every component's invariant goes through: a predicate that the initial
  state has and every step keeps holds after every run, and so does a per-step
  guarantee about the output.
\<close>

locale invariant_machine =
  fixes step :: "'s \<Rightarrow> 'e \<Rightarrow> 's \<times> 'o"
    and init :: 's
    and inv :: "'s \<Rightarrow> bool"
  assumes inv_init: "inv init"
    and inv_step: "inv s \<Longrightarrow> inv (fst (step s e))"
begin

lemma inv_run_from: "inv s \<Longrightarrow> inv (final step s es)"
  by (induction es arbitrary: s) (simp_all add: inv_step)

lemma inv_run: "inv (final step init es)"
  by (rule inv_run_from [OF inv_init])

lemma output_guarantee:
  assumes "\<And>s e. inv s \<Longrightarrow> good e (snd (step s e))"
  shows "list_all2 good es (outputs step init es)"
proof -
  have "inv s \<Longrightarrow> list_all2 good es (outputs step s es)" for s
    by (induction es arbitrary: s) (simp_all add: assms inv_step)
  then show ?thesis using inv_init .
qed

end

end
