(* ===== verification/Wire_Codec.thy ===== *)
theory Wire_Codec
  imports Prelude
begin

text \<open>
  The length-prefixed framing that the three IPC crates (\<open>halmasuit-greetd\<close>,
  \<open>halmasuit-session-ipc\<close>, \<open>halmasuit-decoder-ipc\<close>) each implement:
  a 4-byte native-endian body length, then a JSON body of that length.  The locale
  states what an encoder and a decoder promise branch by branch and derives what the
  readers of a byte stream rely on.  JSON itself (\<open>serde_json\<close>) is a parameter:
  \<open>to_vec\<close> and \<open>from_slice\<close>, with errors rendered as strings.
\<close>

type_synonym json_error = string

locale framed_codec =
  fixes le :: bool
    and max_len :: u32
    and oversized :: "u32 \<Rightarrow> u32 \<Rightarrow> 'e"
    and json :: "json_error \<Rightarrow> 'e"
    and to_vec :: "'m \<Rightarrow> json_error + byte list"
    and from_slice :: "byte list \<Rightarrow> json_error + 'm"
    and enc :: "'m \<Rightarrow> 'e + byte list"
    and dec :: "byte list \<Rightarrow> 'e + ('m \<times> nat) option"
  assumes enc_json: "to_vec m = Inl j \<Longrightarrow> enc m = Inl (json j)"
    and enc_fits: "to_vec m = Inr body \<Longrightarrow> length body \<le> unat max_len \<Longrightarrow>
      enc m = Inr (to_ne_bytes le (of_nat (length body)) @ body)"
    and enc_big: "to_vec m = Inr body \<Longrightarrow> unat max_len < length body \<Longrightarrow>
      \<exists>n. enc m = Inl (oversized n max_len)"
    and dec_short: "length buf < 4 \<Longrightarrow> dec buf = Inr None"
    and dec_oversized: "4 \<le> length buf \<Longrightarrow> max_len < from_ne_bytes le (take 4 buf) \<Longrightarrow>
      dec buf = Inl (oversized (from_ne_bytes le (take 4 buf)) max_len)"
    and dec_partial: "4 \<le> length buf \<Longrightarrow> from_ne_bytes le (take 4 buf) \<le> max_len \<Longrightarrow>
      length buf < 4 + unat (from_ne_bytes le (take 4 buf)) \<Longrightarrow> dec buf = Inr None"
    and dec_body: "from_ne_bytes le (take 4 buf) = n \<Longrightarrow> n \<le> max_len \<Longrightarrow>
      4 + unat n \<le> length buf \<Longrightarrow>
      dec buf = (case from_slice (take (unat n) (drop 4 buf)) of
          Inl j \<Rightarrow> Inl (json j) | Inr m \<Rightarrow> Inr (Some (m, 4 + unat n)))"
begin

lemma max_len_bound: "unat max_len < 2 ^ 32"
  using unsigned_less [of max_len] by simp

lemma prefix_value:
  assumes "length body \<le> unat max_len"
  shows "from_ne_bytes le (take 4 (to_ne_bytes le (of_nat (length body)) @ rest))
      = of_nat (length body)"
    and "unat (of_nat (length body) :: u32) = length body"
    and "(of_nat (length body) :: u32) \<le> max_len"
proof -
  have "length body < 2 ^ 32" using assms max_len_bound by simp
  then show u: "unat (of_nat (length body) :: u32) = length body"
    by (simp add: unat_of_nat)
  then show "(of_nat (length body) :: u32) \<le> max_len"
    using assms by (simp add: word_le_nat_alt)
qed simp

lemma enc_cases:
  assumes "enc m = Inr bs"
  obtains body where "to_vec m = Inr body" and "length body \<le> unat max_len"
    and "bs = to_ne_bytes le (of_nat (length body)) @ body"
proof (cases "to_vec m")
  case (Inl j)
  with assms show ?thesis by (simp add: enc_json)
next
  case (Inr body)
  then show ?thesis
    using assms enc_fits enc_big that by (cases "length body \<le> unat max_len") force+
qed

lemma decode_encode:
  assumes enc: "enc m = Inr bs"
    and json_ok: "\<And>body. to_vec m = Inr body \<Longrightarrow> from_slice body = Inr m"
  shows "dec (bs @ rest) = Inr (Some (m, length bs))"
proof -
  obtain body where b: "to_vec m = Inr body" "length body \<le> unat max_len"
    "bs = to_ne_bytes le (of_nat (length body)) @ body"
    using enc by (rule enc_cases)
  note v = prefix_value [OF b(2)]
  have "dec (bs @ rest) = (case from_slice body of
      Inl j \<Rightarrow> Inl (json j) | Inr m \<Rightarrow> Inr (Some (m, 4 + length body)))"
    using v dec_body [of "bs @ rest" "of_nat (length body)"]
    by (simp add: b(3) split: sum.split)
  then show ?thesis using json_ok [OF b(1)] b(3) by simp
qed

lemma decode_strict_prefix:
  assumes enc: "enc m = Inr bs" and "strict_prefix p bs"
  shows "dec p = Inr None"
proof (cases "length p < 4")
  case True
  then show ?thesis by (rule dec_short)
next
  case False
  obtain body where b: "length body \<le> unat max_len"
    "bs = to_ne_bytes le (of_nat (length body)) @ body"
    using enc by (rule enc_cases)
  note v = prefix_value [OF b(1)]
  obtain q where q: "bs = p @ q" "q \<noteq> []"
    using assms(2) by (auto elim: strict_prefixE')
  then have "take 4 p = take 4 bs" using False by simp
  moreover have "length p < length bs" using q by simp
  ultimately show ?thesis
    using False b(2) v by (intro dec_partial) simp_all
qed

lemma decided_length:
  assumes "dec buf \<noteq> Inr None"
  shows "4 \<le> length buf"
    and "from_ne_bytes le (take 4 buf) \<le> max_len \<Longrightarrow>
      4 + unat (from_ne_bytes le (take 4 buf)) \<le> length buf"
  using assms dec_short [of buf] dec_partial [of buf] by (metis not_le)+

lemma dec_Some_cases:
  assumes "dec buf = Inr (Some (m, n))"
  shows "4 \<le> n" and "n \<le> length buf" and "n \<le> 4 + unat max_len"
    and "n = 4 + unat (from_ne_bytes le (take 4 buf))"
    and "from_slice (take (n - 4) (drop 4 buf)) = Inr m"
proof -
  let ?p = "from_ne_bytes le (take 4 buf)"
  have l: "4 \<le> length buf" using assms by (simp add: decided_length)
  have p: "?p \<le> max_len" using assms l dec_oversized [of buf] by (cases "?p \<le> max_len") simp_all
  have f: "4 + unat ?p \<le> length buf" using assms p by (simp add: decided_length)
  from assms dec_body [OF refl p f] have "n = 4 + unat ?p" "from_slice (take (n - 4) (drop 4 buf)) = Inr m"
    by (auto split: sum.splits)
  with p f show "4 \<le> n" "n \<le> length buf" "n \<le> 4 + unat max_len" "n = 4 + unat ?p"
    "from_slice (take (n - 4) (drop 4 buf)) = Inr m"
    by (simp_all add: word_le_nat_alt)
qed

text \<open>Whatever was decided on a buffer is decided the same way once more bytes arrive.\<close>

lemma dec_extend:
  assumes "dec buf \<noteq> Inr None"
  shows "dec (buf @ rest) = dec buf"
proof -
  let ?p = "from_ne_bytes le (take 4 buf)"
  have l: "4 \<le> length buf" using assms by (simp add: decided_length)
  then have t: "take 4 (buf @ rest) = take 4 buf" by simp
  show ?thesis
  proof (cases "?p \<le> max_len")
    case False
    then show ?thesis using l t by (simp add: dec_oversized not_le)
  next
    case True
    then have f: "4 + unat ?p \<le> length buf" using assms by (simp add: decided_length)
    then have "take (unat ?p) (drop 4 (buf @ rest)) = take (unat ?p) (drop 4 buf)" by simp
    then show ?thesis
      using dec_body [OF refl True f] dec_body [of "buf @ rest" ?p] True f t by simp
  qed
qed

lemma dec_None_bound:
  assumes "dec buf = Inr None"
  shows "length buf < 4 + unat max_len"
proof (rule ccontr)
  let ?p = "from_ne_bytes le (take 4 buf)"
  assume "\<not> length buf < 4 + unat max_len"
  then have l: "4 \<le> length buf" "4 + unat max_len \<le> length buf" by simp_all
  show False
  proof (cases "?p \<le> max_len")
    case True
    then have "4 + unat ?p \<le> length buf" using l by (simp add: word_le_nat_alt)
    from dec_body [OF refl True this] assms show False by (simp split: sum.splits)
  next
    case False
    with l dec_oversized [of buf] assms show False by (simp add: not_le)
  qed
qed

end

end
