(* ===== verification/Greetd.thy ===== *)
theory Greetd
  imports Wire_Codec
begin

text \<open>
  The greetd wire protocol of \<open>crates/halmasuit-greetd/src/lib.rs\<close>: request and
  response types, the session state machine (\<open>SessionState::on_request\<close>,
  \<open>SessionState::on_pam_result\<close>), the UTF-8 safe truncation of error descriptions
  and the length-prefixed codec.  Rust strings are their UTF-8 bytes, one \<open>char\<close> a byte.
\<close>

section \<open>Wire types\<close>

datatype request =
    CreateSession string
  | PostAuthMessageResponse "string option"
  | StartSession "string list" "string list"
  | CancelSession

datatype error_type = GenericError | AuthError

datatype auth_message_type = Visible | Secret | Info | ErrorMsg

datatype response =
    Success
  | Error error_type string
  | AuthMessage auth_message_type string

section \<open>State machine\<close>

datatype session_state =
    Idle
  | AuthPending string
  | Authenticating string
  | AuthSuccess string u32 u32
  | Spawning string u32 u32 "string list" "string list"

datatype pam_step =
    Challenge auth_message_type string
  | PamSuccess string u32 u32
  | PamFailure string

record spawn_request =
  sr_username :: string
  sr_uid :: u32
  sr_gid :: u32
  sr_cmd :: "string list"
  sr_env :: "string list"

datatype action =
    Reply response
  | Pam "string option"
  | Spawn spawn_request

datatype state_machine_error =
    StartBeforeAuth
  | ResponseWithoutPendingChallenge
  | DoubleCreate
  | CancelWithoutSession

fun describe :: "state_machine_error \<Rightarrow> string" where
  "describe StartBeforeAuth = ''start_session received before PAM success''"
| "describe ResponseWithoutPendingChallenge =
     ''post_auth_message_response received without pending challenge''"
| "describe DoubleCreate = ''create_session received with a session already in flight''"
| "describe CancelWithoutSession = ''cancel_session received with no session in flight''"

definition to_response :: "state_machine_error \<Rightarrow> response" where
  "to_response e = Error GenericError (describe e)"

text \<open>
  \<open>SessionState::on_request\<close>: the result and the state after the call (\<open>&mut self\<close>),
  one equation per (state, request) arm of the source.
\<close>

fun on_request :: "session_state \<Rightarrow> request \<Rightarrow> (state_machine_error + action) \<times> session_state" where
  "on_request Idle (CreateSession username) = (Inr (Pam None), AuthPending username)"
| "on_request Idle (StartSession cmd env) = (Inl StartBeforeAuth, Idle)"
| "on_request Idle (PostAuthMessageResponse r) = (Inl ResponseWithoutPendingChallenge, Idle)"
| "on_request Idle CancelSession = (Inl CancelWithoutSession, Idle)"
| "on_request (AuthPending u) CancelSession = (Inr (Reply Success), Idle)"
| "on_request (AuthPending u) (CreateSession _) = (Inl DoubleCreate, AuthPending u)"
| "on_request (AuthPending u) (StartSession _ _) = (Inl StartBeforeAuth, AuthPending u)"
| "on_request (AuthPending u) (PostAuthMessageResponse _) =
     (Inl ResponseWithoutPendingChallenge, AuthPending u)"
| "on_request (Authenticating u) (PostAuthMessageResponse r) = (Inr (Pam r), AuthPending u)"
| "on_request (Authenticating u) CancelSession = (Inr (Reply Success), Idle)"
| "on_request (Authenticating u) (CreateSession _) = (Inl DoubleCreate, Authenticating u)"
| "on_request (Authenticating u) (StartSession _ _) = (Inl StartBeforeAuth, Authenticating u)"
| "on_request (AuthSuccess u uid gid) (StartSession cmd env) =
     (Inr (Spawn \<lparr>sr_username = u, sr_uid = uid, sr_gid = gid, sr_cmd = cmd, sr_env = env\<rparr>),
      Spawning u uid gid cmd env)"
| "on_request (AuthSuccess u uid gid) CancelSession = (Inr (Reply Success), Idle)"
| "on_request (AuthSuccess u uid gid) (CreateSession _) =
     (Inl DoubleCreate, AuthSuccess u uid gid)"
| "on_request (AuthSuccess u uid gid) (PostAuthMessageResponse _) =
     (Inl ResponseWithoutPendingChallenge, AuthSuccess u uid gid)"
| "on_request (Spawning u uid gid cmd env) _ = (Inl DoubleCreate, Spawning u uid gid cmd env)"

section \<open>Description truncation\<close>

definition MAX_ERROR_DESCRIPTION :: nat where
  "MAX_ERROR_DESCRIPTION = 4 * 1024"

text \<open>\<open>str::is_char_boundary\<close>: both ends, and every byte that does not continue a character.\<close>

definition is_continuation :: "char \<Rightarrow> bool" where
  "is_continuation c \<longleftrightarrow> 128 \<le> (of_char c :: nat) \<and> (of_char c :: nat) < 192"

definition is_char_boundary :: "string \<Rightarrow> nat \<Rightarrow> bool" where
  "is_char_boundary s i \<longleftrightarrow>
     i = 0 \<or> i = length s \<or> (i < length s \<and> \<not> is_continuation (s ! i))"

text \<open>The \<open>while !reason.is_char_boundary(cut) { cut -= 1 }\<close> loop.\<close>

fun back_to_boundary :: "string \<Rightarrow> nat \<Rightarrow> nat" where
  "back_to_boundary s 0 = 0"
| "back_to_boundary s (Suc k) =
     (if is_char_boundary s (Suc k) then Suc k else back_to_boundary s k)"

definition truncate_description :: "string \<Rightarrow> string" where
  "truncate_description reason =
     (if length reason \<le> MAX_ERROR_DESCRIPTION then reason
      else take (back_to_boundary reason MAX_ERROR_DESCRIPTION) reason @ '' [truncated]'')"

text \<open>\<open>SessionState::on_pam_result\<close>: the response and the state after the call.\<close>

fun on_pam_result :: "session_state \<Rightarrow> pam_step \<Rightarrow> response \<times> session_state" where
  "on_pam_result (AuthPending username) (Challenge kind prompt) =
     (AuthMessage kind prompt, Authenticating username)"
| "on_pam_result (AuthPending username) (PamSuccess resolved uid gid) =
     (Success, AuthSuccess resolved uid gid)"
| "on_pam_result (AuthPending username) (PamFailure reason) =
     (Error AuthError (truncate_description reason), Idle)"
| "on_pam_result _ _ =
     (Error GenericError ''pam result fed while not awaiting a PAM round'', Idle)"

section \<open>Codec\<close>

datatype codec_error = OversizedMessage u32 u32 | Json json_error

definition MAX_MESSAGE_SIZE :: u32 where
  "MAX_MESSAGE_SIZE = 1024 * 1024"

definition LENGTH_PREFIX_SIZE :: nat where
  "LENGTH_PREFIX_SIZE = 4"

definition encode :: "bool \<Rightarrow> ('m \<Rightarrow> json_error + byte list) \<Rightarrow> 'm \<Rightarrow> codec_error + byte list" where
  "encode le to_vec msg =
     rbind (map_err Json (to_vec msg)) (\<lambda>body.
     rbind (if length body < 2 ^ 32 then Inr (of_nat (length body))
            else Inl (OversizedMessage (- 1) MAX_MESSAGE_SIZE)) (\<lambda>len.
     if len > MAX_MESSAGE_SIZE then Inl (OversizedMessage len MAX_MESSAGE_SIZE)
     else Inr (to_ne_bytes le len @ body)))"

definition try_decode ::
    "bool \<Rightarrow> (byte list \<Rightarrow> json_error + 't) \<Rightarrow> byte list \<Rightarrow> codec_error + ('t \<times> nat) option" where
  "try_decode le from_slice buf =
     (if length buf < LENGTH_PREFIX_SIZE then Inr None
      else let len = from_ne_bytes le (take LENGTH_PREFIX_SIZE buf) in
        if len > MAX_MESSAGE_SIZE then Inl (OversizedMessage len MAX_MESSAGE_SIZE)
        else let needed = LENGTH_PREFIX_SIZE + unat len in
          if length buf < needed then Inr None
          else rbind (map_err Json (from_slice (take (unat len) (drop LENGTH_PREFIX_SIZE buf))))
                 (\<lambda>msg. Inr (Some (msg, needed))))"

lemma unat_MAX_MESSAGE_SIZE [simp]: "unat MAX_MESSAGE_SIZE = 1048576"
  by (simp add: MAX_MESSAGE_SIZE_def)

lemma encode_oversize_branch:
  assumes "to_vec m = Inr body" and "unat MAX_MESSAGE_SIZE < length body"
  shows "\<exists>n. encode le to_vec m = Inl (OversizedMessage n MAX_MESSAGE_SIZE)"
proof (cases "length body < 2 ^ 32")
  case True
  then have "MAX_MESSAGE_SIZE < (of_nat (length body) :: u32)"
    using assms(2) by (simp add: word_less_nat_alt unat_of_nat)
  with True assms(1) show ?thesis by (simp add: encode_def)
next
  case False
  with assms(1) show ?thesis by (auto simp: encode_def)
qed

lemma encode_fits_branch:
  assumes "to_vec m = Inr body" and "length body \<le> unat MAX_MESSAGE_SIZE"
  shows "encode le to_vec m = Inr (to_ne_bytes le (of_nat (length body)) @ body)"
proof -
  have "\<not> MAX_MESSAGE_SIZE < (of_nat (length body) :: u32)"
    using assms(2) by (simp add: word_less_nat_alt unat_of_nat)
  with assms show ?thesis by (simp add: encode_def)
qed

interpretation gd: framed_codec le MAX_MESSAGE_SIZE OversizedMessage Json to_vec from_slice
  "encode le to_vec" "try_decode le from_slice" for le to_vec from_slice
proof unfold_locales
  fix m :: 'a and body
  assume b: "to_vec m = Inr body"
  show "length body \<le> unat MAX_MESSAGE_SIZE \<Longrightarrow>
      encode le to_vec m = Inr (to_ne_bytes le (of_nat (length body)) @ body)"
    using b by (rule encode_fits_branch)
  show "unat MAX_MESSAGE_SIZE < length body \<Longrightarrow>
      \<exists>n. encode le to_vec m = Inl (OversizedMessage n MAX_MESSAGE_SIZE)"
    using b by (rule encode_oversize_branch)
qed (auto simp: encode_def try_decode_def LENGTH_PREFIX_SIZE_def Let_def not_less rbind_def
    map_err_def split: sum.splits)


section \<open>Codec guarantees\<close>

text \<open>
  whatever \<open>encode\<close> produces decodes back to the same message and consumes exactly
  the encoded bytes, whatever follows in the buffer; the assumption is that
  \<open>serde_json\<close> reads back what it wrote for this message.
\<close>

theorem greetd_codec_roundtrip:
  fixes m :: 'm and from_slice :: "byte list \<Rightarrow> json_error + 'm"
  assumes "encode le to_vec m = Inr bs"
    and "\<And>body. to_vec m = Inr body \<Longrightarrow> from_slice body = Inr m"
  shows "try_decode le from_slice (bs @ rest) = Inr (Some (m, length bs))"
  using assms by (rule gd.decode_encode)

theorem greetd_codec_roundtrip_witness:
  "try_decode True (\<lambda>b. if b = [123, 125] then Inr () else Inl ''eof'')
     ([2, 0, 0, 0, 123, 125] @ [9]) = Inr (Some ((), 6))"
proof -
  have e: "encode True (\<lambda>_. Inr [123, 125]) () = Inr [2, 0, 0, 0, 123, 125]"
    by (simp add: encode_def to_ne_bytes_def le_bytes_def MAX_MESSAGE_SIZE_def)
  show ?thesis
    using greetd_codec_roundtrip [OF e, of "\<lambda>b. if b = [123, 125] then Inr () else Inl ''eof''" "[9]"]
    by simp
qed

text \<open>
  a frame cut anywhere before its end is never an error and never a message: the
  decoder asks for more bytes.  Together with C1 this is what lets the socket layer
  retry after every read.
\<close>

theorem greetd_partial_frame_waits:
  fixes m :: 'm and from_slice :: "byte list \<Rightarrow> json_error + 'm"
  assumes "encode le to_vec m = Inr bs" and "strict_prefix p bs"
  shows "try_decode le from_slice p = Inr None"
  using assms by (rule gd.decode_strict_prefix)

theorem greetd_partial_frame_waits_witness:
  "try_decode True (\<lambda>b. Inl ''unused'' :: json_error + unit) [2, 0, 0, 0, 123] = Inr None"
proof -
  have e: "encode True (\<lambda>_. Inr [123, 125]) () = Inr [2, 0, 0, 0, 123, 125]"
    by (simp add: encode_def to_ne_bytes_def le_bytes_def MAX_MESSAGE_SIZE_def)
  have p: "strict_prefix [2, 0, 0, 0, 123] [2, 0, 0, 0, 123, 125 :: byte]"
    by (simp add: strict_prefix_def)
  show ?thesis by (rule greetd_partial_frame_waits [OF e p])
qed

section \<open>Truncation keeps descriptions valid and bounded\<close>

text \<open>
  Well-formed UTF-8 as \<open>core::str\<close> validates it: the width of a sequence comes from
  its first byte, the second byte has a range of its own for some first bytes, all
  others are continuation bytes.
\<close>

definition utf8_width :: "char \<Rightarrow> nat" where
  "utf8_width c = (let n = (of_char c :: nat) in
     if n < 128 then 1 else if 194 \<le> n \<and> n < 224 then 2
     else if 224 \<le> n \<and> n < 240 then 3 else if 240 \<le> n \<and> n < 245 then 4 else 0)"

definition utf8_second_ok :: "char \<Rightarrow> string \<Rightarrow> bool" where
  "utf8_second_ok c cs = (let n = (of_char c :: nat) in case cs of [] \<Rightarrow> True
     | d # _ \<Rightarrow> let m = (of_char d :: nat) in
         (n = 224 \<longrightarrow> 160 \<le> m) \<and> (n = 237 \<longrightarrow> m < 160) \<and>
         (n = 240 \<longrightarrow> 144 \<le> m) \<and> (n = 244 \<longrightarrow> m < 144))"

function utf8_valid :: "string \<Rightarrow> bool" where
  "utf8_valid [] = True"
| "utf8_valid (c # cs) =
     (let w = utf8_width c in
      0 < w \<and> w \<le> Suc (length cs) \<and> list_all is_continuation (take (w - 1) cs) \<and>
      utf8_second_ok c (take (w - 1) cs) \<and> utf8_valid (drop (w - 1) cs))"
  by pat_completeness auto
termination
  by (relation "measure length") auto

declare utf8_valid.simps(2) [simp del]

lemma utf8_valid_append: "utf8_valid s \<Longrightarrow> utf8_valid t \<Longrightarrow> utf8_valid (s @ t)"
proof (induction s rule: utf8_valid.induct)
  case 1
  then show ?case by simp
next
  case (2 c cs)
  then show ?case
    by (auto simp: utf8_valid.simps(2) Let_def)
qed

lemma boundary_skips_character:
  assumes "utf8_valid (c # cs)" and "is_char_boundary (c # cs) (Suc k)"
  shows "utf8_width c \<le> Suc k"
proof (rule ccontr)
  assume n: "\<not> utf8_width c \<le> Suc k"
  with assms(1) have "k < length (take (utf8_width c - 1) cs)"
    by (simp add: utf8_valid.simps(2) Let_def)
  with assms(1) n have "is_continuation (cs ! k)" and "k < length cs"
    by (auto simp: utf8_valid.simps(2) Let_def list_all_length)
  then show False using assms(2) n by (auto simp: is_char_boundary_def)
qed

lemma boundary_of_drop:
  assumes "is_char_boundary s k" and "w \<le> k"
  shows "is_char_boundary (drop w s) (k - w)"
  using assms by (auto simp: is_char_boundary_def)

lemma utf8_valid_take:
  "utf8_valid s \<Longrightarrow> is_char_boundary s k \<Longrightarrow> utf8_valid (take k s)"
proof (induction s arbitrary: k rule: utf8_valid.induct)
  case 1
  then show ?case by simp
next
  case (2 c cs)
  show ?case
  proof (cases k)
    case 0
    then show ?thesis by simp
  next
    case (Suc j)
    let ?w = "utf8_width c"
    have w: "?w \<le> Suc j" "0 < ?w"
      using boundary_skips_character [OF "2.prems"(1)] "2.prems" Suc
      by (simp_all add: utf8_valid.simps(2) Let_def)
    have "is_char_boundary (drop ?w (c # cs)) (k - ?w)"
      using "2.prems"(2) w Suc by (intro boundary_of_drop) simp_all
    then have "is_char_boundary (drop (?w - 1) cs) (j - (?w - 1))"
      using w Suc by (simp add: drop_Cons')
    then have "utf8_valid (take (j - (?w - 1)) (drop (?w - 1) cs))"
      using "2.IH" "2.prems"(1) by (simp add: utf8_valid.simps(2) Let_def)
    then show ?thesis
      using "2.prems"(1) Suc w
      by (auto simp: utf8_valid.simps(2) Let_def take_drop min_absorb1 le_diff_conv)
  qed
qed

lemma boundary_nearby:
  "utf8_valid s \<Longrightarrow> k \<le> length s \<Longrightarrow> \<exists>j\<le>k. k \<le> j + 3 \<and> is_char_boundary s j"
proof (induction s arbitrary: k rule: utf8_valid.induct)
  case 1
  then show ?case by (auto simp: is_char_boundary_def)
next
  case (2 c cs)
  let ?w = "utf8_width c"
  have w: "?w \<le> 4" "0 < ?w" "?w \<le> Suc (length cs)"
    using "2.prems"(1) by (simp_all add: utf8_valid.simps(2) Let_def utf8_width_def)
  show ?case
  proof (cases "k < ?w")
    case True
    then show ?thesis using w by (intro exI [of _ 0]) (simp add: is_char_boundary_def)
  next
    case False
    then obtain j where j: "j \<le> k - ?w" "k - ?w \<le> j + 3" "is_char_boundary (drop (?w - 1) cs) j"
      using "2.IH" [OF refl, of "k - ?w"] "2.prems" w
        diff_le_mono [of k "Suc (length cs)" ?w]
      by (auto simp: utf8_valid.simps(2) Let_def)
    have "is_char_boundary (c # cs) (j + ?w)"
    proof (cases j)
      case 0
      show ?thesis
      proof (cases "drop (?w - 1) cs")
        case Nil
        then have "?w = Suc (length cs)" using w by simp
        then show ?thesis using 0 by (simp add: is_char_boundary_def)
      next
        case (Cons d ds)
        then have "utf8_valid (d # ds)"
          using "2.prems"(1) by (simp add: utf8_valid.simps(2) Let_def)
        then have "\<not> is_continuation d"
          by (auto simp: utf8_valid.simps(2) Let_def utf8_width_def is_continuation_def
              split: if_splits)
        moreover have "(c # cs) ! ?w = d" "?w < length (c # cs)"
          using Cons w nth_via_drop [OF Cons] by (cases ?w; force dest: arg_cong [of _ _ length])+
        ultimately show ?thesis using 0 by (simp add: is_char_boundary_def)
      qed
    next
      case (Suc i)
      then show ?thesis
        using j(3) w by (cases ?w) (auto simp: is_char_boundary_def add.commute)
    qed
    then show ?thesis using j False by (intro exI [of _ "j + ?w"]) auto
  qed
qed

lemma back_to_boundary_is_boundary: "is_char_boundary s (back_to_boundary s k)"
  by (induction k) (simp_all add: is_char_boundary_def)

lemma back_to_boundary_le: "back_to_boundary s k \<le> k"
  by (induction k) auto

lemma back_to_boundary_greatest:
  "is_char_boundary s j \<Longrightarrow> j \<le> k \<Longrightarrow> j \<le> back_to_boundary s k"
  by (induction k) (auto simp: le_Suc_eq)

text \<open>
  \<open>truncate_description\<close> never produces more than 4 KiB plus its marker, keeps
  valid UTF-8 valid, and cuts off less than one character more than it has to: a
  description over the limit keeps at least its first 4093 bytes.
\<close>

theorem truncate_description_ok:
  assumes "utf8_valid reason"
  shows "utf8_valid (truncate_description reason) \<and>
    length (truncate_description reason) \<le> 4096 + length '' [truncated]'' \<and>
    take (min (length reason) 4093) (truncate_description reason)
      = take (min (length reason) 4093) reason"
proof (cases "length reason \<le> MAX_ERROR_DESCRIPTION")
  case True
  then show ?thesis using assms by (simp add: truncate_description_def MAX_ERROR_DESCRIPTION_def)
next
  case False
  let ?k = "back_to_boundary reason MAX_ERROR_DESCRIPTION"
  have k: "?k \<le> 4096" using back_to_boundary_le [of reason MAX_ERROR_DESCRIPTION]
    by (simp add: MAX_ERROR_DESCRIPTION_def)
  obtain j where "j \<le> 4096" "4096 \<le> j + 3" "is_char_boundary reason j"
    using boundary_nearby [OF assms, of 4096] False by (auto simp: MAX_ERROR_DESCRIPTION_def)
  then have "4093 \<le> ?k"
    using back_to_boundary_greatest [of reason j MAX_ERROR_DESCRIPTION]
    by (simp add: MAX_ERROR_DESCRIPTION_def)
  moreover have "utf8_valid '' [truncated]''" by code_simp
  moreover have "utf8_valid (take ?k reason)"
    using assms back_to_boundary_is_boundary by (rule utf8_valid_take)
  ultimately show ?thesis
    using False k
    by (simp add: truncate_description_def utf8_valid_append MAX_ERROR_DESCRIPTION_def min_def)
qed

lemma utf8_valid_ascii: "list_all (\<lambda>c. (of_char c :: nat) < 128) s \<Longrightarrow> utf8_valid s"
proof (induction s)
  case (Cons c cs)
  then show ?case
    by (simp add: utf8_valid.simps(2) utf8_width_def utf8_second_ok_def)
qed simp

theorem truncate_description_ok_witness:
  "utf8_valid (truncate_description (replicate 5000 CHR ''a'')) \<and>
   length (truncate_description (replicate 5000 CHR ''a'')) \<le> 4096 + length '' [truncated]'' \<and>
   take (min (length (replicate 5000 CHR ''a'')) 4093) (truncate_description (replicate 5000 CHR ''a''))
     = take (min (length (replicate 5000 CHR ''a'')) 4093) (replicate 5000 CHR ''a'')"
proof -
  have "utf8_valid (replicate 5000 CHR ''a'')"
    by (rule utf8_valid_ascii) (simp add: list_all_iff)
  then show ?thesis by (rule truncate_description_ok)
qed

section \<open>A session is spawned only for the identity PAM resolved\<close>

text \<open>The protocol machine driven by any sequence of greeter requests and PAM results.\<close>

datatype sm_event = Req request | PamRes pam_step
datatype sm_output = Answer "state_machine_error + action" | Told response

fun sm_step :: "session_state \<Rightarrow> sm_event \<Rightarrow> session_state \<times> sm_output" where
  "sm_step st (Req r) = (let (a, st') = on_request st r in (st', Answer a))"
| "sm_step st (PamRes p) = (let (r, st') = on_pam_result st p in (st', Told r))"

fun refused :: "sm_output \<Rightarrow> bool" where
  "refused (Answer (Inl e)) = True"
| "refused _ = False"

lemma on_request_error_keeps_state: "on_request st r = (Inl e, st') \<Longrightarrow> st' = st"
  by (cases "(st, r)" rule: on_request.cases) auto

lemma on_request_to_AuthSuccess:
  "on_request st r = (a, AuthSuccess u uid gid) \<Longrightarrow>
     st = AuthSuccess u uid gid \<and> (\<exists>e. a = Inl e)"
  by (cases "(st, r)" rule: on_request.cases) auto

lemma on_request_Spawn:
  "on_request st r = (Inr (Spawn sp), st') \<Longrightarrow>
     st = AuthSuccess (sr_username sp) (sr_uid sp) (sr_gid sp) \<and>
     r = StartSession (sr_cmd sp) (sr_env sp) \<and>
     st' = Spawning (sr_username sp) (sr_uid sp) (sr_gid sp) (sr_cmd sp) (sr_env sp)"
  by (cases "(st, r)" rule: on_request.cases) auto

lemma on_request_Pam:
  "on_request st r = (Inr (Pam resp), st') \<Longrightarrow> \<exists>u. st' = AuthPending u"
  by (cases "(st, r)" rule: on_request.cases) auto

lemma on_request_not_Pam:
  "on_request st r = (a, AuthPending u) \<Longrightarrow> (\<forall>w. st \<noteq> AuthPending w) \<Longrightarrow> \<exists>resp. a = Inr (Pam resp)"
  by (cases "(st, r)" rule: on_request.cases) auto

lemma on_request_Reply:
  "on_request st r = (Inr (Reply resp), st') \<Longrightarrow> st' = Idle \<and> resp = Success \<and> r = CancelSession"
  by (cases "(st, r)" rule: on_request.cases) auto

lemma on_pam_result_to_AuthSuccess:
  "on_pam_result st p = (resp, AuthSuccess u uid gid) \<Longrightarrow>
     p = PamSuccess u uid gid \<and> resp = Success \<and> (\<exists>w. st = AuthPending w)"
  by (cases "(st, p)" rule: on_pam_result.cases) auto

lemma on_pam_result_not_pending: "snd (on_pam_result st p) \<noteq> AuthPending u"
  by (cases "(st, p)" rule: on_pam_result.cases) auto

lemma AuthSuccess_provenance:
  "final sm_step Idle es = AuthSuccess u uid gid \<Longrightarrow>
     \<exists>pre post w. es = pre @ PamRes (PamSuccess u uid gid) # post \<and>
       final sm_step Idle pre = AuthPending w \<and>
       list_all refused (outputs sm_step (AuthSuccess u uid gid) post)"
proof (induction es rule: rev_induct)
  case Nil
  then show ?case by simp
next
  case (snoc e es)
  let ?st = "final sm_step Idle es"
  show ?case
  proof (cases e)
    case (Req r)
    obtain a where a: "on_request ?st r = (a, AuthSuccess u uid gid)"
      using snoc.prems Req by (cases "on_request ?st r") auto
    from on_request_to_AuthSuccess [OF a]
    obtain err where st: "?st = AuthSuccess u uid gid" "a = Inl err" by blast
    from snoc.IH [OF st(1)] obtain pre post w where
      split: "es = pre @ PamRes (PamSuccess u uid gid) # post"
        "final sm_step Idle pre = AuthPending w"
        "list_all refused (outputs sm_step (AuthSuccess u uid gid) post)"
      by blast
    have fin: "final sm_step (AuthSuccess u uid gid) post = AuthSuccess u uid gid"
      using st(1) split(1,2) by simp
    have "refused (snd (sm_step (AuthSuccess u uid gid) e))"
      using Req a st by simp
    with split fin have "list_all refused (outputs sm_step (AuthSuccess u uid gid) (post @ [e]))"
      by simp
    with split show ?thesis
      by (intro exI [of _ pre] exI [of _ "post @ [e]"] exI [of _ w]) simp
  next
    case (PamRes p)
    obtain resp where r: "on_pam_result ?st p = (resp, AuthSuccess u uid gid)"
      using snoc.prems PamRes by (cases "on_pam_result ?st p") auto
    from on_pam_result_to_AuthSuccess [OF r] obtain w where
      "p = PamSuccess u uid gid" "?st = AuthPending w" by blast
    with PamRes show ?thesis
      by (intro exI [of _ es] exI [of _ "[]"] exI [of _ w]) simp
  qed
qed

text \<open>
  C1: threat-model row 2.  However requests and PAM results are interleaved from a
  fresh machine, a \<open>Spawn\<close> is emitted only by \<open>StartSession\<close>, only after a PAM round
  that was awaited ended in success, with exactly that round's resolved name, uid and
  gid, and every request between that result and the \<open>StartSession\<close> was refused.
\<close>

theorem spawn_needs_pam_success:
  assumes "snd (sm_step (final sm_step Idle es) e) = Answer (Inr (Spawn sp))"
  shows "e = Req (StartSession (sr_cmd sp) (sr_env sp)) \<and>
    (\<exists>pre post w. es = pre @ PamRes (PamSuccess (sr_username sp) (sr_uid sp) (sr_gid sp)) # post \<and>
       final sm_step Idle pre = AuthPending w \<and>
       list_all refused
         (outputs sm_step (AuthSuccess (sr_username sp) (sr_uid sp) (sr_gid sp)) post))"
proof -
  obtain r st' where "e = Req r" and r: "on_request (final sm_step Idle es) r = (Inr (Spawn sp), st')"
    using assms by (cases e) (auto split: prod.splits)
  with on_request_Spawn [OF r] show ?thesis
    using AuthSuccess_provenance by blast
qed

theorem spawn_needs_pam_success_witness:
  "let es = [Req (CreateSession ''guest''), PamRes (Challenge Secret ''Password: ''),
             Req (PostAuthMessageResponse (Some ''pw'')), PamRes (PamSuccess ''alice'' 1000 100),
             Req (CreateSession ''root'')];
       e = Req (StartSession [''/bin/niri''] []);
       sp = \<lparr>sr_username = ''alice'', sr_uid = 1000, sr_gid = 100,
              sr_cmd = [''/bin/niri''], sr_env = []\<rparr>
   in snd (sm_step (final sm_step Idle es) e) = Answer (Inr (Spawn sp)) \<and>
      (\<exists>pre post w. es = pre @ PamRes (PamSuccess ''alice'' 1000 100) # post \<and>
         final sm_step Idle pre = AuthPending w \<and>
         list_all refused (outputs sm_step (AuthSuccess ''alice'' 1000 100) post))"
  using spawn_needs_pam_success
    [of "[Req (CreateSession ''guest''), PamRes (Challenge Secret ''Password: ''),
             Req (PostAuthMessageResponse (Some ''pw'')), PamRes (PamSuccess ''alice'' 1000 100),
             Req (CreateSession ''root'')]"
        "Req (StartSession [''/bin/niri''] [])"
        "\<lparr>sr_username = ''alice'', sr_uid = 1000, sr_gid = 100,
              sr_cmd = [''/bin/niri''], sr_env = []\<rparr>"]
  by (simp add: Let_def)

end
