(* ===== verification/Greetd_Server.thy ===== *)
theory Greetd_Server
  imports Greetd
begin

text \<open>
  The per-connection driver of \<open>crates/halmasuit-greetd/src/server.rs\<close>:
  \<open>Connection::{new, pending_username, feed_greeter, resume_pam, broker_closed, drive}\<close>,
  and the socket-side checks (\<open>bind_socket\<close>'s mode gate, \<open>accept_authorized\<close>).
  The host byte order and \<open>serde_json\<close> on \<open>Response\<close> and \<open>Request\<close> are the
  parameter \<open>greetd_env\<close>.  A call that fails keeps the state it had reached, as
  \<open>&mut self\<close> does.
\<close>

record greetd_env =
  ge_le :: bool
  ge_to_vec :: "response \<Rightarrow> json_error + byte list"
  ge_from_slice :: "byte list \<Rightarrow> json_error + request"

definition MAX_READ_BUF :: nat where
  "MAX_READ_BUF = unat MAX_MESSAGE_SIZE + 4"

section \<open>Listener checks\<close>

record peer_credentials =
  pc_pid :: u32
  pc_uid :: u32
  pc_gid :: u32

datatype io_kind = InvalidInput | OtherIo string

unbundle bit_operations_syntax

text \<open>
  \<open>bind_socket\<close>: the abstract-name branch, the world-access refusal, then bind and
  chmod.  The two system calls are arguments; the result is the bound address.
\<close>

datatype bound_socket = AbstractSocket string | PathSocket string u32

definition bind_socket ::
    "(string \<Rightarrow> io_kind + unit) \<Rightarrow> (string \<Rightarrow> io_kind + unit) \<Rightarrow> (string \<Rightarrow> u32 \<Rightarrow> io_kind + unit) \<Rightarrow>
     string \<Rightarrow> u32 \<Rightarrow> io_kind + bound_socket" where
  "bind_socket bind_abstract bind_path set_permissions path mode =
     (case path of
        CHR ''@'' # abstract_name \<Rightarrow>
          rbind (bind_abstract abstract_name) (\<lambda>_. Inr (AbstractSocket abstract_name))
      | _ \<Rightarrow>
          if mode AND 7 \<noteq> 0 then Inl InvalidInput
          else rbind (bind_path path) (\<lambda>_.
               rbind (set_permissions path mode) (\<lambda>_. Inr (PathSocket path mode))))"

text \<open>
  \<open>accept_authorized\<close> over the connections the listener will yield: the first one
  whose peer has the allowed uid; an accept error ends the loop.  \<open>None\<close>: the loop
  is still blocked after the given connections.
\<close>

fun accept_authorized ::
    "(io_kind + 'stream \<times> peer_credentials) list \<Rightarrow> u32 \<Rightarrow>
     (io_kind + 'stream \<times> peer_credentials) option" where
  "accept_authorized [] allowed_uid = None"
| "accept_authorized (Inl e # conns) allowed_uid = Some (Inl e)"
| "accept_authorized (Inr (stream, creds) # conns) allowed_uid =
     (if pc_uid creds = allowed_uid then Some (Inr (stream, creds))
      else accept_authorized conns allowed_uid)"

section \<open>Connection\<close>

datatype demand =
    Continue
  | DemandPam "string option"
  | DemandSpawn spawn_request
  | Close

record outcome =
  reply :: "byte list"
  demanded :: demand

record connection =
  conn_state :: session_state
  read_buf :: "byte list"
  awaiting_pam :: bool
  closed :: bool

definition new_connection :: connection where
  "new_connection = \<lparr>conn_state = Idle, read_buf = [], awaiting_pam = False, closed = False\<rparr>"

definition pending_username :: "connection \<Rightarrow> string option" where
  "pending_username c = (case conn_state c of
     AuthPending username \<Rightarrow> Some username
   | Authenticating username \<Rightarrow> Some username
   | _ \<Rightarrow> None)"

abbreviation encode_response :: "greetd_env \<Rightarrow> response \<Rightarrow> codec_error + byte list" where
  "encode_response E \<equiv> encode (ge_le E) (ge_to_vec E)"

abbreviation decode_request :: "greetd_env \<Rightarrow> byte list \<Rightarrow> codec_error + (request \<times> nat) option" where
  "decode_request E \<equiv> try_decode (ge_le E) (ge_from_slice E)"

definition append_encoded :: "greetd_env \<Rightarrow> response \<Rightarrow> byte list \<Rightarrow> codec_error + byte list" where
  "append_encoded E resp out = rbind (encode_response E resp) (\<lambda>bytes. Inr (out @ bytes))"

text \<open>The loop of \<open>Connection::drive\<close>, with the reply accumulated so far.\<close>

function drive ::
    "greetd_env \<Rightarrow> connection \<Rightarrow> byte list \<Rightarrow> (codec_error + outcome) \<times> connection" where
  "drive E c out =
     (if closed c then (Inr \<lparr>reply = out, demanded = Close\<rparr>, c)
      else case decode_request E (read_buf c) of
        Inl e \<Rightarrow> (Inl e, c)
      | Inr None \<Rightarrow> (Inr \<lparr>reply = out, demanded = Continue\<rparr>, c)
      | Inr (Some (req, consumed)) \<Rightarrow>
         (case on_request (conn_state c) req of
            (Inr (Reply r), st) \<Rightarrow>
              (case append_encoded E r out of
                 Inl e \<Rightarrow> (Inl e, c\<lparr>conn_state := st\<rparr>)
               | Inr out' \<Rightarrow>
                   drive E (c\<lparr>conn_state := st, read_buf := drop consumed (read_buf c)\<rparr>) out')
          | (Inr (Pam response), st) \<Rightarrow>
              (Inr \<lparr>reply = out, demanded = DemandPam response\<rparr>,
               c\<lparr>conn_state := st, read_buf := drop consumed (read_buf c), awaiting_pam := True\<rparr>)
          | (Inr (Spawn spawn), st) \<Rightarrow>
              (case append_encoded E Success out of
                 Inl e \<Rightarrow> (Inl e, c\<lparr>conn_state := st\<rparr>)
               | Inr out' \<Rightarrow>
                   (Inr \<lparr>reply = out', demanded = DemandSpawn spawn\<rparr>,
                    c\<lparr>conn_state := st, read_buf := drop consumed (read_buf c), closed := True\<rparr>))
          | (Inl sm_err, st) \<Rightarrow>
              (case append_encoded E (to_response sm_err) out of
                 Inl e \<Rightarrow> (Inl e, c\<lparr>conn_state := st\<rparr>)
               | Inr out' \<Rightarrow>
                   drive E (c\<lparr>conn_state := st, read_buf := drop consumed (read_buf c)\<rparr>) out')))"
  by pat_completeness auto
termination
  by (relation "measure (\<lambda>(E, c, out). length (read_buf c))")
    (use gd.dec_Some_cases(1,2) in fastforce)+

declare drive.simps [simp del]

definition feed_greeter ::
    "greetd_env \<Rightarrow> connection \<Rightarrow> byte list \<Rightarrow> (codec_error + outcome) \<times> connection" where
  "feed_greeter E c new_bytes =
     (if closed c then (Inr \<lparr>reply = [], demanded = Close\<rparr>, c)
      else if awaiting_pam c then
        (rbind (encode_response E
            (Error GenericError ''greeter sent data while a PAM round was in flight''))
          (\<lambda>r. Inr \<lparr>reply = r, demanded = Close\<rparr>),
         c\<lparr>closed := True\<rparr>)
      else
        let buf = read_buf c @ new_bytes; c' = c\<lparr>read_buf := buf\<rparr> in
        if length buf > MAX_READ_BUF then
          (Inl (OversizedMessage (if length buf < 2 ^ 32 then of_nat (length buf) else - 1)
                  MAX_MESSAGE_SIZE), c')
        else drive E c' [])"

definition resume_pam ::
    "greetd_env \<Rightarrow> connection \<Rightarrow> pam_step \<Rightarrow> (codec_error + outcome) \<times> connection" where
  "resume_pam E c p =
     (if closed c then (Inr \<lparr>reply = [], demanded = Close\<rparr>, c)
      else if \<not> awaiting_pam c then
        (rbind (encode_response E
            (Error GenericError ''resume_pam called without an outstanding PAM round''))
          (\<lambda>r. Inr \<lparr>reply = r, demanded = Close\<rparr>),
         c\<lparr>closed := True\<rparr>)
      else
        let (resp, st) = on_pam_result (conn_state c) p;
            c' = c\<lparr>awaiting_pam := False, conn_state := st\<rparr> in
        case encode_response E resp of
          Inl e \<Rightarrow> (Inl e, c')
        | Inr bytes \<Rightarrow>
            (case drive E c' [] of
               (Inl e, c'') \<Rightarrow> (Inl e, c'')
             | (Inr out, c'') \<Rightarrow> (Inr (out\<lparr>reply := bytes @ reply out\<rparr>), c'')))"

definition broker_closed :: "greetd_env \<Rightarrow> connection \<Rightarrow> outcome \<times> connection" where
  "broker_closed E c =
     (if closed c then (\<lparr>reply = [], demanded = Close\<rparr>, c)
      else
        let c' = c\<lparr>closed := True, awaiting_pam := False\<rparr> in
        case conn_state c of
          Spawning _ _ _ _ _ \<Rightarrow> (\<lparr>reply = [], demanded = Close\<rparr>, c')
        | _ \<Rightarrow>
            (\<lparr>reply = (case encode_response E (Error AuthError ''broker connection closed'') of
                         Inl _ \<Rightarrow> [] | Inr bytes \<Rightarrow> bytes),
              demanded = Close\<rparr>,
             c'\<lparr>conn_state := Idle\<rparr>))"

section \<open>The drive loop\<close>


definition prepend_reply :: "byte list \<Rightarrow> (codec_error + outcome) \<times> connection \<Rightarrow> (codec_error + outcome) \<times> connection" where
  "prepend_reply pre r = (case r of (Inl e, c) \<Rightarrow> (Inl e, c)
     | (Inr out, c) \<Rightarrow> (Inr (out\<lparr>reply := pre @ reply out\<rparr>), c))"





definition conn_inv :: "connection \<Rightarrow> bool" where
  [inv_simps]: "conn_inv c \<longleftrightarrow> (\<not> closed c \<longrightarrow> (awaiting_pam c \<longleftrightarrow> (\<exists>u. conn_state c = AuthPending u)))"


text \<open>The loop rule: \<open>I\<close> is kept by every turn, \<open>R\<close> is what each exit establishes.\<close>

lemma drive_rule:
  assumes "I c"
    and turn: "\<And>c req n a st. I c \<Longrightarrow> \<not> closed c \<Longrightarrow>
      decode_request E (read_buf c) = Inr (Some (req, n)) \<Longrightarrow>
      on_request (conn_state c) req = (a, st) \<Longrightarrow>
      (\<exists>e. a = Inl e) \<or> (\<exists>r. a = Inr (Reply r)) \<Longrightarrow>
      I (c\<lparr>conn_state := st, read_buf := drop n (read_buf c)\<rparr>)"
    and stopped: "\<And>c out. I c \<Longrightarrow> closed c \<Longrightarrow> R (Inr \<lparr>reply = out, demanded = Close\<rparr>) c"
    and bad: "\<And>c e. I c \<Longrightarrow> \<not> closed c \<Longrightarrow> R (Inl e) c"
    and unsent: "\<And>c req a st e. I c \<Longrightarrow> \<not> closed c \<Longrightarrow>
      on_request (conn_state c) req = (a, st) \<Longrightarrow> (\<forall>r. a \<noteq> Inr (Pam r)) \<Longrightarrow>
      R (Inl e) (c\<lparr>conn_state := st\<rparr>)"
    and waits: "\<And>c out. I c \<Longrightarrow> \<not> closed c \<Longrightarrow> decode_request E (read_buf c) = Inr None \<Longrightarrow>
      R (Inr \<lparr>reply = out, demanded = Continue\<rparr>) c"
    and suspends: "\<And>c req n out response st. I c \<Longrightarrow> \<not> closed c \<Longrightarrow>
      on_request (conn_state c) req = (Inr (Pam response), st) \<Longrightarrow>
      R (Inr \<lparr>reply = out, demanded = DemandPam response\<rparr>)
        (c\<lparr>conn_state := st, read_buf := drop n (read_buf c), awaiting_pam := True\<rparr>)"
    and spawns: "\<And>c req n out sp st. I c \<Longrightarrow> \<not> closed c \<Longrightarrow>
      on_request (conn_state c) req = (Inr (Spawn sp), st) \<Longrightarrow>
      R (Inr \<lparr>reply = out, demanded = DemandSpawn sp\<rparr>)
        (c\<lparr>conn_state := st, read_buf := drop n (read_buf c), closed := True\<rparr>)"
  shows "R (fst (drive E c out)) (snd (drive E c out))"
  using assms(1)
proof (induction "length (read_buf c)" arbitrary: c out rule: less_induct)
  case less
  show ?case
  proof (cases "closed c")
    case True
    then show ?thesis using less.prems by (simp add: drive.simps [of E c] stopped)
  next
    case nc: False
    consider e where "decode_request E (read_buf c) = Inl e"
      | "decode_request E (read_buf c) = Inr None"
      | req n where "decode_request E (read_buf c) = Inr (Some (req, n))"
      by (metis obj_sumE option.exhaust surj_pair)
    then show ?thesis
    proof cases
      case (3 req n)
      obtain a st where os: "on_request (conn_state c) req = (a, st)" by force
      have short: "length (drop n (read_buf c)) < length (read_buf c)"
        using gd.dec_Some_cases(1,2) [OF 3] by simp
      note drive_c = drive.simps [of E c out] nc 3 os
      have again: "R (fst (drive E (c\<lparr>conn_state := st, read_buf := drop n (read_buf c)\<rparr>) out'))
          (snd (drive E (c\<lparr>conn_state := st, read_buf := drop n (read_buf c)\<rparr>) out'))"
        if "(\<exists>e. a = Inl e) \<or> (\<exists>r. a = Inr (Reply r))" for out'
        using less.hyps short turn [OF less.prems nc 3 os that] by simp
      show ?thesis
      proof (cases a)
        case (Inl e)
        then show ?thesis using drive_c again unsent [OF less.prems nc os]
          by (simp split: sum.split)
      next
        case (Inr act)
        then show ?thesis
          using drive_c again unsent [OF less.prems nc os] os
            suspends [OF less.prems nc] spawns [OF less.prems nc]
          by (cases act) (auto split: sum.split)
      qed
    qed (simp_all add: drive.simps [of E c] nc bad waits less.prems)
  qed
qed

lemma drive_conn_inv:
  assumes "\<not> awaiting_pam c" and "conn_inv c"
  shows "conn_inv (snd (drive E c out))"
proof (rule drive_rule [where I = "\<lambda>c. \<not> awaiting_pam c \<and> conn_inv c" and R = "\<lambda>r c. conn_inv c"])
qed (use assms in \<open>auto simp: inv_simps dest: on_request_Pam on_request_Reply
  on_request_error_keeps_state on_request_Spawn on_request_not_Pam\<close>)

lemma drive_spawn_identity:
  assumes "fst (drive E c out) = Inr ok" and "demanded ok = DemandSpawn sp"
  shows "conn_state c = AuthSuccess (sr_username sp) (sr_uid sp) (sr_gid sp) \<and>
    closed (snd (drive E c out))"
proof -
  have "\<forall>ok sp. fst (drive E c out) = Inr ok \<longrightarrow> demanded ok = DemandSpawn sp \<longrightarrow>
      conn_state c = AuthSuccess (sr_username sp) (sr_uid sp) (sr_gid sp) \<and>
      closed (snd (drive E c out))"
  proof (rule drive_rule
      [where I = "\<lambda>d. (\<exists>u i g. conn_state d = AuthSuccess u i g) \<longrightarrow> conn_state d = conn_state c"])
  qed (auto dest: on_request_Spawn on_request_Reply on_request_to_AuthSuccess)
  then show ?thesis using assms by blast
qed

lemma drive_keeps_AuthSuccess:
  assumes "conn_state (snd (drive E c out)) = AuthSuccess u i g"
  shows "conn_state c = AuthSuccess u i g"
proof -
  have "conn_state (snd (drive E c out)) = AuthSuccess u i g \<longrightarrow> conn_state c = AuthSuccess u i g"
  proof (rule drive_rule
      [where I = "\<lambda>d. (\<exists>u i g. conn_state d = AuthSuccess u i g) \<longrightarrow> conn_state d = conn_state c"])
  qed (auto dest: on_request_Spawn on_request_Reply on_request_error_keeps_state on_request_to_AuthSuccess)
  then show ?thesis using assms by simp
qed

lemma resume_open:
  assumes "\<not> closed c" and "awaiting_pam c" and "on_pam_result (conn_state c) p = (resp, st)"
  shows "resume_pam E c p = (case encode_response E resp of
      Inl e \<Rightarrow> (Inl e, c\<lparr>awaiting_pam := False, conn_state := st\<rparr>)
    | Inr bytes \<Rightarrow> prepend_reply bytes (drive E (c\<lparr>awaiting_pam := False, conn_state := st\<rparr>) []))"
  using assms by (auto simp: resume_pam_def prepend_reply_def Let_def split: sum.split prod.split)

lemma feed_open:
  assumes "\<not> closed c" and "\<not> awaiting_pam c"
    and "length (read_buf c) + length bytes \<le> MAX_READ_BUF"
  shows "feed_greeter E c bytes = drive E (c\<lparr>read_buf := read_buf c @ bytes\<rparr>) []"
  using assms by (simp add: feed_greeter_def Let_def)

lemma prepend_reply_simps [simp]:
  "snd (prepend_reply pre r) = snd r"
  "fst (prepend_reply pre r) = Inr ok \<longleftrightarrow>
     (\<exists>ok'. fst r = Inr ok' \<and> ok = ok'\<lparr>reply := pre @ reply ok'\<rparr>)"
  by (auto simp: prepend_reply_def split: prod.splits sum.splits)

section \<open>Connections driven by any sequence of inputs\<close>

datatype conn_event = Feed "byte list" | Resume pam_step | BrokerClosed

fun conn_step :: "greetd_env \<Rightarrow> connection \<Rightarrow> conn_event \<Rightarrow> connection \<times> (codec_error + outcome)" where
  "conn_step E c (Feed bytes) = (let (r, c') = feed_greeter E c bytes in (c', r))"
| "conn_step E c (Resume p) = (let (r, c') = resume_pam E c p in (c', r))"
| "conn_step E c BrokerClosed = (let (out, c') = broker_closed E c in (c', Inr out))"

lemma feed_conn_inv: "conn_inv c \<Longrightarrow> conn_inv (snd (feed_greeter E c bytes))"
  using drive_conn_inv [of "c\<lparr>read_buf := read_buf c @ bytes\<rparr>" E "[]"]
  by (auto simp: feed_greeter_def inv_simps Let_def)

lemma resume_conn_inv:
  assumes "conn_inv c"
  shows "conn_inv (snd (resume_pam E c p))"
proof (cases "closed c \<or> \<not> awaiting_pam c")
  case True
  then show ?thesis using assms by (auto simp: resume_pam_def inv_simps)
next
  case False
  obtain resp st where r: "on_pam_result (conn_state c) p = (resp, st)" by force
  then have "\<And>u. st \<noteq> AuthPending u" using on_pam_result_not_pending [of "conn_state c" p] by simp
  then have "conn_inv (c\<lparr>awaiting_pam := False, conn_state := st\<rparr>)" by (simp add: inv_simps)
  with drive_conn_inv [OF _ this, of E "[]"] False r show ?thesis
    by (auto simp: resume_pam_def Let_def split: sum.splits prod.splits)
qed

lemma broker_closed_closes:
  "closed (snd (broker_closed E c))"
  "demanded (fst (broker_closed E c)) = Close"
  "conn_state (snd (broker_closed E c)) = conn_state c \<or> conn_state (snd (broker_closed E c)) = Idle"
  by (auto simp: broker_closed_def Let_def split: session_state.splits)

interpretation conn: invariant_machine "conn_step E" new_connection conn_inv for E
proof unfold_locales
  show "conn_inv new_connection" by (simp add: new_connection_def inv_simps)
next
  fix c e
  assume "conn_inv c"
  then show "conn_inv (fst (conn_step E c e))"
    using feed_conn_inv resume_conn_inv broker_closed_closes
    by (cases e) (auto simp: split_beta inv_simps Let_def)
qed

text \<open>Once closed, a connection only ever answers \<open>Close\<close> with no bytes.\<close>

lemma closed_step: "closed c \<Longrightarrow> conn_step E c e = (c, Inr \<lparr>reply = [], demanded = Close\<rparr>)"
  by (cases e) (simp_all add: feed_greeter_def resume_pam_def broker_closed_def)

lemma closed_run:
  "closed c \<Longrightarrow> outputs (conn_step E) c es = replicate (length es) (Inr \<lparr>reply = [], demanded = Close\<rparr>)"
  by (induction es) (simp_all add: closed_step)

text \<open>What one input can do to an open connection, split by input.\<close>

lemma step_cases:
  obtains (ends) "closed (fst (conn_step E c e)) \<or> conn_state (fst (conn_step E c e)) = conn_state c"
      "\<And>ok sp. snd (conn_step E c e) = Inr ok \<Longrightarrow> demanded ok \<noteq> DemandSpawn sp"
      "conn_state (fst (conn_step E c e)) = conn_state c \<or> conn_state (fst (conn_step E c e)) = Idle"
  | (feeds) bytes where "e = Feed bytes" "\<not> closed c" "\<not> awaiting_pam c"
      "feed_greeter E c bytes = drive E (c\<lparr>read_buf := read_buf c @ bytes\<rparr>) []"
  | (resumes) p resp st where "e = Resume p" "\<not> closed c" "awaiting_pam c"
      "on_pam_result (conn_state c) p = (resp, st)"
proof (cases e)
  case (Feed bytes)
  show ?thesis
  proof (cases "\<not> closed c \<and> \<not> awaiting_pam c \<and> length (read_buf c @ bytes) \<le> MAX_READ_BUF")
    case True
    then show ?thesis using Feed feeds by (simp add: feed_open)
  next
    case False
    then show ?thesis using Feed
      by (intro ends) (auto simp: feed_greeter_def Let_def rbind_def split: sum.splits if_splits)
  qed
next
  case (Resume p)
  obtain resp st where "on_pam_result (conn_state c) p = (resp, st)" by force
  then show ?thesis using Resume resumes
    by (cases "\<not> closed c \<and> awaiting_pam c")
      (auto intro!: ends simp: resume_pam_def rbind_def split: sum.splits if_splits)
next
  case BrokerClosed
  then show ?thesis
    using broker_closed_closes [of E c] by (intro ends) (auto simp: split_beta Let_def)
qed

lemma step_to_AuthSuccess:
  assumes "conn_state (fst (conn_step E c e)) = AuthSuccess u i g"
  shows "conn_state c = AuthSuccess u i g \<or> e = Resume (PamSuccess u i g)"
proof (cases rule: step_cases [where E = E and c = c and e = e])
  case (feeds bytes)
  then show ?thesis
    using assms drive_keeps_AuthSuccess [of E "c\<lparr>read_buf := read_buf c @ bytes\<rparr>" "[]"]
    by (simp add: split_beta Let_def)
next
  case (resumes p resp st)
  then show ?thesis
    using assms drive_keeps_AuthSuccess [of E "c\<lparr>awaiting_pam := False, conn_state := st\<rparr>" "[]"]
      on_pam_result_to_AuthSuccess [of "conn_state c" p resp u i g]
    by (auto simp: resume_open split_beta Let_def split: sum.splits)
qed (use assms in auto)

lemma step_spawns:
  assumes "snd (conn_step E c e) = Inr ok" and "demanded ok = DemandSpawn sp"
  shows "(conn_state c = AuthSuccess (sr_username sp) (sr_uid sp) (sr_gid sp) \<or>
      e = Resume (PamSuccess (sr_username sp) (sr_uid sp) (sr_gid sp))) \<and>
    closed (fst (conn_step E c e))"
proof (cases rule: step_cases [where E = E and c = c and e = e])
  case (feeds bytes)
  then show ?thesis
    using assms drive_spawn_identity [of E "c\<lparr>read_buf := read_buf c @ bytes\<rparr>" "[]" ok sp]
    by (simp add: split_beta Let_def)
next
  case (resumes p resp st)
  then show ?thesis
    using assms drive_spawn_identity [of E "c\<lparr>awaiting_pam := False, conn_state := st\<rparr>" "[]"]
      on_pam_result_to_AuthSuccess [of "conn_state c" p resp]
    by (fastforce simp: resume_open split_beta Let_def split: sum.splits)
qed (use assms in auto)

lemma AuthSuccess_from_resume:
  assumes "conn_state (final (conn_step E) new_connection es) = AuthSuccess u i g"
  shows "Resume (PamSuccess u i g) \<in> set es"
  using assms
proof (induction es rule: rev_induct)
  case Nil
  then show ?case by (simp add: new_connection_def)
next
  case (snoc e es)
  then show ?case using step_to_AuthSuccess [of E _ e u i g] by auto
qed

text \<open>
  end to end over one greeter connection: if any input makes the driver demand a
  spawn, then PAM's success for exactly that name, uid and gid was fed in by then, and
  from there on the connection is inert: every later input is answered \<open>Close\<close> with
  no bytes, so no second spawn is ever demanded.
\<close>

theorem connection_spawns_once:
  assumes "snd (conn_step E (final (conn_step E) new_connection es) e) = Inr ok"
    and "demanded ok = DemandSpawn sp"
  shows "Resume (PamSuccess (sr_username sp) (sr_uid sp) (sr_gid sp)) \<in> set (es @ [e]) \<and>
    outputs (conn_step E) (final (conn_step E) new_connection (es @ [e])) later
      = replicate (length later) (Inr \<lparr>reply = [], demanded = Close\<rparr>)"
  using step_spawns [OF assms] AuthSuccess_from_resume [of E es] closed_run by auto

text \<open>A concrete one-byte JSON stand-in, for evaluating the driver on inputs.\<close>

definition demo_env :: greetd_env where
  "demo_env = \<lparr>ge_le = True,
     ge_to_vec = (\<lambda>r. case r of Success \<Rightarrow> Inr [1] | Error _ _ \<Rightarrow> Inr [2] | AuthMessage _ _ \<Rightarrow> Inr [3]),
     ge_from_slice = (\<lambda>b. if b = [1] then Inr (CreateSession ''alice'')
        else if b = [2] then Inr (PostAuthMessageResponse (Some ''pw''))
        else if b = [3] then Inr (StartSession [''/bin/niri''] [])
        else if b = [4] then Inr CancelSession else Inl ''expected value'')\<rparr>"

lemmas greetd_eval = demo_env_def new_connection_def feed_greeter_def resume_pam_def broker_closed_def
  drive.simps append_encoded_def try_decode_def encode_def to_ne_bytes_def le_bytes_def from_ne_bytes_def
  from_le_bytes_def LENGTH_PREFIX_SIZE_def MAX_READ_BUF_def MAX_MESSAGE_SIZE_def Let_def

theorem connection_spawns_once_witness:
  "let es = [Feed [1, 0, 0, 0, 1], Resume (PamSuccess ''alice'' 1000 100)];
       c = final (conn_step demo_env) new_connection es;
       sp = \<lparr>sr_username = ''alice'', sr_uid = 1000, sr_gid = 100, sr_cmd = [''/bin/niri''], sr_env = []\<rparr>
   in snd (conn_step demo_env c (Feed [1, 0, 0, 0, 3])) = Inr \<lparr>reply = [1, 0, 0, 0, 1], demanded = DemandSpawn sp\<rparr> \<and>
      outputs (conn_step demo_env) (final (conn_step demo_env) new_connection (es @ [Feed [1, 0, 0, 0, 3]]))
        [Feed [1, 0, 0, 0, 3], Resume (PamSuccess ''root'' 0 0)]
      = [Inr \<lparr>reply = [], demanded = Close\<rparr>, Inr \<lparr>reply = [], demanded = Close\<rparr>]"
proof -
  let ?es = "[Feed [1, 0, 0, 0, 1], Resume (PamSuccess ''alice'' 1000 100)]"
  let ?sp = "\<lparr>sr_username = ''alice'', sr_uid = 1000, sr_gid = 100, sr_cmd = [''/bin/niri''], sr_env = []\<rparr>"
  have *: "snd (conn_step demo_env (final (conn_step demo_env) new_connection ?es) (Feed [1, 0, 0, 0, 3]))
    = Inr \<lparr>reply = [1, 0, 0, 0, 1], demanded = DemandSpawn ?sp\<rparr>"
    by (simp add: greetd_eval)
  show ?thesis
    using * connection_spawns_once [OF *, of ?sp "[Feed [1, 0, 0, 0, 3], Resume (PamSuccess ''root'' 0 0)]"]
    by (simp add: Let_def numeral_2_eq_2)
qed


lemma drive_buffer_shrinks: "length (read_buf (snd (drive E c out))) \<le> length (read_buf c)"
proof (rule drive_rule [where I = "\<lambda>d. length (read_buf d) \<le> length (read_buf c)"
      and R = "\<lambda>r d. length (read_buf d) \<le> length (read_buf c)"])
qed auto



text \<open>What a demand says about the connection it leaves behind.\<close>

fun demand_matches :: "connection \<Rightarrow> demand \<Rightarrow> bool" where
  "demand_matches c Continue \<longleftrightarrow> \<not> closed c \<and> \<not> awaiting_pam c"
| "demand_matches c (DemandPam r) \<longleftrightarrow> \<not> closed c \<and> awaiting_pam c"
| "demand_matches c (DemandSpawn sp) \<longleftrightarrow> closed c"
| "demand_matches c Close \<longleftrightarrow> closed c"

lemma drive_demand_matches:
  assumes "\<not> awaiting_pam c" and "fst (drive E c out) = Inr ok"
  shows "demand_matches (snd (drive E c out)) (demanded ok)"
proof -
  have "\<forall>ok. fst (drive E c out) = Inr ok \<longrightarrow> demand_matches (snd (drive E c out)) (demanded ok)"
  proof (rule drive_rule [where I = "\<lambda>c. \<not> awaiting_pam c"
        and R = "\<lambda>r c. \<forall>ok. r = Inr ok \<longrightarrow> demand_matches c (demanded ok)"])
  qed (use assms in auto)
  with assms show ?thesis by blast
qed

lemma step_demand_matches:
  assumes ok: "snd (conn_step E c e) = Inr ok"
  shows "demand_matches (fst (conn_step E c e)) (demanded ok)"
proof (cases e)
  case (Feed bytes)
  then show ?thesis
    using ok drive_demand_matches [of "c\<lparr>read_buf := read_buf c @ bytes\<rparr>" E "[]"]
    by (auto simp: feed_greeter_def Let_def rbind_def split_beta split: if_splits sum.splits)
next
  case (Resume p)
  obtain resp st where r: "on_pam_result (conn_state c) p = (resp, st)" by force
  show ?thesis
  proof (cases "closed c \<or> \<not> awaiting_pam c")
    case True
    then show ?thesis using ok Resume
      by (auto simp: resume_pam_def rbind_def split: if_splits sum.splits)
  next
    case False
    then show ?thesis
      using ok Resume drive_demand_matches [of "c\<lparr>awaiting_pam := False, conn_state := st\<rparr>" E "[]"]
      by (auto simp: resume_open [OF _ _ r] split_beta split: sum.splits)
  qed
next
  case BrokerClosed
  then show ?thesis using ok broker_closed_closes [of E c] by (auto simp: split_beta)
qed

text \<open>
  after any run, an open connection has a PAM round outstanding exactly when its
  state is \<open>AuthPending\<close> (so the fail-closed fallback of \<open>on_pam_result\<close> is never
  taken on a resumed connection), and the demand returned by any further input says
  exactly whether the connection is now reading, suspended or closed.
\<close>

theorem suspend_discipline:
  fixes E es e
  defines "c \<equiv> final (conn_step E) new_connection es"
  shows "(\<not> closed c \<longrightarrow> (awaiting_pam c \<longleftrightarrow> (\<exists>u. conn_state c = AuthPending u))) \<and>
    (\<forall>ok. snd (conn_step E c e) = Inr ok \<longrightarrow> demand_matches (fst (conn_step E c e)) (demanded ok))"
proof
  show "\<not> closed c \<longrightarrow> (awaiting_pam c \<longleftrightarrow> (\<exists>u. conn_state c = AuthPending u))"
    using conn.inv_run [of E es] by (simp add: c_def inv_simps)
  show "\<forall>ok. snd (conn_step E c e) = Inr ok \<longrightarrow> demand_matches (fst (conn_step E c e)) (demanded ok)"
    using step_demand_matches by blast
qed

theorem suspend_discipline_witness:
  "let c = final (conn_step demo_env) new_connection [Feed [1, 0, 0, 0, 1]] in
     \<not> closed c \<and> awaiting_pam c \<and> (\<exists>u. conn_state c = AuthPending u) \<and>
     demand_matches (fst (conn_step demo_env c (Resume (Challenge Secret ''Password: '')))) Continue"
proof -
  let ?c = "final (conn_step demo_env) new_connection [Feed [1, 0, 0, 0, 1]]"
  have "\<not> closed ?c \<and> awaiting_pam ?c" by (simp add: greetd_eval)
  moreover have "snd (conn_step demo_env ?c (Resume (Challenge Secret ''Password: '')))
      = Inr \<lparr>reply = [1, 0, 0, 0, 3], demanded = Continue\<rparr>"
    by (simp add: greetd_eval)
  ultimately show ?thesis
    using suspend_discipline [of demo_env "[Feed [1, 0, 0, 0, 1]]" "Resume (Challenge Secret ''Password: '')"]
    unfolding Let_def by (metis outcome.select_convs(2))
qed

text \<open>
  as long as no call failed, the read buffer never holds more than one maximal
  message with its prefix (1 MiB + 4 bytes), whatever the peer sends.
\<close>

theorem read_buffer_bounded:
  "list_all (\<lambda>r. \<exists>ok. r = Inr ok) (outputs (conn_step E) new_connection es) \<Longrightarrow>
     length (read_buf (final (conn_step E) new_connection es)) \<le> 1048580"
proof (induction es rule: rev_induct)
  case Nil
  then show ?case by (simp add: new_connection_def)
next
  case (snoc e es)
  let ?c = "final (conn_step E) new_connection es"
  have IH: "length (read_buf ?c) \<le> 1048580" using snoc by simp
  obtain ok where ok: "snd (conn_step E ?c e) = Inr ok" using snoc.prems by auto
  show ?case
  proof (cases e)
    case (Feed bytes)
    then show ?thesis
      using IH ok drive_buffer_shrinks [of E "?c\<lparr>read_buf := read_buf ?c @ bytes\<rparr>" "[]"]
      by (auto simp: feed_greeter_def Let_def MAX_READ_BUF_def split_beta split: if_splits)
  next
    case (Resume p)
    obtain resp st where "on_pam_result (conn_state ?c) p = (resp, st)" by force
    then show ?thesis
      using IH Resume drive_buffer_shrinks [of E "?c\<lparr>awaiting_pam := False, conn_state := st\<rparr>" "[]"]
      by (auto simp: resume_pam_def Let_def split: if_splits sum.splits prod.splits)
  next
    case BrokerClosed
    then show ?thesis
      using IH by (auto simp: broker_closed_def Let_def split: if_splits session_state.splits)
  qed
qed

theorem read_buffer_bounded_witness:
  "length (read_buf (final (conn_step demo_env) new_connection [Feed [1, 0, 0]])) \<le> 1048580"
proof -
  have "list_all (\<lambda>r. \<exists>ok. r = Inr ok) (outputs (conn_step demo_env) new_connection [Feed [1, 0, 0]])"
    by (simp add: greetd_eval)
  then show ?thesis by (rule read_buffer_bounded)
qed

section \<open>Socket checks\<close>

text \<open>
  \<open>bind_socket\<close> never leaves a world-accessible socket file: a path socket that
  was bound got exactly the requested mode, and that mode has no bit for others; and
  \<open>accept_authorized\<close> hands out only connections of the allowed uid, skipping all
  others and taking the first that matches.
\<close>

theorem listener_gates:
  "(bind_socket ba bp sp path mode = Inr (PathSocket f m) \<longrightarrow>
      f = path \<and> m = mode \<and> m AND 7 = 0 \<and> sp path mode = Inr ()) \<and>
   (accept_authorized conns uid = Some (Inr (stream, creds)) \<longrightarrow>
      pc_uid creds = uid \<and>
      (\<exists>pre post. conns = pre @ Inr (stream, creds) # post \<and>
         (\<forall>x \<in> set pre. \<exists>s cr. x = Inr (s, cr) \<and> pc_uid cr \<noteq> uid)))"
proof
  show "bind_socket ba bp sp path mode = Inr (PathSocket f m) \<longrightarrow>
      f = path \<and> m = mode \<and> m AND 7 = 0 \<and> sp path mode = Inr ()"
    by (auto simp: bind_socket_def rbind_eq_Inr split: list.splits char.splits bool.splits if_splits)
  show "accept_authorized conns uid = Some (Inr (stream, creds)) \<longrightarrow>
      pc_uid creds = uid \<and> (\<exists>pre post. conns = pre @ Inr (stream, creds) # post \<and>
         (\<forall>x \<in> set pre. \<exists>s cr. x = Inr (s, cr) \<and> pc_uid cr \<noteq> uid))"
  proof (induction conns uid rule: accept_authorized.induct)
    case (3 s cr conns uid)
    show ?case
    proof (cases "pc_uid cr = uid")
      case True
      then show ?thesis by fastforce
    next
      case False
      then show ?thesis using "3.IH" by (fastforce intro: exI [of _ "Inr (s, cr) # _"])
    qed
  qed simp_all
qed

theorem listener_gates_witness:
  "bind_socket (\<lambda>_. Inr ()) (\<lambda>_. Inr ()) (\<lambda>_ _. Inr ()) ''/run/g.sock'' 438 = Inl InvalidInput \<and>
   pc_uid \<lparr>pc_pid = 7, pc_uid = 990, pc_gid = 990\<rparr> = 990"
proof -
  have "bind_socket (\<lambda>_. Inr ()) (\<lambda>_. Inr ()) (\<lambda>_ _. Inr ()) ''/run/g.sock'' 432
    = Inr (PathSocket ''/run/g.sock'' 432)" by (simp add: bind_socket_def)
  moreover have "accept_authorized [Inr ((), \<lparr>pc_pid = 6, pc_uid = 0, pc_gid = 0\<rparr>),
      Inr ((), \<lparr>pc_pid = 7, pc_uid = 990, pc_gid = 990\<rparr>)] 990
    = Some (Inr ((), \<lparr>pc_pid = 7, pc_uid = 990, pc_gid = 990\<rparr>))" by simp
  ultimately show ?thesis
    using listener_gates [of "\<lambda>_. Inr ()" "\<lambda>_. Inr ()" "\<lambda>_ _. Inr ()" "''/run/g.sock''" 432
        "''/run/g.sock''" 432 "[Inr ((), \<lparr>pc_pid = 6, pc_uid = 0, pc_gid = 0\<rparr>),
      Inr ((), \<lparr>pc_pid = 7, pc_uid = 990, pc_gid = 990\<rparr>)]" 990 "()" "\<lparr>pc_pid = 7, pc_uid = 990, pc_gid = 990\<rparr>"]
    by (simp add: bind_socket_def)
qed

end
