(* ===== verification/Session_Ipc.thy ===== *)
theory Session_Ipc
  imports Wire_Codec
begin

text \<open>
  The compositor/broker wire contract of \<open>crates/halmasuit-session-ipc/src/lib.rs\<close>:
  the frame types in both directions, the redacted \<open>Secret\<close> and the codec, which is
  an instance of the shared framing contract.
\<close>

section \<open>Frames\<close>

datatype secret = MkSecret (expose: string)

definition debug_secret :: "secret \<Rightarrow> string" where
  "debug_secret s = ''Secret(<redacted>)''"

datatype prompt_style = PromptVisible | PromptSecret

datatype display_style = DisplayInfo | DisplayError

datatype compositor_to_broker =
    BeginAuth string string
  | ConvResponse secret
  | StartSessionFrame "string list" "(string \<times> string) list"
  | Cancel
  | RequestRootFd
  | SpawnGreeter

datatype session_outcome = Exited i32 | Signaled i32

datatype broker_to_compositor =
    ConvPrompt prompt_style string
  | ConvDisplay display_style string
  | AuthOkFrame string u32 u32
  | FailureFrame string
  | SessionOpened
  | SessionEnded session_outcome
  | RootFd
  | GreeterSpawned i32

section \<open>Codec\<close>

datatype ipc_codec_error = IpcOversizedMessage u32 u32 | IpcJson json_error

definition IPC_MAX_MESSAGE_SIZE :: u32 where
  "IPC_MAX_MESSAGE_SIZE = 1024 * 1024"

definition IPC_LENGTH_PREFIX_SIZE :: nat where
  "IPC_LENGTH_PREFIX_SIZE = 4"

definition ipc_encode ::
    "bool \<Rightarrow> ('m \<Rightarrow> json_error + byte list) \<Rightarrow> 'm \<Rightarrow> ipc_codec_error + byte list" where
  "ipc_encode le to_vec msg =
     rbind (map_err IpcJson (to_vec msg)) (\<lambda>body.
     rbind (if length body < 2 ^ 32 then Inr (of_nat (length body))
            else Inl (IpcOversizedMessage (- 1) IPC_MAX_MESSAGE_SIZE)) (\<lambda>len.
     if len > IPC_MAX_MESSAGE_SIZE then Inl (IpcOversizedMessage len IPC_MAX_MESSAGE_SIZE)
     else Inr (to_ne_bytes le len @ body)))"

definition ipc_try_decode ::
    "bool \<Rightarrow> (byte list \<Rightarrow> json_error + 't) \<Rightarrow> byte list \<Rightarrow> ipc_codec_error + ('t \<times> nat) option" where
  "ipc_try_decode le from_slice buf =
     (if length buf < IPC_LENGTH_PREFIX_SIZE then Inr None
      else let len = from_ne_bytes le (take IPC_LENGTH_PREFIX_SIZE buf) in
        if len > IPC_MAX_MESSAGE_SIZE then Inl (IpcOversizedMessage len IPC_MAX_MESSAGE_SIZE)
        else let needed = IPC_LENGTH_PREFIX_SIZE + unat len in
          if length buf < needed then Inr None
          else rbind (map_err IpcJson
                   (from_slice (take (unat len) (drop IPC_LENGTH_PREFIX_SIZE buf))))
                 (\<lambda>msg. Inr (Some (msg, needed))))"

lemma unat_IPC_MAX_MESSAGE_SIZE [simp]: "unat IPC_MAX_MESSAGE_SIZE = 1048576"
  by (simp add: IPC_MAX_MESSAGE_SIZE_def)

lemma ipc_encode_branches:
  assumes "to_vec m = Inr body"
  shows "length body \<le> unat IPC_MAX_MESSAGE_SIZE \<Longrightarrow>
      ipc_encode le to_vec m = Inr (to_ne_bytes le (of_nat (length body)) @ body)"
    and "unat IPC_MAX_MESSAGE_SIZE < length body \<Longrightarrow>
      \<exists>n. ipc_encode le to_vec m = Inl (IpcOversizedMessage n IPC_MAX_MESSAGE_SIZE)"
  using assms by (auto simp: ipc_encode_def word_less_nat_alt unat_of_nat)

interpretation ipc: framed_codec le IPC_MAX_MESSAGE_SIZE IpcOversizedMessage IpcJson to_vec from_slice
  "ipc_encode le to_vec" "ipc_try_decode le from_slice" for le to_vec from_slice
proof unfold_locales
  fix m :: 'a and body
  assume b: "to_vec m = Inr body"
  show "length body \<le> unat IPC_MAX_MESSAGE_SIZE \<Longrightarrow>
      ipc_encode le to_vec m = Inr (to_ne_bytes le (of_nat (length body)) @ body)"
    by (rule ipc_encode_branches(1) [of to_vec, OF b])
  show "unat IPC_MAX_MESSAGE_SIZE < length body \<Longrightarrow>
      \<exists>n. ipc_encode le to_vec m = Inl (IpcOversizedMessage n IPC_MAX_MESSAGE_SIZE)"
    by (rule ipc_encode_branches(2) [of to_vec, OF b])
qed (auto simp: ipc_encode_def ipc_try_decode_def IPC_LENGTH_PREFIX_SIZE_def Let_def not_less
    rbind_def map_err_def split: sum.splits)

end
