(* ===== verification/Rust_Text.thy ===== *)
theory Rust_Text
  imports Prelude
begin

text \<open>
  What the components use of Rust's \<open>str\<close> and integer parsing, on strings as UTF-8
  bytes: splitting, lines, trimming by Unicode white space, and decimal and hexadecimal
  numbers.
\<close>

section \<open>Splitting\<close>

text \<open>\<open>str::split_once\<close>: the parts before and after the first separator.\<close>

fun split_once :: "char \<Rightarrow> string \<Rightarrow> (string \<times> string) option" where
  "split_once c [] = None"
| "split_once c (x # xs) =
     (if x = c then Some ([], xs)
      else map_option (\<lambda>(k, v). (x # k, v)) (split_once c xs))"

lemma split_once_None: "split_once c s = None \<longleftrightarrow> c \<notin> set s"
  by (induction s) auto

lemma split_once_Some: "split_once c s = Some (k, v) \<longleftrightarrow> s = k @ c # v \<and> c \<notin> set k"
proof (induction s arbitrary: k)
  case (Cons x xs)
  then show ?case by (cases k) (auto split: if_splits)
qed simp

text \<open>\<open>str::lines\<close>: the pieces that a newline ends, each without a carriage return before
  it, and what follows the last newline if there is anything.\<close>

definition strip_cr :: "string \<Rightarrow> string" where
  "strip_cr s = (if s \<noteq> [] \<and> last s = CHR 0x0D then butlast s else s)"

function text_lines :: "string \<Rightarrow> string list" where
  "text_lines s = (if s = [] then [] else case split_once CHR 0x0A s of
     None \<Rightarrow> [s]
   | Some (l, rest) \<Rightarrow> strip_cr l # text_lines rest)"
  by auto
termination
  by (relation "measure length") (auto simp: split_once_Some)

declare text_lines.simps [simp del]

lemma text_lines_Nil [simp]: "text_lines [] = []"
  by (simp add: text_lines.simps)

lemma text_lines_Cons:
  "CHR 0x0A \<notin> set l \<Longrightarrow> text_lines (l @ CHR 0x0A # rest) = strip_cr l # text_lines rest"
proof -
  assume "CHR 0x0A \<notin> set l"
  then have "split_once CHR 0x0A (l @ CHR 0x0A # rest) = Some (l, rest)" by (simp add: split_once_Some)
  then show ?thesis by (subst text_lines.simps) simp
qed

text \<open>\<open>str::strip_prefix\<close>.\<close>

definition strip_prefix :: "string \<Rightarrow> string \<Rightarrow> string option" where
  "strip_prefix p s = (if prefix p s then Some (drop (length p) s) else None)"

lemma strip_prefix_Some: "strip_prefix p s = Some t \<longleftrightarrow> s = p @ t"
  by (auto simp: strip_prefix_def prefix_def)

section \<open>White space\<close>

text \<open>The code points of the Unicode property \<open>White_Space\<close>, in UTF-8.\<close>

definition ws_seqs :: "string list" where
  "ws_seqs = [[CHR 0x09], [CHR 0x0A], [CHR 0x0B], [CHR 0x0C], [CHR 0x0D], [CHR 0x20],
     [CHR 0xC2, CHR 0x85], [CHR 0xC2, CHR 0xA0], [CHR 0xE1, CHR 0x9A, CHR 0x80],
     [CHR 0xE2, CHR 0x80, CHR 0x80], [CHR 0xE2, CHR 0x80, CHR 0x81], [CHR 0xE2, CHR 0x80, CHR 0x82],
     [CHR 0xE2, CHR 0x80, CHR 0x83], [CHR 0xE2, CHR 0x80, CHR 0x84], [CHR 0xE2, CHR 0x80, CHR 0x85],
     [CHR 0xE2, CHR 0x80, CHR 0x86], [CHR 0xE2, CHR 0x80, CHR 0x87], [CHR 0xE2, CHR 0x80, CHR 0x88],
     [CHR 0xE2, CHR 0x80, CHR 0x89], [CHR 0xE2, CHR 0x80, CHR 0x8A], [CHR 0xE2, CHR 0x80, CHR 0xA8],
     [CHR 0xE2, CHR 0x80, CHR 0xA9], [CHR 0xE2, CHR 0x80, CHR 0xAF], [CHR 0xE2, CHR 0x81, CHR 0x9F],
     [CHR 0xE3, CHR 0x80, CHR 0x80]]"

fun strip_any :: "string list \<Rightarrow> string \<Rightarrow> string option" where
  "strip_any [] s = None"
| "strip_any (w # ws) s = (if w \<noteq> [] \<and> prefix w s then Some (drop (length w) s) else strip_any ws s)"

lemma strip_any_Some: "strip_any ws s = Some t \<Longrightarrow> \<exists>w \<in> set ws. w \<noteq> [] \<and> s = w @ t"
  by (induction ws) (auto simp: prefix_def split: if_splits)

lemma strip_any_None: "strip_any ws s = None \<longleftrightarrow> (\<forall>w \<in> set ws. w = [] \<or> \<not> prefix w s)"
  by (induction ws) auto

function strip_all :: "string list \<Rightarrow> string \<Rightarrow> string" where
  "strip_all ws s = (case strip_any ws s of None \<Rightarrow> s | Some t \<Rightarrow> strip_all ws t)"
  by auto
termination
  by (relation "measure (\<lambda>(ws, s). length s)") (auto dest!: strip_any_Some)

declare strip_all.simps [simp del]

lemma strip_all_None [simp]: "strip_any ws s = None \<Longrightarrow> strip_all ws s = s"
  by (simp add: strip_all.simps)

lemma strip_all_done: "strip_any ws (strip_all ws s) = None"
  by (induction ws s rule: strip_all.induct) (subst strip_all.simps, auto split: option.split)

lemma strip_all_suffix: "\<exists>p. s = p @ strip_all ws s"
proof (induction ws s rule: strip_all.induct)
  case (1 ws s)
  show ?case
  proof (cases "strip_any ws s")
    case (Some t)
    obtain w where "s = w @ t" using strip_any_Some [OF Some] by blast
    with 1 [OF Some] Some show ?thesis by (subst strip_all.simps) (metis append.assoc option.case(2))
  qed simp
qed

text \<open>\<open>str::trim\<close>, and the test \<open>trim().is_empty()\<close>.\<close>

definition trim :: "string \<Rightarrow> string" where
  "trim s = rev (strip_all (map rev ws_seqs) (rev (strip_all ws_seqs s)))"

definition blank :: "string \<Rightarrow> bool" where
  "blank s = (trim s = [])"

text \<open>A visible ASCII character neither starts nor ends white space.\<close>

definition visible :: "char \<Rightarrow> bool" where
  "visible c = (0x21 \<le> (of_char c :: nat) \<and> (of_char c :: nat) \<le> 0x7E)"

lemma ws_seqs_ends: "list_all (\<lambda>w. w \<noteq> [] \<and> \<not> visible (hd w) \<and> \<not> visible (last w)) ws_seqs"
  by code_simp

lemma visible_not_ws:
  assumes "visible c"
  shows "strip_any ws_seqs (c # cs) = None" "strip_any (map rev ws_seqs) (c # cs) = None"
proof -
  have n: "prefix w (c # cs) \<Longrightarrow> w = [] \<or> visible (hd w)" for w
    using assms by (cases w) auto
  show "strip_any ws_seqs (c # cs) = None" "strip_any (map rev ws_seqs) (c # cs) = None"
    using ws_seqs_ends by (auto simp: strip_any_None list_all_iff hd_rev dest!: n)
qed

lemma trim_visible:
  assumes "s \<noteq> []" "visible (hd s)" "visible (last s)"
  shows "trim s = s"
proof -
  have "strip_all ws_seqs s = s" using assms visible_not_ws(1) [of "hd s" "tl s"] by simp
  moreover have "strip_any (map rev ws_seqs) (rev s) = None"
    using assms visible_not_ws(2) [of "last s" "tl (rev s)"] by (simp add: hd_rev [symmetric])
  ultimately show ?thesis by (simp add: trim_def)
qed

lemma trim_Nil [simp]: "trim [] = []"
  by (simp add: trim_def strip_any_None ws_seqs_def)

lemma strip_all_ws:
  assumes "w = [CHR 0x20] \<or> w = [CHR 0x09]"
  shows "strip_all ws_seqs (w @ s) = strip_all ws_seqs s"
proof -
  have "strip_any ws_seqs (CHR 0x20 # s) = Some s" "strip_any ws_seqs (CHR 0x09 # s) = Some s"
    by (simp_all add: ws_seqs_def)
  with assms have "strip_any ws_seqs (w @ s) = Some s" by auto
  then show ?thesis by (subst strip_all.simps) simp
qed

lemma trim_ws: "w = [CHR 0x20] \<or> w = [CHR 0x09] \<Longrightarrow> trim (w @ s) = trim s"
  by (simp add: trim_def strip_all_ws)

text \<open>\<open>str::split_whitespace\<close>.\<close>

fun take_word :: "string \<Rightarrow> string \<times> string" where
  "take_word [] = ([], [])"
| "take_word (c # cs) =
     (if strip_any ws_seqs (c # cs) \<noteq> None then ([], c # cs)
      else let (w, r) = take_word cs in (c # w, r))"

lemma take_word_append: "take_word s = (w, r) \<Longrightarrow> s = w @ r"
  by (induction s arbitrary: w r) (auto split: if_splits prod.splits)

lemma take_word_progress:
  "strip_any ws_seqs s = None \<Longrightarrow> s \<noteq> [] \<Longrightarrow> take_word s = (w, r) \<Longrightarrow> length r < length s"
  by (cases s) (auto split: prod.splits dest: take_word_append)

lemma length_strip_all: "length (strip_all ws s) \<le> length s"
  using strip_all_suffix [of s ws] by (metis length_append le_add2)

function split_whitespace :: "string \<Rightarrow> string list" where
  "split_whitespace s = (let t = strip_all ws_seqs s in
     if t = [] then [] else let (w, r) = take_word t in w # split_whitespace r)"
  by auto
termination
proof (relation "measure length")
  fix s t x w r
  assume "t = strip_all ws_seqs s" "t \<noteq> []" "x = take_word t" "(w, r) = x"
  then show "(r, s) \<in> measure length"
    using take_word_progress [OF strip_all_done [of ws_seqs s], of w r] length_strip_all [of ws_seqs s] by simp
qed simp

declare split_whitespace.simps [simp del]

section \<open>Numbers\<close>

definition is_digit :: "char \<Rightarrow> bool" where
  "is_digit c = (48 \<le> (of_char c :: nat) \<and> (of_char c :: nat) < 58)"

definition digits_value :: "string \<Rightarrow> nat" where
  "digits_value s = foldl (\<lambda>n c. 10 * n + ((of_char c :: nat) - 48)) 0 s"

text \<open>\<open>str::parse::<u32>\<close>: an optional plus sign, then decimal digits, without overflow.\<close>

definition parse_u32 :: "string \<Rightarrow> u32 option" where
  "parse_u32 s = (let t = (case s of CHR ''+'' # rest \<Rightarrow> rest | _ \<Rightarrow> s) in
     if t \<noteq> [] \<and> list_all is_digit t \<and> digits_value t < 2 ^ 32 then Some (of_nat (digits_value t)) else None)"

text \<open>\<open>str::parse::<i32>\<close>: an optional sign, then decimal digits, in range.\<close>

definition parse_i32 :: "string \<Rightarrow> int option" where
  "parse_i32 s = (let (neg, t) = (case s of CHR ''+'' # rest \<Rightarrow> (False, rest) | CHR ''-'' # rest \<Rightarrow> (True, rest) | _ \<Rightarrow> (False, s));
       v = (if neg then - int (digits_value t) else int (digits_value t)) in
     if t \<noteq> [] \<and> list_all is_digit t \<and> - (2 ^ 31) \<le> v \<and> v < 2 ^ 31 then Some v else None)"

text \<open>Decimal printing of an unsigned number.\<close>

fun show_nat :: "nat \<Rightarrow> string" where
  "show_nat n = (if n < 10 then [char_of (48 + n)] else show_nat (n div 10) @ [char_of (48 + n mod 10)])"

declare show_nat.simps [simp del]

lemma digits_value_snoc: "digits_value (s @ [c]) = 10 * digits_value s + ((of_char c :: nat) - 48)"
  by (simp add: digits_value_def)

lemma digit_char: "d < 10 \<Longrightarrow> is_digit (char_of (48 + d)) \<and> (of_char (char_of (48 + d)) :: nat) = 48 + d"
  by (simp add: is_digit_def)

lemma show_nat_ok:
  "show_nat n \<noteq> [] \<and> list_all is_digit (show_nat n) \<and> digits_value (show_nat n) = n"
proof (induction n rule: show_nat.induct)
  case (1 n)
  show ?case
  proof (cases "n < 10")
    case True
    then show ?thesis using digit_char [of n] by (subst show_nat.simps) (simp add: show_nat.simps [of n] digits_value_def)
  next
    case False
    then show ?thesis using 1 digit_char [of "n mod 10"]
      by (simp add: show_nat.simps [of n] digits_value_snoc)
  qed
qed

lemma no_plus: "list_all is_digit t \<Longrightarrow> (case t of CHR ''+'' # rest \<Rightarrow> rest | _ \<Rightarrow> t) = t"
proof (cases t)
  case (Cons c cs)
  assume "list_all is_digit t"
  then have "c \<noteq> CHR ''+''" using Cons by (auto simp: is_digit_def)
  then show ?thesis using Cons by (cases c) (auto split: bool.splits)
qed simp

lemma parse_u32_show: "parse_u32 (show_nat (unat w)) = Some w"
proof -
  note s = show_nat_ok [of "unat w"]
  have "unat w < 2 ^ 32" using unsigned_less [of w] by simp
  moreover have "(case show_nat (unat w) of CHR ''+'' # rest \<Rightarrow> rest | _ \<Rightarrow> show_nat (unat w)) = show_nat (unat w)"
    by (rule no_plus) (use s in simp)
  ultimately show ?thesis using s by (simp add: parse_u32_def)
qed

section \<open>Hexadecimal\<close>

text \<open>The digits \<open>from_str_radix(_, 16)\<close> accepts, and lower-case printing with a fixed width.\<close>

definition hex_digit :: "char \<Rightarrow> nat option" where
  "hex_digit c = (let n = (of_char c :: nat) in
     if 48 \<le> n \<and> n < 58 then Some (n - 48)
     else if 97 \<le> n \<and> n < 103 then Some (n - 87)
     else if 65 \<le> n \<and> n < 71 then Some (n - 55) else None)"

definition hex_value :: "string \<Rightarrow> nat" where
  "hex_value s = foldl (\<lambda>n c. 16 * n + the (hex_digit c)) 0 s"

definition hex_char :: "nat \<Rightarrow> char" where
  "hex_char d = (if d < 10 then char_of (48 + d) else char_of (87 + d))"

fun show_hex :: "nat \<Rightarrow> nat \<Rightarrow> string" where
  "show_hex 0 n = []"
| "show_hex (Suc k) n = show_hex k (n div 16) @ [hex_char (n mod 16)]"

lemma hex_char_ok: "d < 16 \<Longrightarrow> hex_digit (hex_char d) = Some d \<and> visible (hex_char d) \<and> hex_char d \<noteq> CHR ''+''"
proof -
  assume d: "d < 16"
  have n: "(of_char (hex_char d) :: nat) = (if d < 10 then 48 + d else 87 + d)" using d by (simp add: hex_char_def)
  have "(of_char CHR ''+'' :: nat) = 43" by simp
  then have "hex_char d \<noteq> CHR ''+''" using n by (auto split: if_splits)
  then show ?thesis using d n by (simp add: hex_digit_def visible_def)
qed

lemma show_hex_ok:
  "list_all (\<lambda>c. hex_digit c \<noteq> None \<and> visible c \<and> c \<noteq> CHR ''+'') (show_hex k n) \<and> length (show_hex k n) = k \<and>
   hex_value (show_hex k n) = n mod 16 ^ k"
proof (induction k arbitrary: n)
  case (Suc k)
  have "n mod 16 ^ Suc k = 16 * (n div 16 mod 16 ^ k) + n mod 16"
    by (simp add: mod_mult2_eq)
  then show ?case using Suc [of "n div 16"] hex_char_ok [of "n mod 16"] by (simp add: hex_value_def)
qed (simp add: hex_value_def)

lemma no_plus_prefix: "s \<noteq> [] \<Longrightarrow> hd s \<noteq> CHR ''+'' \<Longrightarrow> (case s of CHR ''+'' # rest \<Rightarrow> rest | _ \<Rightarrow> s) = s"
  by (cases s; cases "hd s") (auto split: bool.splits)

end
