(* ===== verification/Broker_Relay.thy ===== *)
theory Broker_Relay
  imports Greetd Session_Ipc Rust_Text
begin

text \<open>
  The compositor side of the authentication relay,
  \<open>crates/halmasuit/src/broker_relay.rs\<close>: the phase machine \<open>BrokerRelay\<close> that turns
  greetd PAM rounds into broker frames and broker frames into PAM steps, with the FIFO
  that pairs every greeter answer with the challenge it answers.
\<close>

section \<open>State\<close>

datatype relay_phase = PreAuth | Authing | Authed | Starting | Running | PhaseDone

datatype relay_event =
    RelayPam pam_step
  | RelaySessionOpened
  | RelaySessionEnded session_outcome

datatype relay_error = OutOfPhase

datatype pending_response = Swallow | Forward

record broker_relay =
  br_service :: string
  br_username :: string
  br_phase :: relay_phase
  pending_responses :: "pending_response list"

definition new_broker_relay :: "string \<Rightarrow> string \<Rightarrow> broker_relay" where
  "new_broker_relay service username =
     \<lparr>br_service = service, br_username = username, br_phase = PreAuth, pending_responses = []\<rparr>"

section \<open>Operations\<close>

fun prompt_to_kind :: "prompt_style \<Rightarrow> auth_message_type" where
  "prompt_to_kind PromptVisible = Visible"
| "prompt_to_kind PromptSecret = Secret"

fun display_to_kind :: "display_style \<Rightarrow> auth_message_type" where
  "display_to_kind DisplayInfo = Info"
| "display_to_kind DisplayError = ErrorMsg"

definition split_env_pair :: "string \<Rightarrow> string \<times> string" where
  "split_env_pair entry = (case split_once CHR ''='' entry of
     None \<Rightarrow> (entry, []) | Some (k, v) \<Rightarrow> (k, v))"

definition on_pam_step ::
    "broker_relay \<Rightarrow> string option \<Rightarrow> (relay_error + compositor_to_broker option) \<times> broker_relay" where
  "on_pam_step r resp = (case br_phase r of
     PreAuth \<Rightarrow>
       (Inr (Some (BeginAuth (br_service r) (br_username r))), r\<lparr>br_phase := Authing\<rparr>)
   | Authing \<Rightarrow> (case pending_responses r of
       Swallow # ps \<Rightarrow> (Inr None, r\<lparr>pending_responses := ps\<rparr>)
     | Forward # ps \<Rightarrow>
         (Inr (Some (ConvResponse (MkSecret (case resp of None \<Rightarrow> [] | Some s \<Rightarrow> s)))),
          r\<lparr>pending_responses := ps\<rparr>)
     | [] \<Rightarrow> (Inl OutOfPhase, r))
   | _ \<Rightarrow> (Inl OutOfPhase, r))"

definition on_broker_frame ::
    "broker_relay \<Rightarrow> broker_to_compositor \<Rightarrow> (relay_error + relay_event) \<times> broker_relay" where
  "on_broker_frame r frame = (case (br_phase r, frame) of
     (Authing, ConvPrompt style message) \<Rightarrow>
       (Inr (RelayPam (Challenge (prompt_to_kind style) message)),
        r\<lparr>pending_responses := pending_responses r @ [Forward]\<rparr>)
   | (Authing, ConvDisplay style message) \<Rightarrow>
       (Inr (RelayPam (Challenge (display_to_kind style) message)),
        r\<lparr>pending_responses := pending_responses r @ [Swallow]\<rparr>)
   | (Authing, AuthOkFrame username uid gid) \<Rightarrow>
       (Inr (RelayPam (PamSuccess username uid gid)), r\<lparr>br_phase := Authed\<rparr>)
   | (Authing, FailureFrame reason) \<Rightarrow>
       (Inr (RelayPam (PamFailure reason)), r\<lparr>br_phase := PhaseDone\<rparr>)
   | (Starting, SessionOpened) \<Rightarrow> (Inr RelaySessionOpened, r\<lparr>br_phase := Running\<rparr>)
   | (Running, SessionEnded outcome) \<Rightarrow>
       (Inr (RelaySessionEnded outcome), r\<lparr>br_phase := PhaseDone\<rparr>)
   | _ \<Rightarrow> (Inl OutOfPhase, r))"

definition start_session ::
    "broker_relay \<Rightarrow> string list \<Rightarrow> string list \<Rightarrow> (relay_error + compositor_to_broker) \<times> broker_relay" where
  "start_session r cmd env =
     (if br_phase r \<noteq> Authed then (Inl OutOfPhase, r)
      else (Inr (StartSessionFrame cmd (map split_env_pair env)), r\<lparr>br_phase := Starting\<rparr>))"

definition poison :: "broker_relay \<Rightarrow> broker_relay" where
  "poison r = r\<lparr>br_phase := PhaseDone\<rparr>"

lemmas relay_defs = on_pam_step_def on_broker_frame_def start_session_def poison_def

section \<open>Runs of the relay\<close>

datatype relay_call =
    PamStepCall "string option"
  | BrokerFrameCall broker_to_compositor
  | StartSessionCall "string list" "string list"
  | PoisonCall

text \<open>What a call gave back: a frame to send, an event, nothing, or the relay error.\<close>

datatype relay_result =
    SendFrame compositor_to_broker
  | SwallowedAnswer
  | Event relay_event
  | Refused
  | Poisoned

fun relay_step :: "broker_relay \<Rightarrow> relay_call \<Rightarrow> broker_relay \<times> relay_result" where
  "relay_step r (PamStepCall resp) = (let (res, r') = on_pam_step r resp in
     (r', case res of Inl _ \<Rightarrow> Refused | Inr None \<Rightarrow> SwallowedAnswer | Inr (Some f) \<Rightarrow> SendFrame f))"
| "relay_step r (BrokerFrameCall f) = (let (res, r') = on_broker_frame r f in
     (r', case res of Inl _ \<Rightarrow> Refused | Inr ev \<Rightarrow> Event ev))"
| "relay_step r (StartSessionCall cmd env) = (let (res, r') = start_session r cmd env in
     (r', case res of Inl _ \<Rightarrow> Refused | Inr f \<Rightarrow> SendFrame f))"
| "relay_step r PoisonCall = (poison r, Poisoned)"

text \<open>The challenges the relay accepted, oldest first, as the answer each one demands.\<close>

fun demanded_answers :: "(relay_call \<times> relay_result) list \<Rightarrow> pending_response list" where
  "demanded_answers [] = []"
| "demanded_answers ((BrokerFrameCall (ConvPrompt _ _), Event _) # h) = Forward # demanded_answers h"
| "demanded_answers ((BrokerFrameCall (ConvDisplay _ _), Event _) # h) = Swallow # demanded_answers h"
| "demanded_answers (_ # h) = demanded_answers h"

text \<open>The answers the relay accepted after \<open>BeginAuth\<close>, oldest first: what the greeter said
  and what went to the broker for it.\<close>

fun given_answers :: "(relay_call \<times> relay_result) list \<Rightarrow> (string option \<times> secret option) list" where
  "given_answers [] = []"
| "given_answers ((PamStepCall a, SwallowedAnswer) # h) = (a, None) # given_answers h"
| "given_answers ((PamStepCall a, SendFrame (ConvResponse s)) # h) = (a, Some s) # given_answers h"
| "given_answers (_ # h) = given_answers h"

abbreviation history :: "broker_relay \<Rightarrow> relay_call list \<Rightarrow> (relay_call \<times> relay_result) list" where
  "history r cs \<equiv> zip cs (outputs relay_step r cs)"

fun answered_as :: "string option \<times> secret option \<Rightarrow> pending_response \<Rightarrow> bool" where
  "answered_as (a, w) Swallow = (w = None)"
| "answered_as (a, w) Forward = (w = Some (MkSecret (case a of None \<Rightarrow> [] | Some s \<Rightarrow> s)))"

fun wire_frames :: "relay_result list \<Rightarrow> compositor_to_broker list" where
  "wire_frames [] = []"
| "wire_frames (SendFrame f # outs) = f # wire_frames outs"
| "wire_frames (_ # outs) = wire_frames outs"

lemma wire_frames_append [simp]: "wire_frames (xs @ ys) = wire_frames xs @ wire_frames ys"
  by (induction xs rule: wire_frames.induct) simp_all

section \<open>The FIFO pairs answers with challenges\<close>

text \<open>One call, seen through the two histories: it either appends a demand, consumes the
  oldest one with the matching answer, or does neither.\<close>

lemma relay_step_queue:
  obtains (demand) p where "demanded_answers [(c, snd (relay_step r c))] = [p]"
      "given_answers [(c, snd (relay_step r c))] = []"
      "pending_responses (fst (relay_step r c)) = pending_responses r @ [p]"
  | (answer) p ps g where "demanded_answers [(c, snd (relay_step r c))] = []"
      "given_answers [(c, snd (relay_step r c))] = [g]" "answered_as g p"
      "pending_responses r = p # ps" "pending_responses (fst (relay_step r c)) = ps"
  | (neither) "demanded_answers [(c, snd (relay_step r c))] = []"
      "given_answers [(c, snd (relay_step r c))] = []"
      "pending_responses (fst (relay_step r c)) = pending_responses r"
proof (cases c)
  case (PamStepCall a)
  show thesis
  proof (cases "br_phase r = Authing")
    case True
    show thesis
    proof (cases "pending_responses r")
      case Nil
      with PamStepCall True neither show thesis by (simp add: on_pam_step_def)
    next
      case (Cons p ps)
      with PamStepCall True answer show thesis by (cases p) (simp_all add: on_pam_step_def)
    qed
  next
    case False
    with PamStepCall neither show thesis by (cases "br_phase r") (simp_all add: on_pam_step_def)
  qed
next
  case (BrokerFrameCall f)
  with demand neither show thesis
    by (cases "br_phase r"; cases f) (simp_all add: on_broker_frame_def)
next
  case (StartSessionCall cmd env)
  with neither show thesis by (simp add: start_session_def)
next
  case PoisonCall
  with neither show thesis by (simp add: poison_def)
qed

lemma demanded_answers_Cons:
  "demanded_answers (x # h) = demanded_answers [x] @ demanded_answers h"
  by (cases "x # h" rule: demanded_answers.cases) auto

lemma given_answers_Cons: "given_answers (x # h) = given_answers [x] @ given_answers h"
  by (cases "x # h" rule: given_answers.cases) auto

lemma relay_fifo_from:
  "\<exists>done rest. pending_responses r @ demanded_answers (history r cs) = done @ rest \<and>
     list_all2 answered_as (given_answers (history r cs)) done \<and>
     pending_responses (final relay_step r cs) = rest"
proof (induction cs arbitrary: r)
  case (Cons c cs)
  let ?r = "fst (relay_step r c)" and ?x = "(c, snd (relay_step r c))"
  have h: "history r (c # cs) = ?x # history ?r cs" by simp
  obtain d rest where IH: "pending_responses ?r @ demanded_answers (history ?r cs) = d @ rest"
      "list_all2 answered_as (given_answers (history ?r cs)) d"
      "pending_responses (final relay_step ?r cs) = rest"
    using Cons by blast
  show ?case
  proof (cases c r rule: relay_step_queue)
    case (answer p ps g)
    with IH have "pending_responses r @ demanded_answers (history r (c # cs)) = (p # d) @ rest"
        "list_all2 answered_as (given_answers (history r (c # cs))) (p # d)"
      unfolding h by (simp_all add: demanded_answers_Cons [of ?x "history ?r cs"] given_answers_Cons [of ?x "history ?r cs"])
    then show ?thesis using IH(3) by (metis final_Cons)
  next
    case (demand p)
    with IH have "pending_responses r @ demanded_answers (history r (c # cs)) = d @ rest"
        "list_all2 answered_as (given_answers (history r (c # cs))) d"
      unfolding h by (simp_all add: demanded_answers_Cons [of ?x "history ?r cs"] given_answers_Cons [of ?x "history ?r cs"])
    then show ?thesis using IH(3) by (metis final_Cons)
  next
    case neither
    with IH have "pending_responses r @ demanded_answers (history r (c # cs)) = d @ rest"
        "list_all2 answered_as (given_answers (history r (c # cs))) d"
      unfolding h by (simp_all add: demanded_answers_Cons [of ?x "history ?r cs"] given_answers_Cons [of ?x "history ?r cs"])
    then show ?thesis using IH(3) by (metis final_Cons)
  qed
qed simp

text \<open>
  C31: the Epic 24 invariant, for every interleaving of broker frames, greeter answers,
  session starts and failures: the i-th accepted greeter answer is treated as the i-th
  accepted challenge demands (an answer to a display message is swallowed, an answer to
  a prompt goes to the broker verbatim, an absent one as the empty string), there is
  never an answer without its challenge, and what is still queued is exactly the
  challenges not yet answered.
\<close>

theorem relay_answers_match_challenges:
  "\<exists>done rest. demanded_answers (history (new_broker_relay service username) cs) = done @ rest \<and>
     list_all2 answered_as (given_answers (history (new_broker_relay service username) cs)) done \<and>
     pending_responses (final relay_step (new_broker_relay service username) cs) = rest"
  using relay_fifo_from [of "new_broker_relay service username" cs]
  by (simp add: new_broker_relay_def)

section \<open>The frame sequence on the wire\<close>

fun frames_in :: "relay_phase \<Rightarrow> compositor_to_broker \<Rightarrow> compositor_to_broker list \<Rightarrow> bool" where
  "frames_in p b [] = True"
| "frames_in PreAuth b (f # fs) = (f = b \<and> frames_in Authing b fs)"
| "frames_in Authing b (ConvResponse _ # fs) = frames_in Authing b fs"
| "frames_in Authing b (f # fs) = ((\<exists>cmd env. f = StartSessionFrame cmd env) \<and> fs = [])"
| "frames_in Authed b (f # fs) = ((\<exists>cmd env. f = StartSessionFrame cmd env) \<and> fs = [])"
| "frames_in _ b (f # fs) = False"

lemma frames_in_final: "frames_in p b fs \<Longrightarrow> p \<in> {Starting, Running, PhaseDone} \<Longrightarrow> fs = []"
  by (cases fs) auto

lemma frames_in_mono: "frames_in p b fs \<Longrightarrow> p \<in> {Authed, PhaseDone} \<Longrightarrow> frames_in Authing b fs"
  by (cases fs) (auto simp: frames_in_final)

lemma relay_frames_from:
  "frames_in (br_phase r) (BeginAuth (br_service r) (br_username r))
     (wire_frames (outputs relay_step r cs))"
proof (induction cs arbitrary: r)
  case (Cons c cs)
  have IH: "frames_in (br_phase (fst (relay_step r c)))
      (BeginAuth (br_service r) (br_username r))
      (wire_frames (outputs relay_step (fst (relay_step r c)) cs))"
  proof -
    have "br_service (fst (relay_step r c)) = br_service r"
      "br_username (fst (relay_step r c)) = br_username r"
      by (cases c; auto simp: relay_defs split: relay_phase.splits list.splits
          pending_response.splits broker_to_compositor.splits)+
    with Cons [of "fst (relay_step r c)"] show ?thesis by simp
  qed
  show ?case
  proof (cases c)
    case (PamStepCall a)
    then show ?thesis using IH
      by (auto simp: on_pam_step_def split: relay_phase.splits list.splits pending_response.splits)
  next
    case (BrokerFrameCall f)
    then show ?thesis using IH
      by (cases "br_phase r"; cases f)
        (auto simp: on_broker_frame_def intro: frames_in_mono dest: frames_in_final)
  next
    case (StartSessionCall cmd env)
    then show ?thesis using IH
      by (auto simp: start_session_def dest: frames_in_final split: if_splits)
  next
    case PoisonCall
    then show ?thesis using IH by (auto simp: poison_def dest: frames_in_final)
  qed
qed simp

lemma frames_in_PreAuth:
  "frames_in PreAuth b fs \<Longrightarrow> fs = [] \<or> (\<exists>secrets tail. fs = b # map ConvResponse secrets @ tail \<and>
     (tail = [] \<or> (\<exists>cmd env. tail = [StartSessionFrame cmd env])))"
proof -
  have A: "frames_in Authing b fs \<Longrightarrow> \<exists>secrets tail. fs = map ConvResponse secrets @ tail \<and>
      (tail = [] \<or> (\<exists>cmd env. tail = [StartSessionFrame cmd env]))" for fs
  proof (induction Authing b fs rule: frames_in.induct)
    case (3 b s fs)
    then obtain secrets tail where "fs = map ConvResponse secrets @ tail"
      "tail = [] \<or> (\<exists>cmd env. tail = [StartSessionFrame cmd env])" by auto
    then show ?case by (intro exI [of _ "s # secrets"] exI [of _ tail]) simp
  qed (auto intro: exI [of _ "[]"])
  show "frames_in PreAuth b fs \<Longrightarrow> ?thesis" by (cases fs) (auto dest: A)
qed

text \<open>
  Amendment A1's order, whatever the greeter and the broker do: what the relay puts
  on the wire is nothing, or one \<open>BeginAuth\<close> with the service and the name hint, then
  only \<open>ConvResponse\<close> frames, then at most one \<open>StartSession\<close> and nothing after it; it
  never emits a lifecycle frame.
\<close>

theorem relay_wire_order:
  "let fs = wire_frames (outputs relay_step (new_broker_relay service username) cs) in
   fs = [] \<or> (\<exists>secrets tail. fs = BeginAuth service username # map ConvResponse secrets @ tail \<and>
     (tail = [] \<or> (\<exists>cmd env. tail = [StartSessionFrame cmd env])))"
  using frames_in_PreAuth relay_frames_from [of "new_broker_relay service username" cs]
  by (auto simp: new_broker_relay_def Let_def)

section \<open>Authorisation\<close>

fun accepts_identity :: "relay_call \<times> relay_result \<Rightarrow> bool" where
  "accepts_identity (BrokerFrameCall (AuthOkFrame u uid gid), Event (RelayPam (PamSuccess u' uid' gid'))) =
     (u' = u \<and> uid' = uid \<and> gid' = gid)"
| "accepts_identity _ = False"

lemma relay_authed_history:
  "br_phase (final relay_step (new_broker_relay s u) cs) \<in> {Authed, Starting, Running} \<Longrightarrow>
     \<exists>x \<in> set (history (new_broker_relay s u) cs). accepts_identity x"
proof (induction cs rule: rev_induct)
  case Nil
  then show ?case by (simp add: new_broker_relay_def)
next
  case (snoc c cs)
  let ?r = "final relay_step (new_broker_relay s u) cs"
  have h: "set (history (new_broker_relay s u) (cs @ [c])) =
      insert (c, snd (relay_step ?r c)) (set (history (new_broker_relay s u) cs))"
    by (simp add: zip_append1)
  show ?case
  proof (cases "br_phase ?r \<in> {Authed, Starting, Running}")
    case True
    then show ?thesis using snoc h by auto
  next
    case False
    then have "accepts_identity (c, snd (relay_step ?r c))"
      using snoc.prems
      by (cases c; cases "br_phase ?r")
        (auto simp: relay_defs split: list.splits pending_response.splits broker_to_compositor.splits)
    then show ?thesis using h by auto
  qed
qed

text \<open>
  a \<open>StartSession\<close> frame leaves the compositor only after the broker has reported
  success, and that success reached the greetd machine with the broker's own username,
  uid and gid.
\<close>

theorem relay_start_is_authorised:
  assumes "i < length cs"
    and "outputs relay_step (new_broker_relay service username) cs ! i = SendFrame (StartSessionFrame cmd env)"
  shows "\<exists>x \<in> set (history (new_broker_relay service username) (take i cs)). accepts_identity x"
proof (rule relay_authed_history)
  let ?r = "final relay_step (new_broker_relay service username) (take i cs)"
  have "snd (relay_step ?r (cs ! i)) = SendFrame (StartSessionFrame cmd env)"
    using assms outputs_nth by metis
  then have "br_phase ?r = Authed"
    by (cases "cs ! i"; cases "br_phase ?r")
      (auto simp: relay_defs split: list.splits pending_response.splits broker_to_compositor.splits)
  then show "br_phase ?r \<in> {Authed, Starting, Running}" by simp
qed

theorem relay_start_is_authorised_witness:
  "\<exists>x \<in> set (history (new_broker_relay ''login'' ''al'')
      (take 2 [PamStepCall None, BrokerFrameCall (AuthOkFrame ''alice'' 1000 100),
        StartSessionCall [''/bin/sh''] [''A=b'']])). accepts_identity x"
  by (rule relay_start_is_authorised [where i = 2 and cmd = "[''/bin/sh'']" and env = "[(''A'', ''b'')]"])
    (simp_all add: relay_defs new_broker_relay_def split_env_pair_def numeral_eq_Suc)

section \<open>Environment pairs\<close>

lemma split_once_spec:
  "split_once c s = (if c \<in> set s
     then Some (takeWhile (\<lambda>x. x \<noteq> c) s, tl (dropWhile (\<lambda>x. x \<noteq> c) s)) else None)"
  by (induction s) auto

text \<open>
  an environment entry crosses the relay intact: the entry \<open>KEY=VALUE\<close> becomes the
  pair (KEY, VALUE) split at the first \<open>=\<close>, so the value may itself hold \<open>=\<close> signs; an
  entry without \<open>=\<close> keeps its text as the key with an empty value.
\<close>

theorem split_env_pair_exact:
  "split_env_pair entry = (k, v) \<longleftrightarrow>
     (CHR ''='' \<notin> set k \<and> entry = k @ CHR ''='' # v) \<or>
     (CHR ''='' \<notin> set entry \<and> k = entry \<and> v = [])"
proof (cases "CHR ''='' \<in> set entry")
  case False
  then show ?thesis by (auto simp: split_env_pair_def split_once_spec)
next
  case True
  have "CHR ''='' \<notin> set k \<Longrightarrow> takeWhile (\<lambda>x. x \<noteq> CHR ''='') (k @ CHR ''='' # v) = k \<and>
      tl (dropWhile (\<lambda>x. x \<noteq> CHR ''='') (k @ CHR ''='' # v)) = v" for k v
    by (induction k) auto
  moreover have "takeWhile (\<lambda>x. x \<noteq> CHR ''='') entry @ CHR ''='' # tl (dropWhile (\<lambda>x. x \<noteq> CHR ''='') entry) = entry"
    using True by (induction entry) auto
  moreover have "CHR ''='' \<notin> set (takeWhile (\<lambda>x. x \<noteq> CHR ''='') entry)"
    by (auto dest: set_takeWhileD)
  ultimately show ?thesis using True
    by (auto simp: split_env_pair_def split_once_spec)
qed

end
