(* ===== verification/Broker_Episode.thy ===== *)
theory Broker_Episode
  imports Greetd_Server Broker_Relay
begin

text \<open>
  One greeter connection with its broker channel,
  \<open>crates/halmasuit/src/broker_session.rs\<close>: command resolution against the fixed system
  path, the \<open>SOCK_SEQPACKET\<close> channel, and \<open>BrokerEpisode\<close>, which binds the greetd
  driver to the relay.  The kernel (send and receive results, file tests) and
  \<open>serde_json\<close> are fields of \<open>episode_env\<close>.
\<close>

section \<open>Command resolution\<close>

definition SYSTEM_PATH :: "string list" where
  "SYSTEM_PATH = [''/run/wrappers/bin'', ''/run/current-system/sw/bin'', ''/usr/local/bin'',
     ''/usr/bin'', ''/bin'']"

text \<open>\<open>PathBuf::from(dir).join(first)\<close>, for a \<open>first\<close> that is not absolute.\<close>

definition path_join :: "string \<Rightarrow> string \<Rightarrow> string" where
  "path_join dir first = dir @ CHR ''/'' # first"

definition resolve_command_path :: "(string \<Rightarrow> bool) \<Rightarrow> string list \<Rightarrow> string list option" where
  "resolve_command_path is_file cmd = (case cmd of
     [] \<Rightarrow> None
   | first # args \<Rightarrow>
       if CHR 0x00 \<in> set first then None
       else if take 1 first = ''/'' then Some cmd
       else if CHR ''/'' \<in> set first then None
       else map_option (\<lambda>dir. path_join dir first # args)
              (find (\<lambda>dir. is_file (path_join dir first)) SYSTEM_PATH))"

section \<open>The channel\<close>

datatype wire_error = WireIo errno | WireCodec ipc_codec_error | WireClosed | WireMalformed

text \<open>
  The parameters: \<open>ee_send n bytes\<close> is what the kernel answers to the n-th \<open>send\<close> on
  this channel, the number of bytes accepted or an error.
\<close>

record episode_env =
  ee_greetd :: greetd_env
  ee_send :: "nat \<Rightarrow> byte list \<Rightarrow> errno + nat"
  ee_frame_to_vec :: "compositor_to_broker \<Rightarrow> json_error + byte list"
  ee_frame_from_slice :: "byte list \<Rightarrow> json_error + broker_to_compositor"
  ee_is_file :: "string \<Rightarrow> bool"

text \<open>
  The channel's side of the socket: how often \<open>send\<close> was called and, in order, the
  frames the kernel took whole.
\<close>

record seqpacket_channel =
  ch_sends :: nat
  ch_sent :: "compositor_to_broker list"

definition new_seqpacket_channel :: seqpacket_channel where
  "new_seqpacket_channel = \<lparr>ch_sends = 0, ch_sent = []\<rparr>"

definition channel_send ::
    "episode_env \<Rightarrow> seqpacket_channel \<Rightarrow> compositor_to_broker \<Rightarrow> (wire_error + unit) \<times> seqpacket_channel" where
  "channel_send E ch msg = (case ipc_encode (ge_le (ee_greetd E)) (ee_frame_to_vec E) msg of
     Inl e \<Rightarrow> (Inl (WireCodec e), ch)
   | Inr bytes \<Rightarrow>
       let ch' = ch\<lparr>ch_sends := Suc (ch_sends ch)\<rparr> in
       case ee_send E (ch_sends ch) bytes of
         Inl e \<Rightarrow> (Inl (WireIo e), ch')
       | Inr n \<Rightarrow> if n = length bytes then (Inr (), ch'\<lparr>ch_sent := ch_sent ch @ [msg]\<rparr>)
                  else (Inl WireMalformed, ch'))"

text \<open>
  The result of \<open>recvmsg\<close> is decoded; with it come the descriptors that were dropped,
  and so closed, on the way.
\<close>

definition recv_with_fd ::
    "episode_env \<Rightarrow> recvmsg_result \<Rightarrow>
     (wire_error + (broker_to_compositor \<times> fd option) option) \<times> fd list" where
  "recv_with_fd E r = (case r of
     Inl e \<Rightarrow> (if e = EAGAIN then Inr None else Inl (WireIo e), [])
   | Inr (bytes, Inl e) \<Rightarrow> (Inl (WireIo e), [])
   | Inr (bytes, Inr cmsgs) \<Rightarrow>
       let fds = concat (map (\<lambda>c. case c of None \<Rightarrow> [] | Some raws \<Rightarrow> raws) cmsgs) in
       if bytes = [] then (Inl WireClosed, fds)
       else if length fds > 1 then (Inl WireMalformed, fds)
       else (case ipc_try_decode (ge_le (ee_greetd E)) (ee_frame_from_slice E) bytes of
          Inl e \<Rightarrow> (Inl (WireCodec e), fds)
        | Inr None \<Rightarrow> (Inl WireMalformed, fds)
        | Inr (Some (msg, consumed)) \<Rightarrow>
            if consumed = length bytes
            then (Inr (Some (msg, case fds of [] \<Rightarrow> None | f # _ \<Rightarrow> Some f)), [])
            else (Inl WireMalformed, fds)))"

section \<open>The episode\<close>

record episode_outcome =
  greeter_reply :: "byte list"
  spawned :: "spawn_request option"
  session_opened_key :: bool
  session_ended_with :: "session_outcome option"
  terminate :: bool

definition default_outcome :: episode_outcome where
  "default_outcome = \<lparr>greeter_reply = [], spawned = None, session_opened_key = False,
     session_ended_with = None, terminate = False\<rparr>"

record broker_episode =
  ep_chan :: seqpacket_channel
  ep_service :: string
  ep_relay :: "broker_relay option"
  ep_conn :: connection
  leader_pidfd :: "fd option"
  pending_challenges :: "pam_step list"
  greetd_ready_for_challenge :: bool

definition new_broker_episode :: "seqpacket_channel \<Rightarrow> string \<Rightarrow> broker_episode" where
  "new_broker_episode chan service =
     \<lparr>ep_chan = chan, ep_service = service, ep_relay = None, ep_conn = new_connection,
      leader_pidfd = None, pending_challenges = [], greetd_ready_for_challenge = False\<rparr>"

definition take_leader_pidfd :: "broker_episode \<Rightarrow> fd option \<times> broker_episode" where
  "take_leader_pidfd ep = (leader_pidfd ep, ep\<lparr>leader_pidfd := None\<rparr>)"

definition fail_closed ::
    "episode_env \<Rightarrow> broker_episode \<Rightarrow> episode_outcome \<Rightarrow> episode_outcome \<times> broker_episode" where
  "fail_closed E ep out =
     (let (b, c) = broker_closed (ee_greetd E) (ep_conn ep) in
      (out\<lparr>greeter_reply := greeter_reply out @ reply b, terminate := True\<rparr>,
       ep\<lparr>ep_relay := map_option poison (ep_relay ep), ep_conn := c\<rparr>))"

text \<open>Sends a frame; an error on the way fails the episode closed.\<close>

definition send_or_fail ::
    "episode_env \<Rightarrow> broker_episode \<Rightarrow> compositor_to_broker \<Rightarrow> episode_outcome \<Rightarrow> episode_outcome \<Rightarrow>
     episode_outcome \<times> broker_episode" where
  "send_or_fail E ep f out sent_out = (case channel_send E (ep_chan ep) f of
     (Inl _, ch) \<Rightarrow> fail_closed E (ep\<lparr>ep_chan := ch\<rparr>) out
   | (Inr _, ch) \<Rightarrow> (sent_out, ep\<lparr>ep_chan := ch\<rparr>))"

definition act_on_spawn ::
    "episode_env \<Rightarrow> broker_episode \<Rightarrow> spawn_request \<Rightarrow> episode_outcome \<Rightarrow> episode_outcome \<times> broker_episode" where
  "act_on_spawn E ep spawn out = (case ep_relay ep of
     None \<Rightarrow> fail_closed E ep out
   | Some relay \<Rightarrow> (case resolve_command_path (ee_is_file E) (sr_cmd spawn) of
       None \<Rightarrow> fail_closed E ep out
     | Some resolved \<Rightarrow>
         let spawn' = spawn\<lparr>sr_cmd := resolved\<rparr>;
             (frame, relay') = start_session relay (sr_cmd spawn') (sr_env spawn');
             ep' = ep\<lparr>ep_relay := Some relay'\<rparr> in
         case frame of
           Inr f \<Rightarrow> send_or_fail E ep' f out (out\<lparr>spawned := Some spawn'\<rparr>)
         | Inl _ \<Rightarrow> fail_closed E ep' out))"

text \<open>The relay a PAM demand works on: the existing one, or one built from the hint.\<close>

definition relay_for_pam :: "broker_episode \<Rightarrow> broker_relay" where
  "relay_for_pam ep = (case ep_relay ep of
     Some r \<Rightarrow> r
   | None \<Rightarrow> new_broker_relay (ep_service ep)
       (case pending_username (ep_conn ep) of None \<Rightarrow> [] | Some u \<Rightarrow> u))"

function act_on_demand ::
    "episode_env \<Rightarrow> broker_episode \<Rightarrow> byte list \<Rightarrow> demand \<Rightarrow> episode_outcome \<Rightarrow>
     episode_outcome \<times> broker_episode" where
  "act_on_demand E ep rep demand out0 =
     (let out = out0\<lparr>greeter_reply := greeter_reply out0 @ rep\<rparr> in
      case demand of
        Continue \<Rightarrow> (out, ep)
      | Close \<Rightarrow> (out\<lparr>terminate := True\<rparr>, ep)
      | DemandPam response \<Rightarrow>
          (let (frame, relay') = on_pam_step (relay_for_pam ep) response;
               ep' = ep\<lparr>greetd_ready_for_challenge := True, ep_relay := Some relay'\<rparr> in
           case frame of
             Inr (Some f) \<Rightarrow> send_or_fail E ep' f out out
           | Inr None \<Rightarrow>
               (case pending_challenges ep of
                  [] \<Rightarrow> (out, ep')
                | step # rest \<Rightarrow>
                    let (r, c) = resume_pam (ee_greetd E) (ep_conn ep) step;
                        ep'' = ep'\<lparr>pending_challenges := rest, greetd_ready_for_challenge := False,
                                  ep_conn := c\<rparr> in
                    case r of
                      Inr oc \<Rightarrow> act_on_demand E ep'' (reply oc) (demanded oc) out
                    | Inl _ \<Rightarrow> fail_closed E ep'' out)
           | Inl OutOfPhase \<Rightarrow> fail_closed E ep' out)
      | DemandSpawn spawn \<Rightarrow> act_on_spawn E ep spawn out)"
  by pat_completeness auto
termination
  by (relation "measure (\<lambda>(E, ep, rep, demand, out). length (pending_challenges ep))") auto

declare act_on_demand.simps [simp del]

definition on_greeter_bytes ::
    "episode_env \<Rightarrow> broker_episode \<Rightarrow> byte list \<Rightarrow> episode_outcome \<times> broker_episode" where
  "on_greeter_bytes E ep bytes =
     (let (r, c) = feed_greeter (ee_greetd E) (ep_conn ep) bytes; ep' = ep\<lparr>ep_conn := c\<rparr> in
      case r of
        Inr oc \<Rightarrow> act_on_demand E ep' (reply oc) (demanded oc) default_outcome
      | Inl _ \<Rightarrow> (default_outcome\<lparr>terminate := True\<rparr>, ep'))"

definition on_broker_readable ::
    "episode_env \<Rightarrow> broker_episode \<Rightarrow> recvmsg_result \<Rightarrow> episode_outcome \<times> broker_episode" where
  "on_broker_readable E ep received = (case fst (recv_with_fd E received) of
     Inr None \<Rightarrow> (default_outcome, ep)
   | Inl _ \<Rightarrow> fail_closed E ep default_outcome
   | Inr (Some (frame, pidfd)) \<Rightarrow> (case ep_relay ep of
       None \<Rightarrow> fail_closed E ep default_outcome
     | Some relay \<Rightarrow>
         let (ev, relay') = on_broker_frame relay frame; ep' = ep\<lparr>ep_relay := Some relay'\<rparr> in
         case ev of
           Inr (RelayPam step) \<Rightarrow>
             if greetd_ready_for_challenge ep' then
               let (r, c) = resume_pam (ee_greetd E) (ep_conn ep') step;
                   ep'' = ep'\<lparr>greetd_ready_for_challenge := False, ep_conn := c\<rparr> in
               case r of
                 Inr oc \<Rightarrow> act_on_demand E ep'' (reply oc) (demanded oc) default_outcome
               | Inl _ \<Rightarrow> fail_closed E ep'' default_outcome
             else (default_outcome, ep'\<lparr>pending_challenges := pending_challenges ep' @ [step]\<rparr>)
         | Inr RelaySessionOpened \<Rightarrow>
             (default_outcome\<lparr>session_opened_key := True\<rparr>, ep'\<lparr>leader_pidfd := pidfd\<rparr>)
         | Inr (RelaySessionEnded oc) \<Rightarrow>
             (default_outcome\<lparr>session_ended_with := Some oc, terminate := True\<rparr>, ep')
         | Inl OutOfPhase \<Rightarrow> fail_closed E ep' default_outcome))"

section \<open>Invariant of an episode\<close>

abbreviation begin_frame :: "broker_relay \<Rightarrow> compositor_to_broker" where
  "begin_frame r \<equiv> BeginAuth (br_service r) (br_username r)"

text \<open>What is on the wire in each phase of the relay.\<close>

definition wire_in :: "broker_relay \<Rightarrow> compositor_to_broker list \<Rightarrow> bool" where
  "wire_in r sent \<longleftrightarrow> (case br_phase r of
     PreAuth \<Rightarrow> sent = []
   | PhaseDone \<Rightarrow> frames_in PreAuth (begin_frame r) sent
   | Authing \<Rightarrow> \<exists>ss. sent = begin_frame r # map ConvResponse ss
   | Authed \<Rightarrow> \<exists>ss. sent = begin_frame r # map ConvResponse ss
   | _ \<Rightarrow> \<exists>ss cmd env. sent = begin_frame r # map ConvResponse ss @ [StartSessionFrame cmd env])"

lemma frames_in_responses:
  "frames_in Authing b (map ConvResponse ss @ fs) = frames_in Authing b fs"
  by (induction ss) auto

lemma wire_in_order: "wire_in r sent \<Longrightarrow> frames_in PreAuth (begin_frame r) sent"
proof -
  have "frames_in Authing b (map ConvResponse ss)" for b ss
    using frames_in_responses [of b ss "[]"] by simp
  then show "wire_in r sent \<Longrightarrow> ?thesis"
    by (auto simp: wire_in_def frames_in_responses split: relay_phase.splits)
qed

lemma wire_in_poison: "frames_in PreAuth (begin_frame r) sent \<Longrightarrow> wire_in (poison r) sent"
  by (simp add: wire_in_def poison_def)

lemma on_pam_step_wire:
  assumes "wire_in r sent" and "on_pam_step r resp = (res, r')"
  shows "br_service r' = br_service r" "br_username r' = br_username r"
    "\<And>f. res = Inr (Some f) \<Longrightarrow> wire_in r' (sent @ [f])"
    "res = Inr None \<or> (\<exists>e. res = Inl e) \<Longrightarrow> wire_in r' sent"
proof -
  have "map ConvResponse ss @ [ConvResponse s] = map ConvResponse (ss @ [s])" for ss s by simp
  then have snoc: "\<exists>ss'. map ConvResponse ss @ [ConvResponse s] = map ConvResponse ss'" for ss s
    by metis
  show "br_service r' = br_service r" "br_username r' = br_username r"
    "\<And>f. res = Inr (Some f) \<Longrightarrow> wire_in r' (sent @ [f])"
    "res = Inr None \<or> (\<exists>e. res = Inl e) \<Longrightarrow> wire_in r' sent"
    using assms snoc
    by (auto simp: on_pam_step_def wire_in_def split: relay_phase.splits list.splits
        pending_response.splits)
qed

lemma on_broker_frame_wire:
  assumes "wire_in r sent" and "on_broker_frame r f = (res, r')"
  shows "br_service r' = br_service r" "wire_in r' sent"
proof -
  show "br_service r' = br_service r"
    using assms(2) by (auto simp: on_broker_frame_def split: relay_phase.splits
        broker_to_compositor.splits)
  show "wire_in r' sent"
    using assms wire_in_order [OF assms(1)]
    by (cases "br_phase r"; cases f) (auto simp: on_broker_frame_def wire_in_def)
qed

lemma start_session_wire:
  assumes "wire_in r sent" and "start_session r cmd env = (res, r')"
  shows "br_service r' = br_service r" "br_username r' = br_username r"
    "\<And>f. res = Inr f \<Longrightarrow> f = StartSessionFrame cmd (map split_env_pair env) \<and> wire_in r' (sent @ [f])"
    "\<And>e. res = Inl e \<Longrightarrow> wire_in r' sent"
  using assms by (auto simp: start_session_def wire_in_def split: if_splits)

definition ep_wire :: "broker_episode \<Rightarrow> bool" where
  "ep_wire ep \<longleftrightarrow> (case ep_relay ep of
     None \<Rightarrow> ch_sent (ep_chan ep) = []
   | Some r \<Rightarrow> br_service r = ep_service ep \<and> wire_in r (ch_sent (ep_chan ep)))"

lemma ep_wire_update [simp]:
  "ep_wire (ep\<lparr>ep_conn := c\<rparr>) = ep_wire ep"
  "ep_wire (ep\<lparr>pending_challenges := ps\<rparr>) = ep_wire ep"
  "ep_wire (ep\<lparr>greetd_ready_for_challenge := b\<rparr>) = ep_wire ep"
  "ep_wire (ep\<lparr>leader_pidfd := fd\<rparr>) = ep_wire ep"
  by (simp_all add: ep_wire_def split: option.split)

type_synonym identity = "string \<times> u32 \<times> u32"

abbreviation spawn_identity :: "spawn_request \<Rightarrow> identity" where
  "spawn_identity sp \<equiv> (sr_username sp, sr_uid sp, sr_gid sp)"

text \<open>\<open>ids\<close>: the identities the broker has reported so far.\<close>

definition ids_conn :: "identity set \<Rightarrow> connection \<Rightarrow> bool" where
  "ids_conn ids c \<longleftrightarrow> (\<forall>u i g. conn_state c = AuthSuccess u i g \<longrightarrow> (u, i, g) \<in> ids)"

definition ids_steps :: "identity set \<Rightarrow> pam_step list \<Rightarrow> bool" where
  "ids_steps ids ps \<longleftrightarrow> (\<forall>u i g. PamSuccess u i g \<in> set ps \<longrightarrow> (u, i, g) \<in> ids)"

definition ep_inv :: "identity set \<Rightarrow> broker_episode \<Rightarrow> bool" where
  "ep_inv ids ep \<longleftrightarrow> conn_inv (ep_conn ep) \<and> ep_wire ep \<and> ids_conn ids (ep_conn ep) \<and>
     ids_steps ids (pending_challenges ep) \<and>
     (closed (ep_conn ep) \<or> greetd_ready_for_challenge ep = awaiting_pam (ep_conn ep))"

text \<open>The same, while a demand of the connection is still to be acted on.\<close>

definition demand_ok :: "identity set \<Rightarrow> broker_episode \<Rightarrow> demand \<Rightarrow> bool" where
  "demand_ok ids ep d \<longleftrightarrow> conn_inv (ep_conn ep) \<and> ep_wire ep \<and> ids_conn ids (ep_conn ep) \<and>
     ids_steps ids (pending_challenges ep) \<and> demand_matches (ep_conn ep) d \<and>
     (closed (ep_conn ep) \<or> \<not> greetd_ready_for_challenge ep) \<and>
     (\<forall>sp. d = DemandSpawn sp \<longrightarrow> spawn_identity sp \<in> ids)"

text \<open>A spawn that was reported: whose, with which command, and on the wire.\<close>

definition spawn_ok :: "identity set \<Rightarrow> broker_episode \<Rightarrow> spawn_request \<Rightarrow> bool" where
  "spawn_ok ids ep sp \<longleftrightarrow> spawn_identity sp \<in> ids \<and> closed (ep_conn ep) \<and>
     (\<exists>path args. sr_cmd sp = (CHR ''/'' # path) # args) \<and>
     (\<exists>before. ch_sent (ep_chan ep) =
        before @ [StartSessionFrame (sr_cmd sp) (map split_env_pair (sr_env sp))])"

lemma conn_step_ok:
  assumes "conn_inv c" and "ids_conn ids c"
    and "\<And>u i g. e = Resume (PamSuccess u i g) \<Longrightarrow> (u, i, g) \<in> ids"
  shows "conn_inv (fst (conn_step G c e))" "ids_conn ids (fst (conn_step G c e))"
    "snd (conn_step G c e) = Inr ok \<Longrightarrow> demand_matches (fst (conn_step G c e)) (demanded ok)"
    "snd (conn_step G c e) = Inr ok \<Longrightarrow> demanded ok = DemandSpawn sp \<Longrightarrow> spawn_identity sp \<in> ids"
proof -
  show "conn_inv (fst (conn_step G c e))" using conn.inv_step assms(1) .
  show "ids_conn ids (fst (conn_step G c e))"
    using assms(2,3) step_to_AuthSuccess unfolding ids_conn_def by blast
  show "snd (conn_step G c e) = Inr ok \<Longrightarrow> demand_matches (fst (conn_step G c e)) (demanded ok)"
    by (rule step_demand_matches)
  show "snd (conn_step G c e) = Inr ok \<Longrightarrow> demanded ok = DemandSpawn sp \<Longrightarrow> spawn_identity sp \<in> ids"
    using assms(2,3) step_spawns unfolding ids_conn_def by blast
qed

lemmas resume_ok = conn_step_ok [where e = "Resume p" for p, simplified, unfolded split_beta Let_def, simplified]
lemmas feed_ok = conn_step_ok [where e = "Feed bytes" for bytes, simplified, unfolded split_beta Let_def, simplified]

definition ep_order :: "broker_episode \<Rightarrow> bool" where
  "ep_order ep \<longleftrightarrow> (case ep_relay ep of None \<Rightarrow> ch_sent (ep_chan ep) = []
     | Some r \<Rightarrow> br_service r = ep_service ep \<and> frames_in PreAuth (begin_frame r) (ch_sent (ep_chan ep)))"

lemma fail_closed_inv:
  assumes "fail_closed E ep out = (out', ep')" and "ids_conn ids (ep_conn ep)"
    and "ids_steps ids (pending_challenges ep)"
    and "ep_order ep"
  shows "ep_inv ids ep'" "spawned out' = spawned out" "closed (ep_conn ep')"
proof -
  let ?c = "snd (broker_closed (ee_greetd E) (ep_conn ep))"
  have ep': "ep' = ep\<lparr>ep_relay := map_option poison (ep_relay ep), ep_conn := ?c\<rparr>"
    and out': "spawned out' = spawned out"
    using assms(1) by (auto simp: fail_closed_def split_beta Let_def)
  note cl = broker_closed_closes [of "ee_greetd E" "ep_conn ep"]
  show "closed (ep_conn ep')" "spawned out' = spawned out" using ep' out' cl by simp_all
  have "ids_conn ids ?c" using assms(2) cl(3) by (auto simp: ids_conn_def)
  moreover have "ep_wire ep'"
    using assms(4) wire_in_poison ep' by (auto simp: ep_order_def ep_wire_def poison_def split: option.splits)
  ultimately show "ep_inv ids ep'"
    using assms(3) cl(1) ep' by (simp add: ep_inv_def inv_simps)
qed

lemma ep_wire_order:
  "ep_wire ep \<Longrightarrow> ep_order ep"
  using wire_in_order by (fastforce simp: ep_wire_def ep_order_def split: option.splits)

lemma channel_send_cases:
  obtains (took) ch where "channel_send E c f = (Inr (), ch)" "ch_sent ch = ch_sent c @ [f]"
  | (lost) e ch where "channel_send E c f = (Inl e, ch)" "ch_sent ch = ch_sent c"
proof (cases "channel_send E c f")
  case (Pair res ch)
  then have "(res = Inr () \<and> ch_sent ch = ch_sent c @ [f]) \<or> ((\<exists>e. res = Inl e) \<and> ch_sent ch = ch_sent c)"
    by (auto simp: channel_send_def Let_def split: sum.splits if_splits)
  then consider "res = Inr ()" "ch_sent ch = ch_sent c @ [f]" | e where "res = Inl e" "ch_sent ch = ch_sent c"
    by blast
  then show thesis by cases (use Pair in \<open>simp_all add: took lost\<close>)
qed

text \<open>Sending the frame that a relay call produced keeps the invariant, sent or not.\<close>

lemma send_or_fail_inv:
  assumes step: "send_or_fail E ep f out sent_out = (out', ep')"
    and ep: "ep_relay ep = Some r" "br_service r = ep_service ep"
    and wire: "wire_in r (ch_sent (ep_chan ep) @ [f])"
      "frames_in PreAuth (begin_frame r) (ch_sent (ep_chan ep))"
    and conn: "conn_inv (ep_conn ep)" "ids_conn ids (ep_conn ep)"
      "ids_steps ids (pending_challenges ep)"
      "closed (ep_conn ep) \<or> greetd_ready_for_challenge ep = awaiting_pam (ep_conn ep)"
  shows "ep_inv ids ep'"
    "spawned out' = spawned out \<or> (out' = sent_out \<and> ch_sent (ep_chan ep') = ch_sent (ep_chan ep) @ [f] \<and> ep_conn ep' = ep_conn ep)"
proof -
  have "ep_inv ids ep' \<and> (spawned out' = spawned out \<or>
    (out' = sent_out \<and> ch_sent (ep_chan ep') = ch_sent (ep_chan ep) @ [f] \<and> ep_conn ep' = ep_conn ep))"
  proof (cases E "ep_chan ep" f rule: channel_send_cases)
    case (took ch)
    then have "out' = sent_out" "ep' = ep\<lparr>ep_chan := ch\<rparr>"
      using step by (simp_all add: send_or_fail_def)
    then show ?thesis using took ep wire(1) conn by (simp add: ep_inv_def ep_wire_def)
  next
    case (lost e ch)
    then have f: "fail_closed E (ep\<lparr>ep_chan := ch\<rparr>) out = (out', ep')"
      using step by (simp add: send_or_fail_def)
    show ?thesis
      using fail_closed_inv [OF f, of ids] ep wire(2) lost(2) conn(2,3) by (simp add: ep_order_def)
  qed
  then show "ep_inv ids ep'"
    "spawned out' = spawned out \<or> (out' = sent_out \<and> ch_sent (ep_chan ep') = ch_sent (ep_chan ep) @ [f] \<and> ep_conn ep' = ep_conn ep)"
    by auto
qed

lemma resolve_absolute:
  assumes "resolve_command_path is_file cmd = Some resolved"
  shows "\<exists>path args. resolved = (CHR ''/'' # path) # args"
proof -
  have "dir \<in> set SYSTEM_PATH \<Longrightarrow> \<exists>d. dir = CHR ''/'' # d" for dir
    by (auto simp: SYSTEM_PATH_def)
  moreover have "find P xs = Some x \<Longrightarrow> x \<in> set xs" for P and xs :: "string list" and x
    by (auto simp: find_Some_iff)
  moreover have "take 1 first = ''/'' \<Longrightarrow> \<exists>path. first = CHR ''/'' # path" for first
    by (cases first) auto
  ultimately show ?thesis
    using assms
    by (fastforce simp: resolve_command_path_def path_join_def split: list.splits if_splits)
qed

lemma act_on_spawn_inv:
  assumes ok: "demand_ok ids ep (DemandSpawn sp)" and act: "act_on_spawn E ep sp out = (out', ep')"
  shows "ep_inv ids ep' \<and> (spawned out' = spawned out \<or> (\<exists>sp'. spawned out' = Some sp' \<and> spawn_ok ids ep' sp'))"
proof -
  have cl: "closed (ep_conn ep)" and wire: "ep_wire ep" and id: "spawn_identity sp \<in> ids"
    and conn: "conn_inv (ep_conn ep)" "ids_conn ids (ep_conn ep)" "ids_steps ids (pending_challenges ep)"
    using ok by (auto simp: demand_ok_def)
  note fails = fail_closed_inv [of E _ out out' ep' ids]
  show ?thesis
  proof (cases "ep_relay ep")
    case None
    then show ?thesis using act fails [of ep] conn ep_wire_order [OF wire] by (simp add: act_on_spawn_def)
  next
    case relay: (Some r)
    then have w: "br_service r = ep_service ep" "wire_in r (ch_sent (ep_chan ep))"
      using wire by (simp_all add: ep_wire_def)
    show ?thesis
    proof (cases "resolve_command_path (ee_is_file E) (sr_cmd sp)")
      case None
      then show ?thesis using act fails [of ep] conn ep_wire_order [OF wire] relay
        by (simp add: act_on_spawn_def)
    next
      case (Some resolved)
      obtain res r' where ss: "start_session r resolved (sr_env sp) = (res, r')" by force
      let ?ep = "ep\<lparr>ep_relay := Some r'\<rparr>" and ?sp = "sp\<lparr>sr_cmd := resolved\<rparr>"
      note sw = start_session_wire [OF w(2) ss]
      show ?thesis
      proof (cases res)
        case (Inl e)
        then have "fail_closed E ?ep out = (out', ep')"
          using act relay Some ss by (simp add: act_on_spawn_def)
        then show ?thesis using fails [of ?ep] conn sw w wire_in_order [OF w(2)] by (simp add: ep_order_def)
      next
        case (Inr f)
        then have s: "send_or_fail E ?ep f out (out\<lparr>spawned := Some ?sp\<rparr>) = (out', ep')"
          using act relay Some ss by (simp add: act_on_spawn_def)
        have f: "f = StartSessionFrame resolved (map split_env_pair (sr_env sp))"
          "wire_in r' (ch_sent (ep_chan ep) @ [f])" using sw(3) Inr by auto
        have "ep_inv ids ep' \<and> (spawned out' = spawned out \<or>
            (out' = out\<lparr>spawned := Some ?sp\<rparr> \<and> ch_sent (ep_chan ep') = ch_sent (ep_chan ep) @ [f] \<and>
             ep_conn ep' = ep_conn ep))"
          using send_or_fail_inv [OF s, of r' ids] sw w f(2) conn cl wire_in_order [OF w(2)] by simp
        then show ?thesis
          using id cl f(1) resolve_absolute [OF Some] by (auto simp: spawn_ok_def)
      qed
    qed
  qed
qed

lemma act_on_demand_inv:
  "demand_ok ids ep d \<Longrightarrow> act_on_demand E ep rep d out = (out', ep') \<Longrightarrow>
     ep_inv ids ep' \<and> (spawned out' = spawned out \<or> (\<exists>sp. spawned out' = Some sp \<and> spawn_ok ids ep' sp))"
proof (induction "length (pending_challenges ep)" arbitrary: ep rep d out rule: less_induct)
  case less
  let ?out = "out\<lparr>greeter_reply := greeter_reply out @ rep\<rparr>"
  note ok = less.prems(1) [unfolded demand_ok_def]
  note act = less.prems(2) [unfolded act_on_demand.simps [of E ep rep d out] Let_def]
  show ?case
  proof (cases d)
    case Continue
    then show ?thesis using ok act by (auto simp: ep_inv_def)
  next
    case Close
    then show ?thesis using ok act by (auto simp: ep_inv_def)
  next
    case (DemandSpawn sp)
    then show ?thesis using act_on_spawn_inv [of ids ep sp E ?out] less.prems(1) act by simp
  next
    case (DemandPam response)
    obtain res r' where step: "on_pam_step (relay_for_pam ep) response = (res, r')" by force
    let ?r = "relay_for_pam ep"
    let ?ep = "ep\<lparr>greetd_ready_for_challenge := True, ep_relay := Some r'\<rparr>"
    have r: "br_service ?r = ep_service ep" "wire_in ?r (ch_sent (ep_chan ep))"
      using ok by (auto simp: relay_for_pam_def ep_wire_def new_broker_relay_def wire_in_def
          split: option.splits)
    note pw = on_pam_step_wire [OF r(2) step]
    have order: "frames_in PreAuth (begin_frame r') (ch_sent (ep_chan ep))"
      using wire_in_order [OF r(2)] pw(1,2) by simp
    have susp: "\<not> closed (ep_conn ep)" "awaiting_pam (ep_conn ep)" using ok DemandPam by simp_all
    consider (frame) f where "res = Inr (Some f)" | (swallow) "res = Inr None" | (bad) "res = Inl OutOfPhase"
      by (metis obj_sumE option.exhaust relay_error.exhaust)
    then show ?thesis
    proof cases
      case frame
      then have s: "send_or_fail E ?ep f ?out ?out = (out', ep')" using act DemandPam step by simp
      show ?thesis
        using send_or_fail_inv [OF s, of r' ids] pw(1,3) r(1) frame order ok susp by auto
    next
      case bad
      then have "fail_closed E ?ep ?out = (out', ep')" using act DemandPam step by simp
      then show ?thesis using fail_closed_inv [of E ?ep ?out out' ep' ids] ok order pw(1) r(1) by (simp add: ep_order_def)
    next
      case swallow
      show ?thesis
      proof (cases "pending_challenges ep")
        case Nil
        then show ?thesis
          using act DemandPam step swallow ok susp pw(1,4) r(1) by (auto simp: ep_inv_def ep_wire_def)
      next
        case (Cons p rest)
        obtain res2 c where rp: "resume_pam (ee_greetd E) (ep_conn ep) p = (res2, c)" by force
        let ?ep2 = "?ep\<lparr>pending_challenges := rest, greetd_ready_for_challenge := False, ep_conn := c\<rparr>"
        have ids: "\<And>u i g. p = PamSuccess u i g \<Longrightarrow> (u, i, g) \<in> ids" "ids_steps ids rest"
          using ok Cons by (auto simp: ids_steps_def)
        note ro = resume_ok [of "ep_conn ep" ids p "ee_greetd E", unfolded rp, simplified]
        have c: "conn_inv c" "ids_conn ids c" using ro(1,2) ok ids(1) by auto
        show ?thesis
        proof (cases res2)
          case (Inl e)
          then have "fail_closed E ?ep2 ?out = (out', ep')"
            using act DemandPam step swallow Cons rp by simp
          then show ?thesis
            using fail_closed_inv [of E ?ep2 ?out out' ep' ids] c ids(2) order pw(1) r(1) by (simp add: ep_order_def)
        next
          case (Inr oc)
          then have a: "act_on_demand E ?ep2 (reply oc) (demanded oc) ?out = (out', ep')"
            using act DemandPam step swallow Cons rp by simp
          have "demand_ok ids ?ep2 (demanded oc)"
            using c ids ro(3,4) ok Inr pw(1,4) swallow r(1)
            by (auto simp: demand_ok_def ep_wire_def)
          from less.hyps [OF _ this a] Cons show ?thesis by simp
        qed
      qed
    qed
  qed
qed

lemma drive_awaiting:
  assumes "\<not> awaiting_pam c" and "fst (drive E c out) = Inl e"
  shows "\<not> awaiting_pam (snd (drive E c out))"
proof -
  have "fst (drive E c out) = Inl e \<longrightarrow> \<not> awaiting_pam (snd (drive E c out))"
  proof (rule drive_rule [where I = "\<lambda>c. \<not> awaiting_pam c"])
  qed (use assms in auto)
  then show ?thesis using assms(2) by simp
qed

section \<open>Runs of an episode\<close>

datatype ep_event =
    GreeterBytes "byte list"
  | BrokerReadable recvmsg_result
  | TakePidfd

fun ep_step :: "episode_env \<Rightarrow> broker_episode \<Rightarrow> ep_event \<Rightarrow> broker_episode \<times> episode_outcome" where
  "ep_step E ep (GreeterBytes bytes) = (let (out, ep') = on_greeter_bytes E ep bytes in (ep', out))"
| "ep_step E ep (BrokerReadable r) = (let (out, ep') = on_broker_readable E ep r in (ep', out))"
| "ep_step E ep TakePidfd = (snd (take_leader_pidfd ep), default_outcome)"

text \<open>The identities the broker reported in a list of events.\<close>

definition reported :: "episode_env \<Rightarrow> ep_event list \<Rightarrow> identity set" where
  "reported E es = {(u, i, g). \<exists>r fd. BrokerReadable r \<in> set es \<and>
     fst (recv_with_fd E r) = Inr (Some (AuthOkFrame u i g, fd))}"

lemma ep_inv_mono: "ep_inv ids ep \<Longrightarrow> ids \<subseteq> ids' \<Longrightarrow> ep_inv ids' ep"
  by (auto simp: ep_inv_def ids_conn_def ids_steps_def)

lemma on_greeter_bytes_inv:
  assumes inv: "ep_inv ids ep" and step: "on_greeter_bytes E ep bytes = (out, ep')"
  shows "ep_inv ids ep' \<and> (\<forall>sp. spawned out = Some sp \<longrightarrow> spawn_ok ids ep' sp)"
proof -
  obtain r c where f: "feed_greeter (ee_greetd E) (ep_conn ep) bytes = (r, c)" by force
  note fo = feed_ok [of "ep_conn ep" ids "ee_greetd E" bytes, unfolded f, simplified]
  have i: "conn_inv (ep_conn ep)" "ids_conn ids (ep_conn ep)" "ep_wire ep"
      "ids_steps ids (pending_challenges ep)"
      "closed (ep_conn ep) \<or> greetd_ready_for_challenge ep = awaiting_pam (ep_conn ep)"
    using inv by (simp_all add: ep_inv_def)
  have c: "conn_inv c" "ids_conn ids c" using fo(1,2) i by auto
  have ready: "closed c \<or> \<not> greetd_ready_for_challenge ep \<and> (r = Inl e \<longrightarrow> \<not> awaiting_pam c)" for e
    using f i(5) drive_awaiting [of "(ep_conn ep)\<lparr>read_buf := read_buf (ep_conn ep) @ bytes\<rparr>" "ee_greetd E" "[]"]
    by (auto simp: feed_greeter_def Let_def split: if_splits)
  show ?thesis
  proof (cases r)
    case (Inl e)
    then show ?thesis using step f c i ready [of e]
      by (auto simp: on_greeter_bytes_def ep_inv_def default_outcome_def)
  next
    case (Inr oc)
    have "demand_ok ids (ep\<lparr>ep_conn := c\<rparr>) (demanded oc)"
      using c i ready fo(3,4) Inr by (auto simp: demand_ok_def)
    from act_on_demand_inv [OF this, of E "reply oc" default_outcome out ep'] show ?thesis
      using step f Inr by (auto simp: on_greeter_bytes_def default_outcome_def)
  qed
qed

lemma on_broker_readable_inv:
  assumes inv: "ep_inv ids ep" and step: "on_broker_readable E ep r = (out, ep')"
    and "reported E [BrokerReadable r] \<subseteq> ids"
  shows "ep_inv ids ep' \<and> (\<forall>sp. spawned out = Some sp \<longrightarrow> spawn_ok ids ep' sp)"
proof -
  have i: "conn_inv (ep_conn ep)" "ids_conn ids (ep_conn ep)" "ep_wire ep"
      "ids_steps ids (pending_challenges ep)"
      "closed (ep_conn ep) \<or> greetd_ready_for_challenge ep = awaiting_pam (ep_conn ep)"
    using inv by (simp_all add: ep_inv_def)
  note fails = fail_closed_inv [of E _ default_outcome out ep' ids]
  have none: "spawned default_outcome = None" by (simp add: default_outcome_def)
  consider (spurious) "fst (recv_with_fd E r) = Inr None" | (lost) e where "fst (recv_with_fd E r) = Inl e"
    | (early) p where "fst (recv_with_fd E r) = Inr (Some p)" "ep_relay ep = None"
    | (frame) f fd relay where "fst (recv_with_fd E r) = Inr (Some (f, fd))" "ep_relay ep = Some relay"
    by (metis obj_sumE option.exhaust surj_pair)
  then show ?thesis
  proof cases
    case spurious
    then show ?thesis using step inv none by (auto simp: on_broker_readable_def)
  next
    case lost
    then show ?thesis using step i none ep_wire_order fails [of ep] by (simp add: on_broker_readable_def)
  next
    case early
    then show ?thesis using step i none ep_wire_order fails [of ep]
      by (simp add: on_broker_readable_def split_beta)
  next
    case (frame f fd relay)
    obtain ev relay' where ev: "on_broker_frame relay f = (ev, relay')" by force
    let ?ep = "ep\<lparr>ep_relay := Some relay'\<rparr>"
    have w: "br_service relay' = ep_service ep" "wire_in relay' (ch_sent (ep_chan ep))"
      using on_broker_frame_wire [OF _ ev, of "ch_sent (ep_chan ep)"] i(3) frame(2)
      by (simp_all add: ep_wire_def)
    then have we: "ep_wire ?ep" by (simp add: ep_wire_def)
    have st: "(case ev of
           Inr (RelayPam step) \<Rightarrow>
             if greetd_ready_for_challenge ?ep then
               let (r, c) = resume_pam (ee_greetd E) (ep_conn ?ep) step;
                   ep'' = ?ep\<lparr>greetd_ready_for_challenge := False, ep_conn := c\<rparr> in
               case r of
                 Inr oc \<Rightarrow> act_on_demand E ep'' (reply oc) (demanded oc) default_outcome
               | Inl _ \<Rightarrow> fail_closed E ep'' default_outcome
             else (default_outcome, ?ep\<lparr>pending_challenges := pending_challenges ?ep @ [step]\<rparr>)
         | Inr RelaySessionOpened \<Rightarrow>
             (default_outcome\<lparr>session_opened_key := True\<rparr>, ?ep\<lparr>leader_pidfd := fd\<rparr>)
         | Inr (RelaySessionEnded oc) \<Rightarrow>
             (default_outcome\<lparr>session_ended_with := Some oc, terminate := True\<rparr>, ?ep)
         | Inl OutOfPhase \<Rightarrow> fail_closed E ?ep default_outcome) = (out, ep')"
      using step frame ev by (simp add: on_broker_readable_def Let_def)
    show ?thesis
    proof (cases ev)
      case (Inl e)
      then show ?thesis using st fails [of ?ep] i none ep_wire_order [OF we] by (cases e) simp
    next
      case (Inr rv)
      show ?thesis
      proof (cases rv)
        case (RelayPam p)
        have ids: "\<And>u i g. p = PamSuccess u i g \<Longrightarrow> (u, i, g) \<in> ids"
          using assms(3) frame(1) ev Inr RelayPam
          by (auto simp: reported_def on_broker_frame_def split: relay_phase.splits
              broker_to_compositor.splits)
        show ?thesis
        proof (cases "greetd_ready_for_challenge ep")
          case False
          then have "out = default_outcome"
            "ep' = ?ep\<lparr>pending_challenges := pending_challenges ep @ [p]\<rparr>"
            using st Inr RelayPam by simp_all
          then show ?thesis using i we ids none
            by (auto simp: ep_inv_def ep_wire_def ids_steps_def)
        next
          case True
          obtain res c where rp: "resume_pam (ee_greetd E) (ep_conn ep) p = (res, c)" by force
          let ?ep2 = "?ep\<lparr>greetd_ready_for_challenge := False, ep_conn := c\<rparr>"
          note ro = resume_ok [of "ep_conn ep" ids p "ee_greetd E", unfolded rp, simplified]
          have c: "conn_inv c" "ids_conn ids c" using ro(1,2) i ids by auto
          show ?thesis
          proof (cases res)
            case res: (Inl e)
            then show ?thesis
              using st Inr RelayPam True rp fails [of ?ep2] c i none ep_wire_order [of ?ep2] we
              by (simp add: ep_wire_def)
          next
            case res: (Inr oc)
            have "demand_ok ids ?ep2 (demanded oc)"
              using c i ids ro(3,4) res we by (auto simp: demand_ok_def ep_wire_def)
            from act_on_demand_inv [OF this, of E "reply oc" default_outcome out ep'] show ?thesis
              using st Inr RelayPam True rp res none by auto
          qed
        qed
      qed (use st Inr i we none in \<open>auto simp: ep_inv_def ep_wire_def\<close>)
    qed
  qed
qed

lemma ep_step_inv:
  assumes "ep_inv ids ep"
  shows "ep_inv (ids \<union> reported E [e]) (fst (ep_step E ep e))"
    "spawned (snd (ep_step E ep e)) = Some sp \<Longrightarrow> spawn_ok (ids \<union> reported E [e]) (fst (ep_step E ep e)) sp"
proof -
  have inv: "ep_inv (ids \<union> reported E [e]) ep" using ep_inv_mono [OF assms] by blast
  have "ep_inv (ids \<union> reported E [e]) (fst (ep_step E ep e)) \<and>
    (\<forall>sp. spawned (snd (ep_step E ep e)) = Some sp \<longrightarrow> spawn_ok (ids \<union> reported E [e]) (fst (ep_step E ep e)) sp)"
  proof (cases e)
    case (GreeterBytes bytes)
    then show ?thesis
      using on_greeter_bytes_inv [OF inv, of E bytes] by (cases "on_greeter_bytes E ep bytes") simp
  next
    case (BrokerReadable r)
    then show ?thesis
      using on_broker_readable_inv [OF inv, of E r] by (cases "on_broker_readable E ep r") simp
  next
    case TakePidfd
    then show ?thesis using inv
      by (auto simp: take_leader_pidfd_def ep_inv_def default_outcome_def)
  qed
  then show "ep_inv (ids \<union> reported E [e]) (fst (ep_step E ep e))"
    "spawned (snd (ep_step E ep e)) = Some sp \<Longrightarrow> spawn_ok (ids \<union> reported E [e]) (fst (ep_step E ep e)) sp"
    by auto
qed

abbreviation fresh_episode :: "string \<Rightarrow> broker_episode" where
  "fresh_episode service \<equiv> new_broker_episode new_seqpacket_channel service"

lemma ep_run_inv: "ep_inv (reported E es) (final (ep_step E) (fresh_episode service) es)"
proof (induction es rule: rev_induct)
  case Nil
  then show ?case
    by (simp add: new_broker_episode_def ep_inv_def ep_wire_def ids_conn_def ids_steps_def
        new_connection_def new_seqpacket_channel_def inv_simps)
next
  case (snoc e es)
  have "reported E es \<union> reported E [e] = reported E (es @ [e])" by (auto simp: reported_def)
  with ep_step_inv(1) [OF snoc, of E e] show ?case by simp
qed

lemma fail_closed_service: "ep_service (snd (fail_closed E ep out)) = ep_service ep"
  by (simp add: fail_closed_def split_beta)

lemma send_or_fail_service: "ep_service (snd (send_or_fail E ep f out sent_out)) = ep_service ep"
  by (cases E "ep_chan ep" f rule: channel_send_cases)
    (simp_all add: send_or_fail_def fail_closed_service)

lemma act_on_demand_service: "ep_service (snd (act_on_demand E ep rep d out)) = ep_service ep"
proof (induction "length (pending_challenges ep)" arbitrary: ep rep d out rule: less_induct)
  case less
  then show ?case
    by (subst act_on_demand.simps)
      (auto simp: act_on_spawn_def fail_closed_service send_or_fail_service split_beta Let_def
        split: demand.split sum.split option.split list.split relay_error.split)
qed

lemma ep_step_service: "ep_service (fst (ep_step E ep e)) = ep_service ep"
  by (cases e) (auto simp: on_greeter_bytes_def on_broker_readable_def take_leader_pidfd_def
      fail_closed_service act_on_demand_service split_beta Let_def
      split: sum.split option.split relay_event.split relay_error.split)

lemma ep_run_service: "ep_service (final (ep_step E) (fresh_episode service) es) = service"
  by (induction es rule: rev_induct) (simp_all add: ep_step_service new_broker_episode_def)

text \<open>
  C4: no session without the broker's word.  Whatever the greeter sends, whatever the
  broker sends, however the kernel treats the sends: when an event of an episode reports
  a spawn, its username, uid and gid are exactly those of a success frame received from
  the broker on this channel by then, its command is an absolute path, and the last
  frame on the wire is the \<open>StartSession\<close> with that command and the split environment.
\<close>

theorem episode_spawn_authorised:
  assumes "i < length es"
    and "spawned (outputs (ep_step E) (fresh_episode service) es ! i) = Some sp"
  shows "spawn_identity sp \<in> reported E (take (Suc i) es) \<and>
    (\<exists>path args. sr_cmd sp = (CHR ''/'' # path) # args) \<and>
    (\<exists>before. ch_sent (ep_chan (final (ep_step E) (fresh_episode service) (take (Suc i) es))) =
       before @ [StartSessionFrame (sr_cmd sp) (map split_env_pair (sr_env sp))])"
proof -
  let ?ep = "final (ep_step E) (fresh_episode service) (take i es)"
  have t: "take (Suc i) es = take i es @ [es ! i]" using assms(1) by (simp add: take_Suc_conv_app_nth)
  have "spawned (snd (ep_step E ?ep (es ! i))) = Some sp"
    using assms outputs_nth by metis
  from ep_step_inv(2) [OF ep_run_inv this] have
    "spawn_ok (reported E (take i es) \<union> reported E [es ! i]) (fst (ep_step E ?ep (es ! i))) sp" .
  moreover have "reported E (take i es) \<union> reported E [es ! i] = reported E (take (Suc i) es)"
    unfolding t by (auto simp: reported_def)
  ultimately show ?thesis unfolding spawn_ok_def t by auto
qed

text \<open>A concrete kernel and JSON stand-in, for evaluating episodes on inputs.\<close>

definition demo_episode_env :: episode_env where
  "demo_episode_env = \<lparr>
     ee_greetd = demo_env\<lparr>ge_from_slice := (\<lambda>b. if b = [5] then Inr (CreateSession ''bob'') else ge_from_slice demo_env b)\<rparr>,
     ee_send = (\<lambda>n bytes. Inr (length bytes)),
     ee_frame_to_vec = (\<lambda>f. Inr [0]),
     ee_frame_from_slice = (\<lambda>b. if b = [1] then Inr (ConvPrompt PromptSecret ''Password: '')
        else if b = [2] then Inr (ConvDisplay DisplayInfo ''Welcome'')
        else if b = [3] then Inr (AuthOkFrame ''alice'' 1000 100)
        else if b = [4] then Inr SessionOpened else Inl ''expected value''),
     ee_is_file = (\<lambda>p. False)\<rparr>"

abbreviation datagram :: "byte \<Rightarrow> ep_event" where
  "datagram b \<equiv> BrokerReadable (Inr ([1, 0, 0, 0, b], Inr []))"

abbreviation request_bytes :: "byte \<Rightarrow> ep_event" where
  "request_bytes b \<equiv> GreeterBytes [1, 0, 0, 0, b]"

lemmas episode_eval = greetd_eval demo_episode_env_def new_broker_episode_def new_seqpacket_channel_def
  default_outcome_def on_greeter_bytes_def on_broker_readable_def act_on_demand.simps act_on_spawn_def
  relay_for_pam_def send_or_fail_def channel_send_def recv_with_fd_def fail_closed_def
  on_pam_step_def on_broker_frame_def start_session_def poison_def new_broker_relay_def
  pending_username_def ipc_encode_def ipc_try_decode_def IPC_LENGTH_PREFIX_SIZE_def
  IPC_MAX_MESSAGE_SIZE_def resolve_command_path_def split_env_pair_def

theorem episode_spawn_authorised_witness:
  "let es = [request_bytes 1, datagram 1, request_bytes 2, datagram 3, request_bytes 3] in
   (''alice'', 1000, 100) \<in> reported demo_episode_env (take (Suc 4) es)"
proof -
  let ?es = "[request_bytes 1, datagram 1, request_bytes 2, datagram 3, request_bytes 3]"
  have "spawned (outputs (ep_step demo_episode_env) (fresh_episode ''login'') ?es ! 4)
    = Some \<lparr>sr_username = ''alice'', sr_uid = 1000, sr_gid = 100, sr_cmd = [''/bin/niri''], sr_env = []\<rparr>"
    by (simp add: episode_eval)
  from episode_spawn_authorised [OF _ this] show ?thesis by simp
qed

section \<open>Order on the wire, the mirrored flag, and closed episodes\<close>

text \<open>
  Amendment A1's order holds for what really left on the channel, also when sends
  fail or are cut short: nothing, or one \<open>BeginAuth\<close> for the configured PAM service,
  then \<open>ConvResponse\<close> frames only, then at most one \<open>StartSession\<close>, the last frame ever.
\<close>

theorem episode_wire_order:
  "let fs = ch_sent (ep_chan (final (ep_step E) (fresh_episode service) es)) in
   fs = [] \<or> (\<exists>user secrets tail. fs = BeginAuth service user # map ConvResponse secrets @ tail \<and>
     (tail = [] \<or> (\<exists>cmd env. tail = [StartSessionFrame cmd env])))"
proof -
  let ?ep = "final (ep_step E) (fresh_episode service) es"
  have "ep_order ?ep" using ep_run_inv [of E es service] ep_wire_order by (simp add: ep_inv_def)
  then consider "ch_sent (ep_chan ?ep) = []"
    | r where "br_service r = service" "frames_in PreAuth (begin_frame r) (ch_sent (ep_chan ?ep))"
    using ep_run_service [of E service es] by (auto simp: ep_order_def split: option.splits)
  then show ?thesis
  proof cases
    case 2
    then show ?thesis using frames_in_PreAuth [OF 2(2)] unfolding Let_def by metis
  qed simp
qed

text \<open>
  the flag \<open>greetd_ready_for_challenge\<close> really mirrors the greetd connection: after
  any sequence of events it equals \<open>awaiting_pam\<close>, or the connection is closed; so a
  PAM step is never pushed into a connection that did not ask for one.
\<close>

theorem ready_flag_mirrors_greetd:
  "let ep = final (ep_step E) (fresh_episode service) es in
   closed (ep_conn ep) \<or> greetd_ready_for_challenge ep = awaiting_pam (ep_conn ep)"
  using ep_run_inv [of E es service] by (simp add: ep_inv_def Let_def)

lemma closed_resume: "closed c \<Longrightarrow> resume_pam G c p = (Inr \<lparr>reply = [], demanded = Close\<rparr>, c)"
  by (simp add: resume_pam_def)

lemma closed_feed: "closed c \<Longrightarrow> feed_greeter G c bytes = (Inr \<lparr>reply = [], demanded = Close\<rparr>, c)"
  by (simp add: feed_greeter_def)

lemma closed_broker_closed: "closed c \<Longrightarrow> broker_closed G c = (\<lparr>reply = [], demanded = Close\<rparr>, c)"
  by (simp add: broker_closed_def)

text \<open>A closed connection makes the episode silent towards greeter and broker.\<close>

lemma closed_episode_step:
  assumes "closed (ep_conn ep)"
  shows "ep_conn (fst (ep_step E ep e)) = ep_conn ep" "ep_chan (fst (ep_step E ep e)) = ep_chan ep"
    "greeter_reply (snd (ep_step E ep e)) = []" "spawned (snd (ep_step E ep e)) = None"
  using assms
  by (cases e; auto simp: on_greeter_bytes_def on_broker_readable_def take_leader_pidfd_def
      closed_resume closed_feed closed_broker_closed act_on_demand.simps fail_closed_def
      default_outcome_def split_beta Let_def
      split: sum.split option.split relay_event.split relay_error.split)+

lemma closed_episode_run:
  assumes "closed (ep_conn ep)"
  shows "list_all (\<lambda>out. spawned out = None \<and> greeter_reply out = []) (outputs (ep_step E) ep es)"
    "ep_chan (final (ep_step E) ep es) = ep_chan ep"
  using assms by (induction es arbitrary: ep) (simp_all add: closed_episode_step)

text \<open>
  at most one session per episode: once an event reported a spawn, no later event
  reports one, the greeter is sent nothing more and the channel carries no further frame.
\<close>

theorem episode_spawns_once:
  assumes "spawned (snd (ep_step E (final (ep_step E) (fresh_episode service) es) e)) = Some sp"
  shows "list_all (\<lambda>out. spawned out = None \<and> greeter_reply out = [])
      (outputs (ep_step E) (final (ep_step E) (fresh_episode service) (es @ [e])) later) \<and>
    ep_chan (final (ep_step E) (fresh_episode service) (es @ e # later)) =
      ep_chan (final (ep_step E) (fresh_episode service) (es @ [e]))"
proof -
  have "closed (ep_conn (final (ep_step E) (fresh_episode service) (es @ [e])))"
    using ep_step_inv(2) [OF ep_run_inv assms] by (simp add: spawn_ok_def)
  from closed_episode_run [OF this, of E later] show ?thesis by simp
qed

theorem episode_spawns_once_witness:
  "let es = [request_bytes 1, datagram 3]; e = request_bytes 3 in
   list_all (\<lambda>out. spawned out = None \<and> greeter_reply out = [])
      (outputs (ep_step demo_episode_env) (final (ep_step demo_episode_env) (fresh_episode ''login'') (es @ [e]))
        [request_bytes 3, datagram 3])"
proof -
  let ?es = "[request_bytes 1, datagram 3]" and ?e = "request_bytes 3"
  have "spawned (snd (ep_step demo_episode_env
      (final (ep_step demo_episode_env) (fresh_episode ''login'') ?es) ?e))
    = Some \<lparr>sr_username = ''alice'', sr_uid = 1000, sr_gid = 100, sr_cmd = [''/bin/niri''], sr_env = []\<rparr>"
    by (simp add: episode_eval)
  from episode_spawns_once [OF this] show ?thesis unfolding Let_def by blast
qed

section \<open>Failing closed\<close>

definition ep_dead :: "broker_episode \<Rightarrow> bool" where
  "ep_dead ep \<longleftrightarrow> closed (ep_conn ep) \<and> (\<forall>r. ep_relay ep = Some r \<longrightarrow> br_phase r = PhaseDone)"

lemma fail_closed_dead: "ep_dead (snd (fail_closed E ep out))"
  using broker_closed_closes(1) [of "ee_greetd E" "ep_conn ep"]
  by (auto simp: ep_dead_def fail_closed_def poison_def split_beta)

lemma dead_refuses: "br_phase r = PhaseDone \<Longrightarrow> on_broker_frame r f = (Inl OutOfPhase, r)"
  by (simp add: on_broker_frame_def)

lemma dead_step:
  assumes "ep_dead ep"
  shows "ep_dead (fst (ep_step E ep e))" "\<not> session_opened_key (snd (ep_step E ep e))"
    "session_ended_with (snd (ep_step E ep e)) = None"
  using assms
  by (cases e; auto simp: ep_dead_def on_greeter_bytes_def on_broker_readable_def
      take_leader_pidfd_def closed_feed closed_broker_closed dead_refuses act_on_demand.simps
      fail_closed_def poison_def default_outcome_def split_beta Let_def split: sum.split option.split)+

lemma dead_run:
  "ep_dead ep \<Longrightarrow> list_all (\<lambda>out. greeter_reply out = [] \<and> spawned out = None \<and>
     \<not> session_opened_key out \<and> session_ended_with out = None) (outputs (ep_step E) ep es)"
proof (induction es arbitrary: ep)
  case (Cons e es)
  then have "closed (ep_conn ep)" by (simp add: ep_dead_def)
  with Cons dead_step show ?case by (simp add: closed_episode_step)
qed simp

text \<open>
  C39: Amendment A7.4, failing closed: a hangup, a receive error or a malformed datagram
  from the broker ends the episode whatever state it is in: this event terminates it and
  reports no session, and ever after no spawn, no swap key, no session end, no byte to
  the greeter and no frame to the broker comes out of it.
\<close>

theorem broker_loss_is_final:
  assumes "fst (recv_with_fd E r) = Inl err"
  shows "terminate (snd (ep_step E ep (BrokerReadable r))) \<and>
    spawned (snd (ep_step E ep (BrokerReadable r))) = None \<and>
    list_all (\<lambda>out. greeter_reply out = [] \<and> spawned out = None \<and> \<not> session_opened_key out \<and>
      session_ended_with out = None) (outputs (ep_step E) (fst (ep_step E ep (BrokerReadable r))) later) \<and>
    ep_chan (final (ep_step E) ep (BrokerReadable r # later)) = ep_chan ep"
proof -
  let ?ep = "snd (fail_closed E ep default_outcome)"
  have s: "ep_step E ep (BrokerReadable r) = (?ep, fst (fail_closed E ep default_outcome))"
    using assms by (simp add: on_broker_readable_def split_beta)
  have c: "ep_chan ?ep = ep_chan ep" by (simp add: fail_closed_def split_beta)
  have "closed (ep_conn ?ep)" using fail_closed_dead by (simp add: ep_dead_def)
  then have ch: "ep_chan (final (ep_step E) ?ep later) = ep_chan ep"
    using closed_episode_run(2) c by simp
  have "terminate (fst (fail_closed E ep default_outcome))"
    "spawned (fst (fail_closed E ep default_outcome)) = None"
    by (simp_all add: fail_closed_def default_outcome_def split_beta)
  with s ch dead_run [OF fail_closed_dead] show ?thesis by simp
qed

theorem broker_loss_is_final_witness:
  "terminate (snd (ep_step demo_episode_env (fresh_episode ''login'') (BrokerReadable (Inr ([], Inr [])))))"
proof -
  have "fst (recv_with_fd demo_episode_env (Inr ([], Inr []))) = Inl WireClosed"
    by (simp add: recv_with_fd_def)
  from broker_loss_is_final [OF this] show ?thesis by blast
qed

section \<open>Descriptors and command paths\<close>

text \<open>
  no descriptor that crosses the privilege boundary leaks: of the descriptors a
  datagram carried, each is either handed to the caller with a decoded frame or closed
  on the way out, on every branch; and the caller gets one only with a frame that fills
  the datagram exactly.
\<close>

theorem received_fds_accounted:
  assumes "recv_with_fd E (Inr (bytes, Inr cmsgs)) = (res, dropped)"
  shows "concat (map (case_option [] id) cmsgs) =
      (case res of Inr (Some (frame, Some f)) \<Rightarrow> [f] | _ \<Rightarrow> dropped) \<and>
    (\<forall>frame fd. res = Inr (Some (frame, fd)) \<longrightarrow> dropped = [] \<and>
      ipc_try_decode (ge_le (ee_greetd E)) (ee_frame_from_slice E) bytes = Inr (Some (frame, length bytes)))"
proof -
  have eq: "map (case_option [] id) cmsgs = map (\<lambda>c. case c of None \<Rightarrow> [] | Some raws \<Rightarrow> raws) cmsgs"
    by (simp add: id_def)
  show ?thesis
    using assms unfolding eq
    by (auto simp: recv_with_fd_def Let_def split: if_splits sum.splits option.splits prod.splits list.splits)
qed

theorem received_fds_accounted_witness:
  "recv_with_fd demo_episode_env (Inr ([1, 0, 0, 0, 4], Inr [None, Some [9]]))
     = (Inr (Some (SessionOpened, Some 9)), []) \<and>
   concat (map (case_option [] id) [None, Some [9 :: fd]]) = [9]"
proof -
  have r: "recv_with_fd demo_episode_env (Inr ([1, 0, 0, 0, 4], Inr [None, Some [9]]))
      = (Inr (Some (SessionOpened, Some 9)), [])" by (simp add: episode_eval)
  show ?thesis using r received_fds_accounted [OF r] by simp
qed

text \<open>
  command resolution is exact: a command comes out only with its arguments unchanged
  and without a NUL in its first word; an absolute one passes through, a relative one
  must be a plain name (no slash) and resolves to the first directory of the fixed
  system path that holds such a file, so a later directory never shadows an earlier one.
\<close>

theorem resolve_command_path_exact:
  "resolve_command_path is_file (first # args) = Some resolved \<longleftrightarrow>
     CHR 0x00 \<notin> set first \<and>
     (if \<exists>rest. first = CHR ''/'' # rest then resolved = first # args
      else CHR ''/'' \<notin> set first \<and>
        (\<exists>i < length SYSTEM_PATH. is_file (path_join (SYSTEM_PATH ! i) first) \<and>
           \<not> (\<exists>j < i. is_file (path_join (SYSTEM_PATH ! j) first)) \<and>
           resolved = path_join (SYSTEM_PATH ! i) first # args))"
proof -
  have abs: "take (Suc 0) first = ''/'' \<longleftrightarrow> (\<exists>rest. first = CHR ''/'' # rest)" by (cases first) auto
  show ?thesis
    by (auto simp: resolve_command_path_def abs find_Some_iff)
qed

section \<open>Two defects of the episode\<close>

text \<open>
  A greeter that cancels at a prompt and starts over for another user: the cancel is not
  relayed, the relay is still in the first user's conversation, and the new
  \<open>CreateSession\<close> is taken as the answer to the first user's prompt, an empty secret.
\<close>

lemma cancel_then_create_answers_old_prompt:
  "ch_sent (ep_chan (final (ep_step demo_episode_env) (fresh_episode ''login'')
      [request_bytes 1, datagram 1, request_bytes 4, request_bytes 5]))
     = [BeginAuth ''login'' ''alice'', ConvResponse (MkSecret [])]"
  by (simp add: episode_eval)

text \<open>
  A PAM stack that shows a message and then succeeds: the success arrives while the
  greeter has not acknowledged the message, it is queued, and the acknowledgement finds
  the relay already past authentication, so the login that succeeded fails closed.
\<close>

lemma success_after_display_is_lost:
  "let ep = final (ep_step demo_episode_env) (fresh_episode ''login'')
      [request_bytes 1, datagram 2, datagram 3] in
   pending_challenges ep = [PamSuccess ''alice'' 1000 100] \<and>
   terminate (snd (ep_step demo_episode_env ep (request_bytes 2))) \<and>
   greeter_reply (snd (ep_step demo_episode_env ep (request_bytes 2))) = [1, 0, 0, 0, 2]"
  by (simp add: episode_eval)

end
