(* ===== verification/Swap_Gate.thy ===== *)
theory Swap_Gate
  imports Prelude
begin

text \<open>
  The two-key flash-free gates of \<open>crates/halmasuit/src/swap_gate.rs\<close>:
  \<open>SwapGate\<close> (greeter to session) and \<open>GreeterSwapGate\<close> (wallpaper to greeter).
  Both are instances of one contract, the locale \<open>two_key_gate\<close>: the swap is
  emitted on the second of two keys, in whichever order they come, and never again.
\<close>

section \<open>The two-key contract\<close>

text \<open>
  \<open>keys g\<close> is \<open>Some (k1, k2)\<close> while the gate collects its keys and \<open>None\<close> once it
  has fired (or was disarmed).
\<close>

locale two_key_gate =
  fixes fresh :: 'g
    and key1 key2 :: "'g \<Rightarrow> 'a \<times> 'g"
    and keys :: "'g \<Rightarrow> (bool \<times> bool) option"
    and swap quiet :: 'a
  assumes keys_fresh: "keys fresh = Some (False, False)"
    and swap_loud: "swap \<noteq> quiet"
    and key1_second: "keys g = Some (k, True) \<Longrightarrow> fst (key1 g) = swap \<and> keys (snd (key1 g)) = None"
    and key1_first: "keys g = Some (k, False) \<Longrightarrow>
      fst (key1 g) = quiet \<and> keys (snd (key1 g)) = Some (True, False)"
    and key1_inert: "keys g = None \<Longrightarrow> key1 g = (quiet, g)"
    and key2_second: "keys g = Some (True, k) \<Longrightarrow> fst (key2 g) = swap \<and> keys (snd (key2 g)) = None"
    and key2_first: "keys g = Some (False, k) \<Longrightarrow>
      fst (key2 g) = quiet \<and> keys (snd (key2 g)) = Some (False, True)"
    and key2_inert: "keys g = None \<Longrightarrow> key2 g = (quiet, g)"
begin

text \<open>Keys as a list: \<open>True\<close> is the first key, \<open>False\<close> the second.\<close>

abbreviation press :: "'g \<Rightarrow> bool \<Rightarrow> 'g \<times> 'a" where
  "press g k \<equiv> (if k then (snd (key1 g), fst (key1 g)) else (snd (key2 g), fst (key2 g)))"

lemma press_inert: "keys g = None \<Longrightarrow> press g k = (g, quiet)"
  by (simp add: key1_inert key2_inert)

lemma fired_quiet: "keys g = None \<Longrightarrow> outputs press g ks = replicate (length ks) quiet"
  by (induction ks) (simp_all add: press_inert split del: if_split)

lemma first_key_only:
  "keys g = Some (k, \<not> k) \<Longrightarrow>
     outputs press g (replicate n k) = replicate n quiet \<and> keys (final press g (replicate n k)) = Some (k, \<not> k)"
  by (induction n arbitrary: g) (cases k; use key1_first key2_first in force)+

lemma swap_on_second_key:
  "outputs press fresh (replicate (Suc n) k @ (\<not> k) # ks)
     = replicate (Suc n) quiet @ swap # replicate (length ks) quiet"
proof -
  let ?g = "fst (press fresh k)"
  have g: "keys ?g = Some (k, \<not> k)" "snd (press fresh k) = quiet"
    using keys_fresh key1_first [of fresh] key2_first [of fresh] by (auto split: if_splits)
  let ?h = "final press ?g (replicate n k)"
  have h: "outputs press ?g (replicate n k) = replicate n quiet" "keys ?h = Some (k, \<not> k)"
    using first_key_only [OF g(1)] by blast+
  have "snd (press ?h (\<not> k)) = swap" "keys (fst (press ?h (\<not> k))) = None"
    using h(2) key1_second [of ?h] key2_second [of ?h] by (cases k; auto)+
  then show ?thesis
    using g(2) h by (simp add: fired_quiet split del: if_split)
qed

lemma one_key_never_swaps: "outputs press fresh (replicate n k) = replicate n quiet"
proof (cases n)
  case (Suc m)
  have "keys (fst (press fresh k)) = Some (k, \<not> k)" "snd (press fresh k) = quiet"
    using keys_fresh key1_first [of fresh] key2_first [of fresh] by (auto split: if_splits)
  then show ?thesis using first_key_only Suc by (simp split del: if_split)
qed simp

end

section \<open>The greeter-to-session gate\<close>

datatype swap_action = NoSwap | Swap | Revert

datatype swap_phase = Arming bool bool | Swapped | SwapDone

record swap_gate = sg_phase :: swap_phase

definition new_swap_gate :: swap_gate where
  "new_swap_gate = \<lparr>sg_phase = Arming False False\<rparr>"

definition sg_arm :: "swap_gate \<Rightarrow> bool \<Rightarrow> bool \<Rightarrow> swap_action \<times> swap_gate" where
  "sg_arm g set_opened set_first_frame = (case sg_phase g of
     Arming opened0 first_frame0 \<Rightarrow>
       (let opened = (opened0 \<or> set_opened); first_frame = (first_frame0 \<or> set_first_frame) in
        if opened \<and> first_frame then (Swap, g\<lparr>sg_phase := Swapped\<rparr>)
        else (NoSwap, g\<lparr>sg_phase := Arming opened first_frame\<rparr>))
   | _ \<Rightarrow> (NoSwap, g))"

definition session_opened :: "swap_gate \<Rightarrow> swap_action \<times> swap_gate" where
  "session_opened g = sg_arm g True False"

definition session_first_frame :: "swap_gate \<Rightarrow> swap_action \<times> swap_gate" where
  "session_first_frame g = sg_arm g False True"

definition revert_or_disarm :: "swap_gate \<Rightarrow> swap_action \<times> swap_gate" where
  "revert_or_disarm g = (case sg_phase g of
     Swapped \<Rightarrow> (Revert, g\<lparr>sg_phase := SwapDone\<rparr>)
   | Arming _ _ \<Rightarrow> (NoSwap, g\<lparr>sg_phase := SwapDone\<rparr>)
   | SwapDone \<Rightarrow> (NoSwap, g))"

definition session_ended :: "swap_gate \<Rightarrow> swap_action \<times> swap_gate" where
  "session_ended g = revert_or_disarm g"

definition session_client_gone :: "swap_gate \<Rightarrow> swap_action \<times> swap_gate" where
  "session_client_gone g = revert_or_disarm g"

section \<open>The wallpaper-to-greeter gate\<close>

datatype greeter_swap_action = NoGreeterSwap | GreeterSwap

datatype greeter_visible = Wallpaper | Greeter

datatype greeter_phase = GreeterArming bool bool | GreeterSwapped

record greeter_swap_gate = gg_phase :: greeter_phase

definition new_greeter_swap_gate :: greeter_swap_gate where
  "new_greeter_swap_gate = \<lparr>gg_phase = GreeterArming False False\<rparr>"

definition visible_foreground :: "greeter_swap_gate \<Rightarrow> greeter_visible" where
  "visible_foreground g = (case gg_phase g of
     GreeterArming _ _ \<Rightarrow> Wallpaper | GreeterSwapped \<Rightarrow> Greeter)"

definition gg_arm :: "greeter_swap_gate \<Rightarrow> bool \<Rightarrow> bool \<Rightarrow> greeter_swap_action \<times> greeter_swap_gate" where
  "gg_arm g set_spawned set_first_frame = (case gg_phase g of
     GreeterArming spawned0 first_frame0 \<Rightarrow>
       (let spawned = (spawned0 \<or> set_spawned); first_frame = (first_frame0 \<or> set_first_frame) in
        if spawned \<and> first_frame then (GreeterSwap, g\<lparr>gg_phase := GreeterSwapped\<rparr>)
        else (NoGreeterSwap, g\<lparr>gg_phase := GreeterArming spawned first_frame\<rparr>))
   | GreeterSwapped \<Rightarrow> (NoGreeterSwap, g))"

definition greeter_spawned :: "greeter_swap_gate \<Rightarrow> greeter_swap_action \<times> greeter_swap_gate" where
  "greeter_spawned g = gg_arm g True False"

definition greeter_first_frame :: "greeter_swap_gate \<Rightarrow> greeter_swap_action \<times> greeter_swap_gate" where
  "greeter_first_frame g = gg_arm g False True"

section \<open>Both gates keep the contract\<close>

fun sg_keys :: "swap_gate \<Rightarrow> (bool \<times> bool) option" where
  "sg_keys g = (case sg_phase g of Arming a b \<Rightarrow> Some (a, b) | _ \<Rightarrow> None)"

fun gg_keys :: "greeter_swap_gate \<Rightarrow> (bool \<times> bool) option" where
  "gg_keys g = (case gg_phase g of GreeterArming a b \<Rightarrow> Some (a, b) | _ \<Rightarrow> None)"

interpretation sg: two_key_gate new_swap_gate session_opened session_first_frame sg_keys Swap NoSwap
  by unfold_locales
    (auto simp: new_swap_gate_def session_opened_def session_first_frame_def sg_arm_def
      split: swap_phase.splits)

interpretation gg: two_key_gate new_greeter_swap_gate greeter_spawned greeter_first_frame gg_keys
    GreeterSwap NoGreeterSwap
  by unfold_locales
    (auto simp: new_greeter_swap_gate_def greeter_spawned_def greeter_first_frame_def gg_arm_def
      split: greeter_phase.splits)

section \<open>Swap and revert as functions of the history\<close>

datatype sg_event = Opened | FirstFrame | Ended | ClientGone

fun sg_step :: "swap_gate \<Rightarrow> sg_event \<Rightarrow> swap_gate \<times> swap_action" where
  "sg_step g Opened = (let (a, g') = session_opened g in (g', a))"
| "sg_step g FirstFrame = (let (a, g') = session_first_frame g in (g', a))"
| "sg_step g Ended = (let (a, g') = session_ended g in (g', a))"
| "sg_step g ClientGone = (let (a, g') = session_client_gone g in (g', a))"

abbreviation both_keys :: "sg_event list \<Rightarrow> bool" where
  "both_keys es \<equiv> Opened \<in> set es \<and> FirstFrame \<in> set es"

abbreviation live :: "sg_event list \<Rightarrow> bool" where
  "live es \<equiv> Ended \<notin> set es \<and> ClientGone \<notin> set es"

lemmas session_defs = session_opened_def session_first_frame_def session_ended_def
  session_client_gone_def sg_arm_def revert_or_disarm_def

lemmas gate_defs = session_defs new_swap_gate_def

lemma sg_phase_history:
  "live es \<Longrightarrow> sg_phase (final sg_step new_swap_gate es) =
     (if both_keys es then Swapped else Arming (Opened \<in> set es) (FirstFrame \<in> set es))"
  "\<not> live es \<Longrightarrow> sg_phase (final sg_step new_swap_gate es) = SwapDone"
proof (induction es rule: rev_induct)
  case (snoc e es)
  {
    case 1
    then show ?case using snoc by (cases e) (auto simp: gate_defs)
  next
    case 2
    then show ?case using snoc
      by (cases "live es"; cases "both_keys es"; cases e) (auto simp: gate_defs)
  }
qed (simp_all add: gate_defs)

text \<open>
  C34: the flash-free swap of Amendment A5, for every order of broker frames, session
  frames and disconnects: the gate emits \<open>Swap\<close> exactly at the event that completes
  the pair (\<open>SessionOpened\<close>, first non-empty frame) while the session is still live,
  and \<open>Revert\<close> exactly at the first end or disconnect after such a swap; every other
  event changes nothing on screen.
\<close>

theorem swap_gate_history:
  assumes "i < length es"
  shows "(outputs sg_step new_swap_gate es ! i = Swap \<longleftrightarrow>
      live (take (Suc i) es) \<and> both_keys (take (Suc i) es) \<and> \<not> both_keys (take i es)) \<and>
    (outputs sg_step new_swap_gate es ! i = Revert \<longleftrightarrow>
      live (take i es) \<and> both_keys (take i es) \<and> es ! i \<in> {Ended, ClientGone})"
proof -
  let ?g = "final sg_step new_swap_gate (take i es)"
  have "take (Suc i) es = take i es @ [es ! i]" using assms by (simp add: take_Suc_conv_app_nth)
  then show ?thesis
    using outputs_nth [OF assms, of sg_step new_swap_gate] sg_phase_history [of "take i es"]
    by (cases "live (take i es)"; cases "both_keys (take i es)"; cases "es ! i")
      (auto simp: session_defs Let_def split: if_splits)
qed

theorem swap_gate_history_witness:
  "outputs sg_step new_swap_gate [FirstFrame, Opened, Opened, ClientGone, Ended] ! 1 = Swap \<and>
   outputs sg_step new_swap_gate [FirstFrame, Opened, Opened, ClientGone, Ended] ! 3 = Revert"
  using swap_gate_history [of 1 "[FirstFrame, Opened, Opened, ClientGone, Ended]"]
    swap_gate_history [of 3 "[FirstFrame, Opened, Opened, ClientGone, Ended]"]
  by (simp add: numeral_eq_Suc)

definition sg_press :: "swap_gate \<Rightarrow> bool \<Rightarrow> swap_gate \<times> swap_action" where
  "sg_press g k = (if k then (snd (session_opened g), fst (session_opened g))
     else (snd (session_first_frame g), fst (session_first_frame g)))"

definition gg_press :: "greeter_swap_gate \<Rightarrow> bool \<Rightarrow> greeter_swap_gate \<times> greeter_swap_action" where
  "gg_press g k = (if k then (snd (greeter_spawned g), fst (greeter_spawned g))
     else (snd (greeter_first_frame g), fst (greeter_first_frame g)))"

lemma gg_phase_history:
  "gg_phase (final gg_press new_greeter_swap_gate ks) =
     (if set ks = UNIV then GreeterSwapped else GreeterArming (True \<in> set ks) (False \<in> set ks))"
proof (induction ks rule: rev_induct)
  case (snoc k ks)
  then show ?case
    by (cases "True \<in> set ks"; cases "False \<in> set ks"; cases k)
      (auto simp: gg_press_def greeter_spawned_def greeter_first_frame_def gg_arm_def UNIV_bool)
qed (auto simp: new_greeter_swap_gate_def)

text \<open>
  both gates, the session's and the greeter's, fire on the second key in whichever
  order the keys come, however often either repeats, exactly once; and the greeter's
  visible foreground turns from the wallpaper to the greeter exactly when both of its
  keys have been seen.
\<close>

theorem two_key_gates:
  "outputs sg_press new_swap_gate (replicate (Suc n) k @ (\<not> k) # ks)
     = replicate (Suc n) NoSwap @ Swap # replicate (length ks) NoSwap \<and>
   outputs gg_press new_greeter_swap_gate (replicate (Suc n) k @ (\<not> k) # ks)
     = replicate (Suc n) NoGreeterSwap @ GreeterSwap # replicate (length ks) NoGreeterSwap \<and>
   (visible_foreground (final gg_press new_greeter_swap_gate ks) = Greeter
     \<longleftrightarrow> True \<in> set ks \<and> False \<in> set ks)"
proof (intro conjI)
  show "outputs sg_press new_swap_gate (replicate (Suc n) k @ (\<not> k) # ks)
     = replicate (Suc n) NoSwap @ Swap # replicate (length ks) NoSwap"
    unfolding sg_press_def by (rule sg.swap_on_second_key)
  show "outputs gg_press new_greeter_swap_gate (replicate (Suc n) k @ (\<not> k) # ks)
     = replicate (Suc n) NoGreeterSwap @ GreeterSwap # replicate (length ks) NoGreeterSwap"
    unfolding gg_press_def by (rule gg.swap_on_second_key)
  show "visible_foreground (final gg_press new_greeter_swap_gate ks) = Greeter
     \<longleftrightarrow> True \<in> set ks \<and> False \<in> set ks"
    by (auto simp: visible_foreground_def gg_phase_history UNIV_bool)
qed

end
