(* ===== verification/Session_Transport.thy ===== *)
theory Session_Transport
  imports Session_Ipc
begin

text \<open>
  The broker's side of the wire: \<open>crates/halmasuit-session/src/transport.rs\<close>, the framed
  send and receive with a descriptor of \<open>worker.rs\<close>, and the messages a worker sends to
  its parent.  The system calls' answers are arguments.
\<close>

section \<open>Transport\<close>

datatype transport_error = TrIo errno | TrCodec ipc_codec_error | TrClosed | TrMalformed

definition transport_send ::
    "bool \<Rightarrow> ('m \<Rightarrow> json_error + byte list) \<Rightarrow> (byte list \<Rightarrow> errno + nat) \<Rightarrow> 'm \<Rightarrow> transport_error + unit" where
  "transport_send le to_vec sys_send msg =
     rbind (map_err TrCodec (ipc_encode le to_vec msg)) (\<lambda>bytes.
     rbind (map_err TrIo (sys_send bytes)) (\<lambda>n.
     if n = length bytes then Inr () else Inl TrMalformed))"

definition transport_recv ::
    "bool \<Rightarrow> (byte list \<Rightarrow> json_error + 't) \<Rightarrow> errno + byte list \<Rightarrow> transport_error + 't" where
  "transport_recv le from_slice received =
     rbind (map_err TrIo received) (\<lambda>bytes.
     if bytes = [] then Inl TrClosed
     else rbind (map_err TrCodec (ipc_try_decode le from_slice bytes)) (\<lambda>d. case d of
         Some (msg, consumed) \<Rightarrow> if consumed = length bytes then Inr msg else Inl TrMalformed
       | None \<Rightarrow> Inl TrMalformed))"

text \<open>The result, and the descriptors that were dropped (closed) on the way.\<close>

definition recv_frame_with_fd ::
    "bool \<Rightarrow> (byte list \<Rightarrow> json_error + 't) \<Rightarrow> recvmsg_result \<Rightarrow>
     (transport_error + 't \<times> fd option) \<times> fd list" where
  "recv_frame_with_fd le from_slice r = (case r of
     Inl e \<Rightarrow> (Inl (TrIo e), [])
   | Inr (bytes, Inl e) \<Rightarrow> (Inl (TrIo e), [])
   | Inr (bytes, Inr cmsgs) \<Rightarrow>
       let fds = concat (map (\<lambda>c. case c of None \<Rightarrow> [] | Some raws \<Rightarrow> raws) cmsgs) in
       if bytes = [] then (Inl TrClosed, fds)
       else if length fds > 1 then (Inl TrMalformed, fds)
       else (case ipc_try_decode le from_slice bytes of
          Inl e \<Rightarrow> (Inl (TrCodec e), fds)
        | Inr None \<Rightarrow> (Inl TrMalformed, fds)
        | Inr (Some (msg, consumed)) \<Rightarrow>
            if consumed = length bytes
            then (Inr (msg, case fds of [] \<Rightarrow> None | f # _ \<Rightarrow> Some f), [])
            else (Inl TrMalformed, fds)))"

text \<open>\<open>send_frame_with_fd\<close> differs from \<open>send\<close> only in the control message it attaches.\<close>

definition send_frame_with_fd ::
    "bool \<Rightarrow> ('m \<Rightarrow> json_error + byte list) \<Rightarrow> (byte list \<Rightarrow> fd list \<Rightarrow> errno + nat) \<Rightarrow> 'm \<Rightarrow> fd option \<Rightarrow>
     transport_error + unit" where
  "send_frame_with_fd le to_vec sys_sendmsg msg fd =
     rbind (map_err TrCodec (ipc_encode le to_vec msg)) (\<lambda>bytes.
     rbind (map_err TrIo (sys_sendmsg bytes (case fd of None \<Rightarrow> [] | Some f \<Rightarrow> [f]))) (\<lambda>n.
     if n = length bytes then Inr () else Inl TrMalformed))"

section \<open>Messages of the worker\<close>

datatype worker_outcome =
    WorkerSuccess string u32 u32
  | WorkerFailure string
  | WorkerAuthOk string u32 u32
  | WorkerSessionOpened string u32 u32
  | WorkerSessionEnded session_outcome

datatype parent_message = Conv broker_to_compositor | Outcome worker_outcome

end
