(* ===== verification/Sliding_Window.thy ===== *)
theory Sliding_Window
  imports Prelude
begin

text \<open>
  Rate limits by a sliding window, as the broker's churn throttle and the decoder relay's
  restart budget keep them: a list of the times admitted so far, from which those that left
  the window are forgotten before each decision.  An \<open>Instant\<close> is a number of
  nanoseconds and \<open>duration_since\<close> saturates at zero.
\<close>

type_synonym instant = nat
type_synonym duration = nat

text \<open>
  \<open>seen\<close> are the times of all decisions, \<open>ts\<close> those admitted, \<open>kept\<close> what the limiter still
  remembers: a suffix of \<open>ts\<close>, and whatever was forgotten is out of the window for good.
\<close>

definition window_ok :: "nat \<Rightarrow> duration \<Rightarrow> instant list \<Rightarrow> instant list \<Rightarrow> instant list \<Rightarrow> bool" where
  "window_ok n w seen ts kept \<longleftrightarrow>
     (\<exists>k. kept = drop k ts \<and> (\<forall>t \<in> set (take k ts). \<forall>now. (\<forall>x \<in> set seen. x \<le> now) \<longrightarrow> w \<le> now - t)) \<and>
     (\<forall>i. i + n < length ts \<longrightarrow> w \<le> ts ! (i + n) - ts ! i)"

lemma window_ok_Nil [simp]: "window_ok n w seen [] []"
  by (simp add: window_ok_def)

lemma window_ok_gap: "window_ok n w seen ts kept \<Longrightarrow> i + n < length ts \<Longrightarrow> w \<le> ts ! (i + n) - ts ! i"
  by (simp add: window_ok_def)

lemma window_ok_later: "window_ok n w seen ts kept \<Longrightarrow> window_ok n w (seen @ [now]) ts kept"
  by (auto simp: window_ok_def)

lemma window_ok_prune:
  assumes "window_ok n w seen ts kept" and now: "\<forall>x \<in> set seen. x \<le> now"
  obtains k where "dropWhile (\<lambda>t. now - t \<ge> w) kept = drop k ts" "\<forall>t \<in> set (take k ts). w \<le> now - t"
proof -
  let ?P = "\<lambda>t. now - t \<ge> w"
  obtain k where k: "kept = drop k ts"
      "\<forall>t \<in> set (take k ts). \<forall>n. (\<forall>x \<in> set seen. x \<le> n) \<longrightarrow> w \<le> n - t"
    using assms(1) by (auto simp: window_ok_def)
  let ?m = "length (takeWhile ?P (drop k ts))"
  have "dropWhile ?P kept = drop (k + ?m) ts"
    using k(1) by (simp add: dropWhile_eq_drop add.commute)
  moreover have "set (take (k + ?m) ts) \<subseteq> set (take k ts) \<union> set (takeWhile ?P (drop k ts))"
    by (simp add: take_add takeWhile_eq_take [symmetric])
  moreover have "\<forall>t \<in> set (takeWhile ?P (drop k ts)). w \<le> now - t" by (auto dest: set_takeWhileD)
  ultimately show thesis using k(2) now by (intro that [of "k + ?m"]) blast+
qed

lemma still_out_of_window: "(\<forall>x \<in> set (seen @ [now]). x \<le> m) \<Longrightarrow> w \<le> now - t \<Longrightarrow> w \<le> m - (t :: instant)"
  by (simp add: le_trans diff_le_mono)

text \<open>A refusal forgets what left the window.\<close>

lemma window_ok_forget:
  assumes "window_ok n w seen ts kept" and "\<forall>x \<in> set seen. x \<le> now"
  shows "window_ok n w (seen @ [now]) ts (dropWhile (\<lambda>t. now - t \<ge> w) kept)"
proof -
  obtain k where k: "dropWhile (\<lambda>t. now - t \<ge> w) kept = drop k ts" "\<forall>t \<in> set (take k ts). w \<le> now - t"
    using assms by (rule window_ok_prune)
  then show ?thesis
    using assms(1) still_out_of_window [of seen now] unfolding window_ok_def
    by (intro conjI exI [of _ k]) blast+
qed

text \<open>Admitting with fewer than \<open>n\<close> remembered times keeps every \<open>n\<close>-th pair a window apart.\<close>

lemma window_ok_admit:
  assumes inv: "window_ok n w seen ts kept" and now: "\<forall>x \<in> set seen. x \<le> now"
    and few: "length (dropWhile (\<lambda>t. now - t \<ge> w) kept) < n"
  shows "window_ok n w (seen @ [now]) (ts @ [now]) (dropWhile (\<lambda>t. now - t \<ge> w) kept @ [now])"
proof -
  obtain k where k: "dropWhile (\<lambda>t. now - t \<ge> w) kept = drop k ts" "\<forall>t \<in> set (take k ts). w \<le> now - t"
    using inv now by (rule window_ok_prune)
  let ?k = "min k (length ts)"
  have "drop k ts @ [now] = drop ?k (ts @ [now])" "set (take ?k (ts @ [now])) \<subseteq> set (take k ts)"
    by (auto simp: min_def)
  then have "\<exists>k'. drop k ts @ [now] = drop k' (ts @ [now]) \<and>
      (\<forall>t \<in> set (take k' (ts @ [now])). \<forall>m. (\<forall>x \<in> set (seen @ [now]). x \<le> m) \<longrightarrow> w \<le> m - t)"
    using k(2) still_out_of_window [of seen now] by (intro exI [of _ ?k]) blast
  moreover have "w \<le> (ts @ [now]) ! (i + n) - (ts @ [now]) ! i" if i: "i + n < length (ts @ [now])" for i
  proof (cases "i + n < length ts")
    case True
    then show ?thesis using inv by (simp add: nth_append window_ok_gap)
  next
    case False
    with i have e: "i + n = length ts" by simp
    with few have "i < k" "i < length ts" by (auto simp: k(1))
    then have "ts ! i \<in> set (take k ts)" by (auto simp: in_set_conv_nth)
    with e \<open>i < length ts\<close> k(2) show ?thesis by (simp add: nth_append)
  qed
  ultimately show ?thesis unfolding window_ok_def k(1) by blast
qed

text \<open>On a monotone clock \<open>retain\<close> forgets the same times as popping from the front.\<close>

lemma retain_dropWhile:
  "sorted ts \<Longrightarrow> filter (\<lambda>t. now - t < (w :: duration)) ts = dropWhile (\<lambda>t. now - t \<ge> w) ts"
proof (induction ts)
  case (Cons t ts)
  have "filter (\<lambda>t. now - t < w) ts = ts" if "now - t < w"
    using that Cons.prems by (auto simp: filter_id_conv)
  then show ?case using Cons by auto
qed simp

end
