(* ===== verification/Auth_Slot.thy ===== *)
theory Auth_Slot
  imports Session_Ipc Sliding_Window
begin

text \<open>
  The broker's single authentication slot, \<open>crates/halmasuit-session/src/slot.rs\<close>: at
  most one worker in flight, a peer-uid gate, a sliding-window churn throttle, and
  eviction by SIGKILL and reap.  The kernel's answers are arguments.
\<close>

section \<open>Workers and the slot\<close>

record worker_handle =
  wh_pid :: pid
  wh_pidfd :: nat

record in_flight =
  if_pid :: pid
  if_handle :: worker_handle
  if_chan :: nat

datatype slot_error = Unauthorized | Throttled | WorkerError os_error

text \<open>The effects on worker processes, in the order they happen.\<close>

datatype slot_call = SpawnWorker pid | KillWorker pid | WaitWorker pid

record auth_slot =
  slot_relay_peer_uid :: u32
  max_per_window :: nat
  slot_window :: duration
  inflight :: "in_flight option"
  recent :: "instant list"
  slot_calls :: "slot_call list"

definition DEFAULT_MAX_PER_WINDOW :: nat where
  "DEFAULT_MAX_PER_WINDOW = 5"

definition DEFAULT_WINDOW :: duration where
  "DEFAULT_WINDOW = 10 * 1000000000"

definition new_auth_slot :: "u32 \<Rightarrow> nat \<Rightarrow> duration \<Rightarrow> auth_slot" where
  "new_auth_slot relay_peer_uid max_per window =
     \<lparr>slot_relay_peer_uid = relay_peer_uid, max_per_window = max_per, slot_window = window,
      inflight = None, recent = [], slot_calls = []\<rparr>"

definition with_defaults :: "u32 \<Rightarrow> auth_slot" where
  "with_defaults relay_peer_uid = new_auth_slot relay_peer_uid DEFAULT_MAX_PER_WINDOW DEFAULT_WINDOW"

definition slot_current :: "auth_slot \<Rightarrow> in_flight option" where
  "slot_current s = inflight s"

definition record_calls :: "slot_call list \<Rightarrow> auth_slot \<Rightarrow> auth_slot" where
  "record_calls cs s = s\<lparr>slot_calls := slot_calls s @ cs\<rparr>"

text \<open>
  \<open>create_at\<close>: \<open>wait pid\<close> is what \<open>waitpid\<close> answers for a worker, \<open>spawn\<close> what the
  spawn closure would give if it is called.
\<close>

definition create_at ::
    "(pid \<Rightarrow> os_error + 'st) \<Rightarrow> instant \<Rightarrow> u32 \<Rightarrow> os_error + worker_handle \<times> nat \<Rightarrow> auth_slot \<Rightarrow>
     (slot_error + 'st option) \<times> auth_slot" where
  "create_at wait now peer_uid spawn s =
     (if peer_uid \<noteq> slot_relay_peer_uid s then (Inl Unauthorized, s)
      else
        let s1 = s\<lparr>recent := dropWhile (\<lambda>front. now - front \<ge> slot_window s) (recent s)\<rparr> in
        if length (recent s1) \<ge> max_per_window s1 then (Inl Throttled, s1)
        else
          let (evicted, s2) = (case inflight s1 of
                Some prev \<Rightarrow>
                  (map_err WorkerError (case wait (wh_pid (if_handle prev)) of Inl e \<Rightarrow> Inl e | Inr st \<Rightarrow> Inr (Some st)),
                   record_calls [KillWorker (wh_pid (if_handle prev)), WaitWorker (wh_pid (if_handle prev))]
                     (s1\<lparr>inflight := None\<rparr>))
              | None \<Rightarrow> (Inr None, s1)) in
          case evicted of
            Inl e \<Rightarrow> (Inl e, s2)
          | Inr ev \<Rightarrow> (case spawn of
              Inl e \<Rightarrow> (Inl (WorkerError e), s2)
            | Inr (handle, chan) \<Rightarrow>
                (Inr ev, record_calls [SpawnWorker (wh_pid handle)]
                   (s2\<lparr>recent := recent s2 @ [now],
                      inflight := Some \<lparr>if_pid = wh_pid handle, if_handle = handle, if_chan = chan\<rparr>\<rparr>))))"

definition reap_current ::
    "(pid \<Rightarrow> os_error + 'st) \<Rightarrow> auth_slot \<Rightarrow> (os_error + 'st) option \<times> auth_slot" where
  "reap_current wait s = (case inflight s of
     None \<Rightarrow> (None, s)
   | Some i \<Rightarrow> (Some (wait (wh_pid (if_handle i))),
       record_calls [WaitWorker (wh_pid (if_handle i))] (s\<lparr>inflight := None\<rparr>)))"

definition cancel_current ::
    "(pid \<Rightarrow> os_error + 'st) \<Rightarrow> auth_slot \<Rightarrow> (os_error + 'st) option \<times> auth_slot" where
  "cancel_current wait s = (case inflight s of
     None \<Rightarrow> (None, s)
   | Some i \<Rightarrow> (Some (wait (wh_pid (if_handle i))),
       record_calls [KillWorker (wh_pid (if_handle i)), WaitWorker (wh_pid (if_handle i))]
         (s\<lparr>inflight := None\<rparr>)))"

section \<open>The single-slot contract\<close>

text \<open>
  Legal process histories: a worker is spawned only when none is held, may be killed
  once, and is waited for exactly once before the next spawn.
\<close>

datatype slot_life = NoWorker | Live pid | Dying pid | Illegal

fun life_step :: "slot_life \<Rightarrow> slot_call \<Rightarrow> slot_life" where
  "life_step NoWorker (SpawnWorker p) = Live p"
| "life_step (Live q) (KillWorker p) = (if p = q then Dying q else Illegal)"
| "life_step (Live q) (WaitWorker p) = (if p = q then NoWorker else Illegal)"
| "life_step (Dying q) (WaitWorker p) = (if p = q then NoWorker else Illegal)"
| "life_step _ _ = Illegal"

definition life :: "slot_call list \<Rightarrow> slot_life" where
  "life cs = foldl life_step NoWorker cs"

lemma life_append: "life (cs @ ds) = foldl life_step (life cs) ds"
  by (simp add: life_def)

definition held_life :: "pid option \<Rightarrow> slot_life" where
  "held_life h = (case h of None \<Rightarrow> NoWorker | Some p \<Rightarrow> Live p)"

text \<open>
  The contract of a slot towards its client: who is held, which calls were made, and the
  three operations, each of which only appends calls that are legal from what is held.
\<close>

locale worker_slot =
  fixes held :: "'s \<Rightarrow> pid option"
    and calls :: "'s \<Rightarrow> slot_call list"
    and step :: "'s \<Rightarrow> 'e \<Rightarrow> 's \<times> 'o"
    and clears :: "'e \<Rightarrow> bool"
  assumes legal_step: "\<exists>ds. calls (fst (step s e)) = calls s @ ds \<and>
      foldl life_step (held_life (held s)) ds = held_life (held (fst (step s e)))"
    and clearing: "clears e \<Longrightarrow> held (fst (step s e)) = None"
begin

lemma life_tracks_held:
  "life (calls s) = held_life (held s) \<Longrightarrow>
     life (calls (final step s es)) = held_life (held (final step s es))"
proof (induction es arbitrary: s)
  case (Cons e es)
  then show ?case using legal_step [of s e] by (auto simp: life_append)
qed simp

lemma never_two_workers:
  assumes "life (calls s) = held_life (held s)"
  shows "life (calls (final step s es)) \<noteq> Illegal"
  using life_tracks_held [OF assms, of es] by (simp add: held_life_def split: option.splits)

lemma cleared_means_reaped:
  assumes "life (calls s) = held_life (held s)" and "clears e"
  shows "life (calls (final step s (es @ [e]))) = NoWorker"
  using life_tracks_held [OF assms(1), of "es @ [e]"] clearing [OF assms(2)]
  by (simp add: held_life_def)

end

section \<open>The model's slot keeps the contract\<close>

datatype slot_event =
    SlotCreate instant u32 "os_error + worker_handle \<times> nat"
  | SlotReap
  | SlotCancel

datatype 'st slot_result =
    CreateResult "slot_error + 'st option"
  | EndResult "(os_error + 'st) option"

fun slot_step :: "(pid \<Rightarrow> os_error + 'st) \<Rightarrow> auth_slot \<Rightarrow> slot_event \<Rightarrow> auth_slot \<times> 'st slot_result" where
  "slot_step wait s (SlotCreate now uid spawn) =
     (let (r, s') = create_at wait now uid spawn s in (s', CreateResult r))"
| "slot_step wait s SlotReap = (let (r, s') = reap_current wait s in (s', EndResult r))"
| "slot_step wait s SlotCancel = (let (r, s') = cancel_current wait s in (s', EndResult r))"

definition slot_held :: "auth_slot \<Rightarrow> pid option" where
  "slot_held s = map_option (\<lambda>i. wh_pid (if_handle i)) (inflight s)"

lemmas slot_defs = create_at_def reap_current_def cancel_current_def record_calls_def slot_held_def

interpretation slot: worker_slot slot_held slot_calls "slot_step wait" "\<lambda>e. e \<in> {SlotReap, SlotCancel}" for wait
proof unfold_locales
  fix s e
  show "\<exists>ds. slot_calls (fst (slot_step wait s e)) = slot_calls s @ ds \<and>
      foldl life_step (held_life (slot_held s)) ds = held_life (slot_held (fst (slot_step wait s e)))"
    by (cases e; cases "inflight s")
      (auto simp: slot_defs held_life_def Let_def split: sum.split)
  show "e \<in> {SlotReap, SlotCancel} \<Longrightarrow> slot_held (fst (slot_step wait s e)) = None"
    by (cases "inflight s") (auto simp: slot_defs)
qed

text \<open>
  C8: R5 and R9 for the slot, for every sequence of creates, reaps and cancels, whatever
  the kernel answers: the calls made on worker processes are a legal history (spawn only
  when none is held, at most one kill, exactly one wait before the next spawn), so two
  workers are never alive at once; after a reap or a cancel every worker has been waited
  for; and what the history says is alive is exactly what the slot holds.
\<close>

theorem slot_single_worker:
  "life (slot_calls (final (slot_step wait) (new_auth_slot uid n w) es)) =
     held_life (slot_held (final (slot_step wait) (new_auth_slot uid n w) es)) \<and>
   life (slot_calls (final (slot_step wait) (new_auth_slot uid n w) es)) \<noteq> Illegal \<and>
   life (slot_calls (final (slot_step wait) (new_auth_slot uid n w) (es @ [SlotReap]))) = NoWorker \<and>
   life (slot_calls (final (slot_step wait) (new_auth_slot uid n w) (es @ [SlotCancel]))) = NoWorker"
proof -
  have i: "life (slot_calls (new_auth_slot uid n w)) = held_life (slot_held (new_auth_slot uid n w))"
    by (simp add: life_def held_life_def slot_held_def new_auth_slot_def)
  show ?thesis
    using slot.life_tracks_held [OF i, of wait es] slot.never_two_workers [OF i, of wait es]
      slot.cleared_means_reaped [OF i, of _ wait es] by blast
qed

text \<open>
  a refused create leaves the worker in flight strictly untouched: a peer other than
  the relay peer changes nothing at all, a throttled create only forgets times that left
  the window; the slot's worker and the calls made on processes are the same as before,
  and the spawn closure is not run.
\<close>

theorem refusal_leaves_worker_untouched:
  assumes "create_at wait now peer_uid spawn s = (res, s')"
  shows "(res = Inl Unauthorized \<longleftrightarrow> peer_uid \<noteq> slot_relay_peer_uid s) \<and>
    (res = Inl Unauthorized \<longrightarrow> s' = s) \<and>
    (res = Inl Throttled \<longrightarrow> s' = s\<lparr>recent := dropWhile (\<lambda>t. now - t \<ge> slot_window s) (recent s)\<rparr>) \<and>
    ((\<exists>ev. res = Inr ev) \<longrightarrow> (\<exists>handle chan. spawn = Inr (handle, chan) \<and>
       slot_current s' = Some \<lparr>if_pid = wh_pid handle, if_handle = handle, if_chan = chan\<rparr>))"
  using assms
  by (auto simp: create_at_def record_calls_def slot_current_def Let_def
      split: if_splits option.splits sum.splits)

theorem refusal_leaves_worker_untouched_witness:
  "create_at (\<lambda>p. Inr ()) 7 0 (Inr (\<lparr>wh_pid = 42, wh_pidfd = 3\<rparr>, 4)) (with_defaults 990)
     = (Inl Unauthorized, with_defaults 990)"
proof -
  have r: "create_at (\<lambda>p. Inr ()) 7 0 (Inr (\<lparr>wh_pid = 42, wh_pidfd = 3\<rparr>, 4)) (with_defaults 990)
      = (Inl Unauthorized, snd (create_at (\<lambda>p. Inr ()) 7 0 (Inr (\<lparr>wh_pid = 42, wh_pidfd = 3\<rparr>, 4)) (with_defaults 990)))"
    by (simp add: create_at_def with_defaults_def new_auth_slot_def)
  show ?thesis using refusal_leaves_worker_untouched [OF r] r by simp
qed

section \<open>The churn bound\<close>

fun create_times :: "slot_event list \<Rightarrow> instant list" where
  "create_times [] = []"
| "create_times (SlotCreate now _ _ # es) = now # create_times es"
| "create_times (_ # es) = create_times es"

fun admitted_times :: "(slot_event \<times> 'st slot_result) list \<Rightarrow> instant list" where
  "admitted_times [] = []"
| "admitted_times ((SlotCreate now _ _, CreateResult (Inr _)) # h) = now # admitted_times h"
| "admitted_times (_ # h) = admitted_times h"

lemma create_times_append [simp]: "create_times (es @ fs) = create_times es @ create_times fs"
  by (induction es rule: create_times.induct) simp_all

lemma admitted_times_append [simp]: "admitted_times (g @ h) = admitted_times g @ admitted_times h"
  by (induction g rule: admitted_times.induct) simp_all

abbreviation slot_history where
  "slot_history wait s es \<equiv> zip es (outputs (slot_step wait) s es)"

lemma slot_history_snoc:
  "slot_history wait s (es @ [e]) =
     slot_history wait s es @ [(e, snd (slot_step wait (final (slot_step wait) s es) e))]"
  by (simp add: zip_append1)

text \<open>One create: the remembered times, and whether it was admitted.\<close>

lemma create_recent:
  fixes s now
  defines "kept \<equiv> dropWhile (\<lambda>t. now - t \<ge> slot_window s) (recent s)"
  assumes "create_at wait now uid spawn s = (res, s')"
  shows "(\<exists>ev. res = Inr ev) \<Longrightarrow> recent s' = kept @ [now] \<and> length kept < max_per_window s"
    "res = Inl err \<Longrightarrow> recent s' = recent s \<or> recent s' = kept"
    "slot_window s' = slot_window s" "max_per_window s' = max_per_window s"
  using assms
  by (auto simp: create_at_def record_calls_def Let_def
      split: if_splits option.splits sum.splits)

definition window_inv :: "nat \<Rightarrow> duration \<Rightarrow> instant list \<Rightarrow> instant list \<Rightarrow> auth_slot \<Rightarrow> bool" where
  "window_inv n w seen ts s \<longleftrightarrow> slot_window s = w \<and> max_per_window s = n \<and> window_ok n w seen ts (recent s)"

lemma window_inv_create:
  assumes inv: "window_inv n w seen ts s" and now: "\<forall>x \<in> set seen. x \<le> now"
    and step: "create_at wait now uid spawn s = (res, s')"
  shows "window_inv n w (seen @ [now]) (ts @ (case res of Inr _ \<Rightarrow> [now] | Inl _ \<Rightarrow> [])) s'"
proof -
  have s: "slot_window s = w" "max_per_window s = n" and ok: "window_ok n w seen ts (recent s)"
    using inv by (simp_all add: window_inv_def)
  note cr = create_recent [OF step, unfolded s]
  show ?thesis
  proof (cases res)
    case (Inl e)
    then show ?thesis
      using cr(2-4) window_ok_later [OF ok, of now] window_ok_forget [OF ok now] by (auto simp: window_inv_def)
  next
    case (Inr ev)
    then show ?thesis using cr(1,3,4) window_ok_admit [OF ok now] by (simp add: window_inv_def)
  qed
qed

lemma window_inv_run:
  "sorted (create_times es) \<Longrightarrow> window_inv n w (create_times es)
     (admitted_times (slot_history wait (new_auth_slot uid n w) es))
     (final (slot_step wait) (new_auth_slot uid n w) es)"
proof (induction es rule: rev_induct)
  case Nil
  then show ?case by (simp add: window_inv_def new_auth_slot_def)
next
  case (snoc e es)
  let ?s = "final (slot_step wait) (new_auth_slot uid n w) es"
  have IH: "window_inv n w (create_times es)
      (admitted_times (slot_history wait (new_auth_slot uid n w) es)) ?s"
    using snoc by (simp add: sorted_append)
  show ?case
  proof (cases e)
    case (SlotCreate now u spawn)
    obtain res s' where c: "create_at wait now u spawn ?s = (res, s')" by force
    have "\<forall>x \<in> set (create_times es). x \<le> now"
      using snoc.prems SlotCreate by (simp add: sorted_append)
    from window_inv_create [OF IH this c] show ?thesis
      unfolding slot_history_snoc using SlotCreate c by (cases res) simp_all
  qed (use IH in \<open>unfold slot_history_snoc, auto simp: slot_defs window_inv_def split: option.split\<close>)
qed

text \<open>
  C33: the churn throttle bounds the rate of worker creation: with a clock that never runs
  backwards, among the admitted creates any two that are \<open>max_per_window\<close> places apart
  are at least a full window apart, so no window ever sees more than \<open>max_per_window\<close>
  forks, whatever mix of requests, evictions and cancels drives the slot.
\<close>

theorem churn_is_bounded:
  fixes wait es uid n w
  defines "ts \<equiv> admitted_times (slot_history wait (new_auth_slot uid n w) es)"
  assumes "sorted (create_times es)" and "i + n < length ts"
  shows "w \<le> ts ! (i + n) - ts ! i"
  using window_inv_run [OF assms(2), of n w wait uid] assms(3) window_ok_gap unfolding window_inv_def ts_def by blast

theorem churn_is_bounded_witness:
  "let h = \<lparr>wh_pid = 42, wh_pidfd = 3\<rparr>;
       es = [SlotCreate 0 990 (Inr (h, 4)), SlotCreate 3 990 (Inr (h, 4)), SlotCreate 12 990 (Inr (h, 4))];
       ts = admitted_times (slot_history (\<lambda>p. Inr ()) (new_auth_slot 990 1 10) es)
   in ts = [0, 12] \<and> 10 \<le> ts ! (0 + 1) - ts ! 0"
proof -
  let ?h = "\<lparr>wh_pid = 42, wh_pidfd = 3\<rparr>"
  let ?es = "[SlotCreate 0 990 (Inr (?h, 4)), SlotCreate 3 990 (Inr (?h, 4)), SlotCreate 12 990 (Inr (?h, 4))]"
  have ts: "admitted_times (slot_history (\<lambda>p. Inr ()) (new_auth_slot 990 1 10) ?es) = [0, 12]"
    by (simp add: slot_defs new_auth_slot_def Let_def)
  have "10 \<le> admitted_times (slot_history (\<lambda>p. Inr ()) (new_auth_slot 990 1 10) ?es) ! (0 + 1)
      - admitted_times (slot_history (\<lambda>p. Inr ()) (new_auth_slot 990 1 10) ?es) ! 0"
    by (rule churn_is_bounded) (simp_all only: ts create_times.simps, simp_all)
  then show ?thesis unfolding Let_def using ts by blast
qed

end
