(* ===== verification/Session_Leader.thy ===== *)
theory Session_Leader
  imports Greetd Auth_Slot
begin

text \<open>
  The privilege boundary of the broker: \<open>crates/halmasuit-session/src/session_leader.rs\<close>
  (validation of the PAM-resolved identity, environment allowlist, supplementary groups)
  and the process-launching half of \<open>worker.rs\<close> (pre-fork gates, the image built before
  the fork, the straight-line privilege drop of the child, the greeter variant).
  The passwd and group databases and every system call of the child are arguments.
\<close>

section \<open>Session specs\<close>

definition UID_MIN :: u32 where
  "UID_MIN = 1000"

definition ENV_ALLOWLIST :: "string list" where
  "ENV_ALLOWLIST = [''XDG_RUNTIME_DIR'', ''PATH'', ''LANG'', ''HOME'', ''USER'', ''LOGNAME'',
     ''SHELL'', ''XCURSOR_THEME'', ''XCURSOR_SIZE'']"

datatype pwent_reason =
    UnknownUser string
  | NssLookupFailed string os_error
  | UidDiffers string u32 u32
  | GidDiffers string u32 u32

datatype groups_reason = NulInUsername | GetgrouplistFailed string os_error

datatype spec_error =
    UidFloor u32
  | GidFloor u32
  | BadId u32
  | PwentMismatch pwent_reason
  | RelativeCommand
  | EmptyCommand
  | Groups groups_reason

record session_spec =
  ss_username :: string
  ss_uid :: u32
  ss_gid :: u32
  ss_cmd :: "string list"
  ss_env :: "(string \<times> string) list"

record passwd_user =
  pw_uid :: u32
  pw_gid :: u32

definition is_env_allowed :: "string \<Rightarrow> bool" where
  "is_env_allowed key = (key \<in> set ENV_ALLOWLIST \<or> take 3 key = ''LC_'')"

definition sanitize_env :: "(string \<times> string) list \<Rightarrow> (string \<times> string) list" where
  "sanitize_env env = filter (\<lambda>(k, _). is_env_allowed k) env"

definition lookup_user ::
    "(string \<Rightarrow> os_error + passwd_user option) \<Rightarrow> string \<Rightarrow> spec_error + passwd_user" where
  "lookup_user from_name username = (case from_name username of
     Inr (Some u) \<Rightarrow> Inr u
   | Inr None \<Rightarrow> Inl (PwentMismatch (UnknownUser username))
   | Inl e \<Rightarrow> Inl (PwentMismatch (NssLookupFailed username e)))"

definition validate ::
    "(string \<Rightarrow> os_error + passwd_user option) \<Rightarrow> string \<Rightarrow> u32 \<Rightarrow> u32 \<Rightarrow> string list \<Rightarrow>
     (string \<times> string) list \<Rightarrow> spec_error + session_spec" where
  "validate from_name username uid gid cmd env =
     (if uid = - 1 then Inl (BadId uid)
      else if gid = - 1 then Inl (BadId gid)
      else if uid < UID_MIN then Inl (UidFloor uid)
      else if gid < UID_MIN then Inl (GidFloor gid)
      else case cmd of
        [] \<Rightarrow> Inl EmptyCommand
      | first # _ \<Rightarrow>
          if take 1 first \<noteq> ''/'' then Inl RelativeCommand
          else rbind (lookup_user from_name username) (\<lambda>user.
            if pw_uid user \<noteq> uid then Inl (PwentMismatch (UidDiffers username (pw_uid user) uid))
            else if pw_gid user \<noteq> gid then Inl (PwentMismatch (GidDiffers username (pw_gid user) gid))
            else Inr \<lparr>ss_username = username, ss_uid = uid, ss_gid = gid, ss_cmd = cmd,
                      ss_env = sanitize_env env\<rparr>))"

definition dedup_push :: "u32 list \<Rightarrow> u32 \<Rightarrow> u32 list" where
  "dedup_push out g = (if g \<in> set out then out else out @ [g])"

definition user_groups ::
    "(string \<Rightarrow> os_error + passwd_user option) \<Rightarrow> (string \<Rightarrow> u32 \<Rightarrow> os_error + u32 list) \<Rightarrow>
     string \<Rightarrow> u32 \<Rightarrow> spec_error + u32 list" where
  "user_groups from_name getgrouplist username primary_gid =
     rbind (lookup_user from_name username) (\<lambda>_.
     if CHR 0x00 \<in> set username then Inl (Groups NulInUsername)
     else rbind (map_err (\<lambda>e. Groups (GetgrouplistFailed username e)) (getgrouplist username primary_gid)) (\<lambda>base.
     Inr (foldl dedup_push (dedup_push [] primary_gid) base)))"

section \<open>Launching a process\<close>

datatype spawn_error = PermissionDenied | InvalidArgument | OsError os_error

definition prefork_gates :: "u32 \<Rightarrow> session_spec \<Rightarrow> spawn_error + unit" where
  "prefork_gates euid spec =
     (if ss_uid spec = - 1 \<or> ss_gid spec = - 1 \<or> ss_uid spec < UID_MIN \<or> ss_gid spec < UID_MIN
      then Inl PermissionDenied
      else if euid \<noteq> 0 then Inl PermissionDenied
      else Inr ())"

text \<open>\<open>CString::new\<close>: refuses an interior NUL.\<close>

definition to_c :: "string \<Rightarrow> spawn_error + string" where
  "to_c s = (if CHR 0x00 \<in> set s then Inl InvalidArgument else Inr s)"

record exec_image =
  im_path :: string
  im_argv :: "string list"
  im_envv :: "string list"
  im_groups :: "u32 list"
  im_uid :: u32
  im_gid :: u32

definition leader_image :: "u32 \<Rightarrow> session_spec \<Rightarrow> u32 list \<Rightarrow> spawn_error + exec_image" where
  "leader_image euid spec groups =
     rbind (prefork_gates euid spec) (\<lambda>_.
     rbind (case ss_cmd spec of [] \<Rightarrow> Inl InvalidArgument | first # _ \<Rightarrow> Inr first) (\<lambda>first.
     rbind (to_c first) (\<lambda>path.
     rbind (collect_results (map to_c (ss_cmd spec))) (\<lambda>argv.
     rbind (collect_results (map (\<lambda>(k, v). to_c (k @ ''='' @ v)) (ss_env spec))) (\<lambda>envv.
     Inr \<lparr>im_path = path, im_argv = argv, im_envv = envv, im_groups = groups,
          im_uid = ss_uid spec, im_gid = ss_gid spec\<rparr>)))))"

text \<open>The credentials of a process, and the system calls of the child as state changes.\<close>

record creds =
  cr_uids :: "u32 \<times> u32 \<times> u32"
  cr_gids :: "u32 \<times> u32 \<times> u32"
  cr_groups :: "u32 list"
  cr_no_new_privs :: bool
  cr_session_leader :: bool
  cr_signals_blocked :: bool

record child_kernel =
  ck_setsid :: "creds \<Rightarrow> os_error + creds"
  ck_setresgid :: "u32 \<Rightarrow> creds \<Rightarrow> os_error + creds"
  ck_setgroups :: "u32 list \<Rightarrow> creds \<Rightarrow> os_error + creds"
  ck_setresuid :: "u32 \<Rightarrow> creds \<Rightarrow> os_error + creds"
  ck_getresuid :: "creds \<Rightarrow> os_error + u32 \<times> u32 \<times> u32"
  ck_getresgid :: "creds \<Rightarrow> os_error + u32 \<times> u32 \<times> u32"
  ck_set_no_new_privs :: "creds \<Rightarrow> os_error + creds"
  ck_unblock_signals :: "creds \<Rightarrow> creds"
  ck_execve :: "exec_image \<Rightarrow> creds \<Rightarrow> bool"

datatype child_end = Died nat | Execed exec_image creds

definition or_die :: "nat \<Rightarrow> os_error + 'a \<Rightarrow> ('a \<Rightarrow> child_end) \<Rightarrow> child_end" where
  "or_die code r k = (case r of Inl _ \<Rightarrow> Died code | Inr x \<Rightarrow> k x)"

text \<open>The child of \<open>spawn_session_leader\<close>: every call checked, every failure an \<open>_exit\<close>.\<close>

definition leader_child_exec :: "child_kernel \<Rightarrow> creds \<Rightarrow> exec_image \<Rightarrow> child_end" where
  "leader_child_exec K c0 im =
     or_die 81 (ck_setsid K c0) (\<lambda>c1.
     or_die 82 (ck_setresgid K (im_gid im) c1) (\<lambda>c2.
     or_die 83 (ck_setgroups K (im_groups im) c2) (\<lambda>c3.
     or_die 84 (ck_setresuid K (im_uid im) c3) (\<lambda>c4.
     or_die 85 (ck_getresuid K c4) (\<lambda>(r, e, s).
     if r \<noteq> im_uid im \<or> e \<noteq> im_uid im \<or> s \<noteq> im_uid im then Died 85
     else or_die 86 (ck_getresgid K c4) (\<lambda>(r, e, s).
     if r \<noteq> im_gid im \<or> e \<noteq> im_gid im \<or> s \<noteq> im_gid im then Died 86
     else or_die 87 (ck_set_no_new_privs K c4) (\<lambda>c5.
     let c6 = ck_unblock_signals K c5 in
     if ck_execve K im c6 then Execed im c6 else Died 127)))))))"

text \<open>
  \<open>fork\<close> returns in the child, in the parent with the child's pid, or fails.  Only the
  parent's side comes back to the caller.
\<close>

datatype fork_result = ForkChild | ForkParent i32 | ForkError os_error

datatype spawn_side = InChild child_end | InParent "spawn_error + worker_handle"

definition parent_side :: "i32 \<Rightarrow> (u32 \<Rightarrow> os_error + nat) \<Rightarrow> spawn_error + worker_handle" where
  "parent_side child pidfd_open =
     (if child <s 0 then Inl (OsError 0)
      else rbind (map_err OsError (pidfd_open child)) (\<lambda>pidfd. Inr \<lparr>wh_pid = child, wh_pidfd = pidfd\<rparr>))"

definition spawn_session_leader ::
    "u32 \<Rightarrow> fork_result \<Rightarrow> (u32 \<Rightarrow> os_error + nat) \<Rightarrow> child_kernel \<Rightarrow> creds \<Rightarrow> session_spec \<Rightarrow> u32 list \<Rightarrow> spawn_side" where
  "spawn_session_leader euid fork pidfd_open K c spec groups = (case leader_image euid spec groups of
     Inl e \<Rightarrow> InParent (Inl e)
   | Inr im \<Rightarrow> (case fork of
       ForkError e \<Rightarrow> InParent (Inl (OsError e))
     | ForkChild \<Rightarrow> InChild (leader_child_exec K c im)
     | ForkParent child \<Rightarrow> InParent (parent_side child pidfd_open)))"

section \<open>The greeter\<close>

definition UID_FLOOR_GREETER :: u32 where
  "UID_FLOOR_GREETER = 100"

record greeter_spec =
  gs_uid :: u32
  gs_gid :: u32
  gs_name :: string
  gs_home :: string
  gs_command :: string
  gs_greetd_sock :: string

definition greeter_prefork_gates :: "u32 \<Rightarrow> greeter_spec \<Rightarrow> spawn_error + unit" where
  "greeter_prefork_gates euid spec =
     (if euid \<noteq> 0 then Inl PermissionDenied
      else if gs_uid spec = - 1 \<or> gs_uid spec < UID_FLOOR_GREETER then Inl PermissionDenied
      else if gs_gid spec = - 1 \<or> gs_gid spec < UID_FLOOR_GREETER then Inl PermissionDenied
      else Inr ())"

definition GREETER_ENV_PASSTHROUGH :: "string list" where
  "GREETER_ENV_PASSTHROUGH = [''__EGL_VENDOR_LIBRARY_FILENAMES'', ''__EGL_EXTERNAL_PLATFORM_CONFIG_DIRS'',
     ''__GLX_VENDOR_LIBRARY_NAME'', ''LIBGL_DRIVERS_PATH'']"

definition harvest_passthrough_env :: "(string \<Rightarrow> string option) \<Rightarrow> (string \<times> string) list" where
  "harvest_passthrough_env env_lookup =
     concat (map (\<lambda>k. case env_lookup k of None \<Rightarrow> [] | Some v \<Rightarrow> [(k, v)]) GREETER_ENV_PASSTHROUGH)"

definition greeter_child_env_pairs ::
    "(string \<Rightarrow> string option) \<Rightarrow> greeter_spec \<Rightarrow> string \<Rightarrow> (string \<times> string) list" where
  "greeter_child_env_pairs env_lookup spec home =
     [(''USER'', gs_name spec), (''LOGNAME'', gs_name spec), (''HOME'', home),
      (''XDG_RUNTIME_DIR'', ''/run/halmasuit''), (''WAYLAND_DISPLAY'', ''wayland-0''),
      (''GREETD_SOCK'', gs_greetd_sock spec),
      (''PATH'', ''/run/wrappers/bin:/run/current-system/sw/bin:/usr/bin:/bin'')]
     @ harvest_passthrough_env env_lookup"

text \<open>\<open>Path::to_str\<close>: refuses a path that is not UTF-8.\<close>

definition to_str :: "string \<Rightarrow> spawn_error + string" where
  "to_str s = (if utf8_valid s then Inr s else Inl InvalidArgument)"

definition build_greeter_cstrings ::
    "(string \<Rightarrow> string option) \<Rightarrow> greeter_spec \<Rightarrow> spawn_error + string \<times> string list \<times> string list" where
  "build_greeter_cstrings env_lookup spec =
     rbind (to_str (gs_command spec)) (\<lambda>cmd.
     rbind (to_c cmd) (\<lambda>path.
     rbind (to_str (gs_home spec)) (\<lambda>home.
     rbind (collect_results (map (\<lambda>(k, v). to_c (k @ ''='' @ v)) (greeter_child_env_pairs env_lookup spec home))) (\<lambda>envv.
     Inr (path, [path], envv)))))"

definition greeter_image ::
    "u32 \<Rightarrow> (string \<Rightarrow> string option) \<Rightarrow> greeter_spec \<Rightarrow> spawn_error + exec_image" where
  "greeter_image euid env_lookup spec =
     rbind (greeter_prefork_gates euid spec) (\<lambda>_.
     rbind (build_greeter_cstrings env_lookup spec) (\<lambda>(path, argv, envv).
     Inr \<lparr>im_path = path, im_argv = argv, im_envv = envv, im_groups = [gs_gid spec],
          im_uid = gs_uid spec, im_gid = gs_gid spec\<rparr>))"

text \<open>\<open>greeter_child_exec\<close>: the same straight line, with the primary gid as the only group.\<close>

definition greeter_child_exec :: "child_kernel \<Rightarrow> creds \<Rightarrow> exec_image \<Rightarrow> child_end" where
  "greeter_child_exec K c0 im =
     or_die 81 (ck_setsid K c0) (\<lambda>c1.
     or_die 82 (ck_setresgid K (im_gid im) c1) (\<lambda>c2.
     or_die 83 (ck_setgroups K [im_gid im] c2) (\<lambda>c3.
     or_die 84 (ck_setresuid K (im_uid im) c3) (\<lambda>c4.
     or_die 85 (ck_getresuid K c4) (\<lambda>(r, e, s).
     if r \<noteq> im_uid im \<or> e \<noteq> im_uid im \<or> s \<noteq> im_uid im then Died 85
     else or_die 86 (ck_getresgid K c4) (\<lambda>(r, e, s).
     if r \<noteq> im_gid im \<or> e \<noteq> im_gid im \<or> s \<noteq> im_gid im then Died 86
     else or_die 87 (ck_set_no_new_privs K c4) (\<lambda>c5.
     let c6 = ck_unblock_signals K c5 in
     if ck_execve K im c6 then Execed im c6 else Died 127)))))))"

definition spawn_greeter ::
    "u32 \<Rightarrow> (string \<Rightarrow> string option) \<Rightarrow> fork_result \<Rightarrow> (u32 \<Rightarrow> os_error + nat) \<Rightarrow> child_kernel \<Rightarrow> creds \<Rightarrow>
     greeter_spec \<Rightarrow> spawn_side" where
  "spawn_greeter euid env_lookup fork pidfd_open K c spec = (case greeter_image euid env_lookup spec of
     Inl e \<Rightarrow> InParent (Inl e)
   | Inr im \<Rightarrow> (case fork of
       ForkError e \<Rightarrow> InParent (Inl (OsError e))
     | ForkChild \<Rightarrow> InChild (greeter_child_exec K c im)
     | ForkParent child \<Rightarrow> InParent (parent_side child pidfd_open)))"

section \<open>Validation and groups\<close>

text \<open>
  \<open>validate\<close> accepts exactly the specs the threat model allows: no sentinel id, uid
  and gid at or above 1000, an absolute command, and a passwd entry for this very name
  with this very uid and gid; the accepted spec carries them unchanged with the
  environment reduced, in order, to allowlisted and \<open>LC_\<close> names.
\<close>

theorem validate_exact:
  "validate from_name username uid gid cmd env = Inr spec \<longleftrightarrow>
     uid \<noteq> - 1 \<and> gid \<noteq> - 1 \<and> 1000 \<le> uid \<and> 1000 \<le> gid \<and>
     (\<exists>path args. cmd = (CHR ''/'' # path) # args) \<and>
     (\<exists>user. from_name username = Inr (Some user) \<and> pw_uid user = uid \<and> pw_gid user = gid) \<and>
     spec = \<lparr>ss_username = username, ss_uid = uid, ss_gid = gid, ss_cmd = cmd,
       ss_env = filter (\<lambda>(k, v). k \<in> set ENV_ALLOWLIST \<or> (\<exists>rest. k = ''LC_'' @ rest)) env\<rparr>"
proof -
  have lc: "take 3 k = ''LC_'' \<longleftrightarrow> (\<exists>rest. k = ''LC_'' @ rest)" for k :: string
    by (metis append_eq_conv_conj append_take_drop_id length_Cons list.size(3) numeral_3_eq_3)
  have abs: "take (Suc 0) f = ''/'' \<longleftrightarrow> (\<exists>p. f = CHR ''/'' # p)" for f by (cases f) auto
  have env: "sanitize_env env = filter (\<lambda>(k, v). k \<in> set ENV_ALLOWLIST \<or> (\<exists>rest. k = ''LC_'' @ rest)) env"
    unfolding sanitize_env_def is_env_allowed_def lc ..
  show ?thesis
    unfolding env [symmetric]
    by (cases cmd)
      (auto simp: validate_def lookup_user_def UID_MIN_def abs not_less rbind_def
        split: sum.splits option.splits)
qed

lemma foldl_dedup_push:
  "distinct out \<Longrightarrow> distinct (foldl dedup_push out gs) \<and> set (foldl dedup_push out gs) = set out \<union> set gs \<and>
     prefix out (foldl dedup_push out gs)"
proof (induction gs arbitrary: out)
  case (Cons g gs)
  have "distinct (dedup_push out g)" "set (dedup_push out g) = insert g (set out)" "prefix out (dedup_push out g)"
    using Cons.prems by (auto simp: dedup_push_def)
  with Cons.IH [of "dedup_push out g"] show ?case by auto
qed simp

text \<open>
  Amendment A9, the supplementary groups of a session: exactly the primary group and
  what \<open>getgrouplist\<close> gives for this user, without duplicates and with the primary group
  first; an unknown user fails although \<open>getgrouplist\<close> alone would not.
\<close>

theorem user_groups_exact:
  "(\<forall>groups. user_groups from_name getgrouplist username gid = Inr groups \<longrightarrow>
      (\<exists>user base. from_name username = Inr (Some user) \<and> getgrouplist username gid = Inr base \<and>
         set groups = insert gid (set base) \<and> distinct groups \<and> hd groups = gid)) \<and>
   (from_name username = Inr None \<longrightarrow>
      user_groups from_name getgrouplist username gid = Inl (PwentMismatch (UnknownUser username)))"
proof (intro conjI allI impI)
  fix groups
  assume ok: "user_groups from_name getgrouplist username gid = Inr groups"
  then obtain user base where "from_name username = Inr (Some user)" "getgrouplist username gid = Inr base"
    and g: "groups = foldl dedup_push [gid] base"
    by (auto simp: user_groups_def lookup_user_def dedup_push_def rbind_eq_Inr
        split: sum.splits option.splits if_splits)
  moreover have "set groups = insert gid (set base)" "distinct groups" "hd groups = gid"
    using foldl_dedup_push [of "[gid]" base] unfolding g by (auto simp: prefix_def)
  ultimately show "\<exists>user base. from_name username = Inr (Some user) \<and> getgrouplist username gid = Inr base \<and>
      set groups = insert gid (set base) \<and> distinct groups \<and> hd groups = gid" by blast
qed (simp add: user_groups_def lookup_user_def)

theorem user_groups_exact_witness:
  "user_groups (\<lambda>n. Inr (Some \<lparr>pw_uid = 1000, pw_gid = 100\<rparr>)) (\<lambda>n g. Inr [100, 27, 27]) ''alice'' 100
     = Inr [100, 27] \<and> set [100, 27 :: u32] = insert 100 (set [100, 27, 27])"
proof -
  have r: "user_groups (\<lambda>n. Inr (Some \<lparr>pw_uid = 1000, pw_gid = 100\<rparr>)) (\<lambda>n g. Inr [100, 27, 27]) ''alice'' 100
     = Inr [100, 27]" by (simp add: user_groups_def lookup_user_def dedup_push_def)
  show ?thesis
    using r user_groups_exact [of "\<lambda>n. Inr (Some \<lparr>pw_uid = 1000, pw_gid = 100\<rparr>)" "\<lambda>n g. Inr [100, 27, 27]"
        "''alice''" 100] by auto
qed

section \<open>The privilege drop\<close>

text \<open>
  What is assumed of the kernel: the getters report the process's ids, \<open>setgroups\<close> and
  \<open>prctl\<close> do what they report to have done, and no later call touches ids or groups.
  Nothing is assumed of \<open>setresuid\<close> and \<open>setresgid\<close> but that they leave the groups alone:
  the child re-reads the ids.
\<close>

definition honest_kernel :: "child_kernel \<Rightarrow> bool" where
  "honest_kernel K \<longleftrightarrow>
     (\<forall>c. ck_getresuid K c = Inr (cr_uids c)) \<and> (\<forall>c. ck_getresgid K c = Inr (cr_gids c)) \<and>
     (\<forall>c c' gs. ck_setgroups K gs c = Inr c' \<longrightarrow> cr_groups c' = gs) \<and>
     (\<forall>c c' u. ck_setresuid K u c = Inr c' \<longrightarrow> cr_groups c' = cr_groups c) \<and>
     (\<forall>c c'. ck_set_no_new_privs K c = Inr c' \<longrightarrow> c' = c\<lparr>cr_no_new_privs := True\<rparr>) \<and>
     (\<forall>c. ck_unblock_signals K c = c\<lparr>cr_signals_blocked := False\<rparr>)"

definition dropped_to :: "creds \<Rightarrow> u32 \<Rightarrow> u32 \<Rightarrow> u32 list \<Rightarrow> bool" where
  "dropped_to c uid gid groups \<longleftrightarrow> cr_uids c = (uid, uid, uid) \<and> cr_gids c = (gid, gid, gid) \<and>
     cr_groups c = groups \<and> cr_no_new_privs c \<and> \<not> cr_signals_blocked c"

lemma or_die_Execed: "or_die code r k = Execed im c \<longleftrightarrow> (\<exists>x. r = Inr x \<and> k x = Execed im c)"
  by (cases r) (simp_all add: or_die_def)

lemma leader_child_drops:
  assumes K: "honest_kernel K" and "leader_child_exec K c0 im = Execed im' c"
  shows "im' = im" "dropped_to c (im_uid im) (im_gid im) (im_groups im)"
proof -
  obtain c2 c3 c4 c5 where steps: "ck_setgroups K (im_groups im) c2 = Inr c3"
      "ck_setresuid K (im_uid im) c3 = Inr c4" "ck_set_no_new_privs K c4 = Inr c5"
    and ids: "ck_getresuid K c4 = Inr (im_uid im, im_uid im, im_uid im)"
      "ck_getresgid K c4 = Inr (im_gid im, im_gid im, im_gid im)"
    and last: "im' = im" "c = ck_unblock_signals K c5"
    using assms(2) by (auto simp: leader_child_exec_def or_die_Execed Let_def split: if_splits)
  have "cr_uids c4 = (im_uid im, im_uid im, im_uid im)" "cr_gids c4 = (im_gid im, im_gid im, im_gid im)"
    using ids K by (auto simp: honest_kernel_def)
  moreover have "cr_groups c4 = im_groups im"
    using steps(1,2) K unfolding honest_kernel_def by metis
  moreover have "c = c4\<lparr>cr_no_new_privs := True, cr_signals_blocked := False\<rparr>"
    using steps last K by (auto simp: honest_kernel_def)
  ultimately show "im' = im" "dropped_to c (im_uid im) (im_gid im) (im_groups im)"
    using last by (simp_all add: dropped_to_def)
qed

lemma greeter_child_is_leader_child:
  "im_groups im = [im_gid im] \<Longrightarrow> greeter_child_exec K c im = leader_child_exec K c im"
  by (simp add: greeter_child_exec_def leader_child_exec_def)

lemma collect_to_c:
  "collect_results (map to_c xs) = Inr ys \<longleftrightarrow> ys = xs \<and> list_all (\<lambda>s. CHR 0x00 \<notin> set s) xs"
proof -
  have "map to_c xs = map Inr ys \<longleftrightarrow> ys = xs \<and> list_all (\<lambda>s. CHR 0x00 \<notin> set s) xs"
  proof (induction xs arbitrary: ys)
    case (Cons x xs)
    then show ?case by (cases ys) (auto simp: to_c_def)
  qed auto
  then show ?thesis by (simp add: collect_results_Inr)
qed

abbreviation env_string :: "string \<times> string \<Rightarrow> string" where
  "env_string \<equiv> \<lambda>(k, v). k @ CHR ''='' # v"

lemma collect_env:
  "collect_results (map (\<lambda>(k, v). to_c (k @ CHR ''='' # v)) env) = Inr ys \<Longrightarrow> ys = map env_string env"
  using collect_to_c [of "map env_string env" ys] by (simp add: comp_def case_prod_unfold)

lemma to_c_Inr: "to_c s = Inr t \<longleftrightarrow> t = s \<and> CHR 0x00 \<notin> set s"
  by (auto simp: to_c_def)

lemma leader_image_exact:
  "leader_image euid spec groups = Inr im \<Longrightarrow> euid = 0 \<and> im_path im = hd (ss_cmd spec) \<and>
     im_argv im = ss_cmd spec \<and> im_envv im = map env_string (ss_env spec) \<and> im_groups im = groups \<and>
     im_uid im = ss_uid spec \<and> im_gid im = ss_gid spec"
  by (auto simp: leader_image_def prefork_gates_def rbind_eq_Inr collect_to_c to_c_Inr
      split: if_splits list.splits dest!: collect_env)

text \<open>
  C5: what runs as a session is confined.  If the broker validates a spec, forks and the
  child reaches \<open>execve\<close>, then at that moment its real, effective and saved uid and gid
  are the validated user's, at least 1000 and not the sentinel, its supplementary groups
  are the ones passed in, \<open>no_new_privs\<close> is set and no signal is blocked, although the
  \<open>setres*\<close> calls are not trusted; it runs the validated absolute path with the
  validated arguments and only allowlisted environment names, and the broker was root.
\<close>

theorem launched_session_is_confined:
  assumes "validate from_name username uid gid cmd env = Inr spec" and "honest_kernel K"
    and "spawn_session_leader euid fork pidfd_open K c0 spec groups = InChild (Execed im c)"
  shows "dropped_to c uid gid groups \<and> 1000 \<le> uid \<and> uid \<noteq> - 1 \<and> 1000 \<le> gid \<and> gid \<noteq> - 1 \<and> euid = 0 \<and>
    (\<exists>path. im_path im = CHR ''/'' # path) \<and> im_argv im = cmd \<and>
    (\<forall>s \<in> set (im_envv im). \<exists>k v. s = k @ ''='' @ v \<and> (k, v) \<in> set env \<and> is_env_allowed k)"
proof -
  obtain im' where i: "leader_image euid spec groups = Inr im'" "leader_child_exec K c0 im' = Execed im c"
    using assms(3) by (auto simp: spawn_session_leader_def split: sum.splits fork_result.splits)
  note im = leader_image_exact [OF i(1)] and drop = leader_child_drops [OF assms(2) i(2)]
  have v: "uid \<noteq> - 1" "gid \<noteq> - 1" "\<not> uid < UID_MIN" "\<not> gid < UID_MIN"
    "\<exists>path args. cmd = (CHR ''/'' # path) # args"
    "spec = \<lparr>ss_username = username, ss_uid = uid, ss_gid = gid, ss_cmd = cmd, ss_env = sanitize_env env\<rparr>"
  proof -
    have "take (Suc 0) f = ''/'' \<Longrightarrow> \<exists>p. f = CHR ''/'' # p" for f by (cases f) auto
    then show "uid \<noteq> - 1" "gid \<noteq> - 1" "\<not> uid < UID_MIN" "\<not> gid < UID_MIN"
      "\<exists>path args. cmd = (CHR ''/'' # path) # args"
      "spec = \<lparr>ss_username = username, ss_uid = uid, ss_gid = gid, ss_cmd = cmd, ss_env = sanitize_env env\<rparr>"
      using assms(1) by (auto simp: validate_def rbind_eq_Inr split: if_splits list.splits)
  qed
  have "\<forall>s \<in> set (im_envv im). \<exists>k v. s = k @ ''='' @ v \<and> (k, v) \<in> set env \<and> is_env_allowed k"
    using im drop(1) v(6) by (auto simp: sanitize_env_def)
  then show ?thesis using im drop v by (auto simp: UID_MIN_def not_less)
qed

text \<open>A kernel that does what the manual pages say, for evaluation.\<close>

definition demo_kernel :: child_kernel where
  "demo_kernel = \<lparr>ck_setsid = (\<lambda>c. Inr (c\<lparr>cr_session_leader := True\<rparr>)),
     ck_setresgid = (\<lambda>g c. Inr (c\<lparr>cr_gids := (g, g, g)\<rparr>)),
     ck_setgroups = (\<lambda>gs c. Inr (c\<lparr>cr_groups := gs\<rparr>)),
     ck_setresuid = (\<lambda>u c. Inr (c\<lparr>cr_uids := (u, u, u)\<rparr>)),
     ck_getresuid = (\<lambda>c. Inr (cr_uids c)), ck_getresgid = (\<lambda>c. Inr (cr_gids c)),
     ck_set_no_new_privs = (\<lambda>c. Inr (c\<lparr>cr_no_new_privs := True\<rparr>)),
     ck_unblock_signals = (\<lambda>c. c\<lparr>cr_signals_blocked := False\<rparr>), ck_execve = (\<lambda>im c. True)\<rparr>"

definition root_creds :: creds where
  "root_creds = \<lparr>cr_uids = (0, 0, 0), cr_gids = (0, 0, 0), cr_groups = [0, 42], cr_no_new_privs = False,
     cr_session_leader = False, cr_signals_blocked = True\<rparr>"

lemma demo_kernel_honest: "honest_kernel demo_kernel"
  by (auto simp: honest_kernel_def demo_kernel_def)

theorem launched_session_is_confined_witness:
  "let spec = \<lparr>ss_username = ''alice'', ss_uid = 1000, ss_gid = 1000, ss_cmd = [''/bin/niri''],
         ss_env = [(''LANG'', ''C'')]\<rparr>;
       im = \<lparr>im_path = ''/bin/niri'', im_argv = [''/bin/niri''], im_envv = [''LANG=C''], im_groups = [1000, 27],
         im_uid = 1000, im_gid = 1000\<rparr>;
       c = \<lparr>cr_uids = (1000, 1000, 1000), cr_gids = (1000, 1000, 1000), cr_groups = [1000, 27],
         cr_no_new_privs = True, cr_session_leader = True, cr_signals_blocked = False\<rparr>
   in spawn_session_leader 0 ForkChild (\<lambda>p. Inr 3) demo_kernel root_creds spec [1000, 27] = InChild (Execed im c) \<and>
      dropped_to c 1000 1000 [1000, 27]"
proof -
  let ?spec = "\<lparr>ss_username = ''alice'', ss_uid = 1000, ss_gid = 1000, ss_cmd = [''/bin/niri''],
         ss_env = [(''LANG'', ''C'')]\<rparr>"
  let ?im = "\<lparr>im_path = ''/bin/niri'', im_argv = [''/bin/niri''], im_envv = [''LANG=C''], im_groups = [1000, 27],
         im_uid = 1000, im_gid = 1000\<rparr>"
  let ?c = "\<lparr>cr_uids = (1000, 1000, 1000), cr_gids = (1000, 1000, 1000), cr_groups = [1000, 27],
         cr_no_new_privs = True, cr_session_leader = True, cr_signals_blocked = False\<rparr>"
  have v: "validate (\<lambda>n. Inr (Some \<lparr>pw_uid = 1000, pw_gid = 1000\<rparr>)) ''alice'' 1000 1000 [''/bin/niri'']
      [(''LANG'', ''C''), (''LD_PRELOAD'', ''x'')] = Inr ?spec"
    by (simp add: validate_def UID_MIN_def lookup_user_def sanitize_env_def is_env_allowed_def ENV_ALLOWLIST_def)
  have s: "spawn_session_leader 0 ForkChild (\<lambda>p. Inr 3) demo_kernel root_creds ?spec [1000, 27]
      = InChild (Execed ?im ?c)"
    by (simp add: spawn_session_leader_def leader_image_def prefork_gates_def UID_MIN_def to_c_def
        leader_child_exec_def or_die_def demo_kernel_def root_creds_def Let_def)
  show ?thesis
    unfolding Let_def using s launched_session_is_confined [OF v demo_kernel_honest s] by blast
qed

text \<open>
  the greeter the broker launches is confined too: it reaches \<open>execve\<close> only with the
  configured uid and gid (at least 100, never the sentinel), no group but its own, the
  configured command as its only argument, and an environment of the seven fixed names
  and the four graphics names copied from the broker.
\<close>

theorem launched_greeter_is_confined:
  assumes "honest_kernel K"
    and "spawn_greeter euid env_lookup fork pidfd_open K c0 spec = InChild (Execed im c)"
  shows "dropped_to c (gs_uid spec) (gs_gid spec) [gs_gid spec] \<and> 100 \<le> gs_uid spec \<and> gs_uid spec \<noteq> - 1 \<and>
    100 \<le> gs_gid spec \<and> gs_gid spec \<noteq> - 1 \<and> euid = 0 \<and> im_argv im = [gs_command spec] \<and>
    im_envv im = map env_string (greeter_child_env_pairs env_lookup spec (gs_home spec)) \<and>
    fst ` set (greeter_child_env_pairs env_lookup spec (gs_home spec)) \<subseteq>
      {''USER'', ''LOGNAME'', ''HOME'', ''XDG_RUNTIME_DIR'', ''WAYLAND_DISPLAY'', ''GREETD_SOCK'', ''PATH''}
      \<union> set GREETER_ENV_PASSTHROUGH"
proof -
  obtain im' where i: "greeter_image euid env_lookup spec = Inr im'" "greeter_child_exec K c0 im' = Execed im c"
    using assms(2) by (auto simp: spawn_greeter_def split: sum.splits fork_result.splits)
  have im: "euid = 0" "gs_uid spec \<noteq> - 1" "\<not> gs_uid spec < 100" "gs_gid spec \<noteq> - 1" "\<not> gs_gid spec < 100"
    "im_groups im' = [gs_gid spec]" "im_uid im' = gs_uid spec" "im_gid im' = gs_gid spec"
    "im_argv im' = [gs_command spec]"
    "im_envv im' = map env_string (greeter_child_env_pairs env_lookup spec (gs_home spec))"
    using i(1)
    by (auto simp: greeter_image_def greeter_prefork_gates_def build_greeter_cstrings_def to_str_def to_c_Inr
        UID_FLOOR_GREETER_def rbind_eq_Inr split: if_splits dest!: collect_env)
  have "leader_child_exec K c0 im' = Execed im c"
    using i(2) greeter_child_is_leader_child im(6,8) by simp
  note drop = leader_child_drops [OF assms(1) this]
  have "fst ` set (greeter_child_env_pairs env_lookup spec (gs_home spec)) \<subseteq>
      {''USER'', ''LOGNAME'', ''HOME'', ''XDG_RUNTIME_DIR'', ''WAYLAND_DISPLAY'', ''GREETD_SOCK'', ''PATH''}
      \<union> set GREETER_ENV_PASSTHROUGH"
    by (auto simp: greeter_child_env_pairs_def harvest_passthrough_env_def split: option.splits)
  then show ?thesis using im drop by (auto simp: not_less)
qed

theorem launched_greeter_is_confined_witness:
  "let spec = \<lparr>gs_uid = 999, gs_gid = 999, gs_name = ''g'', gs_home = ''/'', gs_command = ''/dms'', gs_greetd_sock = ''s''\<rparr>
   in \<exists>im c. spawn_greeter 0 (\<lambda>k. None) ForkChild (\<lambda>p. Inr 3) demo_kernel root_creds spec = InChild (Execed im c) \<and>
      dropped_to c 999 999 [999]"
proof -
  let ?spec = "\<lparr>gs_uid = 999, gs_gid = 999, gs_name = ''g'', gs_home = ''/'', gs_command = ''/dms'', gs_greetd_sock = ''s''\<rparr>"
  have "\<exists>im c. spawn_greeter 0 (\<lambda>k. None) ForkChild (\<lambda>p. Inr 3) demo_kernel root_creds ?spec = InChild (Execed im c)"
    by (simp add: spawn_greeter_def greeter_image_def greeter_prefork_gates_def build_greeter_cstrings_def
        to_str_def to_c_def utf8_valid.simps utf8_width_def utf8_second_ok_def greeter_child_env_pairs_def
        harvest_passthrough_env_def GREETER_ENV_PASSTHROUGH_def UID_FLOOR_GREETER_def greeter_child_exec_def
        or_die_def demo_kernel_def root_creds_def Let_def)
  then obtain im c where
    s: "spawn_greeter 0 (\<lambda>k. None) ForkChild (\<lambda>p. Inr 3) demo_kernel root_creds ?spec = InChild (Execed im c)"
    by blast
  then show ?thesis
    unfolding Let_def using launched_greeter_is_confined [OF demo_kernel_honest s] by auto
qed

end
