(* ===== verification/Session_Broker.thy ===== *)
theory Session_Broker
  imports Session_Transport Session_Leader Rust_Text
begin

text \<open>
  The privileged session broker, \<open>crates/halmasuit-session/src/broker.rs\<close>: the relay
  between the in-flight worker and the compositor, and the event loop's handlers over
  pending connections, the active connection, tracked greeters and the idle window.
  The kernel's and calloop's answers come with each event, and each event reads the
  clock once.
\<close>

section \<open>The relay\<close>

definition should_idle_exit :: "bool \<Rightarrow> bool \<Rightarrow> bool" where
  "should_idle_exit has_active_conn idle_window_elapsed = (\<not> has_active_conn \<and> idle_window_elapsed)"

datatype disposition = Completed session_outcome | AuthFailed string | Cancelled

datatype broker_error = BrokerTransport transport_error | BrokerSlot slot_error | UnexpectedFrame | WorkerGone

datatype broker_phase = AwaitWorker | AwaitGreeterConvResponse | AwaitGreeterStartSession | SessionRunning

datatype relay_step_result = RelayContinue | Finished disposition

text \<open>
  \<open>serde_json\<close> for the frames of both hops, the host byte order and \<open>waitpid\<close>.
\<close>

record broker_env =
  be_le :: bool
  be_b2c_to_vec :: "broker_to_compositor \<Rightarrow> json_error + byte list"
  be_c2b_to_vec :: "compositor_to_broker \<Rightarrow> json_error + byte list"
  be_c2b_from_slice :: "byte list \<Rightarrow> json_error + compositor_to_broker"
  be_pm_from_slice :: "byte list \<Rightarrow> json_error + parent_message"
  be_wait :: "pid \<Rightarrow> os_error + session_outcome"

text \<open>
  A relay step gives its result, the next phase, and what the kernel took: the frame to
  the compositor with its descriptor, or the frame to the worker.
\<close>

datatype relay_send = ToCompositor broker_to_compositor "fd option" | ToWorker compositor_to_broker

type_synonym relay_out = "(broker_error + relay_step_result) \<times> broker_phase \<times> relay_send list"

text \<open>\<open>compositor.send(&frame)?\<close> followed by the rest of the arm.\<close>

definition send_then ::
    "transport_error + unit \<Rightarrow> broker_phase \<Rightarrow> relay_send \<Rightarrow> relay_step_result \<Rightarrow> broker_phase \<Rightarrow> relay_out" where
  "send_then sent phase what res phase' = (case sent of
     Inl e \<Rightarrow> (Inl (BrokerTransport e), phase, [])
   | Inr _ \<Rightarrow> (Inr res, phase', [what]))"

definition on_worker_readable ::
    "broker_env \<Rightarrow> broker_phase \<Rightarrow> auth_slot \<Rightarrow> recvmsg_result \<Rightarrow> (byte list \<Rightarrow> fd list \<Rightarrow> errno + nat) \<Rightarrow> relay_out" where
  "on_worker_readable B phase slot received sys_send =
     (if phase \<noteq> AwaitWorker \<and> phase \<noteq> SessionRunning then (Inl UnexpectedFrame, phase, [])
      else if slot_current slot = None then (Inl WorkerGone, phase, [])
      else
        let send_to = (\<lambda>frame. transport_send (be_le B) (be_b2c_to_vec B) (\<lambda>b. sys_send b []) frame) in
        case fst (recv_frame_with_fd (be_le B) (be_pm_from_slice B) received) of
          Inl e \<Rightarrow> (Inl (BrokerTransport e), phase, [])
        | Inr (Conv (ConvPrompt style message), _) \<Rightarrow>
            (let prompt = ConvPrompt style message in
             send_then (send_to prompt) phase (ToCompositor prompt None) RelayContinue AwaitGreeterConvResponse)
        | Inr (Conv (ConvDisplay style message), _) \<Rightarrow>
            (let display = ConvDisplay style message in
             send_then (send_to display) phase (ToCompositor display None) RelayContinue phase)
        | Inr (Outcome (WorkerAuthOk username uid gid), _) \<Rightarrow>
            (let frame = AuthOkFrame username uid gid in
             send_then (send_to frame) phase (ToCompositor frame None) RelayContinue AwaitGreeterStartSession)
        | Inr (Outcome (WorkerSessionOpened _ _ _), pidfd) \<Rightarrow>
            send_then (send_frame_with_fd (be_le B) (be_b2c_to_vec B) sys_send SessionOpened pidfd) phase
              (ToCompositor SessionOpened pidfd) RelayContinue SessionRunning
        | Inr (Outcome (WorkerSessionEnded outcome), _) \<Rightarrow>
            (let frame = SessionEnded outcome in
             send_then (send_to frame) phase (ToCompositor frame None) (Finished (Completed outcome)) phase)
        | Inr (Outcome (WorkerFailure reason), _) \<Rightarrow>
            (let frame = FailureFrame reason in
             send_then (send_to frame) phase (ToCompositor frame None) (Finished (AuthFailed reason)) phase)
        | Inr (Conv _, _) \<Rightarrow> (Inl UnexpectedFrame, phase, [])
        | Inr (Outcome (WorkerSuccess _ _ _), _) \<Rightarrow> (Inl UnexpectedFrame, phase, []))"

definition forward_to_worker ::
    "broker_env \<Rightarrow> broker_phase \<Rightarrow> auth_slot \<Rightarrow> (byte list \<Rightarrow> errno + nat) \<Rightarrow> compositor_to_broker \<Rightarrow> relay_out" where
  "forward_to_worker B phase slot sys_send frame =
     (if slot_current slot = None then (Inl WorkerGone, phase, [])
      else send_then (transport_send (be_le B) (be_c2b_to_vec B) sys_send frame) phase
             (ToWorker frame) RelayContinue AwaitWorker)"

definition on_greeter_readable ::
    "broker_env \<Rightarrow> broker_phase \<Rightarrow> auth_slot \<Rightarrow> errno + byte list \<Rightarrow> (byte list \<Rightarrow> errno + nat) \<Rightarrow> relay_out" where
  "on_greeter_readable B phase slot received sys_send =
     (if phase = AwaitWorker \<or> phase = SessionRunning then (Inl UnexpectedFrame, phase, [])
      else
        let expect_start = (phase = AwaitGreeterStartSession) in
        case transport_recv (be_le B) (be_c2b_from_slice B) received of
          Inl e \<Rightarrow> (Inl (BrokerTransport e), phase, [])
        | Inr (ConvResponse s) \<Rightarrow>
            if \<not> expect_start then forward_to_worker B phase slot sys_send (ConvResponse s)
            else (Inl UnexpectedFrame, phase, [])
        | Inr (StartSessionFrame cmd env) \<Rightarrow>
            if expect_start then forward_to_worker B phase slot sys_send (StartSessionFrame cmd env)
            else (Inl UnexpectedFrame, phase, [])
        | Inr Cancel \<Rightarrow> (Inr (Finished Cancelled), phase, [])
        | Inr _ \<Rightarrow> (Inl UnexpectedFrame, phase, []))"

definition reap_for_disposition :: "broker_env \<Rightarrow> auth_slot \<Rightarrow> disposition \<Rightarrow> auth_slot" where
  "reap_for_disposition B slot disp = (case disp of
     Completed _ \<Rightarrow> snd (reap_current (be_wait B) slot)
   | AuthFailed _ \<Rightarrow> snd (reap_current (be_wait B) slot)
   | Cancelled \<Rightarrow> snd (cancel_current (be_wait B) slot))"

section \<open>The refusal log\<close>

record refusal_state =
  rs_last_logged :: instant
  rs_suppressed :: u32

type_synonym refusal_log = "u32 \<rightharpoonup> refusal_state"

definition SUPPRESS_WINDOW :: duration where
  "SUPPRESS_WINDOW = 60 * 1000000000"

definition saturating_succ :: "u32 \<Rightarrow> u32" where
  "saturating_succ n = (if n = - 1 then n else n + 1)"

text \<open>\<open>record_refusal\<close>: the journal line, as the uid and the suppressed count, if one is written.\<close>

definition record_refusal :: "instant \<Rightarrow> u32 \<Rightarrow> refusal_log \<Rightarrow> (u32 \<times> u32) option \<times> refusal_log" where
  "record_refusal now puid log =
     (let entry = (case log puid of
            Some e \<Rightarrow> e
          | None \<Rightarrow> \<lparr>rs_last_logged = (if SUPPRESS_WINDOW + 1000000000 \<le> now
                        then now - (SUPPRESS_WINDOW + 1000000000) else now), rs_suppressed = 0\<rparr>) in
      if now - rs_last_logged entry \<ge> SUPPRESS_WINDOW
      then (Some (puid, rs_suppressed entry), log(puid \<mapsto> \<lparr>rs_last_logged = now, rs_suppressed = 0\<rparr>))
      else (None, log(puid \<mapsto> entry\<lparr>rs_suppressed := saturating_succ (rs_suppressed entry)\<rparr>)))"

section \<open>The event loop's state\<close>

type_synonym token = nat
type_synonym chan_id = nat

record active_conn =
  ac_greeter :: chan_id
  ac_relay :: broker_phase
  ac_greeter_token :: token
  ac_worker_token :: token

record pending_conn =
  pe_id :: u64
  pe_chan :: chan_id
  pe_puid :: u32
  pe_token :: token

record spawned_greeter =
  sg_handle :: worker_handle
  sg_token :: token

definition MAX_PENDING :: nat where
  "MAX_PENDING = 8"

definition IDLE_EXIT :: duration where
  "IDLE_EXIT = 30 * 1000000000"

text \<open>
  What the loop does to the outside, in order: calloop sources, calls on the slot, frames
  that left, descriptors and greeters.
\<close>

datatype source_kind = PendingSource | RelaySource | PidfdSource

datatype broker_effect =
    InsertSource source_kind token
  | RemoveSource source_kind token
  | SlotCalled
  | Relayed relay_send
  | SentRootFd chan_id fd
  | SentGreeterSpawned chan_id i32 fd
  | RefusalLine u32 u32
  | KillGroup pid
  | ReapGreeter pid

record broker_loop =
  bl_slot :: auth_slot
  bl_active :: "active_conn option"
  bl_pending :: "pending_conn list"
  next_pending_id :: u64
  bl_greeters :: "spawned_greeter list"
  idle_since :: "instant option"
  bl_running :: bool
  refusals :: refusal_log
  bl_effects :: "broker_effect list"

definition new_broker_loop :: "instant \<Rightarrow> u32 \<Rightarrow> broker_loop" where
  "new_broker_loop now relay_uid =
     \<lparr>bl_slot = with_defaults relay_uid, bl_active = None, bl_pending = [], next_pending_id = 0,
      bl_greeters = [], idle_since = Some now, bl_running = True, refusals = Map.empty, bl_effects = []\<rparr>"

definition emit :: "broker_effect list \<Rightarrow> broker_loop \<Rightarrow> broker_loop" where
  "emit es bl = bl\<lparr>bl_effects := bl_effects bl @ es\<rparr>"

definition has_connection :: "broker_loop \<Rightarrow> bool" where
  "has_connection bl = (bl_active bl \<noteq> None \<or> bl_pending bl \<noteq> [])"

definition arm_idle_if_quiet :: "instant \<Rightarrow> broker_loop \<Rightarrow> broker_loop" where
  "arm_idle_if_quiet now bl = (if \<not> has_connection bl then bl\<lparr>idle_since := Some now\<rparr> else bl)"

definition drop_active :: "instant \<Rightarrow> broker_loop \<Rightarrow> broker_loop" where
  "drop_active now bl = arm_idle_if_quiet now (case bl_active bl of
     None \<Rightarrow> bl
   | Some a \<Rightarrow> emit [RemoveSource RelaySource (ac_greeter_token a), RemoveSource RelaySource (ac_worker_token a)]
                (bl\<lparr>bl_active := None\<rparr>))"

definition refuse :: "instant \<Rightarrow> u32 \<Rightarrow> broker_loop \<Rightarrow> broker_loop" where
  "refuse now puid bl = (let (line, log) = record_refusal now puid (refusals bl) in
     emit (case line of None \<Rightarrow> [] | Some (u, n) \<Rightarrow> [RefusalLine u n]) (bl\<lparr>refusals := log\<rparr>))"

section \<open>Relay steps in the loop\<close>

datatype relay_io =
    WorkerIo recvmsg_result "byte list \<Rightarrow> fd list \<Rightarrow> errno + nat"
  | GreeterIo "errno + byte list" "byte list \<Rightarrow> errno + nat"

definition bl_step :: "broker_env \<Rightarrow> instant \<Rightarrow> relay_io \<Rightarrow> broker_loop \<Rightarrow> broker_loop" where
  "bl_step B now io bl = (case bl_active bl of
     None \<Rightarrow> bl
   | Some a \<Rightarrow>
       let (res, phase, sends) = (case io of
             WorkerIo received sys_send \<Rightarrow> on_worker_readable B (ac_relay a) (bl_slot bl) received sys_send
           | GreeterIo received sys_send \<Rightarrow> on_greeter_readable B (ac_relay a) (bl_slot bl) received sys_send);
           bl1 = emit (map Relayed sends) (bl\<lparr>bl_active := Some (a\<lparr>ac_relay := phase\<rparr>)\<rparr>) in
       case res of
         Inr RelayContinue \<Rightarrow> bl1
       | Inr (Finished disp) \<Rightarrow>
           (let bl2 = drop_active now bl1 in
            emit [SlotCalled] (bl2\<lparr>bl_slot := reap_for_disposition B (bl_slot bl2) disp\<rparr>))
       | Inl _ \<Rightarrow>
           (let bl2 = drop_active now bl1 in
            emit [SlotCalled] (bl2\<lparr>bl_slot := snd (cancel_current (be_wait B) (bl_slot bl2))\<rparr>)))"

section \<open>Greeters\<close>

definition track_greeter :: "os_error + token \<Rightarrow> worker_handle \<Rightarrow> broker_loop \<Rightarrow> broker_loop" where
  "track_greeter inserted handle bl = (case inserted of
     Inl _ \<Rightarrow> bl
   | Inr tok \<Rightarrow> emit [InsertSource PidfdSource tok]
       (bl\<lparr>bl_greeters := bl_greeters bl @ [\<lparr>sg_handle = handle, sg_token = tok\<rparr>]\<rparr>))"

text \<open>\<open>Vec::swap_remove\<close>: the last element takes the removed one's place.\<close>

definition swap_remove :: "nat \<Rightarrow> 'a list \<Rightarrow> 'a list" where
  "swap_remove i xs = butlast (xs[i := last xs])"

fun position :: "('a \<Rightarrow> bool) \<Rightarrow> 'a list \<Rightarrow> nat option" where
  "position P [] = None"
| "position P (x # xs) = (if P x then Some 0 else map_option Suc (position P xs))"

definition reap_greeter :: "pid \<Rightarrow> broker_loop \<Rightarrow> broker_loop" where
  "reap_greeter pid bl = (case position (\<lambda>g. wh_pid (sg_handle g) = pid) (bl_greeters bl) of
     None \<Rightarrow> bl
   | Some pos \<Rightarrow>
       emit ((if 0 \<le>s pid then [KillGroup pid] else []) @ [ReapGreeter pid])
         (bl\<lparr>bl_greeters := swap_remove pos (bl_greeters bl)\<rparr>))"

section \<open>Requests on a first frame\<close>

text \<open>The answers of the environment while one first frame is handled.\<close>

record frame_io =
  fi_recv :: "errno + byte list"
  fi_send :: "byte list \<Rightarrow> fd list \<Rightarrow> errno + nat"
  fi_open_root :: "os_error + fd"
  fi_env :: "string \<Rightarrow> string option"
  fi_spawn_greeter :: "greeter_spec \<Rightarrow> spawn_error + worker_handle"
  fi_spawn_worker :: "string \<Rightarrow> string \<Rightarrow> os_error + worker_handle \<times> nat"
  fi_insert_worker :: "os_error + token"
  fi_insert_greeter :: "os_error + token"
  fi_insert_pidfd :: "os_error + token"

definition serve_root_fd_request ::
    "broker_env \<Rightarrow> instant \<Rightarrow> frame_io \<Rightarrow> chan_id \<Rightarrow> u32 \<Rightarrow> broker_loop \<Rightarrow> broker_loop" where
  "serve_root_fd_request B now io chan puid bl =
     (if puid \<noteq> 0 \<and> puid \<noteq> slot_relay_peer_uid (bl_slot bl) then refuse now puid bl
      else case fi_open_root io of
        Inl _ \<Rightarrow> bl
      | Inr root \<Rightarrow> (case send_frame_with_fd (be_le B) (be_b2c_to_vec B) (fi_send io) RootFd (Some root) of
          Inl _ \<Rightarrow> bl
        | Inr _ \<Rightarrow> emit [SentRootFd chan root] bl))"

definition or_else :: "'a \<Rightarrow> 'a option \<Rightarrow> 'a" where
  "or_else d x = (case x of None \<Rightarrow> d | Some v \<Rightarrow> v)"

definition greeter_spec_from_env :: "(string \<Rightarrow> string option) \<Rightarrow> string + greeter_spec" where
  "greeter_spec_from_env env =
     rbind (ok_or ''HALMASUIT_GREETER_UID missing or unparsable''
              (Option.bind (env ''HALMASUIT_GREETER_UID'') parse_u32)) (\<lambda>uid.
     let command_str = or_else [] (env ''HALMASUIT_GREETER_COMMAND'') in
     if command_str = [] then Inl ''HALMASUIT_GREETER_COMMAND empty''
     else Inr \<lparr>gs_uid = uid,
       gs_gid = or_else uid (Option.bind (env ''HALMASUIT_GREETER_GID'') parse_u32),
       gs_name = or_else (''halmasuit-greeter-'' @ show_nat (unat uid)) (env ''HALMASUIT_GREETER_NAME''),
       gs_home = or_else ''/var/empty'' (env ''HALMASUIT_GREETER_HOME''),
       gs_command = command_str,
       gs_greetd_sock = or_else ''/run/halmasuit/greetd.sock'' (env ''HALMASUIT_GREETD_SOCKET'')\<rparr>)"

definition serve_spawn_greeter_request ::
    "broker_env \<Rightarrow> instant \<Rightarrow> frame_io \<Rightarrow> chan_id \<Rightarrow> u32 \<Rightarrow> broker_loop \<Rightarrow> worker_handle option \<times> broker_loop" where
  "serve_spawn_greeter_request B now io chan puid bl =
     (if puid \<noteq> 0 \<and> puid \<noteq> slot_relay_peer_uid (bl_slot bl) then (None, refuse now puid bl)
      else case greeter_spec_from_env (fi_env io) of
        Inl _ \<Rightarrow> (None, bl)
      | Inr spec \<Rightarrow> (case fi_spawn_greeter io spec of
          Inl _ \<Rightarrow> (None, bl)
        | Inr handle \<Rightarrow>
            let pid = (if 0 \<le>s wh_pid handle then wh_pid handle else - 1) in
            (Some handle,
             case send_frame_with_fd (be_le B) (be_b2c_to_vec B) (fi_send io) (GreeterSpawned pid)
                    (Some (wh_pidfd handle)) of
               Inl _ \<Rightarrow> bl
             | Inr _ \<Rightarrow> emit [SentGreeterSpawned chan pid (wh_pidfd handle)] bl)))"

datatype first_frame = FirstBeginAuth string string | FirstGreeterSpawned worker_handle | FirstHandled

definition dispatch_first_frame ::
    "broker_env \<Rightarrow> instant \<Rightarrow> frame_io \<Rightarrow> chan_id \<Rightarrow> u32 \<Rightarrow> broker_loop \<Rightarrow> first_frame \<times> broker_loop" where
  "dispatch_first_frame B now io chan puid bl =
     (case transport_recv (be_le B) (be_c2b_from_slice B) (fi_recv io) of
        Inr (BeginAuth service username) \<Rightarrow> (FirstBeginAuth service username, bl)
      | Inr RequestRootFd \<Rightarrow> (FirstHandled, serve_root_fd_request B now io chan puid bl)
      | Inr SpawnGreeter \<Rightarrow>
          (let (h, bl') = serve_spawn_greeter_request B now io chan puid bl in
           (case h of None \<Rightarrow> FirstHandled | Some handle \<Rightarrow> FirstGreeterSpawned handle, bl'))
      | Inr _ \<Rightarrow> (FirstHandled, bl)
      | Inl _ \<Rightarrow> (FirstHandled, bl))"

section \<open>Admission and activation\<close>

datatype accept_result =
    AcceptWouldBlock
  | AcceptFailed os_error
  | Accepted chan_id "os_error + u32"

definition admit_one ::
    "instant \<Rightarrow> accept_result \<Rightarrow> os_error + token \<Rightarrow> broker_loop \<Rightarrow> (os_error + bool) \<times> broker_loop" where
  "admit_one now accepted inserted bl = (case accepted of
     AcceptWouldBlock \<Rightarrow> (Inr False, bl)
   | AcceptFailed e \<Rightarrow> (Inl e, bl)
   | Accepted chan (Inl _) \<Rightarrow> (Inr True, bl)
   | Accepted chan (Inr puid) \<Rightarrow>
       if puid \<noteq> 0 \<and> puid \<noteq> slot_relay_peer_uid (bl_slot bl) then (Inr True, refuse now puid bl)
       else
         let bl1 = (if length (bl_pending bl) \<ge> MAX_PENDING then (case bl_pending bl of
                 [] \<Rightarrow> bl
               | old # rest \<Rightarrow> emit [RemoveSource PendingSource (pe_token old)] (bl\<lparr>bl_pending := rest\<rparr>)) else bl);
             new_id = next_pending_id bl1;
             bl2 = bl1\<lparr>next_pending_id := new_id + 1\<rparr> in
         case inserted of
           Inl e \<Rightarrow> (Inl e, bl2)
         | Inr tok \<Rightarrow> (Inr True, emit [InsertSource PendingSource tok]
             (bl2\<lparr>bl_pending := bl_pending bl2 @ [\<lparr>pe_id = new_id, pe_chan = chan, pe_puid = puid, pe_token = tok\<rparr>],
                 idle_since := None\<rparr>)))"

definition activate ::
    "broker_env \<Rightarrow> instant \<Rightarrow> frame_io \<Rightarrow> chan_id \<Rightarrow> u32 \<Rightarrow> string \<Rightarrow> string \<Rightarrow> broker_loop \<Rightarrow>
     (os_error + unit) \<times> broker_loop" where
  "activate B now io chan puid service username bl =
     (let bl1 = drop_active now bl;
          (r, slot) = create_at (be_wait B) now puid (fi_spawn_worker io service username) (bl_slot bl1);
          bl2 = emit [SlotCalled] (bl1\<lparr>bl_slot := slot\<rparr>) in
      case r of
        Inl _ \<Rightarrow> (Inr (), bl2)
      | Inr _ \<Rightarrow> (case slot_current slot of
          None \<Rightarrow> (Inr (), emit [SlotCalled] (bl2\<lparr>bl_slot := snd (cancel_current (be_wait B) slot)\<rparr>))
        | Some _ \<Rightarrow> (case fi_insert_worker io of
            Inl e \<Rightarrow> (Inl e, bl2)
          | Inr wtok \<Rightarrow>
              let bl3 = emit [InsertSource RelaySource wtok] bl2 in
              case fi_insert_greeter io of
                Inl e \<Rightarrow> (Inl e, emit [RemoveSource RelaySource wtok] bl3)
              | Inr gtok \<Rightarrow> (Inr (), emit [InsertSource RelaySource gtok]
                  (bl3\<lparr>idle_since := None,
                      bl_active := Some \<lparr>ac_greeter = chan, ac_relay = AwaitWorker,
                        ac_greeter_token = gtok, ac_worker_token = wtok\<rparr>\<rparr>)))))"

text \<open>
  \<open>first_frame_ready\<close>; the connection's pending source removed itself before this callback.
\<close>

definition first_frame_ready :: "broker_env \<Rightarrow> instant \<Rightarrow> frame_io \<Rightarrow> u64 \<Rightarrow> broker_loop \<Rightarrow> broker_loop" where
  "first_frame_ready B now io cid bl = (case position (\<lambda>p. pe_id p = cid) (bl_pending bl) of
     None \<Rightarrow> bl
   | Some pos \<Rightarrow>
       let p = bl_pending bl ! pos;
           bl1 = emit [RemoveSource PendingSource (pe_token p)]
                   (bl\<lparr>bl_pending := take pos (bl_pending bl) @ drop (Suc pos) (bl_pending bl)\<rparr>);
           (ff, bl2) = dispatch_first_frame B now io (pe_chan p) (pe_puid p) bl1;
           bl3 = (case ff of
             FirstBeginAuth service username \<Rightarrow> snd (activate B now io (pe_chan p) (pe_puid p) service username bl2)
           | FirstGreeterSpawned handle \<Rightarrow> track_greeter (fi_insert_pidfd io) handle bl2
           | FirstHandled \<Rightarrow> bl2) in
       arm_idle_if_quiet now bl3)"

section \<open>The main loop\<close>

datatype broker_event =
    ListenerReady "(accept_result \<times> (os_error + token)) list"
  | FirstFrameReady frame_io u64
  | RelayReady relay_io
  | GreeterExited pid
  | StopSignal

text \<open>The listener callback: admit until there is nothing to accept or an error.\<close>

fun admit_all :: "instant \<Rightarrow> (accept_result \<times> (os_error + token)) list \<Rightarrow> broker_loop \<Rightarrow> broker_loop" where
  "admit_all now [] bl = bl"
| "admit_all now ((a, tok) # conns) bl = (case admit_one now a tok bl of
     (Inr True, bl') \<Rightarrow> admit_all now conns bl'
   | (Inr False, bl') \<Rightarrow> bl'
   | (Inl _, bl') \<Rightarrow> bl')"

fun bl_handle :: "broker_env \<Rightarrow> instant \<Rightarrow> broker_event \<Rightarrow> broker_loop \<Rightarrow> broker_loop" where
  "bl_handle B now (ListenerReady conns) bl = admit_all now conns bl"
| "bl_handle B now (FirstFrameReady io cid) bl = first_frame_ready B now io cid bl"
| "bl_handle B now (RelayReady io) bl = bl_step B now io bl"
| "bl_handle B now (GreeterExited pid) bl = reap_greeter pid bl"
| "bl_handle B now StopSignal bl = bl\<lparr>bl_running := False\<rparr>"

text \<open>
  One turn of \<open>run_broker_loop\<close>: dispatch the events, then the idle check with its race
  drain.  The result says whether the loop goes on, ended, or failed.
\<close>

datatype loop_end = GoesOn | Stopped | IdleExit | LoopFailed os_error

definition loop_turn ::
    "broker_env \<Rightarrow> duration \<Rightarrow> instant \<Rightarrow> broker_event list \<Rightarrow> accept_result \<times> (os_error + token) \<Rightarrow>
     broker_loop \<Rightarrow> loop_end \<times> broker_loop" where
  "loop_turn B idle_exit now events last_accept bl =
     (let bl1 = fold (bl_handle B now) events bl;
          elapsed = (case idle_since bl1 of None \<Rightarrow> False | Some t \<Rightarrow> now - t \<ge> idle_exit);
          go = (\<lambda>b. (if bl_running b then GoesOn else Stopped, b)) in
      if should_idle_exit (has_connection bl1) elapsed then
        (case admit_one now (fst last_accept) (snd last_accept) bl1 of
           (Inr True, bl2) \<Rightarrow> go bl2
         | (Inr False, bl2) \<Rightarrow> (IdleExit, bl2)
         | (Inl e, bl2) \<Rightarrow> (LoopFailed e, bl2))
      else go bl1)"

section \<open>Invariant of the loop\<close>

text \<open>The relay sources registered with calloop, and that the slot is only called without any.\<close>

fun relay_sources :: "broker_effect list \<Rightarrow> token list" where
  "relay_sources [] = []"
| "relay_sources (e # es) = (case e of
     InsertSource RelaySource t \<Rightarrow> relay_sources es @ [t]
   | RemoveSource RelaySource t \<Rightarrow> remove1 t (relay_sources es)
   | _ \<Rightarrow> relay_sources es)"

text \<open>The functions read the effects newest first.\<close>

fun slot_called_bare :: "broker_effect list \<Rightarrow> bool" where
  "slot_called_bare [] = True"
| "slot_called_bare (e # es) = (slot_called_bare es \<and> (e = SlotCalled \<longrightarrow> relay_sources es = []))"

definition active_tokens :: "broker_loop \<Rightarrow> token list" where
  "active_tokens bl = (case bl_active bl of None \<Rightarrow> [] | Some a \<Rightarrow> [ac_worker_token a, ac_greeter_token a])"

definition bl_core :: "u32 \<Rightarrow> broker_loop \<Rightarrow> bool" where
  "bl_core relay bl \<longleftrightarrow>
     length (bl_pending bl) \<le> MAX_PENDING \<and>
     (\<forall>p \<in> set (bl_pending bl). pe_puid p = 0 \<or> pe_puid p = relay) \<and>
     slot_relay_peer_uid (bl_slot bl) = relay \<and>
     (bl_active bl \<noteq> None \<longrightarrow> slot_held (bl_slot bl) \<noteq> None) \<and>
     life (slot_calls (bl_slot bl)) = held_life (slot_held (bl_slot bl)) \<and>
     relay_sources (rev (bl_effects bl)) = active_tokens bl \<and> slot_called_bare (rev (bl_effects bl))"

text \<open>While a first frame is handled, the idle window may still be unarmed.\<close>

definition bl_mid :: "u32 \<Rightarrow> broker_loop \<Rightarrow> bool" where
  "bl_mid relay bl \<longleftrightarrow> bl_core relay bl \<and> (has_connection bl \<longrightarrow> idle_since bl = None)"

definition bl_inv :: "u32 \<Rightarrow> broker_loop \<Rightarrow> bool" where
  "bl_inv relay bl \<longleftrightarrow> bl_core relay bl \<and> (idle_since bl = None \<longleftrightarrow> has_connection bl)"

lemmas bl_inv_defs = bl_core_def bl_mid_def bl_inv_def has_connection_def active_tokens_def

lemma bl_inv_mid: "bl_inv relay bl \<Longrightarrow> bl_mid relay bl"
  by (simp add: bl_inv_def bl_mid_def)

lemma emit_simps [simp]:
  "bl_slot (emit es bl) = bl_slot bl" "bl_active (emit es bl) = bl_active bl"
  "bl_pending (emit es bl) = bl_pending bl" "idle_since (emit es bl) = idle_since bl"
  "bl_greeters (emit es bl) = bl_greeters bl" "refusals (emit es bl) = refusals bl"
  "bl_running (emit es bl) = bl_running bl" "next_pending_id (emit es bl) = next_pending_id bl"
  "bl_effects (emit es bl) = bl_effects bl @ es"
  by (simp_all add: emit_def)

text \<open>Effects that neither touch a relay source nor the slot.\<close>

fun plain_effect :: "broker_effect \<Rightarrow> bool" where
  "plain_effect (InsertSource k t) = (k \<noteq> RelaySource)"
| "plain_effect (RemoveSource k t) = (k \<noteq> RelaySource)"
| "plain_effect SlotCalled = False"
| "plain_effect _ = True"

lemma plain_effects:
  "list_all plain_effect es \<Longrightarrow> relay_sources (rev es @ fs) = relay_sources fs \<and>
     slot_called_bare (rev es @ fs) = slot_called_bare fs"
proof (induction es rule: rev_induct)
  case (snoc e es)
  then show ?case by (cases e) (auto split: source_kind.split)
qed simp

lemma bl_core_emit: "list_all plain_effect es \<Longrightarrow> bl_core relay (emit es bl) = bl_core relay bl"
  using plain_effects [of es "rev (bl_effects bl)"] by (simp add: bl_core_def active_tokens_def)

lemma bl_emit:
  assumes "list_all plain_effect es"
  shows "bl_inv relay (emit es bl) = bl_inv relay bl" "bl_mid relay (emit es bl) = bl_mid relay bl"
  using bl_core_emit [OF assms] by (simp_all add: bl_inv_def bl_mid_def has_connection_def)

lemma bl_refuse:
  "bl_inv relay bl \<Longrightarrow> bl_inv relay (refuse now puid bl)"
  "bl_mid relay bl \<Longrightarrow> bl_mid relay (refuse now puid bl)"
proof -
  have e: "list_all plain_effect (case line of None \<Rightarrow> [] | Some (u, n) \<Rightarrow> [RefusalLine u n])" for line
    by (simp split: option.split prod.split)
  have "bl_inv relay bl \<Longrightarrow> bl_inv relay (bl\<lparr>refusals := log\<rparr>)"
    "bl_mid relay bl \<Longrightarrow> bl_mid relay (bl\<lparr>refusals := log\<rparr>)" for log
    by (simp_all add: bl_inv_defs)
  then show "bl_inv relay bl \<Longrightarrow> bl_inv relay (refuse now puid bl)"
    "bl_mid relay bl \<Longrightarrow> bl_mid relay (refuse now puid bl)"
    by (simp_all add: refuse_def split_beta Let_def bl_emit [OF e])
qed

lemma slot_step_uid: "slot_relay_peer_uid (fst (slot_step wait s e)) = slot_relay_peer_uid s"
  by (cases e; cases "inflight s") (auto simp: slot_defs Let_def split: sum.split)

lemma slot_step_life:
  "life (slot_calls s) = held_life (slot_held s) \<Longrightarrow>
     life (slot_calls (fst (slot_step wait s e))) = held_life (slot_held (fst (slot_step wait s e)))"
  using slot.life_tracks_held [of s wait "[e]"] by simp

text \<open>Calling the slot with no active connection.\<close>

lemma bl_inv_slot_call:
  assumes "bl_inv relay bl" and "bl_active bl = None"
  shows "bl_inv relay (emit [SlotCalled] (bl\<lparr>bl_slot := fst (slot_step wait (bl_slot bl) e)\<rparr>))"
  using assms slot_step_uid [of wait "bl_slot bl" e] slot_step_life [of "bl_slot bl" wait e]
  by (simp add: bl_inv_defs)

lemma bl_arm: "bl_mid relay bl \<Longrightarrow> bl_inv relay (arm_idle_if_quiet now bl)"
  by (auto simp: arm_idle_if_quiet_def bl_inv_defs)

lemma bl_drop_active:
  assumes "bl_mid relay bl"
  shows "bl_inv relay (drop_active now bl)" "bl_active (drop_active now bl) = None"
    "bl_slot (drop_active now bl) = bl_slot bl" "bl_pending (drop_active now bl) = bl_pending bl"
proof -
  let ?bl = "case bl_active bl of None \<Rightarrow> bl | Some a \<Rightarrow>
      emit [RemoveSource RelaySource (ac_greeter_token a), RemoveSource RelaySource (ac_worker_token a)]
        (bl\<lparr>bl_active := None\<rparr>)"
  have "bl_mid relay ?bl" using assms by (auto simp: bl_inv_defs split: option.splits)
  then show "bl_inv relay (drop_active now bl)" unfolding drop_active_def by (rule bl_arm)
qed (simp_all add: drop_active_def arm_idle_if_quiet_def split: option.split)

lemma bl_step_inv:
  assumes "bl_inv relay bl"
  shows "bl_inv relay (bl_step B now io bl)"
    "bl_active bl \<noteq> None \<Longrightarrow> bl_active (bl_step B now io bl) = None \<Longrightarrow>
       slot_held (bl_slot (bl_step B now io bl)) = None"
proof -
  have "bl_inv relay (bl_step B now io bl) \<and>
    (bl_active bl \<noteq> None \<longrightarrow> bl_active (bl_step B now io bl) = None \<longrightarrow>
       slot_held (bl_slot (bl_step B now io bl)) = None)"
  proof (cases "bl_active bl")
    case None
    then show ?thesis using assms by (simp add: bl_step_def)
  next
    case (Some a)
    obtain res phase sends where r: "(case io of
             WorkerIo received sys_send \<Rightarrow> on_worker_readable B (ac_relay a) (bl_slot bl) received sys_send
           | GreeterIo received sys_send \<Rightarrow> on_greeter_readable B (ac_relay a) (bl_slot bl) received sys_send)
        = (res, phase, sends)" by (metis surj_pair)
    let ?bl = "emit (map Relayed sends) (bl\<lparr>bl_active := Some (a\<lparr>ac_relay := phase\<rparr>)\<rparr>)"
    have "bl_inv relay (bl\<lparr>bl_active := Some (a\<lparr>ac_relay := phase\<rparr>)\<rparr>)"
      using assms Some by (simp add: bl_inv_defs)
    then have i: "bl_inv relay ?bl" by (subst bl_emit) (simp_all add: list_all_iff)
    note d = bl_drop_active [OF bl_inv_mid [OF i], of now]
    have ended: "bl_inv relay (emit [SlotCalled] ((drop_active now ?bl)
          \<lparr>bl_slot := fst (slot_step (be_wait B) (bl_slot (drop_active now ?bl)) e)\<rparr>))"
      "slot_held (fst (slot_step (be_wait B) (bl_slot (drop_active now ?bl)) e)) = None"
      if "e \<in> {SlotReap, SlotCancel}" for e
      using bl_inv_slot_call [OF d(1,2)] slot.clearing [of e "be_wait B"] that by auto
    have reap: "reap_for_disposition B s disp = fst (slot_step (be_wait B) s
        (case disp of Cancelled \<Rightarrow> SlotCancel | _ \<Rightarrow> SlotReap))" for s disp
      by (simp add: reap_for_disposition_def split_beta split: disposition.split)
    have cancel: "snd (cancel_current (be_wait B) s) = fst (slot_step (be_wait B) s SlotCancel)" for s
      by (simp add: split_beta)
    consider "res = Inr RelayContinue" | disp where "res = Inr (Finished disp)" | e where "res = Inl e"
      by (metis obj_sumE relay_step_result.exhaust)
    then show ?thesis
    proof cases
      case 1
      then show ?thesis using Some r i by (simp add: bl_step_def)
    next
      case (2 disp)
      then show ?thesis using Some r ended [of "case disp of Cancelled \<Rightarrow> SlotCancel | _ \<Rightarrow> SlotReap"] d(2)
        by (cases disp) (simp_all add: bl_step_def reap Let_def)
    next
      case (3 e)
      then show ?thesis using Some r ended [of SlotCancel] d(2) by (simp add: bl_step_def cancel Let_def)
    qed
  qed
  then show "bl_inv relay (bl_step B now io bl)"
    "bl_active bl \<noteq> None \<Longrightarrow> bl_active (bl_step B now io bl) = None \<Longrightarrow>
       slot_held (bl_slot (bl_step B now io bl)) = None" by auto
qed

lemma activate_inv:
  assumes "bl_mid relay bl"
  shows "bl_inv relay (snd (activate B now io chan puid service username bl))"
proof -
  let ?bl1 = "drop_active now bl"
  note d = bl_drop_active [OF assms, of now]
  obtain r slot where c: "create_at (be_wait B) now puid (fi_spawn_worker io service username) (bl_slot ?bl1)
      = (r, slot)" by force
  let ?bl2 = "emit [SlotCalled] (?bl1\<lparr>bl_slot := slot\<rparr>)"
  have i2: "bl_inv relay ?bl2"
    using bl_inv_slot_call [OF d(1,2), of "be_wait B" "SlotCreate now puid (fi_spawn_worker io service username)"] c
    by simp
  have a2: "bl_active ?bl2 = None" using d(2) by simp
  have cancel: "bl_inv relay (emit [SlotCalled] (?bl2\<lparr>bl_slot := snd (cancel_current (be_wait B) slot)\<rparr>))"
    using bl_inv_slot_call [OF i2 a2, of "be_wait B" SlotCancel] by (simp add: split_beta)
  have on: "bl_inv relay (emit [InsertSource RelaySource gtok] ((emit [InsertSource RelaySource wtok] ?bl2)
        \<lparr>idle_since := None, bl_active := Some \<lparr>ac_greeter = chan, ac_relay = AwaitWorker,
           ac_greeter_token = gtok, ac_worker_token = wtok\<rparr>\<rparr>))"
    if "slot_current slot \<noteq> None" for gtok wtok
    using i2 a2 that by (auto simp: bl_inv_defs slot_current_def slot_held_def)
  have off: "bl_inv relay (emit [RemoveSource RelaySource wtok] (emit [InsertSource RelaySource wtok] ?bl2))" for wtok
    using i2 a2 by (auto simp: bl_inv_defs)
  show ?thesis
    using c i2 cancel on off
    by (auto simp: activate_def Let_def split: sum.split option.split)
qed

lemma dispatch_mid:
  assumes "bl_mid relay bl"
  shows "bl_mid relay (snd (dispatch_first_frame B now io chan puid bl))"
  using assms
  by (auto simp: dispatch_first_frame_def serve_root_fd_request_def serve_spawn_greeter_request_def
      bl_refuse bl_emit Let_def split: sum.split compositor_to_broker.split)

lemma position_Some: "position P xs = Some i \<Longrightarrow> i < length xs \<and> P (xs ! i)"
  by (induction xs arbitrary: i) (auto split: if_splits)

lemma first_frame_ready_inv:
  assumes "bl_inv relay bl"
  shows "bl_inv relay (first_frame_ready B now io cid bl)"
proof (cases "position (\<lambda>p. pe_id p = cid) (bl_pending bl)")
  case None
  then show ?thesis using assms by (simp add: first_frame_ready_def)
next
  case (Some pos)
  let ?p = "bl_pending bl ! pos"
  let ?bl0 = "bl\<lparr>bl_pending := take pos (bl_pending bl) @ drop (Suc pos) (bl_pending bl)\<rparr>"
  let ?bl1 = "emit [RemoveSource PendingSource (pe_token ?p)] ?bl0"
  have "set (take pos (bl_pending bl) @ drop (Suc pos) (bl_pending bl)) \<subseteq> set (bl_pending bl)"
    using set_take_subset set_drop_subset by (metis Un_least set_append)
  moreover have "length (take pos (bl_pending bl) @ drop (Suc pos) (bl_pending bl)) \<le> length (bl_pending bl)"
    using position_Some [OF Some] by auto
  ultimately have "bl_mid relay ?bl0" using assms by (auto simp: bl_inv_defs)
  then have "bl_mid relay ?bl1" by (simp add: bl_emit)
  from dispatch_mid [OF this] obtain ff bl2
    where ff: "dispatch_first_frame B now io (pe_chan ?p) (pe_puid ?p) ?bl1 = (ff, bl2)" "bl_mid relay bl2"
    by (metis snd_conv surj_pair)
  have "bl_mid relay (case ff of
      FirstBeginAuth service username \<Rightarrow> snd (activate B now io (pe_chan ?p) (pe_puid ?p) service username bl2)
    | FirstGreeterSpawned handle \<Rightarrow> track_greeter (fi_insert_pidfd io) handle bl2
    | FirstHandled \<Rightarrow> bl2)"
  proof (cases ff)
    case (FirstBeginAuth service username)
    then show ?thesis using bl_inv_mid [OF activate_inv [OF ff(2)]] by simp
  next
    case (FirstGreeterSpawned handle)
    have "bl_mid relay (bl2\<lparr>bl_greeters := gs\<rparr>)" for gs using ff(2) by (simp add: bl_inv_defs)
    then show ?thesis using FirstGreeterSpawned ff(2)
      by (auto simp: track_greeter_def bl_emit split: sum.split)
  qed (use ff(2) in simp)
  from bl_arm [OF this] show ?thesis using Some ff(1) by (simp add: first_frame_ready_def Let_def)
qed

lemma admit_one_inv:
  assumes "bl_inv relay bl"
  shows "bl_inv relay (snd (admit_one now a tok bl))"
proof (cases a)
  case (Accepted chan peer)
  show ?thesis
  proof (cases peer)
    case (Inr puid)
    show ?thesis
    proof (cases "puid \<noteq> 0 \<and> puid \<noteq> slot_relay_peer_uid (bl_slot bl)")
      case True
      then show ?thesis using Accepted Inr assms by (simp add: admit_one_def bl_refuse)
    next
      case False
      then have ok: "puid = 0 \<or> puid = relay" using assms by (auto simp: bl_inv_defs)
      define bl1 where "bl1 = (if length (bl_pending bl) \<ge> MAX_PENDING then (case bl_pending bl of
          [] \<Rightarrow> bl
        | old # rest \<Rightarrow> emit [RemoveSource PendingSource (pe_token old)] (bl\<lparr>bl_pending := rest\<rparr>)) else bl)"
      have i1: "bl_inv relay bl1" and room: "length (bl_pending bl1) < MAX_PENDING"
        using assms unfolding bl1_def
        by (auto simp: bl_emit bl_inv_defs MAX_PENDING_def split: list.split)
      have "bl_inv relay (bl1\<lparr>next_pending_id := n\<rparr>)"
        "bl_inv relay (bl1\<lparr>next_pending_id := n, bl_pending := bl_pending bl1 @
            [\<lparr>pe_id = m, pe_chan = chan, pe_puid = puid, pe_token = t\<rparr>], idle_since := None\<rparr>)" for n m t
        using i1 room ok by (auto simp: bl_inv_defs)
      then show ?thesis
        using Accepted Inr False
        by (auto simp: admit_one_def Let_def bl1_def [symmetric] bl_emit split: sum.split)
    qed
  qed (use Accepted assms in \<open>simp add: admit_one_def\<close>)
qed (use assms in \<open>simp_all add: admit_one_def\<close>)

lemma admit_all_inv: "bl_inv relay bl \<Longrightarrow> bl_inv relay (admit_all now conns bl)"
proof (induction now conns bl rule: admit_all.induct)
  case (2 now a tok conns bl)
  have "bl_inv relay (snd (admit_one now a tok bl))" using admit_one_inv "2.prems" .
  then show ?case using "2.IH" by (auto split: prod.split sum.split bool.split)
qed simp

lemma bl_handle_inv: "bl_inv relay bl \<Longrightarrow> bl_inv relay (bl_handle B now e bl)"
proof (cases e)
  case (GreeterExited pid)
  assume "bl_inv relay bl"
  moreover have "bl_inv relay bl \<Longrightarrow> bl_inv relay (bl\<lparr>bl_greeters := gs\<rparr>)" for gs by (simp add: bl_inv_defs)
  ultimately show ?thesis
    using GreeterExited by (auto simp: reap_greeter_def bl_emit split: option.split)
qed (auto simp: admit_all_inv first_frame_ready_inv bl_step_inv(1), simp add: bl_inv_defs)

section \<open>Runs of the broker\<close>

definition timed_step :: "broker_env \<Rightarrow> broker_loop \<Rightarrow> instant \<times> broker_event \<Rightarrow> broker_loop \<times> unit" where
  "timed_step B bl te = (bl_handle B (fst te) (snd te) bl, ())"

interpretation brk: invariant_machine "timed_step B" "new_broker_loop t0 relay" "bl_inv relay" for B t0 relay
proof unfold_locales
  show "bl_inv relay (new_broker_loop t0 relay)"
    by (simp add: bl_inv_defs new_broker_loop_def with_defaults_def new_auth_slot_def slot_held_def
        life_def held_life_def)
  show "bl_inv relay bl \<Longrightarrow> bl_inv relay (fst (timed_step B bl te))" for bl te
    by (simp add: timed_step_def bl_handle_inv)
qed

abbreviation reachable_loop :: "broker_env \<Rightarrow> instant \<Rightarrow> u32 \<Rightarrow> (instant \<times> broker_event) list \<Rightarrow> broker_loop" where
  "reachable_loop B t0 relay es \<equiv> final (timed_step B) (new_broker_loop t0 relay) es"

text \<open>
  C9: the broker's resource and authorisation invariant, for every interleaving of
  connects, first frames, relay traffic, greeter exits and kernel or calloop errors: at
  most eight connections wait for a first frame, and each of them passed the peer gate
  (root or the relay peer); an active connection always has its worker in the slot; the
  idle window is armed exactly when nothing is in flight; and the calls on worker
  processes form a legal single-worker history.
\<close>

theorem broker_loop_invariant:
  "let bl = reachable_loop B t0 relay es in
     length (bl_pending bl) \<le> 8 \<and> pe_puid ` set (bl_pending bl) \<subseteq> {0, relay} \<and>
     (bl_active bl = None \<or> slot_held (bl_slot bl) \<noteq> None) \<and>
     (idle_since bl = None \<longleftrightarrow> bl_active bl \<noteq> None \<or> bl_pending bl \<noteq> []) \<and>
     life (slot_calls (bl_slot bl)) \<noteq> Illegal"
  using brk.inv_run [of relay B t0 es]
  by (auto simp: bl_inv_defs MAX_PENDING_def held_life_def Let_def split: option.splits)

text \<open>
  R9, a connection that ends leaves no worker behind: whenever a relay step ends the
  active connection, for whatever reason (session over, authentication failed, cancelled,
  transport error, frame out of phase), the slot is empty afterwards and the process
  history says every worker was waited for.
\<close>

theorem ended_connection_is_reaped:
  assumes "bl_active (reachable_loop B t0 relay es) \<noteq> None"
    and "bl_active (bl_step B now io (reachable_loop B t0 relay es)) = None"
  shows "slot_current (bl_slot (bl_step B now io (reachable_loop B t0 relay es))) = None \<and>
    life (slot_calls (bl_slot (bl_step B now io (reachable_loop B t0 relay es)))) = NoWorker"
proof -
  have i: "bl_inv relay (reachable_loop B t0 relay es)" by (rule brk.inv_run)
  note s = bl_step_inv [OF i, of B now io]
  have "slot_held (bl_slot (bl_step B now io (reachable_loop B t0 relay es))) = None"
    using s(2) assms by blast
  then show ?thesis using s(1) by (simp add: bl_inv_defs held_life_def slot_current_def slot_held_def)
qed

lemma slot_called_bare_split:
  "slot_called_bare (xs @ SlotCalled # ys) \<Longrightarrow> relay_sources ys = []"
  by (induction xs) auto

text \<open>
  Amendment A8.2, the order that keeps borrowed descriptors alive: every call on the
  slot (which may close the worker's descriptor) happens while no relay source is
  registered with calloop: each source that was inserted before it has been removed.
\<close>

theorem sources_removed_before_slot_call:
  assumes "bl_effects (reachable_loop B t0 relay es) = before @ SlotCalled # later"
  shows "relay_sources (rev before) = []"
proof -
  have "slot_called_bare (rev (bl_effects (reachable_loop B t0 relay es)))"
    using brk.inv_run [of relay B t0 es] by (simp add: bl_inv_defs)
  then show ?thesis using assms slot_called_bare_split [of "rev later" "rev before"] by simp
qed

text \<open>
  the broker exits on idleness only when it may: if a turn of the main loop decides
  to, then no connection is active or pending, the idle window has been armed since at
  least the whole window ago, and the last non-blocking accept found nobody waiting.
\<close>

theorem idle_exit_only_when_quiet:
  assumes "loop_turn B idle_exit now events acc bl0 = (IdleExit, bl)"
  shows "bl_active bl = None \<and> bl_pending bl = [] \<and> fst acc = AcceptWouldBlock \<and>
    (\<exists>t. idle_since bl = Some t \<and> idle_exit \<le> now - t)"
proof -
  let ?bl = "fold (bl_handle B now) events bl0"
  have a: "admit_one now (fst acc) (snd acc) ?bl = (Inr False, bl)"
    and q: "\<not> has_connection ?bl" "\<exists>t. idle_since ?bl = Some t \<and> idle_exit \<le> now - t"
    using assms
    by (auto simp: loop_turn_def Let_def should_idle_exit_def split: if_splits option.splits
        prod.splits sum.splits bool.splits)
  have "fst acc = AcceptWouldBlock \<and> bl = ?bl"
    using a by (auto simp: admit_one_def Let_def split: accept_result.splits sum.splits if_splits)
  then show ?thesis using q by (simp add: has_connection_def)
qed

text \<open>A concrete environment, for evaluating the broker on inputs.\<close>

definition demo_broker_env :: broker_env where
  "demo_broker_env = \<lparr>be_le = True, be_b2c_to_vec = (\<lambda>f. Inr [0]), be_c2b_to_vec = (\<lambda>f. Inr [0]),
     be_c2b_from_slice = (\<lambda>b. if b = [1] then Inr (BeginAuth ''login'' ''alice'') else Inl ''expected value''),
     be_pm_from_slice = (\<lambda>b. if b = [1] then Inr (Outcome (WorkerFailure ''bad password'')) else Inl ''expected value''),
     be_wait = (\<lambda>p. Inr (Exited 0))\<rparr>"

definition demo_frame_io :: frame_io where
  "demo_frame_io = \<lparr>fi_recv = Inr [1, 0, 0, 0, 1], fi_send = (\<lambda>b fds. Inr (length b)), fi_open_root = Inr 3,
     fi_env = (\<lambda>k. None), fi_spawn_greeter = (\<lambda>s. Inl PermissionDenied),
     fi_spawn_worker = (\<lambda>s u. Inr (\<lparr>wh_pid = 42, wh_pidfd = 6\<rparr>, 7)), fi_insert_worker = Inr 11,
     fi_insert_greeter = Inr 12, fi_insert_pidfd = Inr 13\<rparr>"

text \<open>C37: A peer with the given uid connects and sends \<open>BeginAuth\<close>; its pending id is \<open>n\<close>.\<close>

abbreviation begin_auth_from :: "u32 \<Rightarrow> u64 \<Rightarrow> (instant \<times> broker_event) list" where
  "begin_auth_from uid n \<equiv> [(0, ListenerReady [(Accepted 5 (Inr uid), Inr 10), (AcceptWouldBlock, Inr 0)]),
     (0, FirstFrameReady demo_frame_io n)]"

lemmas broker_eval = demo_broker_env_def demo_frame_io_def new_broker_loop_def with_defaults_def new_auth_slot_def
  DEFAULT_MAX_PER_WINDOW_def DEFAULT_WINDOW_def timed_step_def admit_one_def first_frame_ready_def
  dispatch_first_frame_def transport_recv_def activate_def drop_active_def arm_idle_if_quiet_def has_connection_def
  create_at_def cancel_current_def reap_current_def record_calls_def slot_current_def emit_def bl_step_def
  on_worker_readable_def recv_frame_with_fd_def send_then_def transport_send_def reap_for_disposition_def
  ipc_encode_def ipc_try_decode_def IPC_LENGTH_PREFIX_SIZE_def IPC_MAX_MESSAGE_SIZE_def to_ne_bytes_def le_bytes_def
  from_ne_bytes_def from_le_bytes_def MAX_PENDING_def Let_def

theorem broker_loop_invariant_witness:
  "let bl = reachable_loop demo_broker_env 0 990 (begin_auth_from 990 0) in
     bl_active bl \<noteq> None \<and> slot_held (bl_slot bl) \<noteq> None \<and> idle_since bl = None"
proof -
  define bl where "bl = reachable_loop demo_broker_env 0 990 (begin_auth_from 990 0)"
  have a: "bl_active bl \<noteq> None"
    unfolding bl_def by (simp add: broker_eval)
  have "slot_held (bl_slot bl) \<noteq> None" "idle_since bl = None"
    using a broker_loop_invariant [of demo_broker_env 0 990 "begin_auth_from 990 0"]
    unfolding bl_def [symmetric] Let_def by auto
  then show ?thesis using a unfolding bl_def [symmetric] Let_def by simp
qed

theorem ended_connection_is_reaped_witness:
  "slot_current (bl_slot (bl_step demo_broker_env 9 (WorkerIo (Inr ([1, 0, 0, 0, 1], Inr [])) (\<lambda>b fds. Inr (length b)))
     (reachable_loop demo_broker_env 0 990 (begin_auth_from 990 0)))) = None"
proof -
  let ?io = "WorkerIo (Inr ([1, 0, 0, 0, 1], Inr [])) (\<lambda>b fds. Inr (length b))"
  have a: "bl_active (reachable_loop demo_broker_env 0 990 (begin_auth_from 990 0)) \<noteq> None"
    by (simp add: broker_eval)
  have b: "bl_active (bl_step demo_broker_env 9 ?io (reachable_loop demo_broker_env 0 990 (begin_auth_from 990 0))) = None"
    by (simp add: broker_eval)
  show ?thesis using ended_connection_is_reaped [OF a b] by blast
qed

theorem sources_removed_before_slot_call_witness:
  "bl_effects (reachable_loop demo_broker_env 0 990 (begin_auth_from 990 0)) =
     [InsertSource PendingSource 10, RemoveSource PendingSource 10] @ SlotCalled #
     [InsertSource RelaySource 11, InsertSource RelaySource 12] \<and>
   relay_sources (rev [InsertSource PendingSource 10, RemoveSource PendingSource 10]) = []"
proof -
  have e: "bl_effects (reachable_loop demo_broker_env 0 990 (begin_auth_from 990 0)) =
     [InsertSource PendingSource 10, RemoveSource PendingSource 10] @ SlotCalled #
     [InsertSource RelaySource 11, InsertSource RelaySource 12]"
    by (simp add: broker_eval)
  show ?thesis using e sources_removed_before_slot_call [OF e] by blast
qed

theorem idle_exit_only_when_quiet_witness:
  "fst (loop_turn demo_broker_env IDLE_EXIT 40000000000 [] (AcceptWouldBlock, Inr 0) (new_broker_loop 0 990)) = IdleExit \<and>
   bl_pending (snd (loop_turn demo_broker_env IDLE_EXIT 40000000000 [] (AcceptWouldBlock, Inr 0) (new_broker_loop 0 990))) = []"
proof -
  have t: "loop_turn demo_broker_env IDLE_EXIT 40000000000 [] (AcceptWouldBlock, Inr 0) (new_broker_loop 0 990)
      = (IdleExit, new_broker_loop 0 990)"
    by (simp add: loop_turn_def should_idle_exit_def IDLE_EXIT_def broker_eval)
  show ?thesis using t idle_exit_only_when_quiet [OF t] by simp
qed

text \<open>
  A defect of \<open>activate\<close>: the running connection is dropped before the slot decides.  A
  \<open>BeginAuth\<close> that the slot then refuses (here from root, which passes the peer gate of
  the listener but not the slot's; a throttled one does the same) takes down the relay
  peer's conversation, while its worker stays in the slot, neither killed nor waited for,
  with no source watching it and the idle window armed.
\<close>

lemma refused_begin_auth_strands_worker:
  "let bl = reachable_loop demo_broker_env 0 990 (begin_auth_from 990 0 @ begin_auth_from 0 1) in
     bl_active bl = None \<and> slot_held (bl_slot bl) = Some 42 \<and>
     slot_calls (bl_slot bl) = [SpawnWorker 42] \<and> idle_since bl = Some 0 \<and>
     relay_sources (rev (bl_effects bl)) = []"
  by (simp add: broker_eval slot_held_def)

section \<open>The refusal log is rate limited\<close>

definition refusal_step :: "refusal_log \<Rightarrow> instant \<times> u32 \<Rightarrow> refusal_log \<times> (u32 \<times> u32) option" where
  "refusal_step log r = (let (line, log') = record_refusal (fst r) (snd r) log in (log', line))"

definition logged_by :: "refusal_log \<Rightarrow> instant \<Rightarrow> u32 \<Rightarrow> bool" where
  "logged_by log t puid \<longleftrightarrow> (\<exists>e. log puid = Some e \<and> t \<le> rs_last_logged e)"

lemma refusal_keeps_logged: "logged_by log t puid \<Longrightarrow> t \<le> fst r \<Longrightarrow> logged_by (fst (refusal_step log r)) t puid"
  by (auto simp: logged_by_def refusal_step_def record_refusal_def Let_def)

lemma refusal_line_logged:
  "snd (refusal_step log r) = Some (puid, n) \<Longrightarrow> logged_by (fst (refusal_step log r)) (fst r) puid \<and> snd r = puid"
  by (auto simp: logged_by_def refusal_step_def record_refusal_def Let_def split: if_splits)

lemma refusal_line_waits:
  "logged_by log t puid \<Longrightarrow> snd (refusal_step log r) = Some (puid, n) \<Longrightarrow> t \<le> fst r \<Longrightarrow> SUPPRESS_WINDOW \<le> fst r - t"
  by (auto simp: logged_by_def refusal_step_def record_refusal_def Let_def split: if_splits)

lemma refusal_run_keeps:
  "logged_by log t puid \<Longrightarrow> \<forall>r \<in> set rs. t \<le> fst r \<Longrightarrow> logged_by (final refusal_step log rs) t puid"
  by (induction rs arbitrary: log) (simp_all add: refusal_keeps_logged)

text \<open>
  journal spam from refused peers is bounded: with a clock that never runs backwards,
  two lines for the same uid are at least a minute apart, however many refusals come in
  between and from whomever.
\<close>

theorem refusal_log_rate_limited:
  assumes "sorted (map fst rs)" and "i < j" and "j < length rs"
    and "outputs refusal_step log rs ! i = Some (puid, m)"
    and "outputs refusal_step log rs ! j = Some (puid, n)"
  shows "60 * 1000000000 \<le> fst (rs ! j) - fst (rs ! i)"
proof -
  let ?log = "\<lambda>k. final refusal_step log (take k rs)"
  have i: "snd (refusal_step (?log i) (rs ! i)) = Some (puid, m)"
    and j: "snd (refusal_step (?log j) (rs ! j)) = Some (puid, n)"
    using assms outputs_nth [of i rs refusal_step log] outputs_nth [of j rs refusal_step log] by simp_all
  have le: "i \<le> k \<Longrightarrow> k < length rs \<Longrightarrow> fst (rs ! i) \<le> fst (rs ! k)" for k
    using sorted_nth_mono [OF assms(1), of i k] by simp
  have split: "take j rs = take (Suc i) rs @ take (j - Suc i) (drop (Suc i) rs)"
    using assms(2) take_add [of "Suc i" "j - Suc i" rs] by simp
  have between: "\<forall>r \<in> set (take (j - Suc i) (drop (Suc i) rs)). fst (rs ! i) \<le> fst r"
  proof
    fix r
    assume "r \<in> set (take (j - Suc i) (drop (Suc i) rs))"
    then obtain k where "k < j - Suc i" "r = rs ! (Suc i + k)" using assms(3) by (auto simp: in_set_conv_nth)
    then show "fst (rs ! i) \<le> fst r" using le [of "Suc i + k"] assms(3) by simp
  qed
  have "logged_by (?log (Suc i)) (fst (rs ! i)) puid"
    using refusal_line_logged [OF i] assms(2,3) by (simp add: take_Suc_conv_app_nth)
  then have "logged_by (?log j) (fst (rs ! i)) puid"
    unfolding split using refusal_run_keeps [OF _ between] by simp
  then show ?thesis
    using refusal_line_waits [OF _ j] le [of j] assms(2,3) by (simp add: SUPPRESS_WINDOW_def)
qed

theorem refusal_log_rate_limited_witness:
  "let rs = [(100000000000, 7), (160000000000, 7)] in
     outputs refusal_step Map.empty rs = [Some (7, 0), Some (7, 0)] \<and> 60 * 1000000000 \<le> fst (rs ! 1) - fst (rs ! 0)"
proof -
  let ?rs = "[(100000000000, 7), (160000000000, 7)] :: (instant \<times> u32) list"
  have o: "outputs refusal_step Map.empty ?rs = [Some (7, 0), Some (7, 0)]"
    by (simp add: refusal_step_def record_refusal_def SUPPRESS_WINDOW_def)
  have "60 * 1000000000 \<le> fst (?rs ! 1) - fst (?rs ! 0)"
    by (rule refusal_log_rate_limited [where log = Map.empty and puid = 7 and m = 0 and n = 0])
      (simp_all only: o, simp_all)
  then show ?thesis unfolding Let_def using o by blast
qed

end
