(* ===== verification/Pam_Session.thy ===== *)
theory Pam_Session
  imports Session_Transport Session_Leader Broker_Relay
begin

text \<open>
  The worker's PAM side, in \<open>crates/halmasuit-session/src\<close>: \<open>conv.rs\<close> (message styles),
  \<open>responder.rs\<close> (the channel-backed responder), the conversation callback and the
  handle's methods of \<open>pam_ffi.rs\<close>, \<open>auth.rs\<close> and the one-handle lifecycle of
  \<open>session.rs\<close>.  libpam is a parameter: each of its blocking entry points is a tree of
  conversation calls that ends in a status, so it may call back any number of times.
\<close>

section \<open>Message styles\<close>

definition PAM_PROMPT_ECHO_OFF :: i32 where "PAM_PROMPT_ECHO_OFF = 1"
definition PAM_PROMPT_ECHO_ON :: i32 where "PAM_PROMPT_ECHO_ON = 2"
definition PAM_ERROR_MSG :: i32 where "PAM_ERROR_MSG = 3"
definition PAM_TEXT_INFO :: i32 where "PAM_TEXT_INFO = 4"
definition PAM_SUCCESS :: i32 where "PAM_SUCCESS = 0"
definition PAM_BUF_ERR :: i32 where "PAM_BUF_ERR = 5"
definition PAM_CONV_ERR :: i32 where "PAM_CONV_ERR = 19"
definition PAM_TTY :: i32 where "PAM_TTY = 3"
definition PAM_RUSER :: i32 where "PAM_RUSER = 8"

lemmas pam_codes = PAM_PROMPT_ECHO_OFF_def PAM_PROMPT_ECHO_ON_def PAM_ERROR_MSG_def PAM_TEXT_INFO_def
  PAM_SUCCESS_def PAM_BUF_ERR_def PAM_CONV_ERR_def

datatype message_kind = Prompt prompt_style string | Display display_style string

datatype conv_error = UnknownStyle i32

definition message_from_pam :: "i32 \<Rightarrow> string \<Rightarrow> conv_error + message_kind" where
  "message_from_pam msg_style message =
     (if msg_style = PAM_PROMPT_ECHO_OFF then Inr (Prompt PromptSecret message)
      else if msg_style = PAM_PROMPT_ECHO_ON then Inr (Prompt PromptVisible message)
      else if msg_style = PAM_ERROR_MSG then Inr (Display DisplayError message)
      else if msg_style = PAM_TEXT_INFO then Inr (Display DisplayInfo message)
      else Inl (UnknownStyle msg_style))"

fun pam_code_of_prompt :: "prompt_style \<Rightarrow> i32" where
  "pam_code_of_prompt PromptSecret = PAM_PROMPT_ECHO_OFF"
| "pam_code_of_prompt PromptVisible = PAM_PROMPT_ECHO_ON"

fun pam_code_of_display :: "display_style \<Rightarrow> i32" where
  "pam_code_of_display DisplayError = PAM_ERROR_MSG"
| "pam_code_of_display DisplayInfo = PAM_TEXT_INFO"

section \<open>The worker's channel and responder\<close>

record worker_env =
  we_le :: bool
  we_b2c_to_vec :: "broker_to_compositor \<Rightarrow> json_error + byte list"
  we_outcome_to_vec :: "worker_outcome \<Rightarrow> json_error + byte list"
  we_c2b_from_slice :: "byte list \<Rightarrow> json_error + compositor_to_broker"
  we_send :: "nat \<Rightarrow> byte list \<Rightarrow> fd list \<Rightarrow> errno + nat"

text \<open>
  The worker's end of the socket pair: what each further \<open>recv\<close> will return (the peer has
  closed once the list is used up), how many sends there were, and what was sent.
\<close>

record worker_chan =
  wc_inbox :: "(errno + byte list) list"
  wc_sends :: nat
  wc_sent :: "(parent_message \<times> fd option) list"

definition wc_send ::
    "worker_env \<Rightarrow> ('m \<Rightarrow> json_error + byte list) \<Rightarrow> ('m \<Rightarrow> parent_message) \<Rightarrow> 'm \<Rightarrow> fd option \<Rightarrow> worker_chan \<Rightarrow>
     (transport_error + unit) \<times> worker_chan" where
  "wc_send W to_vec wrap msg fd ch =
     (let r = send_frame_with_fd (we_le W) to_vec (we_send W (wc_sends ch)) msg fd;
          ch' = ch\<lparr>wc_sends := Suc (wc_sends ch)\<rparr> in
      (r, case r of Inl _ \<Rightarrow> ch' | Inr _ \<Rightarrow> ch'\<lparr>wc_sent := wc_sent ch @ [(wrap msg, fd)]\<rparr>))"

definition wc_recv :: "worker_env \<Rightarrow> worker_chan \<Rightarrow> (transport_error + compositor_to_broker) \<times> worker_chan" where
  "wc_recv W ch = (case wc_inbox ch of
     [] \<Rightarrow> (transport_recv (we_le W) (we_c2b_from_slice W) (Inr []), ch)
   | r # rest \<Rightarrow> (transport_recv (we_le W) (we_c2b_from_slice W) r, ch\<lparr>wc_inbox := rest\<rparr>))"

definition respond ::
    "worker_env \<Rightarrow> prompt_style \<Rightarrow> string \<Rightarrow> worker_chan \<Rightarrow> secret option \<times> worker_chan" where
  "respond W style message ch = (case wc_send W (we_b2c_to_vec W) Conv (ConvPrompt style message) None ch of
     (Inl _, ch1) \<Rightarrow> (None, ch1)
   | (Inr _, ch1) \<Rightarrow> (case wc_recv W ch1 of
       (Inr (ConvResponse response), ch2) \<Rightarrow> (Some response, ch2)
     | (_, ch2) \<Rightarrow> (None, ch2)))"

definition display ::
    "worker_env \<Rightarrow> display_style \<Rightarrow> string \<Rightarrow> worker_chan \<Rightarrow> bool \<times> worker_chan" where
  "display W style message ch = (case wc_send W (we_b2c_to_vec W) Conv (ConvDisplay style message) None ch of
     (Inl _, ch1) \<Rightarrow> (False, ch1)
   | (Inr _, ch1) \<Rightarrow> (True, ch1))"

section \<open>Lossy UTF-8 decoding\<close>

text \<open>
  \<open>CStr::to_string_lossy\<close>: a valid sequence is kept, a maximal invalid prefix becomes
  U+FFFD.
\<close>

definition replacement :: string where
  "replacement = [CHR 0xEF, CHR 0xBF, CHR 0xBD]"

definition valid_at :: "char \<Rightarrow> string \<Rightarrow> bool" where
  "valid_at c cs = (let w = utf8_width c in 0 < w \<and> w \<le> Suc (length cs) \<and>
     list_all is_continuation (take (w - 1) cs) \<and> utf8_second_ok c (take (w - 1) cs))"

definition bad_prefix :: "char \<Rightarrow> string \<Rightarrow> nat" where
  "bad_prefix c cs = (let w = utf8_width c; t = take (w - 1) cs in
     if w = 0 \<or> \<not> utf8_second_ok c t then 0 else length (takeWhile is_continuation t))"

function to_string_lossy :: "string \<Rightarrow> string" where
  "to_string_lossy [] = []"
| "to_string_lossy (c # cs) =
     (if valid_at c cs then c # take (utf8_width c - 1) cs @ to_string_lossy (drop (utf8_width c - 1) cs)
      else replacement @ to_string_lossy (drop (bad_prefix c cs) cs))"
  by pat_completeness auto
termination
  by (relation "measure length") auto

declare to_string_lossy.simps(2) [simp del]

section \<open>The conversation callback\<close>

text \<open>A libpam message: its style and its text, if it has one; the pointer itself may be null.\<close>

type_synonym pam_message = "i32 \<times> string option"

text \<open>
  The C allocations of one callback: whether \<open>calloc\<close> and each \<open>strdup\<close> succeed are
  arguments; what was freed on a failure is part of the result.
\<close>

record conv_alloc =
  ca_calloc :: bool
  ca_strdup :: "nat \<Rightarrow> bool"

text \<open>
  The loop over the messages.  \<open>done\<close>: the response slots filled so far (\<open>None\<close> is a
  NULL \<open>resp\<close>).  A failure rolls back exactly those slots and the array.
\<close>

datatype conv_status = ConvSuccess "string option list" | ConvFailed i32 "string list"

definition rollback_resp_array :: "i32 \<Rightarrow> string option list \<Rightarrow> conv_status" where
  "rollback_resp_array status filled = ConvFailed status (concat (map (case_option [] (\<lambda>s. [s])) filled))"

fun conv_loop ::
    "worker_env \<Rightarrow> conv_alloc \<Rightarrow> string option list \<Rightarrow> pam_message option list \<Rightarrow> worker_chan \<Rightarrow> conv_status \<times> worker_chan" where
  "conv_loop W A filled [] ch = (ConvSuccess filled, ch)"
| "conv_loop W A filled (None # ms) ch = (rollback_resp_array PAM_CONV_ERR filled, ch)"
| "conv_loop W A filled (Some (style, msg) # ms) ch =
     (let text = (case msg of None \<Rightarrow> [] | Some m \<Rightarrow> to_string_lossy m) in
      case message_from_pam style text of
        Inl _ \<Rightarrow> (rollback_resp_array PAM_CONV_ERR filled, ch)
      | Inr (Prompt pstyle message) \<Rightarrow>
          (case respond W pstyle message ch of
             (None, ch1) \<Rightarrow> (rollback_resp_array PAM_CONV_ERR filled, ch1)
           | (Some s, ch1) \<Rightarrow>
               if CHR 0x00 \<in> set (expose s) then (rollback_resp_array PAM_CONV_ERR filled, ch1)
               else if \<not> ca_strdup A (length filled) then (rollback_resp_array PAM_BUF_ERR filled, ch1)
               else conv_loop W A (filled @ [Some (expose s)]) ms ch1)
      | Inr (Display dstyle message) \<Rightarrow>
          (case display W dstyle message ch of
             (False, ch1) \<Rightarrow> (rollback_resp_array PAM_CONV_ERR filled, ch1)
           | (True, ch1) \<Rightarrow> conv_loop W A (filled @ [None]) ms ch1))"

definition conv_trampoline ::
    "worker_env \<Rightarrow> conv_alloc \<Rightarrow> pam_message option list \<Rightarrow> worker_chan \<Rightarrow> conv_status \<times> worker_chan" where
  "conv_trampoline W A ms ch =
     (if ms = [] then (ConvFailed PAM_CONV_ERR [], ch)
      else if \<not> ca_calloc A then (ConvFailed PAM_BUF_ERR [], ch)
      else conv_loop W A [] ms ch)"

section \<open>libpam and the handle\<close>

text \<open>An entry point of libpam: it returns a status, or calls back and goes on with the answer.\<close>

datatype pam_run =
    PamReturn i32
  | PamConv conv_alloc "pam_message option list" "conv_status \<Rightarrow> pam_run"

primrec run_pam :: "worker_env \<Rightarrow> pam_run \<Rightarrow> worker_chan \<Rightarrow> i32 \<times> worker_chan" where
  "run_pam W (PamReturn status) ch = (status, ch)"
| "run_pam W (PamConv A ms k) ch = (let (r, ch') = conv_trampoline W A ms ch in run_pam W (k r) ch')"

datatype pam_error =
    PamStart i32 | PamAuthenticateErr i32 | PamAcctMgmtErr i32 | PamGetUserErr i32 | PamSetCredErr i32
  | PamSetItemErr i32 | PamOpenSessionErr i32 | PamCloseSessionErr i32 | PamPutEnvErr i32 | PamGetEnvErr | PamNul

record libpam =
  lp_start :: "string \<Rightarrow> string \<Rightarrow> i32"
  lp_set_item :: "i32 \<Rightarrow> string \<Rightarrow> i32"
  lp_authenticate :: pam_run
  lp_acct_mgmt :: pam_run
  lp_get_user :: "i32 \<times> string option"
  lp_setcred_establish :: pam_run
  lp_putenv :: "string \<Rightarrow> i32"
  lp_open_session :: pam_run
  lp_getenvlist :: "string list \<Rightarrow> string list option"
  lp_close_session :: pam_run
  lp_setcred_delete :: pam_run

text \<open>
  The calls made on the handle and on the session leader, in order, each with whether it
  succeeded; \<open>se_last_status\<close> is the handle's field that \<open>pam_end\<close> is given.
\<close>

datatype session_call =
    CallStart | CallSetItem i32 string | CallAuthenticate | CallAcctMgmt | CallGetUser | CallSetcredEstablish
  | CallPutenv string | CallOpenSession | CallGetenvlist | CallSpawnLeader session_spec "u32 list"
  | CallWaitLeader | CallCloseSession | CallSetcredDelete | CallEnd i32

record session_state_rec =
  se_chan :: worker_chan
  se_calls :: "(session_call \<times> bool) list"
  se_last_status :: i32

type_synonym ('e, 'a) session_m = "session_state_rec \<Rightarrow> ('e + 'a) \<times> session_state_rec"

definition sreturn :: "'a \<Rightarrow> ('e, 'a) session_m" where
  "sreturn x s = (Inr x, s)"

definition sfail :: "'e \<Rightarrow> ('e, 'a) session_m" where
  "sfail e s = (Inl e, s)"

definition sbind :: "('e, 'a) session_m \<Rightarrow> ('a \<Rightarrow> ('e, 'b) session_m) \<Rightarrow> ('e, 'b) session_m" where
  "sbind m f s = (case m s of (Inl e, s') \<Rightarrow> (Inl e, s') | (Inr x, s') \<Rightarrow> f x s')"

definition smap_err :: "('e \<Rightarrow> 'f) \<Rightarrow> ('e, 'a) session_m \<Rightarrow> ('f, 'a) session_m" where
  "smap_err f m s = (let (r, s') = m s in (map_err f r, s'))"

definition record_call :: "session_call \<Rightarrow> bool \<Rightarrow> session_state_rec \<Rightarrow> session_state_rec" where
  "record_call c ok s = s\<lparr>se_calls := se_calls s @ [(c, ok)]\<rparr>"

definition pam_call :: "worker_env \<Rightarrow> session_call \<Rightarrow> pam_run \<Rightarrow> (i32 \<Rightarrow> 'e) \<Rightarrow> ('e, unit) session_m" where
  "pam_call W c p err s =
     (let (status, ch) = run_pam W p (se_chan s); s' = record_call c (status = PAM_SUCCESS) (s\<lparr>se_chan := ch, se_last_status := status\<rparr>) in
      (if status = PAM_SUCCESS then Inr () else Inl (err status), s'))"

definition Pam_start :: "libpam \<Rightarrow> string \<Rightarrow> string \<Rightarrow> (pam_error, unit) session_m" where
  "Pam_start L service username s =
     (if CHR 0x00 \<in> set service \<or> CHR 0x00 \<in> set username then (Inl PamNul, s)
      else let status = lp_start L service username in
        if status \<noteq> PAM_SUCCESS then (Inl (PamStart status), s) else (Inr (), record_call CallStart True (s\<lparr>se_last_status := status\<rparr>)))"

definition set_item_str :: "libpam \<Rightarrow> i32 \<Rightarrow> string \<Rightarrow> (pam_error, unit) session_m" where
  "set_item_str L item_type v s =
     (if CHR 0x00 \<in> set v then (Inl PamNul, s)
      else let status = lp_set_item L item_type v; s' = record_call (CallSetItem item_type v) (status = PAM_SUCCESS) s in
        (if status = PAM_SUCCESS then Inr () else Inl (PamSetItemErr status), s'))"

definition set_tty :: "libpam \<Rightarrow> string \<Rightarrow> (pam_error, unit) session_m" where
  "set_tty L = set_item_str L PAM_TTY"

definition set_ruser :: "libpam \<Rightarrow> string \<Rightarrow> (pam_error, unit) session_m" where
  "set_ruser L = set_item_str L PAM_RUSER"

text \<open>\<open>Drop for Pam\<close>: the transaction ends with the status of the last call that set it.\<close>

definition Pam_drop :: "session_state_rec \<Rightarrow> session_state_rec" where
  "Pam_drop s = record_call (CallEnd (se_last_status s)) True s"

definition authenticate :: "worker_env \<Rightarrow> libpam \<Rightarrow> (pam_error, unit) session_m" where
  "authenticate W L = pam_call W CallAuthenticate (lp_authenticate L) PamAuthenticateErr"

definition acct_mgmt :: "worker_env \<Rightarrow> libpam \<Rightarrow> (pam_error, unit) session_m" where
  "acct_mgmt W L = pam_call W CallAcctMgmt (lp_acct_mgmt L) PamAcctMgmtErr"

definition set_cred_established :: "worker_env \<Rightarrow> libpam \<Rightarrow> (pam_error, unit) session_m" where
  "set_cred_established W L = pam_call W CallSetcredEstablish (lp_setcred_establish L) PamSetCredErr"

definition open_session :: "worker_env \<Rightarrow> libpam \<Rightarrow> (pam_error, unit) session_m" where
  "open_session W L = pam_call W CallOpenSession (lp_open_session L) PamOpenSessionErr"

definition close_session :: "worker_env \<Rightarrow> libpam \<Rightarrow> (pam_error, unit) session_m" where
  "close_session W L = pam_call W CallCloseSession (lp_close_session L) PamCloseSessionErr"

definition set_cred_deleted :: "worker_env \<Rightarrow> libpam \<Rightarrow> (pam_error, unit) session_m" where
  "set_cred_deleted W L = pam_call W CallSetcredDelete (lp_setcred_delete L) PamSetCredErr"

definition putenv :: "libpam \<Rightarrow> string \<Rightarrow> (pam_error, unit) session_m" where
  "putenv L name_value s =
     (if CHR 0x00 \<in> set name_value then (Inl PamNul, s)
      else let status = lp_putenv L name_value; s' = record_call (CallPutenv name_value) (status = PAM_SUCCESS) s in
        (if status = PAM_SUCCESS then Inr () else Inl (PamPutEnvErr status), s'))"

fun putenv_of :: "(session_call \<times> bool) list \<Rightarrow> string list" where
  "putenv_of [] = []"
| "putenv_of ((CallPutenv e, True) # cs) = e # putenv_of cs"
| "putenv_of (_ # cs) = putenv_of cs"

text \<open>\<open>split_env_pair\<close> of \<open>pam_ffi.rs\<close>: no pair without an equals sign.\<close>

definition pam_split_env_pair :: "string \<Rightarrow> (string \<times> string) option" where
  "pam_split_env_pair entry = split_once CHR ''='' entry"

definition getenvlist :: "libpam \<Rightarrow> (pam_error, (string \<times> string) list) session_m" where
  "getenvlist L s = (case lp_getenvlist L (putenv_of (se_calls s)) of
     None \<Rightarrow> (Inl PamGetEnvErr, record_call CallGetenvlist False s)
   | Some entries \<Rightarrow> (Inr (concat (map (\<lambda>e. case pam_split_env_pair (to_string_lossy e) of
         None \<Rightarrow> [] | Some p \<Rightarrow> [p]) entries)), record_call CallGetenvlist True s))"

definition get_user :: "libpam \<Rightarrow> (pam_error, string) session_m" where
  "get_user L s =
     (let (status, item) = lp_get_user L in
      if status \<noteq> PAM_SUCCESS then (Inl (PamGetUserErr status), record_call CallGetUser False s)
      else case item of
        None \<Rightarrow> (Inl (PamGetUserErr status), record_call CallGetUser False s)
      | Some name \<Rightarrow>
          if utf8_valid name then (Inr name, record_call CallGetUser True s)
          else (Inl (PamGetUserErr status), record_call CallGetUser False s))"

section \<open>The auth phase\<close>

record resolved_identity =
  ri_username :: string
  ri_uid :: u32
  ri_gid :: u32

datatype auth_error = AuthPam pam_error | AccountLookup

definition resolve_identity ::
    "(string \<Rightarrow> os_error + passwd_user option) \<Rightarrow> string \<Rightarrow> auth_error + resolved_identity" where
  "resolve_identity from_name resolved_name = (case from_name resolved_name of
     Inl _ \<Rightarrow> Inl AccountLookup
   | Inr None \<Rightarrow> Inl AccountLookup
   | Inr (Some pw) \<Rightarrow> Inr \<lparr>ri_username = resolved_name, ri_uid = pw_uid pw, ri_gid = pw_gid pw\<rparr>)"

definition run_auth_phase ::
    "worker_env \<Rightarrow> libpam \<Rightarrow> (string \<Rightarrow> os_error + passwd_user option) \<Rightarrow> (auth_error, resolved_identity) session_m" where
  "run_auth_phase W L from_name =
     sbind (smap_err AuthPam (authenticate W L)) (\<lambda>_.
     sbind (smap_err AuthPam (acct_mgmt W L)) (\<lambda>_.
     sbind (smap_err AuthPam (get_user L)) (\<lambda>resolved s.
     (resolve_identity from_name resolved, s))))"

text \<open>The auth-only transaction; the handle ends when it is dropped.\<close>

definition run_pam_auth ::
    "worker_env \<Rightarrow> libpam \<Rightarrow> (string \<Rightarrow> os_error + passwd_user option) \<Rightarrow> string \<Rightarrow> string \<Rightarrow>
     (auth_error, resolved_identity) session_m" where
  "run_pam_auth W L from_name service username s = (case Pam_start L service username s of
     (Inl e, s1) \<Rightarrow> (Inl (AuthPam e), s1)
   | (Inr _, s1) \<Rightarrow> (let (r, s2) = run_auth_phase W L from_name s1 in (r, Pam_drop s2)))"

text \<open>The child of \<open>spawn_auth_worker\<close>: one outcome frame either way.\<close>

definition auth_worker_child ::
    "worker_env \<Rightarrow> libpam \<Rightarrow> (string \<Rightarrow> os_error + passwd_user option) \<Rightarrow> (auth_error \<Rightarrow> string) \<Rightarrow> string \<Rightarrow> string \<Rightarrow>
     session_state_rec \<Rightarrow> session_state_rec" where
  "auth_worker_child W L from_name show_err service username s =
     (let (r, s1) = run_pam_auth W L from_name service username s;
          outcome = (case r of Inl e \<Rightarrow> WorkerFailure (show_err e)
            | Inr i \<Rightarrow> WorkerSuccess (ri_username i) (ri_uid i) (ri_gid i)) in
      s1\<lparr>se_chan := snd (wc_send W (we_outcome_to_vec W) Outcome outcome None (se_chan s1))\<rparr>)"

section \<open>The one-handle lifecycle\<close>

datatype session_error =
    SessionPam pam_error | SessionAuth auth_error | SessionSpecErr spec_error
  | SessionTransport transport_error | SessionIo spawn_error | Aborted | SessionUnexpectedFrame

datatype wait_status = WaitExited i32 | WaitSignaled i32 | WaitOther

record session_os =
  so_from_name :: "string \<Rightarrow> os_error + passwd_user option"
  so_getgrouplist :: "string \<Rightarrow> u32 \<Rightarrow> os_error + u32 list"
  so_spawn_leader :: "session_spec \<Rightarrow> u32 list \<Rightarrow> spawn_error + worker_handle"
  so_wait :: "pid \<Rightarrow> os_error + wait_status"

definition ssend :: "worker_env \<Rightarrow> worker_outcome \<Rightarrow> fd option \<Rightarrow> (session_error, unit) session_m" where
  "ssend W outcome fd s = (let (r, ch) = wc_send W (we_outcome_to_vec W) Outcome outcome fd (se_chan s) in
     (map_err SessionTransport r, s\<lparr>se_chan := ch\<rparr>))"

definition srecv :: "worker_env \<Rightarrow> (session_error, compositor_to_broker) session_m" where
  "srecv W s = (let (r, ch) = wc_recv W (se_chan s) in (map_err SessionTransport r, s\<lparr>se_chan := ch\<rparr>))"

fun put_all :: "libpam \<Rightarrow> (string \<times> string) list \<Rightarrow> (session_error, unit) session_m" where
  "put_all L [] = sreturn ()"
| "put_all L ((k, v) # env) = sbind (smap_err SessionPam (putenv L (k @ ''='' @ v))) (\<lambda>_. put_all L env)"

definition read_spec :: "worker_env \<Rightarrow> libpam \<Rightarrow> (session_error, string list) session_m" where
  "read_spec W L = sbind (srecv W) (\<lambda>frame. case frame of
     StartSessionFrame cmd env \<Rightarrow> sbind (put_all L env) (\<lambda>_. sreturn cmd)
   | Cancel \<Rightarrow> sfail Aborted
   | _ \<Rightarrow> sfail SessionUnexpectedFrame)"

definition outcome_of :: "wait_status \<Rightarrow> session_outcome" where
  "outcome_of st = (case st of WaitExited c \<Rightarrow> Exited c | WaitSignaled sig \<Rightarrow> Signaled sig | WaitOther \<Rightarrow> Exited (- 1))"

definition slift :: "'e + 'a \<Rightarrow> ('e, 'a) session_m" where
  "slift r s = (r, s)"

definition scall :: "session_call \<Rightarrow> 'e + 'a \<Rightarrow> ('e, 'a) session_m" where
  "scall c r s = (r, record_call c (\<not> isl r) s)"

text \<open>The body of \<open>run_session\<close> on the started handle.\<close>

definition session_body :: "worker_env \<Rightarrow> libpam \<Rightarrow> session_os \<Rightarrow> (session_error, unit) session_m" where
  "session_body W L S =
     sbind (smap_err SessionAuth (run_auth_phase W L (so_from_name S))) (\<lambda>i.
     sbind (smap_err SessionPam (set_cred_established W L)) (\<lambda>_.
     sbind (ssend W (WorkerAuthOk (ri_username i) (ri_uid i) (ri_gid i)) None) (\<lambda>_.
     sbind (read_spec W L) (\<lambda>cmd.
     sbind (smap_err SessionPam (open_session W L)) (\<lambda>_.
     sbind (smap_err SessionPam (getenvlist L)) (\<lambda>pam_env.
     sbind (slift (map_err SessionSpecErr (validate (so_from_name S) (ri_username i) (ri_uid i) (ri_gid i) cmd pam_env))) (\<lambda>spec.
     sbind (slift (map_err SessionSpecErr (user_groups (so_from_name S) (so_getgrouplist S) (ri_username i) (ri_gid i)))) (\<lambda>groups.
     sbind (scall (CallSpawnLeader spec groups) (map_err SessionIo (so_spawn_leader S spec groups))) (\<lambda>handle.
     sbind (ssend W (WorkerSessionOpened (ri_username i) (ri_uid i) (ri_gid i)) (Some (wh_pidfd handle))) (\<lambda>_.
     sbind (scall CallWaitLeader (map_err (\<lambda>e. SessionIo (OsError e)) (so_wait S (wh_pid handle)))) (\<lambda>status.
     sbind (smap_err SessionPam (close_session W L)) (\<lambda>_.
     sbind (smap_err SessionPam (set_cred_deleted W L)) (\<lambda>_.
     ssend W (WorkerSessionEnded (outcome_of status)) None)))))))))))))"

text \<open>
  \<open>run_session\<close>: the handle is started, the body runs, and \<open>pam_end\<close> runs when the handle
  drops, on every path.
\<close>

definition run_session ::
    "worker_env \<Rightarrow> libpam \<Rightarrow> session_os \<Rightarrow> string \<Rightarrow> string \<Rightarrow> (session_error, unit) session_m" where
  "run_session W L S service username s = (case Pam_start L service username s of
     (Inl e, s1) \<Rightarrow> (Inl (SessionPam e), s1)
   | (Inr _, s1) \<Rightarrow> (let (r, s2) = session_body W L S s1 in (r, Pam_drop s2)))"

text \<open>The child of \<open>spawn_session_worker\<close>: an error is reported to the parent.\<close>

definition session_worker_child ::
    "worker_env \<Rightarrow> libpam \<Rightarrow> session_os \<Rightarrow> (session_error \<Rightarrow> string) \<Rightarrow> string \<Rightarrow> string \<Rightarrow> session_state_rec \<Rightarrow> session_state_rec" where
  "session_worker_child W L S show_err service username s = (case run_session W L S service username s of
     (Inr _, s1) \<Rightarrow> s1
   | (Inl e, s1) \<Rightarrow> snd (ssend W (WorkerFailure (show_err e)) None s1))"

section \<open>Every message is forwarded, in order\<close>

fun kind_frame :: "message_kind \<Rightarrow> broker_to_compositor" where
  "kind_frame (Prompt style message) = ConvPrompt style message"
| "kind_frame (Display style message) = ConvDisplay style message"

text \<open>The response slot a message kind demands: a NUL-free answer, or NULL.\<close>

fun slot_ok :: "message_kind \<Rightarrow> string option \<Rightarrow> bool" where
  "slot_ok (Prompt _ _) r = (\<exists>s. r = Some s \<and> CHR 0x00 \<notin> set s)"
| "slot_ok (Display _ _) r = (r = None)"

definition message_text :: "string option \<Rightarrow> string" where
  "message_text msg = (case msg of None \<Rightarrow> [] | Some m \<Rightarrow> to_string_lossy m)"

text \<open>The kind of a message that is there and has a known style.\<close>

definition kind_of :: "pam_message option \<Rightarrow> message_kind option" where
  "kind_of m = (case m of None \<Rightarrow> None | Some (style, msg) \<Rightarrow>
     (case message_from_pam style (message_text msg) of Inl _ \<Rightarrow> None | Inr k \<Rightarrow> Some k))"

lemma wc_send_ok:
  "wc_send W to_vec wrap msg fd ch = (Inr u, ch') \<Longrightarrow> wc_sent ch' = wc_sent ch @ [(wrap msg, fd)]"
  by (auto simp: wc_send_def Let_def split: sum.splits)

lemma wc_recv_sent: "wc_sent (snd (wc_recv W ch)) = wc_sent ch"
  by (simp add: wc_recv_def split: list.split)

lemma respond_ok:
  assumes "respond W style message ch = (Some s, ch')"
  shows "wc_sent ch' = wc_sent ch @ [(Conv (ConvPrompt style message), None)]"
proof -
  obtain u ch1 where s: "wc_send W (we_b2c_to_vec W) Conv (ConvPrompt style message) None ch = (Inr u, ch1)"
    and "snd (wc_recv W ch1) = ch'"
    using assms by (auto simp: respond_def split: prod.splits sum.splits compositor_to_broker.splits)
  then show ?thesis using wc_send_ok [OF s] wc_recv_sent [of W ch1] by simp
qed

lemma display_ok:
  assumes "display W style message ch = (True, ch')"
  shows "wc_sent ch' = wc_sent ch @ [(Conv (ConvDisplay style message), None)]"
proof -
  obtain u where "wc_send W (we_b2c_to_vec W) Conv (ConvDisplay style message) None ch = (Inr u, ch')"
    using assms by (auto simp: display_def split: prod.splits sum.splits)
  then show ?thesis by (rule wc_send_ok)
qed

lemma conv_loop_ok:
  "conv_loop W A filled ms ch = (ConvSuccess resps, ch') \<Longrightarrow>
     \<exists>kinds answers. map kind_of ms = map Some kinds \<and> resps = filled @ answers \<and>
       list_all2 slot_ok kinds answers \<and>
       wc_sent ch' = wc_sent ch @ map (\<lambda>k. (Conv (kind_frame k), None)) kinds"
proof (induction W A filled ms ch rule: conv_loop.induct)
  case (1 W A filled ch)
  then show ?case by simp
next
  case (2 W A filled ms ch)
  then show ?case by (simp add: rollback_resp_array_def)
next
  case (3 W A filled style msg ms ch)
  let ?text = "case msg of None \<Rightarrow> [] | Some m \<Rightarrow> to_string_lossy m"
  obtain k where k: "message_from_pam style ?text = Inr k"
    using "3.prems" by (auto simp: rollback_resp_array_def split: sum.splits)
  have ko: "kind_of (Some (style, msg)) = Some k" using k by (simp add: kind_of_def message_text_def)
  show ?case
  proof (cases k)
    case (Prompt ps m)
    obtain s ch1 where r: "respond W ps m ch = (Some s, ch1)" "CHR 0x00 \<notin> set (expose s)" "ca_strdup A (length filled)"
      and rest: "conv_loop W A (filled @ [Some (expose s)]) ms ch1 = (ConvSuccess resps, ch')"
      using "3.prems" k Prompt
      by (auto simp: rollback_resp_array_def Let_def split: prod.splits option.splits if_splits)
    from "3.IH"(1) [OF refl k Prompt r(1) [symmetric] refl _ _ rest] r obtain kinds answers where
      "map kind_of ms = map Some kinds" "resps = filled @ Some (expose s) # answers" "list_all2 slot_ok kinds answers"
      "wc_sent ch' = wc_sent ch1 @ map (\<lambda>k. (Conv (kind_frame k), None)) kinds" by auto
    then show ?thesis using ko Prompt r respond_ok [OF r(1)]
      by (intro exI [of _ "k # kinds"] exI [of _ "Some (expose s) # answers"]) simp
  next
    case (Display ds m)
    obtain ch1 where d: "display W ds m ch = (True, ch1)"
      and rest: "conv_loop W A (filled @ [None]) ms ch1 = (ConvSuccess resps, ch')"
      using "3.prems" k Display
      by (auto simp: rollback_resp_array_def Let_def split: prod.splits bool.splits)
    from "3.IH"(2) [OF refl k Display d [symmetric] _ rest] obtain kinds answers where
      "map kind_of ms = map Some kinds" "resps = filled @ None # answers" "list_all2 slot_ok kinds answers"
      "wc_sent ch' = wc_sent ch1 @ map (\<lambda>k. (Conv (kind_frame k), None)) kinds" by auto
    then show ?thesis using ko Display display_ok [OF d]
      by (intro exI [of _ "k # kinds"] exI [of _ "None # answers"]) simp
  qed
qed

text \<open>
  C32: the asymmetric conversation contract: when the callback reports success to libpam,
  every message was present and of a documented style, each was forwarded to the broker
  exactly once and in order as a prompt or a display frame of its own style and text, and
  the response array has one slot per message: a NUL-free answer for a prompt, NULL for a
  display message.
\<close>

theorem conversation_forwards_every_message:
  assumes "conv_trampoline W A ms ch = (ConvSuccess resps, ch')"
  shows "\<exists>kinds. map kind_of ms = map Some kinds \<and> list_all2 slot_ok kinds resps \<and>
    wc_sent ch' = wc_sent ch @ map (\<lambda>k. (Conv (kind_frame k), None)) kinds"
proof -
  have "conv_loop W A [] ms ch = (ConvSuccess resps, ch')"
    using assms by (auto simp: conv_trampoline_def split: if_splits)
  from conv_loop_ok [OF this] show ?thesis by auto
qed

definition demo_worker_env :: worker_env where
  "demo_worker_env = \<lparr>we_le = True, we_b2c_to_vec = (\<lambda>f. Inr [0]), we_outcome_to_vec = (\<lambda>f. Inr [0]),
     we_c2b_from_slice = (\<lambda>b. if b = [1] then Inr (ConvResponse (MkSecret ''pw''))
       else if b = [2] then Inr (StartSessionFrame [''niri''] [(''LANG'', ''C'')])
       else if b = [3] then Inr (StartSessionFrame [''/bin/niri''] []) else Inl ''expected value''),
     we_send = (\<lambda>n b fds. Inr (length b))\<rparr>"

definition inbox :: "byte list \<Rightarrow> worker_chan" where
  "inbox bs = \<lparr>wc_inbox = map (\<lambda>b. Inr [1, 0, 0, 0, b]) bs, wc_sends = 0, wc_sent = []\<rparr>"

definition demo_alloc :: conv_alloc where
  "demo_alloc = \<lparr>ca_calloc = True, ca_strdup = (\<lambda>n. True)\<rparr>"

lemmas worker_eval = demo_worker_env_def inbox_def demo_alloc_def conv_trampoline_def message_from_pam_def pam_codes
  to_string_lossy.simps valid_at_def utf8_width_def utf8_second_ok_def respond_def display_def wc_send_def wc_recv_def
  send_frame_with_fd_def transport_recv_def ipc_encode_def ipc_try_decode_def IPC_LENGTH_PREFIX_SIZE_def
  IPC_MAX_MESSAGE_SIZE_def to_ne_bytes_def le_bytes_def from_ne_bytes_def from_le_bytes_def Let_def

theorem conversation_forwards_every_message_witness:
  "\<exists>ch'. conv_trampoline demo_worker_env demo_alloc [Some (4, Some ''Hi''), Some (1, Some ''Pw'')] (inbox [1])
      = (ConvSuccess [None, Some ''pw''], ch') \<and>
    (\<exists>kinds. map kind_of [Some (4, Some ''Hi''), Some (1, Some ''Pw'')] = map Some kinds \<and>
       list_all2 slot_ok kinds [None, Some ''pw''] \<and>
       wc_sent ch' = wc_sent (inbox [1]) @ map (\<lambda>k. (Conv (kind_frame k), None)) kinds)"
proof -
  have r: "conv_trampoline demo_worker_env demo_alloc [Some (4, Some ''Hi''), Some (1, Some ''Pw'')] (inbox [1])
    = (ConvSuccess [None, Some ''pw''], \<lparr>wc_inbox = [], wc_sends = 2,
        wc_sent = [(Conv (ConvDisplay DisplayInfo ''Hi''), None), (Conv (ConvPrompt PromptSecret ''Pw''), None)]\<rparr>)"
    by (simp add: worker_eval)
  show ?thesis using conversation_forwards_every_message [OF r] r by blast
qed

section \<open>A Hoare rule for the lifecycle\<close>

text \<open>
  \<open>triple P m Q E\<close>: from a state in \<open>P\<close> the step \<open>m\<close> ends in \<open>Q\<close> of its result, or fails
  in \<open>E\<close>.
\<close>

definition triple ::
    "(session_state_rec \<Rightarrow> bool) \<Rightarrow> ('e, 'a) session_m \<Rightarrow> ('a \<Rightarrow> session_state_rec \<Rightarrow> bool) \<Rightarrow>
     (session_state_rec \<Rightarrow> bool) \<Rightarrow> bool" where
  "triple P m Q E = (\<forall>s. P s \<longrightarrow> (case m s of (Inr x, s') \<Rightarrow> Q x s' | (Inl _, s') \<Rightarrow> E s'))"

lemma tripleI:
  assumes "\<And>s x s'. P s \<Longrightarrow> m s = (Inr x, s') \<Longrightarrow> Q x s'" "\<And>s e s'. P s \<Longrightarrow> m s = (Inl e, s') \<Longrightarrow> E s'"
  shows "triple P m Q E"
  using assms by (simp add: triple_def split: prod.split sum.split)

lemma triple_ok: "triple P m Q E \<Longrightarrow> P s \<Longrightarrow> m s = (Inr x, s') \<Longrightarrow> Q x s'"
  by (auto simp: triple_def dest!: spec [of _ s])

lemma triple_err: "triple P m Q E \<Longrightarrow> P s \<Longrightarrow> m s = (Inl e, s') \<Longrightarrow> E s'"
  by (auto simp: triple_def dest!: spec [of _ s])

lemma triple_sbind:
  assumes m: "triple P m Q E" and f: "\<And>x. triple (Q x) (f x) R E"
  shows "triple P (sbind m f) R E"
proof (rule tripleI)
  fix s y s' assume "P s" "sbind m f s = (Inr y, s')"
  then show "R y s'" using triple_ok [OF f triple_ok [OF m]]
    by (auto simp: sbind_def split: prod.splits sum.splits)
next
  fix s e s' assume "P s" "sbind m f s = (Inl e, s')"
  then show "E s'" using triple_err [OF m] triple_err [OF f triple_ok [OF m]]
    by (auto simp: sbind_def split: prod.splits sum.splits)
qed

lemma triple_map_err:
  assumes "triple P m Q E"
  shows "triple P (smap_err f m) Q E"
  by (rule tripleI) (auto simp: smap_err_def map_err_def split: prod.splits sum.splits
    intro: triple_err [OF assms] triple_ok [OF assms])

lemma triple_pre: "triple P' m Q E \<Longrightarrow> (\<And>s. P s \<Longrightarrow> P' s) \<Longrightarrow> triple P m Q E"
  by (rule tripleI) (rule triple_ok triple_err, assumption+)+

lemma triple_post:
  assumes "triple P m Q' E" "\<And>x s. Q' x s \<Longrightarrow> Q x s"
  shows "triple P m Q E"
  by (rule tripleI) (rule assms(2) [OF triple_ok [OF assms(1)]] triple_err [OF assms(1)], assumption+)+

lemma triple_sreturn: "triple (Q x) (sreturn x) Q E"
  by (simp add: triple_def sreturn_def)

section \<open>The order of the one-handle lifecycle\<close>

text \<open>The calls of a complete session, for the environment \<open>es\<close> and the leader started.\<close>

definition auth_calls :: "session_call list" where
  "auth_calls = [CallAuthenticate, CallAcctMgmt, CallGetUser, CallSetcredEstablish]"

definition canonical :: "string list \<Rightarrow> session_spec \<Rightarrow> u32 list \<Rightarrow> session_call list" where
  "canonical es spec groups = auth_calls @ map CallPutenv es @
     [CallOpenSession, CallGetenvlist, CallSpawnLeader spec groups, CallWaitLeader, CallCloseSession, CallSetcredDelete]"

text \<open>The identity PAM resolved: its user item, looked up in the passwd database.\<close>

definition pam_identity :: "libpam \<Rightarrow> session_os \<Rightarrow> resolved_identity \<Rightarrow> bool" where
  "pam_identity L S i = (\<exists>pw. lp_get_user L = (PAM_SUCCESS, Some (ri_username i)) \<and>
     so_from_name S (ri_username i) = Inr (Some pw) \<and> ri_uid i = pw_uid pw \<and> ri_gid i = pw_gid pw)"

text \<open>A leader launch for the identity PAM resolved, and the groups of that identity alone.\<close>

definition leader_authorised :: "libpam \<Rightarrow> session_os \<Rightarrow> session_spec \<Rightarrow> u32 list \<Rightarrow> bool" where
  "leader_authorised L S spec groups = (\<exists>i cmd env. pam_identity L S i \<and>
     validate (so_from_name S) (ri_username i) (ri_uid i) (ri_gid i) cmd env = Inr spec \<and>
     user_groups (so_from_name S) (so_getgrouplist S) (ri_username i) (ri_gid i) = Inr groups)"

text \<open>
  A run, complete or cut short: its calls are a prefix of the canonical ones, only the last
  may have failed, and a leader is started with an authorised specification only.
\<close>

definition lifecycle_run :: "libpam \<Rightarrow> session_os \<Rightarrow> (session_call \<times> bool) list \<Rightarrow> bool" where
  "lifecycle_run L S cs = (list_all snd (butlast cs) \<and> (\<exists>es spec groups. prefix (map fst cs) (canonical es spec groups)) \<and>
     (\<forall>spec groups. CallSpawnLeader spec groups \<in> fst ` set cs \<longrightarrow> leader_authorised L S spec groups))"

text \<open>What the calls made so far must be for a frame to have been sent.\<close>

fun frame_justified :: "libpam \<Rightarrow> session_os \<Rightarrow> (session_call \<times> bool) list \<Rightarrow> parent_message \<Rightarrow> bool" where
  "frame_justified L S cs (Outcome (WorkerAuthOk u uid gid)) =
     (prefix (map (\<lambda>c. (c, True)) auth_calls) cs \<and> pam_identity L S \<lparr>ri_username = u, ri_uid = uid, ri_gid = gid\<rparr>)"
| "frame_justified L S cs (Outcome (WorkerSessionOpened u uid gid)) =
     ((\<exists>spec groups. (CallSpawnLeader spec groups, True) \<in> set cs) \<and>
      pam_identity L S \<lparr>ri_username = u, ri_uid = uid, ri_gid = gid\<rparr>)"
| "frame_justified L S cs (Outcome (WorkerSessionEnded _)) =
     ((CallCloseSession, True) \<in> set cs \<and> (CallSetcredDelete, True) \<in> set cs)"
| "frame_justified L S cs (Outcome (WorkerSuccess _ _ _)) = False"
| "frame_justified L S cs (Outcome (WorkerFailure _)) = False"
| "frame_justified L S cs (Conv _) = True"

lemma frame_justified_append: "frame_justified L S cs f \<Longrightarrow> frame_justified L S (cs @ ds) f"
  by (induction L S cs f rule: frame_justified.induct) (auto simp: prefix_def)

text \<open>The state after the calls \<open>cs\<close>, every frame sent being justified by them.\<close>

definition after :: "libpam \<Rightarrow> session_os \<Rightarrow> (session_call \<times> bool) list \<Rightarrow> session_state_rec \<Rightarrow> bool" where
  "after L S cs s = (se_calls s = (CallStart, True) # cs \<and> (\<forall>f \<in> set (wc_sent (se_chan s)). frame_justified L S cs (fst f)))"

definition cut_short :: "libpam \<Rightarrow> session_os \<Rightarrow> session_state_rec \<Rightarrow> bool" where
  "cut_short L S s = (\<exists>cs. after L S cs s \<and> lifecycle_run L S cs)"

text \<open>Only conversation frames are sent while libpam runs.\<close>

definition conv_only :: "worker_chan \<Rightarrow> worker_chan \<Rightarrow> bool" where
  "conv_only ch ch' = (\<exists>fs. wc_sent ch' = wc_sent ch @ fs \<and> list_all (\<lambda>f. \<exists>b. fst f = Conv b) fs)"

lemma conv_only_refl [simp]: "conv_only ch ch"
  by (simp add: conv_only_def)

lemma conv_only_trans: "conv_only a b \<Longrightarrow> conv_only b c \<Longrightarrow> conv_only a c"
  unfolding conv_only_def by force

lemma conv_only_send: "conv_only ch (snd (wc_send W tv Conv m fd ch))"
  by (auto simp: conv_only_def wc_send_def Let_def split: sum.split)

lemma conv_only_recv: "conv_only ch (snd (wc_recv W ch))"
  by (simp add: conv_only_def wc_recv_sent)

lemma conv_only_respond: "conv_only ch (snd (respond W st m ch))"
proof (cases "wc_send W (we_b2c_to_vec W) Conv (ConvPrompt st m) None ch")
  case (Pair r ch1)
  have "conv_only ch ch1" using conv_only_send [of ch W "we_b2c_to_vec W" "ConvPrompt st m" None] Pair by simp
  then show ?thesis using Pair conv_only_trans [OF _ conv_only_recv [of ch1 W]]
    by (auto simp: respond_def split: sum.splits prod.splits compositor_to_broker.splits)
qed

lemma conv_only_display: "conv_only ch (snd (display W st m ch))"
  using conv_only_send [of ch W "we_b2c_to_vec W" "ConvDisplay st m" None]
  by (auto simp: display_def split: sum.splits prod.splits)

lemma conv_only_loop: "conv_only ch (snd (conv_loop W A filled ms ch))"
proof (induction W A filled ms ch rule: conv_loop.induct)
  case (3 W A filled style msg ms ch)
  let ?text = "case msg of None \<Rightarrow> [] | Some m \<Rightarrow> to_string_lossy m"
  show ?case
  proof (cases "message_from_pam style ?text")
    case (Inr k)
    show ?thesis
    proof (cases k)
      case (Prompt ps m)
      show ?thesis
        using "3.IH"(1) [OF refl Inr Prompt prod.collapse [of "respond W ps m ch"]]
          conv_only_respond [of ch W ps m] Inr Prompt
        by (auto simp: Let_def split: prod.split option.split intro: conv_only_trans)
    next
      case (Display ds m)
      show ?thesis
        using "3.IH"(2) [OF refl Inr Display prod.collapse [of "display W ds m ch"]]
          conv_only_display [of ch W ds m] Inr Display
        by (auto simp: Let_def split: prod.split bool.split intro: conv_only_trans)
    qed
  qed simp
qed simp_all

lemma conv_only_run_pam: "conv_only ch (snd (run_pam W p ch))"
proof (induction p arbitrary: ch)
  case (PamConv A ms k)
  obtain r ch' where t: "conv_trampoline W A ms ch = (r, ch')" by fastforce
  have "conv_only ch ch'"
    using t conv_only_loop [of ch W A "[]" ms] by (auto simp: conv_trampoline_def split: if_splits)
  moreover have "conv_only ch' (snd (run_pam W (k r) ch'))" by (rule PamConv.IH) simp
  ultimately show ?case using t by (simp add: conv_only_trans [of ch ch'])
qed simp

definition oks :: "session_call list \<Rightarrow> (session_call \<times> bool) list" where
  "oks cs = map (\<lambda>c. (c, True)) cs"

lemma oks_simps [simp]: "oks [] = []" "oks (c # cs) = (c, True) # oks cs" "oks (cs @ ds) = oks cs @ oks ds"
  "map fst (oks cs) = cs" "list_all snd (oks cs)" "(c, True) \<in> set (oks cs) \<longleftrightarrow> c \<in> set cs" "fst ` set (oks cs) = set cs"
  by (auto simp: oks_def list_all_iff image_iff comp_def)

lemma after_call:
  assumes "after L S cs s" "conv_only (se_chan s) ch"
  shows "after L S (cs @ [(c, ok)]) (record_call c ok (s\<lparr>se_chan := ch, se_last_status := st\<rparr>))"
proof -
  obtain fs where fs: "wc_sent ch = wc_sent (se_chan s) @ fs" "\<forall>f \<in> set fs. \<exists>b. fst f = Conv b"
    using assms(2) by (auto simp: conv_only_def list_all_iff)
  show ?thesis using assms(1) fs
    by (fastforce simp: after_def record_call_def intro: frame_justified_append)
qed

lemma after_call_same:
  "after L S cs s \<Longrightarrow> after L S (cs @ [(c, ok)]) (record_call c ok s)"
  using after_call [of L S cs s "se_chan s" c ok "se_last_status s"] by simp

text \<open>What is left of a run that stops at the call \<open>c\<close> or just before it.\<close>

definition stoppable :: "libpam \<Rightarrow> session_os \<Rightarrow> session_call list \<Rightarrow> bool" where
  "stoppable L S cs = ((\<exists>es spec groups. prefix cs (canonical es spec groups)) \<and>
     (\<forall>spec groups. CallSpawnLeader spec groups \<in> set cs \<longrightarrow> leader_authorised L S spec groups))"

lemma stoppable_run: "stoppable L S (cs @ [c]) \<Longrightarrow> lifecycle_run L S (oks cs @ [(c, ok)])"
  by (simp add: stoppable_def lifecycle_run_def)

lemma stoppable_run_oks: "stoppable L S cs \<Longrightarrow> lifecycle_run L S (oks cs)"
  by (auto simp: stoppable_def lifecycle_run_def list_all_iff oks_def comp_def dest: in_set_butlastD)

lemma cut_shortI: "after L S cs s \<Longrightarrow> lifecycle_run L S cs \<Longrightarrow> cut_short L S s"
  by (auto simp: cut_short_def)

lemmas stop_after = cut_shortI [OF _ stoppable_run] cut_shortI [OF _ stoppable_run_oks]

lemma triple_pam_call:
  assumes "stoppable L S (cs @ [c])"
  shows "triple (after L S (oks cs)) (pam_call W c p err) (\<lambda>_. after L S (oks (cs @ [c]))) (cut_short L S)"
proof (rule tripleI)
  fix s x s' assume "after L S (oks cs) s" "pam_call W c p err s = (Inr x, s')"
  then show "after L S (oks (cs @ [c])) s'"
    using after_call [of L S "oks cs" s _ c True] conv_only_run_pam [of "se_chan s" W p]
    by (auto simp: pam_call_def split: prod.splits if_splits)
next
  fix s e s' assume "after L S (oks cs) s" "pam_call W c p err s = (Inl e, s')"
  then have "after L S (oks cs @ [(c, False)]) s'"
    using after_call [of L S "oks cs" s _ c False] conv_only_run_pam [of "se_chan s" W p]
    by (auto simp: pam_call_def split: prod.splits if_splits)
  then show "cut_short L S s'" using assms by (rule stop_after)
qed

lemma triple_scall:
  assumes "stoppable L S (cs @ [c])"
  shows "triple (after L S (oks cs)) (scall c r) (\<lambda>x s. r = Inr x \<and> after L S (oks (cs @ [c])) s) (cut_short L S)"
  by (rule tripleI) (use after_call_same [of L S "oks cs"] stop_after(1) [OF _ assms] in \<open>fastforce simp: scall_def\<close>)+

lemma triple_slift:
  assumes "stoppable L S cs"
  shows "triple (after L S (oks cs)) (slift r) (\<lambda>x s. r = Inr x \<and> after L S (oks cs) s) (cut_short L S)"
  by (rule tripleI) (use stop_after(2) [OF _ assms] in \<open>auto simp: slift_def\<close>)

lemma triple_srecv:
  assumes "stoppable L S cs"
  shows "triple (after L S (oks cs)) (srecv W) (\<lambda>_. after L S (oks cs)) (cut_short L S)"
proof (rule tripleI)
  have keep: "after L S (oks cs) s'" if "after L S (oks cs) s" "srecv W s = (r, s')" for s s' r
    using that wc_recv_sent [of W "se_chan s"] by (auto simp: srecv_def after_def split: prod.splits)
  show "after L S (oks cs) s'" if "after L S (oks cs) s" "srecv W s = (Inr x, s')" for s x s'
    using keep that .
  show "cut_short L S s'" if "after L S (oks cs) s" "srecv W s = (Inl e, s')" for s e s'
    using keep [OF that] assms by (rule stop_after)
qed

lemma triple_ssend:
  assumes "stoppable L S cs" "frame_justified L S (oks cs) (Outcome oc)"
  shows "triple (after L S (oks cs)) (ssend W oc fd) (\<lambda>_. after L S (oks cs)) (cut_short L S)"
proof (rule tripleI)
  have keep: "after L S (oks cs) s'" if "after L S (oks cs) s" "ssend W oc fd s = (r, s')" for s s' r
    using that assms(2) by (auto simp: ssend_def wc_send_def after_def Let_def split: sum.splits)
  show "after L S (oks cs) s'" if "after L S (oks cs) s" "ssend W oc fd s = (Inr x, s')" for s x s'
    using keep that .
  show "cut_short L S s'" if "after L S (oks cs) s" "ssend W oc fd s = (Inl e, s')" for s e s'
    using keep [OF that] assms(1) by (rule stop_after)
qed

lemma call_fails: "after L S (oks cs) s \<Longrightarrow> stoppable L S (cs @ [c]) \<Longrightarrow> cut_short L S (record_call c ok s)"
  by (rule stop_after(1) [OF after_call_same])

lemma triple_getenvlist:
  assumes "stoppable L S (cs @ [CallGetenvlist])"
  shows "triple (after L S (oks cs)) (getenvlist L) (\<lambda>_. after L S (oks (cs @ [CallGetenvlist]))) (cut_short L S)"
  by (rule tripleI)
    (use after_call_same [of L S "oks cs"] call_fails [OF _ assms] in \<open>auto simp: getenvlist_def split: option.splits\<close>)

lemma triple_get_user:
  assumes "stoppable L S (cs @ [CallGetUser])"
  shows "triple (after L S (oks cs)) (get_user L)
    (\<lambda>name s. lp_get_user L = (PAM_SUCCESS, Some name) \<and> after L S (oks (cs @ [CallGetUser])) s) (cut_short L S)"
  by (rule tripleI)
    (use after_call_same [of L S "oks cs"] call_fails [OF _ assms] in
      \<open>auto simp: get_user_def split: option.splits prod.splits if_splits\<close>)

lemma triple_pure: "(F \<Longrightarrow> triple P m Q E) \<Longrightarrow> triple (\<lambda>s. F \<and> P s) m Q E"
  by (rule tripleI) (blast intro: triple_ok triple_err)+

lemma triple_ex: "(\<And>y. triple (P y) m Q E) \<Longrightarrow> triple (\<lambda>s. \<exists>y. P y s) m Q E"
  by (rule tripleI) (blast intro: triple_ok triple_err)+

lemma stoppable_auth: "prefix cs auth_calls \<Longrightarrow> stoppable L S cs"
  by (auto simp: stoppable_def canonical_def auth_calls_def prefix_Cons prefix_append)

lemma stoppable_putenv: "stoppable L S (auth_calls @ map CallPutenv es)"
  by (auto simp: stoppable_def canonical_def auth_calls_def intro: exI [of _ es])

lemma stoppable_open:
  "prefix ds [CallOpenSession, CallGetenvlist] \<Longrightarrow> stoppable L S (auth_calls @ map CallPutenv es @ ds)"
  by (auto simp: stoppable_def canonical_def auth_calls_def prefix_Cons intro!: exI [of _ es])

lemma stoppable_leader:
  "leader_authorised L S spec groups \<Longrightarrow>
   prefix ds [CallOpenSession, CallGetenvlist, CallSpawnLeader spec groups, CallWaitLeader, CallCloseSession, CallSetcredDelete] \<Longrightarrow>
   stoppable L S (auth_calls @ map CallPutenv es @ ds)"
  by (auto simp: stoppable_def canonical_def auth_calls_def prefix_Cons intro!: exI [of _ es])

definition env_pushed :: "libpam \<Rightarrow> session_os \<Rightarrow> session_state_rec \<Rightarrow> bool" where
  "env_pushed L S s = (\<exists>es. after L S (oks (auth_calls @ map CallPutenv es)) s)"

lemma triple_putenv: "triple (env_pushed L S) (putenv L e) (\<lambda>_. env_pushed L S) (cut_short L S)"
proof (rule tripleI)
  fix s x s' assume "env_pushed L S s" and r: "putenv L e s = (Inr x, s')"
  then obtain es where a: "after L S (oks (auth_calls @ map CallPutenv es)) s" by (auto simp: env_pushed_def)
  show "env_pushed L S s'" using after_call_same [OF a, of "CallPutenv e" True] r
    by (auto simp: env_pushed_def putenv_def Let_def split: if_splits intro: exI [of _ "es @ [e]"])
next
  fix s x s' assume "env_pushed L S s" and r: "putenv L e s = (Inl x, s')"
  then obtain es where a: "after L S (oks (auth_calls @ map CallPutenv es)) s" by (auto simp: env_pushed_def)
  show "cut_short L S s'"
    using r stop_after(2) [OF a stoppable_putenv] stop_after(1) [OF after_call_same [OF a, of "CallPutenv e" False]]
      stoppable_putenv [of L S "es @ [e]"]
    by (auto simp: putenv_def Let_def split: if_splits)
qed

lemma triple_put_all: "triple (env_pushed L S) (put_all L env) (\<lambda>_. env_pushed L S) (cut_short L S)"
proof (induction L env rule: put_all.induct)
  case (1 L)
  show ?case by (simp add: triple_def sreturn_def)
next
  case (2 L k v env)
  then show ?case by (auto intro!: triple_sbind [OF triple_map_err [OF triple_putenv]])
qed

lemma triple_sfail: "(\<And>s. P s \<Longrightarrow> E s) \<Longrightarrow> triple P (sfail e) Q E"
  by (simp add: triple_def sfail_def)

lemma triple_read_spec: "triple (after L S (oks auth_calls)) (read_spec W L) (\<lambda>_. env_pushed L S) (cut_short L S)"
  unfolding read_spec_def
proof (rule triple_sbind [OF triple_srecv])
  show st: "stoppable L S auth_calls" by (rule stoppable_auth) simp
  have pushed: "after L S (oks auth_calls) s \<Longrightarrow> env_pushed L S s" for s
    by (auto simp: env_pushed_def intro: exI [of _ "[]"])
  have stop: "triple (after L S (oks auth_calls)) (sfail e) Q (cut_short L S)" for e and Q :: "string list \<Rightarrow> _"
    using stop_after(2) [OF _ st] by (rule triple_sfail)
  have push: "triple (after L S (oks auth_calls)) (sbind (put_all L env) (\<lambda>_. sreturn cmd)) (\<lambda>_. env_pushed L S) (cut_short L S)"
    for env and cmd :: "string list"
    by (rule triple_pre [OF triple_sbind [OF triple_put_all]]) (simp_all add: triple_def sreturn_def pushed)
  show "triple (after L S (oks auth_calls)) (case f of
      StartSessionFrame cmd env \<Rightarrow> sbind (put_all L env) (\<lambda>_. sreturn cmd)
    | Cancel \<Rightarrow> sfail Aborted | _ \<Rightarrow> sfail SessionUnexpectedFrame) (\<lambda>_. env_pushed L S) (cut_short L S)" for f
    using stop push by (cases f) simp_all
qed

lemma triple_auth_phase:
  "triple (after L S []) (run_auth_phase W L (so_from_name S))
     (\<lambda>i s. pam_identity L S i \<and> after L S (oks [CallAuthenticate, CallAcctMgmt, CallGetUser]) s) (cut_short L S)"
proof -
  have p: "stoppable L S cs" if "prefix cs auth_calls" for cs using that by (rule stoppable_auth)
  have r: "triple (\<lambda>s. lp_get_user L = (PAM_SUCCESS, Some n) \<and> after L S (oks [CallAuthenticate, CallAcctMgmt, CallGetUser]) s)
      (\<lambda>s. (resolve_identity (so_from_name S) n, s))
      (\<lambda>i s. pam_identity L S i \<and> after L S (oks [CallAuthenticate, CallAcctMgmt, CallGetUser]) s) (cut_short L S)" for n
    by (rule tripleI)
      (use stop_after(2) [OF _ p, of "[CallAuthenticate, CallAcctMgmt, CallGetUser]"] in
        \<open>auto simp: resolve_identity_def pam_identity_def auth_calls_def split: sum.splits option.splits\<close>)
  have a: "triple (after L S []) (authenticate W L) (\<lambda>_. after L S (oks [CallAuthenticate])) (cut_short L S)"
    using triple_pam_call [OF p, of "[]" CallAuthenticate] by (simp add: authenticate_def auth_calls_def)
  have b: "triple (after L S (oks [CallAuthenticate])) (acct_mgmt W L) (\<lambda>_. after L S (oks [CallAuthenticate, CallAcctMgmt])) (cut_short L S)"
    using triple_pam_call [OF p, of "[CallAuthenticate]" CallAcctMgmt] by (simp add: acct_mgmt_def auth_calls_def)
  have c: "triple (after L S (oks [CallAuthenticate, CallAcctMgmt])) (get_user L)
    (\<lambda>n s. lp_get_user L = (PAM_SUCCESS, Some n) \<and> after L S (oks [CallAuthenticate, CallAcctMgmt, CallGetUser]) s) (cut_short L S)"
    using triple_get_user [OF p, of "[CallAuthenticate, CallAcctMgmt]"] by (simp add: auth_calls_def)
  show ?thesis unfolding run_auth_phase_def
    by (rule triple_sbind [OF triple_map_err [OF a]] triple_sbind [OF triple_map_err [OF b]]
      triple_sbind [OF triple_map_err [OF c]] r)+
qed

definition finished :: "libpam \<Rightarrow> session_os \<Rightarrow> session_state_rec \<Rightarrow> bool" where
  "finished L S s = (\<exists>es spec groups. leader_authorised L S spec groups \<and> after L S (oks (canonical es spec groups)) s)"

lemma finished_run: "leader_authorised L S spec groups \<Longrightarrow> lifecycle_run L S (oks (canonical es spec groups))"
  by (rule stoppable_run_oks) (auto simp: stoppable_def canonical_def auth_calls_def)

lemma triple_leader_phase:
  fixes es :: "string list"
  assumes i: "pam_identity L S i" and auth: "leader_authorised L S spec groups"
  defines "X \<equiv> auth_calls @ map CallPutenv es @ [CallOpenSession, CallGetenvlist]"
  shows "triple (after L S (oks X))
    (sbind (scall (CallSpawnLeader spec groups) (map_err SessionIo (so_spawn_leader S spec groups))) (\<lambda>handle.
     sbind (ssend W (WorkerSessionOpened (ri_username i) (ri_uid i) (ri_gid i)) (Some (wh_pidfd handle))) (\<lambda>_.
     sbind (scall CallWaitLeader (map_err (\<lambda>e. SessionIo (OsError e)) (so_wait S (wh_pid handle)))) (\<lambda>status.
     sbind (smap_err SessionPam (close_session W L)) (\<lambda>_.
     sbind (smap_err SessionPam (set_cred_deleted W L)) (\<lambda>_.
     ssend W (WorkerSessionEnded (outcome_of status)) None))))))
    (\<lambda>_. finished L S) (cut_short L S)"
proof -
  let ?sp = "CallSpawnLeader spec groups"
  have st: "stoppable L S (X @ ds)" if "prefix ds [?sp, CallWaitLeader, CallCloseSession, CallSetcredDelete]" for ds
    unfolding X_def append_assoc by (rule stoppable_leader [OF auth]) (use that in simp)
  have a: "triple (after L S (oks X)) (scall ?sp r) (\<lambda>_. after L S (oks (X @ [?sp]))) (cut_short L S)"
    for r :: "session_error + worker_handle"
    by (rule triple_post [OF triple_scall]) (simp_all add: st)
  have b: "triple (after L S (oks (X @ [?sp]))) (ssend W (WorkerSessionOpened (ri_username i) (ri_uid i) (ri_gid i)) fd)
    (\<lambda>_. after L S (oks (X @ [?sp]))) (cut_short L S)" for fd
    by (rule triple_ssend) (use i in \<open>auto simp: st pam_identity_def\<close>)
  have c: "triple (after L S (oks (X @ [?sp]))) (scall CallWaitLeader r)
    (\<lambda>_. after L S (oks (X @ [?sp, CallWaitLeader]))) (cut_short L S)" for r :: "session_error + wait_status"
    using triple_scall [of L S "X @ [?sp]" CallWaitLeader r] st by (auto intro: triple_post)
  have d: "triple (after L S (oks (X @ [?sp, CallWaitLeader]))) (close_session W L)
    (\<lambda>_. after L S (oks (X @ [?sp, CallWaitLeader, CallCloseSession]))) (cut_short L S)"
    using triple_pam_call [of L S "X @ [?sp, CallWaitLeader]" CallCloseSession] st by (simp add: close_session_def)
  have e: "triple (after L S (oks (X @ [?sp, CallWaitLeader, CallCloseSession]))) (set_cred_deleted W L)
    (\<lambda>_. after L S (oks (X @ [?sp, CallWaitLeader, CallCloseSession, CallSetcredDelete]))) (cut_short L S)"
    using triple_pam_call [of L S "X @ [?sp, CallWaitLeader, CallCloseSession]" CallSetcredDelete] st
    by (simp add: set_cred_deleted_def)
  have f: "triple (after L S (oks (X @ [?sp, CallWaitLeader, CallCloseSession, CallSetcredDelete])))
    (ssend W (WorkerSessionEnded oc) None) (\<lambda>_. finished L S) (cut_short L S)" for oc
  proof (rule triple_post [OF triple_ssend])
    show "finished L S s" if "after L S (oks (X @ [?sp, CallWaitLeader, CallCloseSession, CallSetcredDelete])) s" for s
      unfolding finished_def using that auth
      by (intro exI [of _ es] exI [of _ spec] exI [of _ groups]) (simp add: canonical_def X_def)
  qed (auto simp: st)
  show ?thesis
    by (rule triple_sbind [OF a] triple_sbind [OF b] triple_sbind [OF c] triple_sbind [OF triple_map_err [OF d]]
      triple_sbind [OF triple_map_err [OF e]] f)+
qed

lemma triple_session_body: "triple (after L S []) (session_body W L S) (\<lambda>_. finished L S) (cut_short L S)"
proof -
  have st: "stoppable L S (auth_calls @ map CallPutenv es @ ds)" if "prefix ds [CallOpenSession, CallGetenvlist]" for es ds
    using that by (rule stoppable_open)
  have cred: "triple (after L S (oks [CallAuthenticate, CallAcctMgmt, CallGetUser])) (set_cred_established W L)
    (\<lambda>_. after L S (oks auth_calls)) (cut_short L S)"
    using triple_pam_call [of L S "[CallAuthenticate, CallAcctMgmt, CallGetUser]" CallSetcredEstablish]
      stoppable_auth [of auth_calls] by (simp add: set_cred_established_def auth_calls_def)
  have ok: "triple (after L S (oks auth_calls)) (ssend W (WorkerAuthOk (ri_username i) (ri_uid i) (ri_gid i)) None)
    (\<lambda>_. after L S (oks auth_calls)) (cut_short L S)" if "pam_identity L S i" for i
    by (rule triple_ssend) (use that in \<open>auto simp: stoppable_auth oks_def pam_identity_def\<close>)
  have opn: "triple (env_pushed L S) (open_session W L)
    (\<lambda>_ s. \<exists>es. after L S (oks (auth_calls @ map CallPutenv es @ [CallOpenSession])) s) (cut_short L S)"
    unfolding env_pushed_def open_session_def
    by (rule triple_ex, rule triple_post [OF triple_pam_call]) (use st in auto)
  have lst: "triple (after L S (oks (auth_calls @ map CallPutenv es @ [CallOpenSession]))) (getenvlist L)
    (\<lambda>_. after L S (oks (auth_calls @ map CallPutenv es @ [CallOpenSession, CallGetenvlist]))) (cut_short L S)" for es
    using triple_getenvlist [of L S "auth_calls @ map CallPutenv es @ [CallOpenSession]"] st by simp
  note lift = triple_slift [OF st, of "[CallOpenSession, CallGetenvlist]", simplified prefix_order.refl, OF TrueI]
  show ?thesis unfolding session_body_def
    apply (rule triple_sbind [OF triple_map_err [OF triple_auth_phase]], rule triple_pure)
    apply (rule triple_sbind [OF triple_map_err [OF cred]])
    apply (rule triple_sbind [OF ok], assumption)
    apply (rule triple_sbind [OF triple_read_spec])
    apply (rule triple_sbind [OF triple_map_err [OF opn]], rule triple_ex)
    apply (rule triple_sbind [OF triple_map_err [OF lst]])
    apply (rule triple_sbind [OF lift], rule triple_pure)
    apply (rule triple_sbind [OF lift], rule triple_pure)
    apply (rule triple_leader_phase, assumption)
    apply (auto simp: leader_authorised_def map_err_def split: sum.splits)
    done
qed

text \<open>A worker just forked: nothing called, nothing sent, these answers still to be read.\<close>

definition worker_start :: "(errno + byte list) list \<Rightarrow> session_state_rec" where
  "worker_start input = \<lparr>se_chan = \<lparr>wc_inbox = input, wc_sends = 0, wc_sent = []\<rparr>, se_calls = [], se_last_status = 0\<rparr>"

lemma run_session_lifecycle:
  assumes "run_session W L S service username (worker_start input) = (r, s)"
  shows "(\<exists>e. r = Inl (SessionPam e) \<and> s = worker_start input) \<or>
    (\<exists>cs st. se_calls s = (CallStart, True) # cs @ [(CallEnd st, True)] \<and> lifecycle_run L S cs \<and>
       (r = Inr () \<longrightarrow> (\<exists>es spec groups. cs = oks (canonical es spec groups))) \<and>
       (\<forall>f \<in> set (wc_sent (se_chan s)). frame_justified L S cs (fst f)))"
proof (cases "Pam_start L service username (worker_start input)")
  case (Pair p s1)
  show ?thesis
  proof (cases p)
    case (Inl e)
    then show ?thesis using assms Pair by (auto simp: run_session_def Pam_start_def Let_def split: if_splits)
  next
    case (Inr u)
    then have a: "after L S [] s1"
      using Pair by (auto simp: Pam_start_def worker_start_def after_def record_call_def Let_def split: if_splits)
    obtain s2 where b: "session_body W L S s1 = (r, s2)" and s: "s = Pam_drop s2"
      using assms Pair Inr by (auto simp: run_session_def split: prod.splits)
    have end_: "\<exists>cs. se_calls s2 = (CallStart, True) # cs \<and> lifecycle_run L S cs \<and>
       (r = Inr () \<longrightarrow> (\<exists>es spec groups. cs = oks (canonical es spec groups))) \<and>
       (\<forall>f \<in> set (wc_sent (se_chan s2)). frame_justified L S cs (fst f))"
      using triple_ok [OF triple_session_body a] triple_err [OF triple_session_body a] b
      by (cases r) (force simp: finished_def cut_short_def after_def finished_run)+
    then show ?thesis using s by (auto simp: Pam_drop_def record_call_def)
  qed
qed

text \<open>
  C3: the one-handle lifecycle.  However libpam, the channel and the operating system behave,
  a worker whose handle started makes a prefix of the canonical calls in order, authenticate,
  account management, user lookup, establish credentials, push the environment, open, spawn
  the leader, wait, close, delete credentials, stops at the first failure, ends the handle
  last, and starts a leader for the PAM-resolved identity and its own groups only.  Success
  means the whole list.  \<open>AuthOk\<close> is reported only after the four auth calls succeeded,
  \<open>SessionOpened\<close> only with a leader running, \<open>SessionEnded\<close> only after a clean teardown, and
  the first two carry the PAM-resolved identity.
\<close>

theorem one_handle_lifecycle:
  assumes "run_session W L S service username (worker_start input) = (r, s)"
  shows "(\<exists>e. r = Inl (SessionPam e) \<and> s = worker_start input) \<or>
    (\<exists>cs st. se_calls s = (CallStart, True) # cs @ [(CallEnd st, True)] \<and> lifecycle_run L S cs \<and>
       (r = Inr () \<longrightarrow> (\<exists>es spec groups. cs = oks (canonical es spec groups))) \<and>
       (\<forall>f \<in> set (wc_sent (se_chan s)). frame_justified L S cs (fst f)))"
  using assms by (rule run_session_lifecycle)

text \<open>A libpam that asks for the password once, and a system with an ordinary account and root.\<close>

definition demo_pam :: "string \<Rightarrow> libpam" where
  "demo_pam user = \<lparr>lp_start = (\<lambda>service name. 0), lp_set_item = (\<lambda>i v. 0),
     lp_authenticate = PamConv demo_alloc [Some (1, Some ''Pw'')]
       (\<lambda>r. PamReturn (if r = ConvSuccess [Some ''pw''] then 0 else 7)),
     lp_acct_mgmt = PamReturn 0, lp_get_user = (0, Some user), lp_setcred_establish = PamReturn 0,
     lp_putenv = (\<lambda>e. 0), lp_open_session = PamReturn 0, lp_getenvlist = (\<lambda>es. Some es),
     lp_close_session = PamReturn 0, lp_setcred_delete = PamReturn 0\<rparr>"

definition demo_os :: session_os where
  "demo_os = \<lparr>so_from_name = (\<lambda>n. if n = ''al'' then Inr (Some \<lparr>pw_uid = 1000, pw_gid = 1000\<rparr>)
       else if n = ''root'' then Inr (Some \<lparr>pw_uid = 0, pw_gid = 0\<rparr>) else Inr None),
     so_getgrouplist = (\<lambda>n g. Inr [g, 27]), so_spawn_leader = (\<lambda>spec groups. Inr \<lparr>wh_pid = 42, wh_pidfd = 9\<rparr>),
     so_wait = (\<lambda>p. Inr (WaitExited 0))\<rparr>"

definition demo_input :: "byte list \<Rightarrow> (errno + byte list) list" where
  "demo_input bs = wc_inbox (inbox bs)"

lemmas session_eval = worker_eval demo_pam_def demo_os_def demo_input_def worker_start_def run_session_def Pam_start_def Pam_drop_def
  session_body_def run_auth_phase_def authenticate_def acct_mgmt_def get_user_def set_cred_established_def open_session_def
  close_session_def set_cred_deleted_def getenvlist_def pam_call_def sbind_def smap_err_def sreturn_def sfail_def slift_def
  scall_def ssend_def srecv_def read_spec_def putenv_def record_call_def resolve_identity_def validate_def user_groups_def
  lookup_user_def UID_MIN_def map_err_def rbind_def outcome_of_def dedup_push_def sanitize_env_def utf8_valid.simps

lemma demo_session_runs:
  "fst (run_session demo_worker_env (demo_pam ''al'') demo_os ''login'' ''al'' (worker_start (demo_input [1, 3]))) = Inr ()"
  by (simp add: session_eval)

theorem one_handle_lifecycle_witness:
  "\<exists>s. run_session demo_worker_env (demo_pam ''al'') demo_os ''login'' ''al'' (worker_start (demo_input [1, 3])) = (Inr (), s) \<and>
    (\<exists>cs st es spec groups. se_calls s = (CallStart, True) # cs @ [(CallEnd st, True)] \<and> cs = oks (canonical es spec groups))"
proof -
  obtain s where r: "run_session demo_worker_env (demo_pam ''al'') demo_os ''login'' ''al'' (worker_start (demo_input [1, 3]))
    = (Inr (), s)" using demo_session_runs by (metis prod.collapse)
  show ?thesis using one_handle_lifecycle [OF r] r by blast
qed

text \<open>
  a session refused after \<open>pam_open_session\<close> is never closed.  Root authenticates with
  the right password; the uid floor is enforced by \<open>validate\<close>, which runs after the session
  was opened, and the error path goes straight to \<open>pam_end\<close>: neither \<open>pam_close_session\<close>
  nor the deletion of the credentials happens.
\<close>

theorem refused_root_session_is_never_closed:
  "let (r, s) = run_session demo_worker_env (demo_pam ''root'') demo_os ''login'' ''root'' (worker_start (demo_input [1, 3])) in
   r = Inl (SessionSpecErr (UidFloor 0)) \<and> (CallOpenSession, True) \<in> set (se_calls s) \<and>
   CallCloseSession \<notin> fst ` set (se_calls s) \<and> CallSetcredDelete \<notin> fst ` set (se_calls s) \<and>
   last (se_calls s) = (CallEnd 0, True)"
  by (simp add: session_eval)

section \<open>The auth-only worker\<close>

text \<open>
  the auth-only worker reports a success only after authenticate, account management and
  user lookup succeeded on its handle, in this order, with the handle ended, and for the
  identity PAM resolved.
\<close>

theorem auth_worker_reports_pam_identity:
  fixes show_err :: "auth_error \<Rightarrow> string"
  assumes "(Outcome (WorkerSuccess u uid gid), fd) \<in> set (wc_sent (se_chan
    (auth_worker_child W L (so_from_name S) show_err service username (worker_start input))))"
  shows "pam_identity L S \<lparr>ri_username = u, ri_uid = uid, ri_gid = gid\<rparr> \<and>
    (\<exists>st. se_calls (auth_worker_child W L (so_from_name S) show_err service username (worker_start input))
      = (CallStart, True) # oks [CallAuthenticate, CallAcctMgmt, CallGetUser] @ [(CallEnd st, True)])"
proof -
  let ?start = "Pam_start L service username (worker_start input)"
  obtain r s1 where run: "run_pam_auth W L (so_from_name S) service username (worker_start input) = (r, s1)"
    by fastforce
  let ?o = "case r of Inl e \<Rightarrow> WorkerFailure (show_err e) | Inr i \<Rightarrow> WorkerSuccess (ri_username i) (ri_uid i) (ri_gid i)"
  have sent: "set (wc_sent (snd (wc_send W tv Outcome oc None ch))) \<subseteq> insert (Outcome oc, None) (set (wc_sent ch))"
    for tv oc ch by (auto simp: wc_send_def Let_def split: sum.split)
  have mem: "Outcome (WorkerSuccess u uid gid) \<in> fst ` set (wc_sent (se_chan s1)) \<or> WorkerSuccess u uid gid = ?o"
  proof -
    have "(Outcome (WorkerSuccess u uid gid), fd) \<in> insert (Outcome ?o, None) (set (wc_sent (se_chan s1)))"
      using assms by (intro subsetD [OF sent]) (simp add: auth_worker_child_def run Let_def)
    then show ?thesis by force
  qed
  show ?thesis
  proof (cases "fst ?start")
    case (Inl e)
    then have "r = Inl (AuthPam e)" "s1 = worker_start input"
      using run by (auto simp: run_pam_auth_def Pam_start_def Let_def split: if_splits)
    then show ?thesis using mem by (simp add: worker_start_def)
  next
    case (Inr x)
    then have a: "after L S [] (snd ?start)"
      by (auto simp: Pam_start_def worker_start_def after_def record_call_def Let_def split: if_splits)
    obtain s2 where p: "run_auth_phase W L (so_from_name S) (snd ?start) = (r, s2)"
      and s1: "s1 = Pam_drop s2"
      using run Inr by (cases ?start) (auto simp: run_pam_auth_def split: prod.splits)
    have none: "Outcome (WorkerSuccess u uid gid) \<notin> fst ` set (wc_sent (se_chan s2))"
      using triple_ok [OF triple_auth_phase a] triple_err [OF triple_auth_phase a] p
      by (cases r) (fastforce simp: cut_short_def after_def)+
    then obtain i where i: "r = Inr i" "i = \<lparr>ri_username = u, ri_uid = uid, ri_gid = gid\<rparr>"
      using mem s1 by (cases r) (auto simp: Pam_drop_def record_call_def)
    have "pam_identity L S i \<and> after L S (oks [CallAuthenticate, CallAcctMgmt, CallGetUser]) s2"
      using triple_ok [OF triple_auth_phase a] p i(1) by blast
    then show ?thesis using i(2) s1 by (auto simp: auth_worker_child_def run after_def Pam_drop_def record_call_def Let_def)
  qed
qed

theorem auth_worker_reports_pam_identity_witness:
  "pam_identity (demo_pam ''al'') demo_os \<lparr>ri_username = ''al'', ri_uid = 1000, ri_gid = 1000\<rparr>"
proof -
  have "(Outcome (WorkerSuccess ''al'' 1000 1000), None) \<in> set (wc_sent (se_chan
    (auth_worker_child demo_worker_env (demo_pam ''al'') (so_from_name demo_os) (\<lambda>e. ''denied'') ''login'' ''al''
      (worker_start (demo_input [1])))))"
    by (simp add: session_eval auth_worker_child_def run_pam_auth_def)
  then show ?thesis using auth_worker_reports_pam_identity by blast
qed

end
