(* ===== verification/Kushuh_Config.thy ===== *)
theory Kushuh_Config
  imports Rust_Text
begin

text \<open>
  The layout configuration of kushuh, \<open>crates/kushuh/src/config\<close>: the validated model
  (\<open>region.rs\<close>, \<open>role.rs\<close>, \<open>system.rs\<close>, \<open>mod.rs\<close>) and the parser over a KDL document
  (\<open>parse.rs\<close>).  The \<open>kdl\<close> crate is a parameter: its parser and the accessors of its
  nodes and values.  Diagnostics carry the reason with the values its text shows.
\<close>

section \<open>The model\<close>

record region =
  rg_x :: byte
  rg_y :: byte
  rg_width :: byte
  rg_height :: byte

datatype region_error = ZeroWidth | ZeroHeight | HorizontalOverflow byte byte | VerticalOverflow byte byte

definition new_region :: "byte \<Rightarrow> byte \<Rightarrow> byte \<Rightarrow> byte \<Rightarrow> region_error + region" where
  "new_region x y width height =
     (if width = 0 then Inl ZeroWidth
      else if height = 0 then Inl ZeroHeight
      else if (ucast x :: 16 word) + ucast width > 100 then Inl (HorizontalOverflow x width)
      else if (ucast y :: 16 word) + ucast height > 100 then Inl (VerticalOverflow y height)
      else Inr \<lparr>rg_x = x, rg_y = y, rg_width = width, rg_height = height\<rparr>)"

record app_ref =
  ar_app_id :: string
  ar_profile :: "string option"

datatype binding = Sticky app_ref | Cycle "app_ref list" | Pattern string "string option" | Flex

record role =
  rl_name :: string
  rl_monitor :: string
  rl_region :: region
  rl_binding :: binding

datatype binding_error = EmptyAppId | EmptyProfile | CycleNeedsCandidates | EmptyTitle

datatype role_error = RoleEmptyName | EmptyMonitor

text \<open>\<open>as_ref().is_some_and(|p| p.trim().is_empty())\<close>.\<close>

definition blank_some :: "string option \<Rightarrow> bool" where
  "blank_some p = (case p of None \<Rightarrow> False | Some s \<Rightarrow> blank s)"

definition new_app_ref :: "string \<Rightarrow> string option \<Rightarrow> binding_error + app_ref" where
  "new_app_ref app_id profile =
     (if blank app_id then Inl EmptyAppId
      else if blank_some profile then Inl EmptyProfile
      else Inr \<lparr>ar_app_id = app_id, ar_profile = profile\<rparr>)"

definition cycle :: "app_ref list \<Rightarrow> binding_error + binding" where
  "cycle candidates = (if length candidates < 2 then Inl CycleNeedsCandidates else Inr (Cycle candidates))"

definition pattern_binding :: "string \<Rightarrow> string option \<Rightarrow> binding_error + binding" where
  "pattern_binding app_id title_regex =
     (if blank app_id then Inl EmptyAppId
      else if blank_some title_regex then Inl EmptyTitle
      else Inr (Pattern app_id title_regex))"

definition new_role :: "string \<Rightarrow> string \<Rightarrow> region \<Rightarrow> binding \<Rightarrow> role_error + role" where
  "new_role name monitor region binding =
     (if blank name then Inl RoleEmptyName
      else if blank monitor then Inl EmptyMonitor
      else Inr \<lparr>rl_name = name, rl_monitor = monitor, rl_region = region, rl_binding = binding\<rparr>)"

text \<open>The loop over a \<open>HashSet\<close>: the first name already seen.\<close>

fun first_duplicate :: "string set \<Rightarrow> string list \<Rightarrow> string option" where
  "first_duplicate seen [] = None"
| "first_duplicate seen (n # ns) = (if n \<in> seen then Some n else first_duplicate (insert n seen) ns)"

record desktop_system =
  sy_name :: string
  sy_roles :: "role list"

datatype system_error = SystemEmptyName | DuplicateRole string

definition new_system :: "string \<Rightarrow> role list \<Rightarrow> system_error + desktop_system" where
  "new_system name roles =
     (if blank name then Inl SystemEmptyName
      else case first_duplicate {} (map rl_name roles) of
        Some n \<Rightarrow> Inl (DuplicateRole n)
      | None \<Rightarrow> Inr \<lparr>sy_name = name, sy_roles = roles\<rparr>)"

record config =
  cf_systems :: "desktop_system list"

datatype config_error = ConfigEmpty | DuplicateSystem string

definition new_config :: "desktop_system list \<Rightarrow> config_error + config" where
  "new_config systems =
     (if systems = [] then Inl ConfigEmpty
      else case first_duplicate {} (map sy_name systems) of
        Some n \<Rightarrow> Inl (DuplicateSystem n)
      | None \<Rightarrow> Inr \<lparr>cf_systems = systems\<rparr>)"

definition config_system :: "config \<Rightarrow> string \<Rightarrow> desktop_system option" where
  "config_system c name = find (\<lambda>s. sy_name s = name) (cf_systems c)"

section \<open>Errors of the parser\<close>

record span =
  sp_offset :: nat
  sp_len :: nat

datatype parse_reason =
    TooLarge nat | TooDeep | InvalidKdl string
  | DuplicateRegionNode string | DuplicateSystemNode string | UnexpectedTopLevel string
  | NodeNeeds string string | NeedsMonitor string | NeedsRect string
  | RectArity nat | RectNotInteger | RectRange int | BadRegion region_error
  | UnexpectedInSystem string string | BadSystem system_error
  | RegionAndInline string | UnknownRegion string string | BadRole role_error
  | BadBinding binding_error | MultipleBindings "string list" | UnexpectedInCycle string
  | PatternNeedsApp | BadConfig config_error

record parse_error =
  pe_reason :: parse_reason
  pe_span :: "span option"

definition error_at :: "parse_reason \<Rightarrow> span \<Rightarrow> parse_error" where
  "error_at r sp = \<lparr>pe_reason = r, pe_span = Some sp\<rparr>"

definition spanless :: "parse_reason \<Rightarrow> parse_error" where
  "spanless r = \<lparr>pe_reason = r, pe_span = None\<rparr>"

section \<open>The guard before the KDL parser\<close>

definition MAX_CONFIG_BYTES :: nat where "MAX_CONFIG_BYTES = 256 * 1024"

definition MAX_NESTING_DEPTH :: nat where "MAX_NESTING_DEPTH = 32"

fun guard_loop :: "nat \<Rightarrow> nat \<Rightarrow> bool \<Rightarrow> bool \<Rightarrow> string \<Rightarrow> parse_error + unit" where
  "guard_loop offset depth in_string escaped [] = Inr ()"
| "guard_loop offset depth in_string escaped (byte # rest) =
     (if in_string then
        if escaped then guard_loop (offset + 1) depth True False rest
        else if byte = CHR 0x5C then guard_loop (offset + 1) depth True True rest
        else if byte = CHR 0x22 then guard_loop (offset + 1) depth False False rest
        else guard_loop (offset + 1) depth True False rest
      else if byte = CHR 0x22 then guard_loop (offset + 1) depth True escaped rest
      else if byte = CHR ''{'' then
        (if depth + 1 > MAX_NESTING_DEPTH then Inl (error_at TooDeep \<lparr>sp_offset = offset, sp_len = 1\<rparr>)
         else guard_loop (offset + 1) (depth + 1) False escaped rest)
      else if byte = CHR ''}'' then guard_loop (offset + 1) (depth - 1) False escaped rest
      else guard_loop (offset + 1) depth False escaped rest)"

definition guard_input :: "string \<Rightarrow> parse_error + unit" where
  "guard_input src =
     (if length src > MAX_CONFIG_BYTES then Inl (spanless (TooLarge (length src)))
      else guard_loop 0 0 False False src)"

section \<open>The KDL document\<close>

record kdl_value =
  as_string :: "string option"
  as_integer :: "int option"

record kdl_diagnostic =
  kd_message :: "string option"
  kd_span :: span

record kdl_failure =
  kf_diagnostics :: "kdl_diagnostic list"
  kf_display :: string

record 'n kdl_api =
  kdl_parse :: "string \<Rightarrow> kdl_failure + 'n list"
  node_name :: "'n \<Rightarrow> string"
  node_entries :: "'n \<Rightarrow> (string option \<times> kdl_value) list"
  node_children :: "'n \<Rightarrow> 'n list"
  node_span :: "'n \<Rightarrow> span"

definition kdl_syntax_error :: "kdl_failure \<Rightarrow> parse_error" where
  "kdl_syntax_error err = (case kf_diagnostics err of
     [] \<Rightarrow> spanless (InvalidKdl (kf_display err))
   | d # _ \<Rightarrow> error_at (InvalidKdl (case kd_message d of None \<Rightarrow> ''invalid KDL'' | Some m \<Rightarrow> m)) (kd_span d))"

definition first_string_arg :: "'n kdl_api \<Rightarrow> 'n \<Rightarrow> string \<Rightarrow> parse_error + string" where
  "first_string_arg K node what =
     ok_or (error_at (NodeNeeds (node_name K node) what) (node_span K node))
       (Option.bind (find (\<lambda>e. fst e = None) (node_entries K node)) (\<lambda>e. as_string (snd e)))"

definition string_prop :: "'n kdl_api \<Rightarrow> 'n \<Rightarrow> string \<Rightarrow> string option" where
  "string_prop K node key =
     Option.bind (find (\<lambda>e. fst e = Some key) (rev (node_entries K node))) (\<lambda>e. as_string (snd e))"

definition child :: "'n kdl_api \<Rightarrow> 'n \<Rightarrow> string \<Rightarrow> 'n option" where
  "child K parent name = find (\<lambda>n. node_name K n = name) (node_children K parent)"

section \<open>The parser\<close>

definition parse_monitor :: "'n kdl_api \<Rightarrow> 'n \<Rightarrow> parse_error + string" where
  "parse_monitor K parent =
     rbind (ok_or (error_at (NeedsMonitor (node_name K parent)) (node_span K parent)) (child K parent ''monitor''))
       (\<lambda>node. first_string_arg K node ''monitor name'')"

definition coord :: "'n kdl_api \<Rightarrow> kdl_value \<Rightarrow> 'n \<Rightarrow> parse_error + byte" where
  "coord K v node =
     rbind (ok_or (error_at RectNotInteger (node_span K node)) (as_integer v)) (\<lambda>n.
     ok_or (error_at (RectRange n) (node_span K node))
       (if 0 \<le> n \<and> n \<le> 255 \<and> n \<le> 100 then Some (of_int n) else None))"

definition parse_rect :: "'n kdl_api \<Rightarrow> 'n \<Rightarrow> parse_error + region" where
  "parse_rect K parent =
     rbind (ok_or (error_at (NeedsRect (node_name K parent)) (node_span K parent)) (child K parent ''rect'')) (\<lambda>node.
     let args = map snd (filter (\<lambda>e. fst e = None) (node_entries K node)) in
     if length args \<noteq> 4 then Inl (error_at (RectArity (length args)) (node_span K node))
     else rbind (collect_results (map (\<lambda>v. coord K v node) args)) (\<lambda>coords.
       map_err (\<lambda>e. error_at (BadRegion e) (node_span K node))
         (new_region (coords ! 0) (coords ! 1) (coords ! 2) (coords ! 3))))"

definition parse_region_def :: "'n kdl_api \<Rightarrow> 'n \<Rightarrow> parse_error + string \<times> string \<times> region" where
  "parse_region_def K node =
     rbind (first_string_arg K node ''name'') (\<lambda>name.
     rbind (parse_monitor K node) (\<lambda>monitor.
     rbind (parse_rect K node) (\<lambda>region. Inr (name, monitor, region))))"

definition parse_app :: "'n kdl_api \<Rightarrow> 'n \<Rightarrow> parse_error + app_ref" where
  "parse_app K node =
     rbind (first_string_arg K node ''app id'') (\<lambda>app_id.
     map_err (\<lambda>e. error_at (BadBinding e) (node_span K node)) (new_app_ref app_id (string_prop K node ''profile'')))"

definition parse_candidate :: "'n kdl_api \<Rightarrow> 'n \<Rightarrow> parse_error + app_ref" where
  "parse_candidate K app =
     (if node_name K app = ''app'' then parse_app K app
      else Inl (error_at (UnexpectedInCycle (node_name K app)) (node_span K app)))"

definition parse_binding :: "'n kdl_api \<Rightarrow> 'n \<Rightarrow> parse_error + binding" where
  "parse_binding K rol =
     (let present = filter (\<lambda>kind. child K rol kind \<noteq> None) [''sticky'', ''cycle'', ''pattern''] in
      if length present > 1 then Inl (error_at (MultipleBindings present) (node_span K rol))
      else case child K rol ''sticky'' of
        Some node \<Rightarrow> rbind (parse_app K node) (\<lambda>a. Inr (Sticky a))
      | None \<Rightarrow> (case child K rol ''cycle'' of
        Some node \<Rightarrow> rbind (collect_results (map (parse_candidate K) (node_children K node))) (\<lambda>candidates.
          map_err (\<lambda>e. error_at (BadBinding e) (node_span K node)) (cycle candidates))
      | None \<Rightarrow> (case child K rol ''pattern'' of
        Some node \<Rightarrow>
          rbind (ok_or (error_at PatternNeedsApp (node_span K node)) (string_prop K node ''app'')) (\<lambda>app_id.
          map_err (\<lambda>e. error_at (BadBinding e) (node_span K node))
            (pattern_binding app_id (string_prop K node ''title'')))
      | None \<Rightarrow> Inr Flex)))"

type_synonym region_table = "string \<Rightarrow> (string \<times> region) option"

definition parse_role :: "'n kdl_api \<Rightarrow> region_table \<Rightarrow> 'n \<Rightarrow> parse_error + role" where
  "parse_role K regions node =
     rbind (first_string_arg K node ''name'') (\<lambda>name.
     let has_inline_geometry = (child K node ''monitor'' \<noteq> None \<or> child K node ''rect'' \<noteq> None) in
     rbind (case string_prop K node ''region'' of
         Some reference \<Rightarrow>
           if has_inline_geometry then Inl (error_at (RegionAndInline name) (node_span K node))
           else ok_or (error_at (UnknownRegion name reference) (node_span K node)) (regions reference)
       | None \<Rightarrow> rbind (parse_monitor K node) (\<lambda>monitor. rbind (parse_rect K node) (\<lambda>region. Inr (monitor, region))))
       (\<lambda>(monitor, region).
     rbind (parse_binding K node) (\<lambda>binding.
     map_err (\<lambda>e. error_at (BadRole e) (node_span K node)) (new_role name monitor region binding))))"

fun parse_roles :: "'n kdl_api \<Rightarrow> region_table \<Rightarrow> string \<Rightarrow> 'n list \<Rightarrow> parse_error + role list" where
  "parse_roles K regions name [] = Inr []"
| "parse_roles K regions name (c # cs) =
     (if node_name K c = ''role'' then
        rbind (parse_role K regions c) (\<lambda>r. rbind (parse_roles K regions name cs) (\<lambda>rs. Inr (r # rs)))
      else Inl (error_at (UnexpectedInSystem (node_name K c) name) (node_span K c)))"

definition parse_system :: "'n kdl_api \<Rightarrow> region_table \<Rightarrow> 'n \<Rightarrow> parse_error + desktop_system" where
  "parse_system K regions node =
     rbind (first_string_arg K node ''name'') (\<lambda>name.
     rbind (parse_roles K regions name (node_children K node)) (\<lambda>roles.
     map_err (\<lambda>e. error_at (BadSystem e) (node_span K node)) (new_system name roles)))"

fun parse_nodes ::
    "'n kdl_api \<Rightarrow> region_table \<Rightarrow> desktop_system list \<Rightarrow> string set \<Rightarrow> 'n list \<Rightarrow> parse_error + desktop_system list" where
  "parse_nodes K regions systems seen [] = Inr systems"
| "parse_nodes K regions systems seen (node # nodes) =
     (if node_name K node = ''region'' then
        rbind (parse_region_def K node) (\<lambda>(name, monitor, region).
        if regions name \<noteq> None then Inl (error_at (DuplicateRegionNode name) (node_span K node))
        else parse_nodes K (regions(name \<mapsto> (monitor, region))) systems seen nodes)
      else if node_name K node = ''system'' then
        rbind (parse_system K regions node) (\<lambda>system.
        if sy_name system \<in> seen then Inl (error_at (DuplicateSystemNode (sy_name system)) (node_span K node))
        else parse_nodes K regions (systems @ [system]) (insert (sy_name system) seen) nodes)
      else Inl (error_at (UnexpectedTopLevel (node_name K node)) (node_span K node)))"

definition parse_config :: "'n kdl_api \<Rightarrow> string \<Rightarrow> parse_error + config" where
  "parse_config K src =
     rbind (guard_input src) (\<lambda>_.
     rbind (map_err kdl_syntax_error (kdl_parse K src)) (\<lambda>doc.
     rbind (parse_nodes K Map.empty [] {} doc) (\<lambda>systems.
     map_err (\<lambda>e. spanless (BadConfig e)) (new_config systems))))"

section \<open>Valid configurations\<close>

definition region_ok :: "region \<Rightarrow> bool" where
  "region_ok r = (rg_width r \<noteq> 0 \<and> rg_height r \<noteq> 0 \<and>
     unat (rg_x r) + unat (rg_width r) \<le> 100 \<and> unat (rg_y r) + unat (rg_height r) \<le> 100)"

definition app_ok :: "app_ref \<Rightarrow> bool" where
  "app_ok a = (\<not> blank (ar_app_id a) \<and> \<not> blank_some (ar_profile a))"

fun binding_ok :: "binding \<Rightarrow> bool" where
  "binding_ok (Sticky a) = app_ok a"
| "binding_ok (Cycle as) = (2 \<le> length as \<and> list_all app_ok as)"
| "binding_ok (Pattern app title) = (\<not> blank app \<and> \<not> blank_some title)"
| "binding_ok Flex = True"

definition role_ok :: "role \<Rightarrow> bool" where
  "role_ok r = (\<not> blank (rl_name r) \<and> \<not> blank (rl_monitor r) \<and> region_ok (rl_region r) \<and> binding_ok (rl_binding r))"

definition system_ok :: "desktop_system \<Rightarrow> bool" where
  "system_ok s = (\<not> blank (sy_name s) \<and> distinct (map rl_name (sy_roles s)) \<and> list_all role_ok (sy_roles s))"

definition config_ok :: "config \<Rightarrow> bool" where
  "config_ok c = (cf_systems c \<noteq> [] \<and> distinct (map sy_name (cf_systems c)) \<and> list_all system_ok (cf_systems c))"

lemma unat_sum_u16: "unat ((ucast (a :: byte) :: 16 word) + ucast (b :: byte)) = unat a + unat b"
proof -
  have "unat a < 256" "unat b < 256" using unsigned_less [of a] unsigned_less [of b] by simp_all
  then show ?thesis by (simp add: unat_word_ariths unsigned_ucast_eq take_bit_nat_eq_self)
qed

lemma new_region_Inr: "new_region x y w h = Inr r \<longleftrightarrow> r = \<lparr>rg_x = x, rg_y = y, rg_width = w, rg_height = h\<rparr> \<and> region_ok r"
  by (auto simp: new_region_def region_ok_def word_less_nat_alt unat_sum_u16)

lemma first_duplicate_None: "first_duplicate seen ns = None \<longleftrightarrow> distinct ns \<and> set ns \<inter> seen = {}"
  by (induction ns arbitrary: seen) auto

lemma first_duplicate_cases:
  "(case first_duplicate {} ns of Some n \<Rightarrow> Inl (f n) | None \<Rightarrow> Inr x) = Inr y \<longleftrightarrow> distinct ns \<and> x = y"
  using first_duplicate_None [of "{}" ns] by (auto split: option.split)

lemma new_app_ref_Inr: "new_app_ref i p = Inr a \<longleftrightarrow> a = \<lparr>ar_app_id = i, ar_profile = p\<rparr> \<and> app_ok a"
  by (auto simp: new_app_ref_def app_ok_def)

lemma new_role_Inr:
  "region_ok g \<Longrightarrow> binding_ok b \<Longrightarrow>
   new_role n m g b = Inr r \<longleftrightarrow> r = \<lparr>rl_name = n, rl_monitor = m, rl_region = g, rl_binding = b\<rparr> \<and> role_ok r"
  by (auto simp: new_role_def role_ok_def)

lemma new_system_Inr:
  "list_all role_ok rs \<Longrightarrow> new_system n rs = Inr s \<longleftrightarrow> s = \<lparr>sy_name = n, sy_roles = rs\<rparr> \<and> system_ok s"
  by (auto simp: new_system_def system_ok_def first_duplicate_cases)

lemma new_config_Inr:
  "list_all system_ok ss \<Longrightarrow> new_config ss = Inr c \<longleftrightarrow> c = \<lparr>cf_systems = ss\<rparr> \<and> config_ok c"
  by (auto simp: new_config_def config_ok_def first_duplicate_cases)

lemmas model_Inr = new_region_Inr new_app_ref_Inr new_role_Inr new_system_Inr new_config_Inr

lemma parse_rect_ok: "parse_rect K node = Inr r \<Longrightarrow> region_ok r"
  by (auto simp: parse_rect_def rbind_eq_Inr Let_def new_region_Inr split: if_splits)

lemma parse_app_ok: "parse_app K node = Inr a \<Longrightarrow> app_ok a"
  by (auto simp: parse_app_def rbind_eq_Inr new_app_ref_Inr)

lemma parse_candidates_ok:
  "collect_results (map (parse_candidate K) ns) = Inr as \<Longrightarrow> list_all app_ok as"
proof (induction ns arbitrary: as)
  case (Cons n ns)
  then show ?case by (auto simp: rbind_eq_Inr parse_candidate_def parse_app_ok split: if_splits)
qed simp

lemma parse_binding_ok: "parse_binding K node = Inr b \<Longrightarrow> binding_ok b"
  by (auto simp: parse_binding_def Let_def rbind_eq_Inr cycle_def pattern_binding_def parse_app_ok
      dest: parse_candidates_ok split: if_splits option.splits)

definition table_ok :: "region_table \<Rightarrow> bool" where
  "table_ok regions = (\<forall>n m g. regions n = Some (m, g) \<longrightarrow> region_ok g)"

lemma parse_role_ok: "table_ok regions \<Longrightarrow> parse_role K regions node = Inr r \<Longrightarrow> role_ok r"
  by (auto simp: parse_role_def Let_def rbind_eq_Inr table_ok_def new_role_Inr dest!: parse_binding_ok parse_rect_ok
      split: option.splits if_splits)

lemma parse_roles_ok: "table_ok regions \<Longrightarrow> parse_roles K regions name ns = Inr rs \<Longrightarrow> list_all role_ok rs"
  by (induction ns arbitrary: rs) (auto simp: rbind_eq_Inr parse_role_ok split: if_splits)

lemma parse_system_ok: "table_ok regions \<Longrightarrow> parse_system K regions node = Inr s \<Longrightarrow> system_ok s"
  by (auto simp: parse_system_def rbind_eq_Inr new_system_Inr dest: parse_roles_ok)

lemma parse_nodes_ok:
  "parse_nodes K regions systems seen nodes = Inr ss \<Longrightarrow> table_ok regions \<Longrightarrow> list_all system_ok systems \<Longrightarrow>
   list_all system_ok ss"
proof (induction K regions systems seen nodes rule: parse_nodes.induct)
  case (2 K regions systems seen node nodes)
  show ?case
  proof (cases "node_name K node = ''region''")
    case True
    then obtain n m g where d: "parse_region_def K node = Inr (n, m, g)" "regions n = None"
      and rest: "parse_nodes K (regions(n \<mapsto> (m, g))) systems seen nodes = Inr ss"
      using "2.prems"(1) by (auto simp: rbind_eq_Inr not_Some_eq [symmetric] split: if_splits)
    have "region_ok g" using d(1) by (auto simp: parse_region_def_def rbind_eq_Inr parse_rect_ok)
    then have "table_ok (regions(n \<mapsto> (m, g)))" using "2.prems"(2) by (simp add: table_ok_def)
    with "2.IH"(1) [OF True, of n m g] d rest "2.prems"(3) show ?thesis by (simp add: fun_upd_def)
  next
    case False
    then obtain s where s: "parse_system K regions node = Inr s" "sy_name s \<notin> seen" "node_name K node = ''system''"
      and rest: "parse_nodes K regions (systems @ [s]) (insert (sy_name s) seen) nodes = Inr ss"
      using "2.prems"(1) by (auto simp: rbind_eq_Inr split: if_splits)
    with "2.IH"(2) [OF False s(3) s(2) rest] parse_system_ok [OF "2.prems"(2) s(1)] "2.prems" show ?thesis by auto
  qed
qed simp

text \<open>
  C35: whatever the KDL document, an accepted configuration is valid: at least one system, unique
  non-blank system names, unique non-blank role names in each system, every role on a
  named monitor with a rectangle of non-zero area that lies on it, and every binding
  well-formed.
\<close>

theorem parsed_config_is_valid:
  assumes "parse_config K src = Inr c"
  shows "config_ok c"
  using assms
  by (auto simp: parse_config_def rbind_eq_Inr table_ok_def new_config_Inr dest!: parse_nodes_ok)

section \<open>What the guard bounds\<close>

text \<open>
  The text outside double-quoted strings, and the nesting of a text: its unmatched opening
  braces, a stray closing brace counting for nothing.
\<close>

fun outside_strings :: "bool \<Rightarrow> string \<Rightarrow> string" where
  "outside_strings q [] = []"
| "outside_strings False (c # cs) =
     (if c = CHR 0x22 then outside_strings True cs else c # outside_strings False cs)"
| "outside_strings True (c # cs) =
     (if c = CHR 0x22 then outside_strings False cs
      else if c = CHR 0x5C then outside_strings True (drop 1 cs)
      else outside_strings True cs)"

fun nesting :: "nat \<Rightarrow> string \<Rightarrow> nat" where
  "nesting d [] = d"
| "nesting d (c # cs) = nesting (if c = CHR ''{'' then d + 1 else if c = CHR ''}'' then d - 1 else d) cs"

definition never_deeper :: "nat \<Rightarrow> nat \<Rightarrow> string \<Rightarrow> bool" where
  "never_deeper m d s = (\<forall>p. prefix p s \<longrightarrow> nesting d p \<le> m)"

lemma never_deeper_Nil [simp]: "never_deeper m d [] \<longleftrightarrow> d \<le> m"
  by (simp add: never_deeper_def)

lemma never_deeper_start: "never_deeper m d s \<Longrightarrow> d \<le> m"
  unfolding never_deeper_def by (metis Nil_prefix nesting.simps(1))

lemma never_deeper_Cons:
  "never_deeper m d (c # cs) \<longleftrightarrow> d \<le> m \<and> never_deeper m (nesting d [c]) cs"
proof -
  have "(\<forall>p. prefix p (c # cs) \<longrightarrow> nesting d p \<le> m) \<longleftrightarrow>
      nesting d [] \<le> m \<and> (\<forall>q. prefix q cs \<longrightarrow> nesting d (c # q) \<le> m)"
    by (metis Nil_prefix prefix_Cons Cons_prefix_Cons)
  then show ?thesis by (simp add: never_deeper_def)
qed

lemma guard_loop_exact:
  "d \<le> MAX_NESTING_DEPTH \<Longrightarrow>
     (guard_loop k d False False s = Inr () \<longleftrightarrow> never_deeper MAX_NESTING_DEPTH d (outside_strings False s)) \<and>
     (guard_loop k d True False s = Inr () \<longleftrightarrow> never_deeper MAX_NESTING_DEPTH d (outside_strings True s)) \<and>
     (guard_loop k d True True s = Inr () \<longleftrightarrow> never_deeper MAX_NESTING_DEPTH d (outside_strings True (drop 1 s)))"
proof (induction s arbitrary: k d)
  case (Cons c cs)
  have t: "guard_loop k d True True (c # cs) = Inr () \<longleftrightarrow>
      never_deeper MAX_NESTING_DEPTH d (outside_strings True (drop 1 (c # cs)))"
    using Cons.IH [OF Cons.prems, of "k + 1"] by simp
  have i: "guard_loop k d True False (c # cs) = Inr () \<longleftrightarrow>
      never_deeper MAX_NESTING_DEPTH d (outside_strings True (c # cs))"
    using Cons.IH [OF Cons.prems, of "k + 1"] by auto
  have o: "guard_loop k d False False (c # cs) = Inr () \<longleftrightarrow>
      never_deeper MAX_NESTING_DEPTH d (outside_strings False (c # cs))"
  proof (cases "c = CHR ''{'' \<and> d = MAX_NESTING_DEPTH")
    case True
    then have "\<not> never_deeper MAX_NESTING_DEPTH d (outside_strings False (c # cs))"
      by (auto simp: never_deeper_Cons dest: never_deeper_start)
    then show ?thesis using True by simp
  next
    case False
    then show ?thesis
      using Cons.IH [OF Cons.prems, of "k + 1"] Cons.IH [of "d + 1" "k + 1"] Cons.IH [of "d - 1" "k + 1"] Cons.prems
      by (auto simp: never_deeper_Cons)
  qed
  from t i o show ?case by blast
qed simp

text \<open>
  the guard accepts exactly the texts of at most 256 KiB in which, outside double-quoted
  strings, no more than 32 braces are open at any point.
\<close>

theorem guard_input_exact:
  "guard_input src = Inr () \<longleftrightarrow>
     length src \<le> 262144 \<and> \<not> (\<exists>p. prefix p (outside_strings False src) \<and> 32 < nesting 0 p)"
  using guard_loop_exact [of 0 0 src]
  by (auto simp: guard_input_def MAX_CONFIG_BYTES_def MAX_NESTING_DEPTH_def never_deeper_def not_less)

text \<open>
  a quotation mark in a line comment blinds the guard.  It knows no comments, so everything
  after the mark counts as string contents: after such a comment a document of any nesting
  (without another mark) goes to the recursive KDL parser, which has no depth bound.
\<close>

theorem comment_quote_blinds_guard:
  assumes "CHR 0x22 \<notin> set doc" "length doc \<le> 262140"
  shows "guard_input (''//'' @ [CHR 0x22, CHR 0x0A] @ doc) = Inr ()"
proof -
  have e: "q \<Longrightarrow> CHR 0x22 \<notin> set s \<Longrightarrow> outside_strings q s = []" for q s
    by (induction q s rule: outside_strings.induct) (auto dest: in_set_dropD)
  have "\<not> (\<exists>p. prefix p ''//'' \<and> 32 < nesting 0 p)"
    by (auto simp: prefix_Cons)
  then show ?thesis using assms e [of True "CHR 0x0A # doc"] by (simp add: guard_input_exact)
qed

theorem comment_quote_blinds_guard_witness:
  "guard_input (''//'' @ [CHR 0x22, CHR 0x0A] @ replicate 100000 CHR ''{'') = Inr ()"
  by (rule comment_quote_blinds_guard) simp_all

section \<open>Every valid configuration can be written\<close>

text \<open>Documents as trees, and a configuration written with inline geometry.\<close>

datatype kdl_tree = KNode (kt_name: string) (kt_entries: "(string option \<times> kdl_value) list") (kt_children: "kdl_tree list")

definition tree_api :: "kdl_tree list \<Rightarrow> kdl_tree kdl_api" where
  "tree_api doc = \<lparr>kdl_parse = (\<lambda>src. Inr doc), node_name = kt_name, node_entries = kt_entries,
     node_children = kt_children, node_span = (\<lambda>n. \<lparr>sp_offset = 0, sp_len = 0\<rparr>)\<rparr>"

definition str_value :: "string \<Rightarrow> kdl_value" where
  "str_value s = \<lparr>as_string = Some s, as_integer = None\<rparr>"

definition int_value :: "byte \<Rightarrow> kdl_value" where
  "int_value b = \<lparr>as_string = None, as_integer = Some (uint b)\<rparr>"

definition opt_prop :: "string \<Rightarrow> string option \<Rightarrow> (string option \<times> kdl_value) list" where
  "opt_prop key p = (case p of None \<Rightarrow> [] | Some s \<Rightarrow> [(Some key, str_value s)])"

definition render_app :: "string \<Rightarrow> app_ref \<Rightarrow> kdl_tree" where
  "render_app kind a = KNode kind ((None, str_value (ar_app_id a)) # opt_prop ''profile'' (ar_profile a)) []"

fun render_binding :: "binding \<Rightarrow> kdl_tree list" where
  "render_binding (Sticky a) = [render_app ''sticky'' a]"
| "render_binding (Cycle as) = [KNode ''cycle'' [] (map (render_app ''app'') as)]"
| "render_binding (Pattern app title) =
     [KNode ''pattern'' ((Some ''app'', str_value app) # opt_prop ''title'' title) []]"
| "render_binding Flex = []"

definition render_role :: "role \<Rightarrow> kdl_tree" where
  "render_role r = KNode ''role'' [(None, str_value (rl_name r))]
     (KNode ''monitor'' [(None, str_value (rl_monitor r))] [] #
      KNode ''rect'' (map (\<lambda>b. (None, int_value b))
        [rg_x (rl_region r), rg_y (rl_region r), rg_width (rl_region r), rg_height (rl_region r)]) [] #
      render_binding (rl_binding r))"

definition render_system :: "desktop_system \<Rightarrow> kdl_tree" where
  "render_system s = KNode ''system'' [(None, str_value (sy_name s))] (map render_role (sy_roles s))"

definition render_config :: "config \<Rightarrow> kdl_tree list" where
  "render_config c = map render_system (cf_systems c)"

lemma tree_api_simps [simp]:
  "kdl_parse (tree_api doc) = (\<lambda>src. Inr doc)" "node_name (tree_api doc) = kt_name"
  "node_entries (tree_api doc) = kt_entries" "node_children (tree_api doc) = kt_children"
  by (simp_all add: tree_api_def)

lemmas render_simps = first_string_arg_def string_prop_def child_def str_value_def opt_prop_def

lemma parse_render_app: "app_ok a \<Longrightarrow> parse_app (tree_api doc) (render_app kind a) = Inr a"
  by (cases "ar_profile a") (simp_all add: parse_app_def render_app_def render_simps new_app_ref_def app_ok_def)

lemma parse_render_candidates:
  "list_all app_ok as \<Longrightarrow>
   collect_results (map (parse_candidate (tree_api doc)) (map (render_app ''app'') as)) = Inr as"
  by (induction as) (simp_all add: parse_candidate_def parse_render_app, simp add: render_app_def)

text \<open>The binding of a rendered role: monitor and rectangle are in the way of nothing.\<close>

lemma parse_render_binding:
  assumes "binding_ok b" "kt_children node = KNode ''monitor'' e1 c1 # KNode ''rect'' e2 c2 # render_binding b"
  shows "parse_binding (tree_api doc) node = Inr b"
proof (cases b)
  case (Sticky a)
  have n: "kt_name (render_app ''sticky'' a) = ''sticky''" by (simp add: render_app_def)
  show ?thesis using assms Sticky n by (simp add: parse_binding_def child_def parse_render_app)
next
  case (Cycle as)
  then show ?thesis using assms parse_render_candidates [of as doc]
    by (simp add: parse_binding_def child_def cycle_def)
next
  case (Pattern app title)
  then show ?thesis using assms
    by (cases title) (simp_all add: parse_binding_def render_simps pattern_binding_def)
next
  case Flex
  then show ?thesis using assms by (simp add: parse_binding_def child_def)
qed

lemma coord_int_value: "unat b \<le> 100 \<Longrightarrow> coord K (int_value b) node = Inr b"
proof -
  assume "unat b \<le> 100"
  then have "int (unat b) \<le> 100" by linarith
  then have "uint b \<le> 100" by simp
  then show ?thesis by (simp add: coord_def int_value_def)
qed

lemma parse_render_role:
  assumes "role_ok r"
  shows "parse_role (tree_api doc) regions (render_role r) = Inr r"
proof -
  let ?g = "rl_region r" and ?K = "tree_api doc"
  have g: "region_ok ?g" using assms by (simp add: role_ok_def)
  then have c: "coord ?K (int_value b) n = Inr b" if "b \<in> {rg_x ?g, rg_y ?g, rg_width ?g, rg_height ?g}" for b n
    using that by (intro coord_int_value) (auto simp: region_ok_def)
  have rect: "parse_rect ?K (render_role r) = Inr ?g"
    using c g by (simp add: parse_rect_def render_role_def child_def Let_def new_region_Inr)
  have b: "parse_binding ?K (render_role r) = Inr (rl_binding r)"
    using assms by (intro parse_render_binding) (auto simp: role_ok_def render_role_def)
  have m: "parse_monitor ?K (render_role r) = Inr (rl_monitor r)"
    by (simp add: parse_monitor_def render_role_def render_simps)
  have n: "first_string_arg ?K (render_role r) ''name'' = Inr (rl_name r)" "string_prop ?K (render_role r) ''region'' = None"
    by (simp_all add: render_role_def render_simps)
  show ?thesis unfolding parse_role_def n rect b m
    using assms by (simp add: new_role_def role_ok_def)
qed

lemma parse_render_roles:
  "list_all role_ok rs \<Longrightarrow> parse_roles (tree_api doc) regions name (map render_role rs) = Inr rs"
  by (induction rs) (simp_all add: parse_render_role, simp add: render_role_def)

lemma parse_render_system:
  assumes "system_ok s"
  shows "parse_system (tree_api doc) regions (render_system s) = Inr s"
proof -
  have a: "list_all role_ok (sy_roles s)" using assms by (simp add: system_ok_def)
  have "first_string_arg (tree_api doc) (render_system s) ''name'' = Inr (sy_name s)"
    by (simp add: render_system_def render_simps)
  then show ?thesis using a parse_render_roles [OF a, of doc regions "sy_name s"] assms
    by (simp add: parse_system_def render_system_def [of s] system_ok_def new_system_def first_duplicate_cases)
qed

lemma parse_render_nodes:
  "list_all system_ok ss \<Longrightarrow> distinct (map sy_name ss) \<Longrightarrow> sy_name ` set ss \<inter> seen = {} \<Longrightarrow>
   parse_nodes (tree_api doc) regions acc seen (map render_system ss) = Inr (acc @ ss)"
proof (induction ss arbitrary: acc seen)
  case (Cons s ss)
  have "kt_name (render_system s) = ''system''" by (simp add: render_system_def)
  then show ?case using Cons.prems Cons.IH [of "insert (sy_name s) seen" "acc @ [s]"]
    by (auto simp: parse_render_system)
qed simp

text \<open>
  C36: every valid configuration has a document that parses to it, so the parser refuses nothing the
  model allows: a source the guard lets through whose KDL document is the rendering of a
  configuration gives back exactly that configuration.
\<close>

theorem config_render_roundtrip:
  assumes "config_ok c" "guard_input src = Inr ()"
  shows "parse_config (tree_api (render_config c)) src = Inr c"
proof -
  have "parse_nodes (tree_api (render_config c)) Map.empty [] {} (render_config c) = Inr (cf_systems c)"
    unfolding render_config_def using assms(1) by (subst parse_render_nodes) (auto simp: config_ok_def)
  then show ?thesis using assms by (simp add: parse_config_def new_config_Inr config_ok_def)
qed

definition demo_config :: config where
  "demo_config = \<lparr>cf_systems = [\<lparr>sy_name = ''code'', sy_roles =
     [\<lparr>rl_name = ''editor'', rl_monitor = ''DP-1'', rl_region = \<lparr>rg_x = 0, rg_y = 0, rg_width = 60, rg_height = 100\<rparr>,
        rl_binding = Sticky \<lparr>ar_app_id = ''kitty'', ar_profile = None\<rparr>\<rparr>,
      \<lparr>rl_name = ''nook'', rl_monitor = ''DP-1'', rl_region = \<lparr>rg_x = 60, rg_y = 0, rg_width = 40, rg_height = 100\<rparr>,
        rl_binding = Cycle [\<lparr>ar_app_id = ''spotify'', ar_profile = None\<rparr>, \<lparr>ar_app_id = ''firefox'', ar_profile = Some ''code''\<rparr>]\<rparr>]\<rparr>]\<rparr>"

lemma not_blank: "s \<noteq> [] \<Longrightarrow> visible (hd s) \<Longrightarrow> visible (last s) \<Longrightarrow> blank s = False"
  by (simp add: blank_def trim_visible)

lemma demo_config_ok: "config_ok demo_config"
  by (auto simp: demo_config_def config_ok_def system_ok_def role_ok_def region_ok_def app_ok_def blank_some_def
      visible_def not_blank)

theorem config_render_roundtrip_witness:
  "parse_config (tree_api (render_config demo_config)) ''x'' = Inr demo_config"
proof (rule config_render_roundtrip [OF demo_config_ok])
  show "guard_input ''x'' = Inr ()" by (simp add: guard_input_def MAX_CONFIG_BYTES_def)
qed

theorem parsed_config_is_valid_witness:
  "parse_config (tree_api (render_config demo_config)) ''x'' = Inr demo_config \<and> config_ok demo_config"
proof -
  have "guard_input ''x'' = Inr ()" by (simp add: guard_input_def MAX_CONFIG_BYTES_def)
  moreover have "parse_nodes (tree_api (render_config demo_config)) Map.empty [] {} (render_config demo_config)
    = Inr (cf_systems demo_config)"
    unfolding render_config_def using demo_config_ok by (subst parse_render_nodes) (auto simp: config_ok_def)
  ultimately have p: "parse_config (tree_api (render_config demo_config)) ''x'' = Inr demo_config"
    using demo_config_ok by (simp add: parse_config_def new_config_Inr config_ok_def)
  show ?thesis using p parsed_config_is_valid [OF p] by simp
qed

text \<open>
  The document is read in one pass: a region serves the systems after it only, although the
  parser's comment announces a first pass that collects the regions.
\<close>

lemma region_after_use_is_unknown:
  "let r = KNode ''region'' [(None, str_value ''left'')] [KNode ''monitor'' [(None, str_value ''DP-1'')] [],
         KNode ''rect'' (map (\<lambda>b. (None, int_value b)) [0, 0, 50, 100]) []];
       s = KNode ''system'' [(None, str_value ''code'')] [KNode ''role'' [(None, str_value ''editor''), (Some ''region'', str_value ''left'')] []]
   in map_err pe_reason (parse_nodes (tree_api []) Map.empty [] {} [s, r]) = Inl (UnknownRegion ''editor'' ''left'')"
  by (simp add: parse_system_def parse_role_def render_simps error_at_def)

end
