(* ===== verification/Decoder_Ipc.thy ===== *)
theory Decoder_Ipc
  imports Wire_Codec
begin

text \<open>
  The wire contract between the compositor and the sandboxed video decoder,
  \<open>crates/halmasuit-decoder-ipc/src/lib.rs\<close>: control messages in the shared framing, frames as
  one datagram of a framed header and the raw pixels, and the validation of frame headers.
\<close>

section \<open>Messages\<close>

definition WIRE_VERSION :: byte where "WIRE_VERSION = 2"

definition MAX_CONTROL_MSG_BYTES :: u32 where "MAX_CONTROL_MSG_BYTES = 4 * 1024"

definition MAX_FRAME_BYTES :: u32 where "MAX_FRAME_BYTES = 16 * 1024 * 1024"

definition DEC_LENGTH_PREFIX_SIZE :: nat where "DEC_LENGTH_PREFIX_SIZE = 4"

datatype frame_format = Rgba8

datatype compositor_to_decoder = LoadFile bool | Pause | Resume | Seek "64 word" | Shutdown

datatype decoder_error_code = OpenFailed | UnsupportedCodec | DecParseError | AllocationFailed | SeccompTrap | Internal

text \<open>The fields of a header: index, presentation time, width, height, format, payload length.\<close>

datatype decoder_to_compositor =
    DecReady byte
  | FrameHeader u64 "64 word" u32 u32 frame_format u32
  | EndOfFile
  | DecoderError decoder_error_code string

datatype dec_codec_error =
    OversizedControl u32 u32
  | OversizedFrame u32 u32
  | MalformedFrame u32 u32 u32
  | TruncatedControl u32 u32
  | WireVersionMismatch byte byte
  | DecJson json_error

section \<open>Codec\<close>

definition encode_control :: "bool \<Rightarrow> ('m \<Rightarrow> json_error + byte list) \<Rightarrow> 'm \<Rightarrow> dec_codec_error + byte list" where
  "encode_control le to_vec msg =
     rbind (map_err DecJson (to_vec msg)) (\<lambda>body.
     rbind (if length body < 2 ^ 32 then Inr (of_nat (length body))
            else Inl (OversizedControl (- 1) MAX_CONTROL_MSG_BYTES)) (\<lambda>len.
     if len > MAX_CONTROL_MSG_BYTES then Inl (OversizedControl len MAX_CONTROL_MSG_BYTES)
     else Inr (to_ne_bytes le len @ body)))"

definition try_decode_control ::
    "bool \<Rightarrow> (byte list \<Rightarrow> json_error + 't) \<Rightarrow> byte list \<Rightarrow> dec_codec_error + ('t \<times> nat) option" where
  "try_decode_control le from_slice buf =
     (if length buf < DEC_LENGTH_PREFIX_SIZE then Inr None
      else let len = from_ne_bytes le (take DEC_LENGTH_PREFIX_SIZE buf) in
        if len > MAX_CONTROL_MSG_BYTES then Inl (OversizedControl len MAX_CONTROL_MSG_BYTES)
        else let needed = DEC_LENGTH_PREFIX_SIZE + unat len in
          if length buf < needed then Inr None
          else rbind (map_err DecJson (from_slice (take (unat len) (drop DEC_LENGTH_PREFIX_SIZE buf))))
                 (\<lambda>msg. Inr (Some (msg, needed))))"

definition encode_frame_datagram ::
    "bool \<Rightarrow> (decoder_to_compositor \<Rightarrow> json_error + byte list) \<Rightarrow> decoder_to_compositor \<Rightarrow> byte list \<Rightarrow>
     dec_codec_error + byte list" where
  "encode_frame_datagram le to_vec header payload =
     rbind (if length payload < 2 ^ 32 then Inr (of_nat (length payload))
            else Inl (OversizedFrame (- 1) MAX_FRAME_BYTES)) (\<lambda>payload_len.
     if payload_len > MAX_FRAME_BYTES then Inl (OversizedFrame payload_len MAX_FRAME_BYTES)
     else rbind (map_err DecJson (to_vec header)) (\<lambda>body.
       rbind (if length body < 2 ^ 32 then Inr (of_nat (length body))
              else Inl (OversizedControl (- 1) MAX_CONTROL_MSG_BYTES)) (\<lambda>len.
       if len > MAX_CONTROL_MSG_BYTES then Inl (OversizedControl len MAX_CONTROL_MSG_BYTES)
       else Inr (to_ne_bytes le len @ body @ payload))))"

text \<open>\<open>u64::checked_mul\<close>\<close>

definition checked_mul :: "u64 \<Rightarrow> u64 \<Rightarrow> u64 option" where
  "checked_mul a b = (if unat a * unat b < 2 ^ 64 then Some (a * b) else None)"

definition bytes_per_pixel :: "frame_format \<Rightarrow> u64" where
  "bytes_per_pixel format = (case format of Rgba8 \<Rightarrow> 4)"

definition validate_frame_header :: "u32 \<Rightarrow> u32 \<Rightarrow> frame_format \<Rightarrow> u32 \<Rightarrow> dec_codec_error + unit" where
  "validate_frame_header width height format bytes_len =
     (if bytes_len > MAX_FRAME_BYTES then Inl (OversizedFrame bytes_len MAX_FRAME_BYTES)
      else
        let bpp = bytes_per_pixel format;
            expected = (case Option.bind (checked_mul (ucast width) (ucast height)) (\<lambda>wh. checked_mul wh bpp) of
              Some e \<Rightarrow> e | None \<Rightarrow> - 1) in
        if width = 0 \<or> height = 0 \<or> expected \<noteq> ucast bytes_len then Inl (MalformedFrame width height bytes_len)
        else Inr ())"

section \<open>The framing contract\<close>

lemma unat_MAX_CONTROL [simp]: "unat MAX_CONTROL_MSG_BYTES = 4096"
  by (simp add: MAX_CONTROL_MSG_BYTES_def)

lemma unat_MAX_FRAME [simp]: "unat MAX_FRAME_BYTES = 16777216"
  by (simp add: MAX_FRAME_BYTES_def)

lemma encode_control_branches:
  assumes "to_vec m = Inr body"
  shows "length body \<le> unat MAX_CONTROL_MSG_BYTES \<Longrightarrow>
      encode_control le to_vec m = Inr (to_ne_bytes le (of_nat (length body)) @ body)"
    and "unat MAX_CONTROL_MSG_BYTES < length body \<Longrightarrow>
      \<exists>n. encode_control le to_vec m = Inl (OversizedControl n MAX_CONTROL_MSG_BYTES)"
  using assms by (auto simp: encode_control_def word_less_nat_alt unat_of_nat)

interpretation dec: framed_codec le MAX_CONTROL_MSG_BYTES OversizedControl DecJson to_vec from_slice
  "encode_control le to_vec" "try_decode_control le from_slice" for le to_vec from_slice
proof unfold_locales
  fix m :: 'a and body
  assume b: "to_vec m = Inr body"
  show "length body \<le> unat MAX_CONTROL_MSG_BYTES \<Longrightarrow>
      encode_control le to_vec m = Inr (to_ne_bytes le (of_nat (length body)) @ body)"
    by (rule encode_control_branches(1) [of to_vec, OF b])
  show "unat MAX_CONTROL_MSG_BYTES < length body \<Longrightarrow>
      \<exists>n. encode_control le to_vec m = Inl (OversizedControl n MAX_CONTROL_MSG_BYTES)"
    by (rule encode_control_branches(2) [of to_vec, OF b])
qed (auto simp: encode_control_def try_decode_control_def DEC_LENGTH_PREFIX_SIZE_def Let_def not_less
    rbind_def map_err_def split: sum.splits)

text \<open>A frame datagram is the framed header with the pixels behind it.\<close>

lemma encode_frame_datagram_Inr:
  "encode_frame_datagram le to_vec header payload = Inr bs \<longleftrightarrow>
     length payload \<le> 16777216 \<and> (\<exists>h. encode_control le to_vec header = Inr h \<and> bs = h @ payload)"
proof (cases "length payload < 2 ^ 32")
  case True
  then have "unat (of_nat (length payload) :: u32) = length payload" by (simp add: unat_of_nat)
  with True show ?thesis
    by (auto simp: encode_frame_datagram_def encode_control_def rbind_eq_Inr word_less_nat_alt split: if_splits)
next
  case False
  then show ?thesis by (simp add: encode_frame_datagram_def)
qed

section \<open>Header validation\<close>

lemma unat_checked_mul:
  "checked_mul a b = (if unat a * unat b < 2 ^ 64 then Some (of_nat (unat a * unat b)) else None)"
  by (simp add: checked_mul_def)

lemma expected_bytes:
  fixes width height :: u32 and n :: u32
  shows "(case Option.bind (checked_mul (ucast width) (ucast height)) (\<lambda>wh. checked_mul wh 4) of
      Some e \<Rightarrow> e | None \<Rightarrow> - 1) = (ucast n :: u64) \<longleftrightarrow> unat width * unat height * 4 = unat n"
proof -
  have u: "unat (ucast x :: u64) = unat x" for x :: u32 by (simp add: unsigned_ucast_eq take_bit_nat_eq_self_iff order_less_le_trans [OF unsigned_less])
  have b: "unat x < 2 ^ 32" for x :: u32 using unsigned_less [of x] by simp
  let ?p = "unat width * unat height"
  have p: "?p < 2 ^ 64"
    using mult_strict_mono [OF b b, of width height] by (simp add: mult.commute)
  then have first: "checked_mul (ucast width) (ucast height) = Some (of_nat ?p)"
    by (simp add: unat_checked_mul u)
  have v: "unat (of_nat ?p :: u64) = ?p" using p by (simp add: unat_of_nat del: of_nat_mult)
  have second: "checked_mul (of_nat ?p) 4 = (if ?p * 4 < 2 ^ 64 then Some (of_nat (?p * 4)) else None)"
    unfolding unat_checked_mul v by simp
  have e: "(case Option.bind (checked_mul (ucast width) (ucast height)) (\<lambda>wh. checked_mul wh 4) of
      Some e \<Rightarrow> e | None \<Rightarrow> - 1) = (if ?p * 4 < 2 ^ 64 then of_nat (?p * 4) else - 1 :: u64)"
    unfolding first by (simp add: second del: of_nat_mult)
  show ?thesis
  proof (cases "?p * 4 < 2 ^ 64")
    case True
    then have "unat (of_nat (?p * 4) :: u64) = ?p * 4" by (simp add: unat_of_nat del: of_nat_mult)
    then have "of_nat (?p * 4) = (ucast n :: u64) \<longleftrightarrow> ?p * 4 = unat n"
      using u [of n] by (metis word_unat_eq_iff)
    with True show ?thesis by (simp add: e del: of_nat_mult)
  next
    case False
    have "(- 1 :: u64) \<noteq> ucast n" using u [of n] b [of n] by (auto simp: word_unat_eq_iff unsigned_minus_1_eq_mask mask_eq_exp_minus_1)
    moreover have "?p * 4 \<noteq> unat n" using False b [of n] by (simp add: mult.commute)
    ultimately show ?thesis using False by (simp add: e del: of_nat_mult)
  qed
qed

lemma validate_frame_header_Inr:
  "validate_frame_header width height format n = Inr () \<longleftrightarrow>
     width \<noteq> 0 \<and> height \<noteq> 0 \<and> unat n \<le> 16777216 \<and> unat width * unat height * 4 = unat n"
  using expected_bytes [of width height n]
  by (cases format) (auto simp: validate_frame_header_def bytes_per_pixel_def Let_def word_less_nat_alt
      split: if_splits)

text \<open>
  frame header validation is exact over the natural numbers.  A header is accepted if and
  only if both dimensions are positive, the declared length is at most 16 MiB and equals
  width times height times four without any wrap-around; a declared length over the cap is
  reported as such first, everything else as malformed.
\<close>

theorem validate_frame_header_exact:
  "validate_frame_header width height format n =
     (if unat n > 16 * 1024 * 1024 then Inl (OversizedFrame n MAX_FRAME_BYTES)
      else if unat width * unat height * 4 = unat n \<and> unat n > 0 then Inr ()
      else Inl (MalformedFrame width height n))"
proof -
  have z: "unat width * unat height * 4 = unat n \<Longrightarrow> unat n > 0 \<longleftrightarrow> width \<noteq> 0 \<and> height \<noteq> 0"
    by (metis bot_nat_0.not_eq_extremum mult_is_0 unat_eq_0 zero_neq_numeral)
  show ?thesis
  proof (cases "validate_frame_header width height format n")
    case (Inr u)
    then show ?thesis using z validate_frame_header_Inr [of width height format n] by auto
  next
    case (Inl e)
    then show ?thesis using z validate_frame_header_Inr [of width height format n]
      by (auto simp: validate_frame_header_def Let_def word_less_nat_alt split: if_splits)
  qed
qed

end
