(* ===== verification/Descriptors.thy ===== *)
theory Descriptors
  imports Prelude
begin

text \<open>
  Descriptor tables of processes: which object a number refers to, and whether it is closed
  by \<open>execve\<close>.  \<open>dup2\<close> onto another number gives a copy that survives \<open>execve\<close>; onto the same
  number it changes nothing.  \<open>fork\<close> copies the table.
\<close>

type_synonym fd_table = "fd \<Rightarrow> (nat \<times> bool) option"

definition sys_dup2 :: "fd \<Rightarrow> fd \<Rightarrow> fd_table \<Rightarrow> fd_table option" where
  "sys_dup2 old new t = (case t old of
     None \<Rightarrow> None
   | Some (obj, cloexec) \<Rightarrow> Some (if old = new then t else t(new \<mapsto> (obj, False))))"

definition after_exec :: "fd_table \<Rightarrow> fd_table" where
  "after_exec t n = (case t n of Some (obj, False) \<Rightarrow> Some (obj, False) | _ \<Rightarrow> None)"

lemma after_exec_Some: "after_exec t n = Some x \<longleftrightarrow> (\<exists>obj. t n = Some (obj, False) \<and> x = (obj, False))"
  by (auto simp: after_exec_def split: option.split bool.splits)

lemma after_exec_upd: "after_exec (t(n := e)) m = (if m = n then after_exec (\<lambda>_. e) n else after_exec t m)"
  by (simp add: after_exec_def)

lemma after_exec_cases [simp]:
  "t n = None \<Longrightarrow> after_exec t n = None" "t n = Some (obj, False) \<Longrightarrow> after_exec t n = Some (obj, False)"
  "t n = Some (obj, True) \<Longrightarrow> after_exec t n = None"
  by (simp_all add: after_exec_def)

end
