(* ===== verification/Decoder_Relay.thy ===== *)
theory Decoder_Relay
  imports Decoder_Ipc Sliding_Window Descriptors "HOL-Library.Multiset"
begin

text \<open>
  The compositor's side of the video decoder, \<open>crates/halmasuit/src/wallpaper/decoder_relay.rs\<close>:
  the channel, the spawning of a decoder process with the descriptors it opens and closes, and
  the relay that keeps the latest frame and restarts a failed decoder within a budget.  The
  kernel's answers are arguments: one record for a spawn, a list of \<open>recvmsg\<close> results for a poll.
\<close>

section \<open>Errors and the channel\<close>

datatype decoder_ipc_error = IpcCodec dec_codec_error | IpcIo errno | IpcPartialFrame | IpcClosed

datatype decoder_relay_error =
    SocketpairError errno
  | SetSockOptError errno
  | OpenWallpaperError string os_error
  | SpawnError os_error
  | PidOutOfRange
  | PidfdOpenError errno
  | RelayIpcError decoder_ipc_error

definition EINVAL :: errno where "EINVAL = 22"

record frame_meta =
  fm_width :: u32
  fm_height :: u32

datatype recv_outcome = GotReady | GotFrame frame_meta | GotEndOfFile | GotDecoderError decoder_error_code string

text \<open>\<open>recvmsg\<close>: an error, or whether the datagram was truncated, with its bytes.\<close>

type_synonym recv_result = "errno + bool \<times> byte list"

text \<open>
  \<open>send_control\<close> with \<open>sys_send\<close> what \<open>send\<close> answers, and \<open>send_load_file\<close> with \<open>sys_sendmsg\<close>
  what \<open>sendmsg\<close> answers for the bytes and the descriptor.
\<close>

definition send_control ::
    "bool \<Rightarrow> (compositor_to_decoder \<Rightarrow> json_error + byte list) \<Rightarrow> (byte list \<Rightarrow> errno + nat) \<Rightarrow>
     compositor_to_decoder \<Rightarrow> decoder_ipc_error + unit" where
  "send_control le to_vec sys_send msg =
     rbind (map_err IpcCodec (encode_control le to_vec msg)) (\<lambda>bytes.
     rbind (map_err IpcIo (sys_send bytes)) (\<lambda>n.
     if n = length bytes then Inr () else Inl IpcPartialFrame))"

definition send_load_file ::
    "bool \<Rightarrow> (compositor_to_decoder \<Rightarrow> json_error + byte list) \<Rightarrow> (byte list \<Rightarrow> fd \<Rightarrow> errno + nat) \<Rightarrow>
     bool \<Rightarrow> fd \<Rightarrow> decoder_ipc_error + unit" where
  "send_load_file le to_vec sys_sendmsg loop_playback wallpaper_fd =
     rbind (map_err IpcCodec (encode_control le to_vec (LoadFile loop_playback))) (\<lambda>bytes.
     rbind (map_err IpcIo (sys_sendmsg bytes wallpaper_fd)) (\<lambda>n. Inr ()))"

text \<open>\<open>recv_one\<close>: the outcome, and the caller's payload buffer afterwards.\<close>

definition recv_one ::
    "bool \<Rightarrow> (byte list \<Rightarrow> json_error + decoder_to_compositor) \<Rightarrow> recv_result \<Rightarrow> byte list \<Rightarrow>
     (decoder_ipc_error + recv_outcome option) \<times> byte list" where
  "recv_one le from_slice received payload_out = (case received of
     Inl e \<Rightarrow> (if e = EAGAIN then Inr None else Inl (IpcIo e), payload_out)
   | Inr (truncated, buf) \<Rightarrow>
       if truncated then (Inl (IpcIo EMSGSIZE), payload_out)
       else if length buf = 0 then (Inl IpcClosed, payload_out)
       else (case map_err IpcCodec (try_decode_control le from_slice buf) of
           Inl e \<Rightarrow> (Inl e, payload_out)
         | Inr None \<Rightarrow> (Inl IpcPartialFrame, payload_out)
         | Inr (Some (msg, consumed)) \<Rightarrow> (case msg of
             FrameHeader idx pts width height format bytes_len \<Rightarrow>
               (case map_err IpcCodec (validate_frame_header width height format bytes_len) of
                 Inl e \<Rightarrow> (Inl e, payload_out)
               | Inr _ \<Rightarrow>
                   let payload_end = consumed + unat bytes_len in
                   if payload_end \<noteq> length buf then (Inl IpcPartialFrame, payload_out)
                   else (Inr (Some (GotFrame \<lparr>fm_width = width, fm_height = height\<rparr>)),
                         take (payload_end - consumed) (drop consumed buf)))
           | DecReady wire_version \<Rightarrow>
               (if wire_version \<noteq> WIRE_VERSION then Inl (IpcCodec (WireVersionMismatch wire_version WIRE_VERSION))
                else Inr (Some GotReady), payload_out)
           | EndOfFile \<Rightarrow> (Inr (Some GotEndOfFile), payload_out)
           | DecoderError code message \<Rightarrow> (Inr (Some (GotDecoderError code message)), payload_out))))"

section \<open>Spawning a decoder\<close>

definition IPC_CHILD_FD :: fd where "IPC_CHILD_FD = 3"

text \<open>The closure \<open>fork_exec_decoder\<close> runs between \<open>fork\<close> and \<open>execve\<close>.\<close>

definition pre_exec_decoder :: "fd \<Rightarrow> fd_table \<Rightarrow> fd_table option" where
  "pre_exec_decoder child_socket_fd t = (case sys_dup2 child_socket_fd IPC_CHILD_FD t of
     None \<Rightarrow> None
   | Some t1 \<Rightarrow> Some (if child_socket_fd \<noteq> IPC_CHILD_FD then t1(child_socket_fd := None) else t1))"

datatype sock_opt = SndBuf | RcvBuf

record spawn_sys =
  sy_socketpair :: "errno + fd \<times> fd"
  sy_setsockopt :: "fd \<Rightarrow> sock_opt \<Rightarrow> u32 \<Rightarrow> errno + unit"
  sy_open :: "string \<Rightarrow> os_error + fd"
  sy_decoder_path :: "string option"
  sy_spawn :: "string \<Rightarrow> fd \<Rightarrow> os_error + u32"
  sy_pidfd_open :: "pid \<Rightarrow> errno + int"
  sy_sendmsg :: "byte list \<Rightarrow> fd \<Rightarrow> errno + nat"

definition set_socket_buffers :: "spawn_sys \<Rightarrow> fd \<Rightarrow> decoder_relay_error + unit" where
  "set_socket_buffers K f =
     rbind (map_err SetSockOptError (sy_setsockopt K f SndBuf MAX_FRAME_BYTES)) (\<lambda>_.
     map_err SetSockOptError (sy_setsockopt K f RcvBuf MAX_FRAME_BYTES))"

definition pidfd_open :: "spawn_sys \<Rightarrow> pid \<Rightarrow> decoder_relay_error + fd" where
  "pidfd_open K p = (case sy_pidfd_open K p of
     Inl e \<Rightarrow> Inl (PidfdOpenError e)
   | Inr raw \<Rightarrow> if raw < 2 ^ 31 then Inr (nat raw) else Inl (PidfdOpenError EINVAL))"

definition fork_exec_decoder :: "spawn_sys \<Rightarrow> fd \<Rightarrow> decoder_relay_error + pid" where
  "fork_exec_decoder K child_socket_fd =
     (let binary = (case sy_decoder_path K of None \<Rightarrow> ''halmasuit-decoder'' | Some p \<Rightarrow> p) in
      rbind (map_err SpawnError (sy_spawn K binary child_socket_fd)) (\<lambda>i.
      if unat i < 2 ^ 31 then Inr i else Inl PidOutOfRange))"

text \<open>
  \<open>spawn_decoder_session\<close>, with the descriptors it opened and closed in order.  An \<open>OwnedFd\<close> or
  \<open>File\<close> is closed when the function returns, unless it was moved out; \<open>into_raw_fd\<close> gives up
  that duty for the child's end of the socket.
\<close>

datatype fd_call = FdOpened fd | FdClosed fd

definition spawn_decoder_session ::
    "bool \<Rightarrow> (compositor_to_decoder \<Rightarrow> json_error + byte list) \<Rightarrow> spawn_sys \<Rightarrow> string \<Rightarrow>
     (decoder_relay_error + fd \<times> fd \<times> pid) \<times> fd_call list" where
  "spawn_decoder_session le to_vec K wallpaper_path = (case sy_socketpair K of
     Inl e \<Rightarrow> (Inl (SocketpairError e), [])
   | Inr (parent_end, child_end) \<Rightarrow>
       let pair = [FdOpened parent_end, FdOpened child_end] in
       (case rbind (set_socket_buffers K parent_end) (\<lambda>_. set_socket_buffers K child_end) of
         Inl e \<Rightarrow> (Inl e, pair @ [FdClosed child_end, FdClosed parent_end])
       | Inr _ \<Rightarrow> (case sy_open K wallpaper_path of
           Inl e \<Rightarrow> (Inl (OpenWallpaperError wallpaper_path e), pair @ [FdClosed child_end, FdClosed parent_end])
         | Inr file \<Rightarrow> (case fork_exec_decoder K child_end of
             Inl e \<Rightarrow> (Inl e, pair @ [FdOpened file, FdClosed file, FdClosed parent_end])
           | Inr child_pid \<Rightarrow>
               let forked = pair @ [FdOpened file, FdClosed child_end] in
               (case pidfd_open K child_pid of
                 Inl e \<Rightarrow> (Inl e, forked @ [FdClosed parent_end, FdClosed file])
               | Inr pidfd \<Rightarrow> (case send_load_file le to_vec (sy_sendmsg K) True file of
                   Inl e \<Rightarrow> (Inl (RelayIpcError e),
                     forked @ [FdOpened pidfd, FdClosed pidfd, FdClosed parent_end, FdClosed file])
                 | Inr _ \<Rightarrow> (Inr (parent_end, pidfd, child_pid),
                     forked @ [FdOpened pidfd, FdClosed file])))))))"

section \<open>The relay\<close>

definition MAX_RESTARTS_PER_WINDOW :: u32 where "MAX_RESTARTS_PER_WINDOW = 3"

definition RESTART_WINDOW_SECS :: nat where "RESTART_WINDOW_SECS = 10"

record latest_frame =
  lf_width :: u32
  lf_height :: u32
  lf_bytes :: "byte list"
  lf_frame_idx :: u64

text \<open>
  The fields of \<open>DecoderRelay\<close>, and two logs: the times at which a respawn was attempted and the
  descriptors opened and closed.
\<close>

record decoder_relay =
  dr_chan :: fd
  dr_pidfd :: fd
  dr_pid :: pid
  dr_source :: string
  dr_scratch :: "byte list"
  dr_latest :: "latest_frame option"
  dr_next_idx :: u64
  dr_history :: "instant list"
  dr_dead :: bool
  dr_ready :: bool
  dr_spawns :: "instant list"
  dr_fds :: "fd_call list"

record decoder_env =
  de_le :: bool
  de_to_vec :: "compositor_to_decoder \<Rightarrow> json_error + byte list"
  de_from_slice :: "byte list \<Rightarrow> json_error + decoder_to_compositor"

definition decoder_relay_spawn :: "decoder_env \<Rightarrow> spawn_sys \<Rightarrow> string \<Rightarrow> decoder_relay_error + decoder_relay" where
  "decoder_relay_spawn E K wallpaper_path = (case spawn_decoder_session (de_le E) (de_to_vec E) K wallpaper_path of
     (Inl e, calls) \<Rightarrow> Inl e
   | (Inr (chan, pidfd, p), calls) \<Rightarrow>
       Inr \<lparr>dr_chan = chan, dr_pidfd = pidfd, dr_pid = p, dr_source = wallpaper_path, dr_scratch = [],
            dr_latest = None, dr_next_idx = 0, dr_history = [], dr_dead = False, dr_ready = False,
            dr_spawns = [], dr_fds = calls\<rparr>)"

text \<open>Replacing the channel and the pidfd closes the old ones.\<close>

definition respawn :: "decoder_env \<Rightarrow> spawn_sys \<Rightarrow> decoder_relay \<Rightarrow> (decoder_relay_error + unit) \<times> decoder_relay" where
  "respawn E K s = (case spawn_decoder_session (de_le E) (de_to_vec E) K (dr_source s) of
     (Inl e, calls) \<Rightarrow> (Inl e, s\<lparr>dr_fds := dr_fds s @ calls\<rparr>)
   | (Inr (new_chan, new_pidfd, new_pid), calls) \<Rightarrow>
       (Inr (), s\<lparr>dr_chan := new_chan, dr_pidfd := new_pidfd, dr_pid := new_pid, dr_ready := False,
          dr_fds := dr_fds s @ calls @ [FdClosed (dr_chan s), FdClosed (dr_pidfd s)]\<rparr>))"

definition note_failure :: "decoder_env \<Rightarrow> spawn_sys \<Rightarrow> instant \<Rightarrow> decoder_relay \<Rightarrow> decoder_relay" where
  "note_failure E K now s =
     (let hist = filter (\<lambda>t. (now - t) div 1000000000 < RESTART_WINDOW_SECS) (dr_history s) @ [now];
          count_after = (if length hist < 2 ^ 32 then of_nat (length hist) else - 1 :: u32);
          s1 = s\<lparr>dr_history := hist\<rparr> in
      if count_after > MAX_RESTARTS_PER_WINDOW then s1\<lparr>dr_dead := True\<rparr>
      else case respawn E K (s1\<lparr>dr_spawns := dr_spawns s1 @ [now]\<rparr>) of
          (Inr _, s2) \<Rightarrow> s2
        | (Inl _, s2) \<Rightarrow> s2\<lparr>dr_dead := True\<rparr>)"

text \<open>
  \<open>poll_frames\<close> drains what \<open>recvmsg\<close> gives; an empty list is a drained socket (\<open>EAGAIN\<close>).
  \<open>now\<close> and \<open>K\<close> are the clock and the kernel should the decoder have to be restarted.
\<close>

definition take_frame :: "frame_meta \<Rightarrow> decoder_relay \<Rightarrow> decoder_relay" where
  "take_frame meta s =
     (let idx = dr_next_idx s;
          old = (case dr_latest s of Some f \<Rightarrow> lf_bytes f | None \<Rightarrow> []) in
      s\<lparr>dr_next_idx := idx + 1,
        dr_latest := Some \<lparr>lf_width = fm_width meta, lf_height = fm_height meta,
                          lf_bytes = dr_scratch s, lf_frame_idx = idx\<rparr>,
        dr_scratch := old\<rparr>)"

fun poll_loop ::
    "decoder_env \<Rightarrow> spawn_sys \<Rightarrow> instant \<Rightarrow> recv_result list \<Rightarrow> bool \<Rightarrow> decoder_relay \<Rightarrow> bool \<times> decoder_relay" where
  "poll_loop E K now [] got s = (got, s)"
| "poll_loop E K now (r # rs) got s =
     (let (recv, scratch) = recv_one (de_le E) (de_from_slice E) r (dr_scratch s);
          s1 = s\<lparr>dr_scratch := scratch\<rparr> in
      case recv of
        Inr None \<Rightarrow> (got, s1)
      | Inr (Some GotReady) \<Rightarrow> poll_loop E K now rs got (s1\<lparr>dr_ready := True\<rparr>)
      | Inr (Some (GotFrame meta)) \<Rightarrow>
          if \<not> dr_ready s1 then (got, note_failure E K now s1)
          else poll_loop E K now rs True (take_frame meta s1)
      | Inr (Some GotEndOfFile) \<Rightarrow> poll_loop E K now rs got s1
      | Inr (Some (GotDecoderError code message)) \<Rightarrow> (got, note_failure E K now s1)
      | Inl e \<Rightarrow> (got, note_failure E K now s1))"

definition poll_frames ::
    "decoder_env \<Rightarrow> spawn_sys \<Rightarrow> instant \<Rightarrow> recv_result list \<Rightarrow> decoder_relay \<Rightarrow> bool \<times> decoder_relay" where
  "poll_frames E K now queue s = (if dr_dead s then (False, s) else poll_loop E K now queue False s)"

definition relay_latest_frame :: "decoder_relay \<Rightarrow> latest_frame option" where
  "relay_latest_frame s = dr_latest s"

definition is_dead :: "decoder_relay \<Rightarrow> bool" where
  "is_dead s = dr_dead s"

text \<open>\<open>Drop\<close>: what is sent on the channel, the signal, and the descriptors closed with the fields.\<close>

datatype drop_effect = DropSend fd "byte list" | PidfdKill fd | DropClose fd

definition decoder_relay_drop :: "decoder_env \<Rightarrow> decoder_relay \<Rightarrow> drop_effect list" where
  "decoder_relay_drop E s =
     (case encode_control (de_le E) (de_to_vec E) Shutdown of
        Inl e \<Rightarrow> [] | Inr bytes \<Rightarrow> [DropSend (dr_chan s) bytes]) @
     [PidfdKill (dr_pidfd s), DropClose (dr_chan s), DropClose (dr_pidfd s)]"

section \<open>Frames\<close>

definition frame_fits :: "u32 \<Rightarrow> u32 \<Rightarrow> byte list \<Rightarrow> bool" where
  "frame_fits w h bytes \<longleftrightarrow> 0 < unat w \<and> 0 < unat h \<and> length bytes = unat w * unat h * 4 \<and> length bytes \<le> 16 * 1024 * 1024"

lemma recv_one_frame:
  assumes "recv_one le from_slice r p = (Inr (Some (GotFrame meta)), p')"
  shows "frame_fits (fm_width meta) (fm_height meta) p'"
proof -
  obtain buf idx pts width height format n consumed where
    b: "try_decode_control le from_slice buf = Inr (Some (FrameHeader idx pts width height format n, consumed))"
    and v: "validate_frame_header width height format n = Inr ()" and l: "consumed + unat n = length buf"
    and m: "meta = \<lparr>fm_width = width, fm_height = height\<rparr>" "p' = take (unat n) (drop consumed buf)"
    using assms unfolding recv_one_def
    by (auto simp: Let_def map_err_def split: sum.splits if_splits option.splits prod.splits
        decoder_to_compositor.splits)
  have "length p' = unat n" using l by (simp add: m(2))
  with v m(1) show ?thesis by (auto simp: frame_fits_def validate_frame_header_Inr unat_gt_0)
qed

lemma respawn_frame_fields [simp]:
  "dr_latest (snd (respawn E K s)) = dr_latest s"
  "dr_next_idx (snd (respawn E K s)) = dr_next_idx s"
  "dr_history (snd (respawn E K s)) = dr_history s"
  "dr_spawns (snd (respawn E K s)) = dr_spawns s"
  "dr_dead (snd (respawn E K s)) = dr_dead s"
  by (simp_all add: respawn_def split: prod.split sum.split)

definition kept_failures :: "instant \<Rightarrow> decoder_relay \<Rightarrow> instant list" where
  "kept_failures now s = filter (\<lambda>t. now - t < 10 * 1000000000) (dr_history s)"

lemma note_failure_eq:
  "note_failure E K now s =
     (if length (kept_failures now s) < 3 then
        (let (res, s2) = respawn E K (s\<lparr>dr_history := kept_failures now s @ [now], dr_spawns := dr_spawns s @ [now]\<rparr>) in
         if isl res then s2\<lparr>dr_dead := True\<rparr> else s2)
      else s\<lparr>dr_history := kept_failures now s @ [now], dr_dead := True\<rparr>)"
proof -
  have f: "filter (\<lambda>t. (now - t) div 1000000000 < RESTART_WINDOW_SECS) (dr_history s) = kept_failures now s"
    by (simp add: kept_failures_def RESTART_WINDOW_SECS_def div_less_iff_less_mult)
  have c: "MAX_RESTARTS_PER_WINDOW < (if n < 2 ^ 32 then of_nat n else - 1 :: u32) \<longleftrightarrow> 3 < n" for n
    by (simp add: MAX_RESTARTS_PER_WINDOW_def word_less_nat_alt unat_of_nat unsigned_minus_1_eq_mask mask_eq_exp_minus_1)
  show ?thesis
    unfolding note_failure_def Let_def f c by (auto split: prod.split sum.split)
qed

lemma note_failure_frame_fields [simp]:
  "dr_latest (note_failure E K now s) = dr_latest s"
  "dr_next_idx (note_failure E K now s) = dr_next_idx s"
  by (simp_all add: note_failure_eq split_beta)

lemma take_frame_fields [simp]:
  "dr_next_idx (take_frame meta s) = dr_next_idx s + 1"
  "map_option lf_frame_idx (dr_latest (take_frame meta s)) = Some (dr_next_idx s)"
  "dr_dead (take_frame meta s) = dr_dead s" "dr_spawns (take_frame meta s) = dr_spawns s"
  "dr_history (take_frame meta s) = dr_history s" "dr_fds (take_frame meta s) = dr_fds s"
  "dr_chan (take_frame meta s) = dr_chan s" "dr_pidfd (take_frame meta s) = dr_pidfd s"
  by (simp_all add: take_frame_def Let_def)

text \<open>
  Induction over the drained datagrams: a property kept by new payload buffers, by the ready
  flag, by accepted frames and by failures is kept by a poll.
\<close>

lemma poll_loop_induct [consumes 2, case_names scratch ready frame failure]:
  assumes "P s" and "\<not> dr_dead s"
    and "\<And>s p. P s \<Longrightarrow> P (s\<lparr>dr_scratch := p\<rparr>)"
    and "\<And>s. P s \<Longrightarrow> P (s\<lparr>dr_ready := True\<rparr>)"
    and "\<And>s meta. P s \<Longrightarrow> frame_fits (fm_width meta) (fm_height meta) (dr_scratch s) \<Longrightarrow> P (take_frame meta s)"
    and "\<And>s. P s \<Longrightarrow> \<not> dr_dead s \<Longrightarrow> P (note_failure E K now s)"
  shows "P (snd (poll_loop E K now queue got s))"
  using assms(1,2)
proof (induction queue arbitrary: got s)
  case (Cons r rs)
  obtain recv p where r: "recv_one (de_le E) (de_from_slice E) r (dr_scratch s) = (recv, p)" by force
  note step = assms(3) [OF Cons.prems(1), of p]
  show ?case
  proof (cases "\<exists>meta. recv = Inr (Some (GotFrame meta))")
    case True
    then obtain meta where m: "recv = Inr (Some (GotFrame meta))" by blast
    have "frame_fits (fm_width meta) (fm_height meta) p" using recv_one_frame r m by blast
    then show ?thesis
      using r m Cons.prems(2) assms(5) [OF step] assms(6) [OF step] Cons.IH by (simp add: Let_def)
  next
    case False
    then show ?thesis using r step Cons.prems(2) assms(4) [OF step] assms(6) [OF step] Cons.IH
      by (auto simp: Let_def split: sum.split option.split recv_outcome.split)
  qed
qed simp

lemma poll_frames_induct [consumes 1, case_names scratch ready frame failure]:
  assumes "P s"
    and "\<And>s p. P s \<Longrightarrow> P (s\<lparr>dr_scratch := p\<rparr>)"
    and "\<And>s. P s \<Longrightarrow> P (s\<lparr>dr_ready := True\<rparr>)"
    and "\<And>s meta. P s \<Longrightarrow> frame_fits (fm_width meta) (fm_height meta) (dr_scratch s) \<Longrightarrow> P (take_frame meta s)"
    and "\<And>s. P s \<Longrightarrow> \<not> dr_dead s \<Longrightarrow> P (note_failure E K now s)"
  shows "P (snd (poll_frames E K now queue s))"
  by (cases "dr_dead s") (simp_all add: poll_frames_def assms poll_loop_induct [of P s])

text \<open>The relay as a machine: an event is one poll with its clock, kernel and datagrams.\<close>

type_synonym poll_event = "instant \<times> spawn_sys \<times> recv_result list"

fun decoder_relay_step :: "decoder_env \<Rightarrow> decoder_relay \<Rightarrow> poll_event \<Rightarrow> decoder_relay \<times> bool" where
  "decoder_relay_step E s (now, K, queue) = (let (got, s') = poll_frames E K now queue s in (s', got))"

lemma fst_relay_step: "fst (decoder_relay_step E s e) = snd (poll_frames E (fst (snd e)) (fst e) (snd (snd e)) s)"
  by (cases e) (simp add: split_beta)

definition relay_base :: "decoder_relay \<Rightarrow> decoder_relay" where
  "relay_base s = s\<lparr>dr_scratch := [], dr_latest := None, dr_next_idx := 0, dr_history := [], dr_dead := False,
     dr_ready := False, dr_spawns := []\<rparr>"

lemma spawned_relay_is_fresh: "decoder_relay_spawn E K path = Inr s \<Longrightarrow> relay_base s = s"
  by (auto simp: decoder_relay_spawn_def relay_base_def split: prod.splits sum.splits)

interpretation frames: invariant_machine "decoder_relay_step E" "relay_base s0"
  "\<lambda>s. \<forall>f. dr_latest s = Some f \<longrightarrow> frame_fits (lf_width f) (lf_height f) (lf_bytes f)" for E s0
proof unfold_locales
  fix s :: decoder_relay and e
  assume "\<forall>f. dr_latest s = Some f \<longrightarrow> frame_fits (lf_width f) (lf_height f) (lf_bytes f)"
  then show "\<forall>f. dr_latest (fst (decoder_relay_step E s e)) = Some f \<longrightarrow> frame_fits (lf_width f) (lf_height f) (lf_bytes f)"
    unfolding fst_relay_step by (induction rule: poll_frames_induct) (simp_all add: take_frame_def Let_def)
qed (simp add: relay_base_def)

text \<open>
  C7: whatever datagrams the sandboxed decoder sends, in any order and over any number of
  polls and restarts, the frame the compositor uploads has positive dimensions, exactly
  width times height times four bytes, and at most 16 MiB.
\<close>

theorem relayed_frames_are_wellformed:
  assumes "decoder_relay_spawn E K path = Inr s0"
    and "relay_latest_frame (final (decoder_relay_step E) s0 polls) = Some f"
  shows "0 < unat (lf_width f) \<and> 0 < unat (lf_height f) \<and>
    length (lf_bytes f) = unat (lf_width f) * unat (lf_height f) * 4 \<and> length (lf_bytes f) \<le> 16 * 1024 * 1024"
  using frames.inv_run [of E s0 polls] assms
  by (simp add: spawned_relay_is_fresh relay_latest_frame_def frame_fits_def mult.commute)

section \<open>Frame indices\<close>

text \<open>One received datagram: a frame is taken, or nothing about frames changes.\<close>

lemma poll_loop_Cons_cases:
  obtains (frame) meta p where
      "poll_loop E K now (r # rs) got s = poll_loop E K now rs True (take_frame meta (s\<lparr>dr_scratch := p\<rparr>))"
  | (stop) t where "poll_loop E K now (r # rs) got s = (got, t)" "dr_next_idx t = dr_next_idx s" "dr_latest t = dr_latest s"
  | (skip) t where "poll_loop E K now (r # rs) got s = poll_loop E K now rs got t"
      "dr_next_idx t = dr_next_idx s" "dr_latest t = dr_latest s"
proof -
  obtain recv p where r: "recv_one (de_le E) (de_from_slice E) r (dr_scratch s) = (recv, p)" by force
  let ?s1 = "s\<lparr>dr_scratch := p\<rparr>"
  have failed: thesis if "poll_loop E K now (r # rs) got s = (got, note_failure E K now ?s1)"
    using that by (rule stop) simp_all
  show thesis
  proof (cases recv)
    case (Inl e)
    then show ?thesis using r by (intro failed) simp
  next
    case recv: (Inr out)
    show ?thesis
    proof (cases out)
      case None
      then show ?thesis using r recv by (intro stop [of ?s1]) simp_all
    next
      case (Some a)
      then show ?thesis
      proof (cases a)
        case GotReady
        then show ?thesis using r recv Some by (intro skip [of "?s1\<lparr>dr_ready := True\<rparr>"]) simp_all
      next
        case (GotFrame meta)
        show ?thesis
        proof (cases "dr_ready s")
          case True
          then show ?thesis using r recv Some GotFrame by (intro frame [of meta p]) simp
        next
          case False
          then show ?thesis using r recv Some GotFrame by (intro failed) simp
        qed
      next
        case GotEndOfFile
        then show ?thesis using r recv Some by (intro skip [of ?s1]) simp_all
      next
        case (GotDecoderError c m)
        then show ?thesis using r recv Some by (intro failed) simp
      qed
    qed
  qed
qed

declare poll_loop.simps(2) [simp del]

text \<open>The counter advances by the frames accepted, and the latest frame carries the last index.\<close>

definition counted :: "nat \<Rightarrow> decoder_relay \<Rightarrow> bool \<times> decoder_relay \<Rightarrow> bool \<Rightarrow> bool" where
  "counted n s out got \<longleftrightarrow> dr_next_idx (snd out) = dr_next_idx s + of_nat n \<and> (fst out \<longleftrightarrow> got \<or> 0 < n) \<and>
     (n = 0 \<longrightarrow> dr_latest (snd out) = dr_latest s) \<and>
     (0 < n \<longrightarrow> map_option lf_frame_idx (dr_latest (snd out)) = Some (dr_next_idx (snd out) - 1))"

lemma poll_loop_counts: "\<exists>n \<le> length queue. counted n s (poll_loop E K now queue got s) got"
proof (induction queue arbitrary: got s)
  case Nil
  then show ?case by (simp add: counted_def)
next
  case (Cons r rs)
  show ?case
  proof (cases rule: poll_loop_Cons_cases [of E K now r rs got s])
    case (frame meta p)
    obtain n where n: "n \<le> length rs"
      "counted n (take_frame meta (s\<lparr>dr_scratch := p\<rparr>)) (poll_loop E K now (r # rs) got s) True"
      using Cons.IH [of "take_frame meta (s\<lparr>dr_scratch := p\<rparr>)" True] frame by auto
    then have "counted (Suc n) s (poll_loop E K now (r # rs) got s) got"
      by (cases "n = 0") (auto simp: counted_def algebra_simps)
    then show ?thesis using n(1) by (intro exI [of _ "Suc n"]) simp
  next
    case (stop t)
    then show ?thesis by (intro exI [of _ 0]) (simp add: counted_def)
  next
    case (skip t)
    then show ?thesis using Cons.IH [of t got] by (auto simp: counted_def intro: le_SucI)
  qed
qed

text \<open>
  a poll tells its consumer exactly whether there is a new frame.  For a poll of fewer than
  \<open>2 ^ 64\<close> datagrams it returns true if and only if the relay's frame counter moved; then the
  latest frame carries the index before the new counter, so a consumer that remembers the
  last index it uploaded sees a change, across restarts too; otherwise the latest frame is
  untouched.
\<close>

theorem poll_reports_new_frames:
  assumes "poll_frames E K now queue s = (got, s')" and "length queue < 2 ^ 64"
  shows "(got \<longleftrightarrow> dr_next_idx s' \<noteq> dr_next_idx s) \<and> (\<not> got \<longrightarrow> relay_latest_frame s' = relay_latest_frame s) \<and>
    (got \<longrightarrow> map_option lf_frame_idx (relay_latest_frame s') = Some (dr_next_idx s' - 1))"
proof (cases "dr_dead s")
  case True
  then show ?thesis using assms(1) by (auto simp: poll_frames_def)
next
  case False
  obtain n where n: "n \<le> length queue" "counted n s (got, s') False"
    using poll_loop_counts [of queue s E K now False] assms(1) False by (auto simp: poll_frames_def)
  then have "(of_nat n :: u64) = 0 \<longleftrightarrow> n = 0"
    using assms(2) by (simp add: word_unat_eq_iff unat_of_nat)
  with n(2) show ?thesis by (auto simp: counted_def relay_latest_frame_def)
qed

section \<open>The restart budget\<close>

abbreviation restart_window :: duration where
  "restart_window \<equiv> 10 * 1000000000"

text \<open>Up to the time \<open>latest\<close>; a dead relay attempts nothing more, so its history no longer matters.\<close>

definition budget_inv :: "instant \<Rightarrow> decoder_relay \<Rightarrow> bool" where
  "budget_inv latest s \<longleftrightarrow> (\<exists>seen h. (\<forall>t \<in> set seen. t \<le> latest) \<and> window_ok 3 restart_window seen (dr_spawns s) h \<and>
     (dr_dead s \<or> h = dr_history s \<and> sorted h \<and> (\<forall>t \<in> set h. t \<le> latest)))"

lemma budget_inv_later: "budget_inv latest s \<Longrightarrow> latest \<le> now \<Longrightarrow> budget_inv now s"
  unfolding budget_inv_def by (elim exE conjE disjE; blast intro: le_trans)

lemma budget_inv_failure:
  assumes "budget_inv now s" and alive: "\<not> dr_dead s"
  shows "budget_inv now (note_failure E K now s)"
proof -
  obtain seen where seen: "\<forall>t \<in> set seen. t \<le> now" "window_ok 3 restart_window seen (dr_spawns s) (dr_history s)"
    "sorted (dr_history s)" "\<forall>t \<in> set (dr_history s). t \<le> now"
    using assms by (auto simp: budget_inv_def)
  have k: "kept_failures now s = dropWhile (\<lambda>t. now - t \<ge> restart_window) (dr_history s)"
    using retain_dropWhile [OF seen(3)] by (simp add: kept_failures_def)
  have kept: "sorted (kept_failures now s)" "\<forall>t \<in> set (kept_failures now s). t \<le> now"
    using seen(3,4) by (simp_all add: kept_failures_def sorted_wrt_filter)
  let ?t = "note_failure E K now s"
  show ?thesis
  proof (cases "length (kept_failures now s) < 3")
    case True
    then have "dr_spawns ?t = dr_spawns s @ [now]" "dr_history ?t = kept_failures now s @ [now]"
      by (simp_all add: note_failure_eq split_beta)
    moreover have "window_ok 3 restart_window (seen @ [now]) (dr_spawns s @ [now]) (kept_failures now s @ [now])"
      using True window_ok_admit [OF seen(2,1)] by (simp add: k)
    ultimately show ?thesis using seen(1) kept unfolding budget_inv_def
      by (intro exI [of _ "seen @ [now]"] exI [of _ "kept_failures now s @ [now]"]) (auto simp: sorted_append)
  next
    case False
    then have "dr_spawns ?t = dr_spawns s" "dr_dead ?t" by (simp_all add: note_failure_eq)
    then show ?thesis using seen(1,2) unfolding budget_inv_def by auto
  qed
qed

lemma budget_inv_poll:
  assumes "budget_inv now s"
  shows "budget_inv now (snd (poll_frames E K now queue s))"
  using assms
proof (induction rule: poll_frames_induct)
  case (failure s)
  then show ?case by (rule budget_inv_failure)
qed (simp_all add: budget_inv_def)

lemma budget_inv_run:
  "budget_inv latest s \<Longrightarrow> sorted (latest # map fst polls) \<Longrightarrow> \<exists>now. budget_inv now (final (decoder_relay_step E) s polls)"
proof (induction polls arbitrary: latest s)
  case Nil
  then show ?case by auto
next
  case (Cons e polls)
  have "budget_inv (fst e) s" using Cons.prems by (simp add: budget_inv_later)
  then have "budget_inv (fst e) (fst (decoder_relay_step E s e))" unfolding fst_relay_step by (rule budget_inv_poll)
  from Cons.IH [OF this] Cons.prems(2) show ?case by simp
qed

text \<open>
  C37: the restart budget holds for every decoder behaviour.  With a clock that never runs
  backwards, any two restart attempts that are three places apart in the relay's life are at
  least ten seconds apart, so no ten seconds see more than three forks of a decoder.
\<close>

theorem decoder_restarts_are_bounded:
  assumes "decoder_relay_spawn E K path = Inr s0" and "sorted (map fst polls)"
    and "i + 3 < length (dr_spawns (final (decoder_relay_step E) s0 polls))"
  shows "10 * 1000000000 \<le> dr_spawns (final (decoder_relay_step E) s0 polls) ! (i + 3) - dr_spawns (final (decoder_relay_step E) s0 polls) ! i"
proof -
  have "budget_inv 0 (relay_base s0)" by (simp add: budget_inv_def relay_base_def exI [of _ "[]"])
  then have "budget_inv 0 s0" by (simp add: spawned_relay_is_fresh [OF assms(1)])
  from budget_inv_run [OF this] assms(2) obtain now where "budget_inv now (final (decoder_relay_step E) s0 polls)"
    by auto
  then show ?thesis using assms(3) window_ok_gap by (auto simp: budget_inv_def)
qed

section \<open>Descriptors\<close>

fun opened :: "fd_call list \<Rightarrow> fd multiset" where
  "opened [] = {#}"
| "opened (FdOpened f # cs) = {#f#} + opened cs"
| "opened (FdClosed f # cs) = opened cs"

fun closed_fds :: "fd_call list \<Rightarrow> fd multiset" where
  "closed_fds [] = {#}"
| "closed_fds (FdOpened f # cs) = closed_fds cs"
| "closed_fds (FdClosed f # cs) = {#f#} + closed_fds cs"

lemma opened_append [simp]: "opened (cs @ ds) = opened cs + opened ds"
  by (induction cs rule: opened.induct) (simp_all add: add.assoc)

lemma closed_fds_append [simp]: "closed_fds (cs @ ds) = closed_fds cs + closed_fds ds"
  by (induction cs rule: closed_fds.induct) (simp_all add: add.assoc)

text \<open>What a spawn leaves open: the channel and the pidfd of a session, or what an error left behind.\<close>

definition left_open :: "spawn_sys \<Rightarrow> decoder_relay_error + fd \<times> fd \<times> pid \<Rightarrow> fd multiset" where
  "left_open K res = (case res of
     Inr (chan, pidfd, p) \<Rightarrow> {#chan, pidfd#}
   | Inl (SpawnError e) \<Rightarrow> (case sy_socketpair K of Inr (parent_end, child_end) \<Rightarrow> {#child_end#} | Inl _ \<Rightarrow> {#})
   | Inl PidOutOfRange \<Rightarrow> (case sy_socketpair K of Inr (parent_end, child_end) \<Rightarrow> {#child_end#} | Inl _ \<Rightarrow> {#})
   | Inl _ \<Rightarrow> {#})"

lemma set_socket_buffers_error: "set_socket_buffers K f = Inl e \<Longrightarrow> \<exists>n. e = SetSockOptError n"
  by (auto simp: set_socket_buffers_def rbind_eq_Inl map_err_def split: sum.splits)

lemma pidfd_open_error: "pidfd_open K p = Inl e \<Longrightarrow> \<exists>n. e = PidfdOpenError n"
  by (auto simp: pidfd_open_def split: sum.splits if_splits)

lemma fork_exec_error: "fork_exec_decoder K f = Inl e \<Longrightarrow> e = PidOutOfRange \<or> (\<exists>n. e = SpawnError n)"
  by (auto simp: fork_exec_decoder_def rbind_eq_Inl map_err_def Let_def split: sum.splits if_splits)

lemma spawn_session_accounts:
  assumes "spawn_decoder_session le to_vec K path = (res, calls)"
  shows "opened calls = closed_fds calls + left_open K res"
  using assms unfolding spawn_decoder_session_def Let_def left_open_def
  by (auto split: sum.splits prod.splits simp: rbind_eq_Inl
      dest!: set_socket_buffers_error pidfd_open_error fork_exec_error)

text \<open>
  a decoder session accounts for every descriptor it opened.  A successful spawn leaves
  exactly the channel and the pidfd open; a failed one leaves nothing open, with one
  exception: when the fork itself fails, the child's end of the socket pair, which
  \<open>into_raw_fd\<close> took out of its owner before \<open>fork_exec_decoder(..)?\<close> returned early, stays
  open for good.
\<close>

theorem spawn_leaks_only_on_failed_fork:
  assumes "spawn_decoder_session le to_vec K path = (res, calls)"
  shows "case res of
      Inr (chan, pidfd, p) \<Rightarrow> opened calls = closed_fds calls + {#chan, pidfd#}
    | Inl e \<Rightarrow> (if (\<exists>n. e = SpawnError n) \<or> e = PidOutOfRange
        then \<exists>parent_end child_end. sy_socketpair K = Inr (parent_end, child_end) \<and>
          opened calls = closed_fds calls + {#child_end#}
        else opened calls = closed_fds calls)"
proof -
  note a = spawn_session_accounts [OF assms]
  have "(\<exists>n. res = Inl (SpawnError n)) \<or> res = Inl PidOutOfRange \<Longrightarrow> \<exists>p c. sy_socketpair K = Inr (p, c)"
    using assms by (auto simp: spawn_decoder_session_def split: sum.splits)
  with a show ?thesis
    by (auto simp: left_open_def split: sum.splits decoder_relay_error.splits)
qed

text \<open>Over a relay's life: the current channel and pidfd, and at most one leaked end once it is dead.\<close>

definition fds_inv :: "decoder_relay \<Rightarrow> bool" where
  "fds_inv s \<longleftrightarrow> (\<exists>leaked. opened (dr_fds s) = closed_fds (dr_fds s) + {#dr_chan s, dr_pidfd s#} + leaked \<and>
     size leaked \<le> 1 \<and> (dr_dead s \<or> leaked = {#}))"

lemma size_left_open: "res = Inl e \<Longrightarrow> size (left_open K res) \<le> 1"
  by (auto simp: left_open_def split: decoder_relay_error.split sum.split prod.split)

lemma fds_inv_failure:
  assumes "fds_inv s" and "\<not> dr_dead s"
  shows "fds_inv (note_failure E K now s)"
proof -
  have fds: "opened (dr_fds s) = closed_fds (dr_fds s) + {#dr_chan s, dr_pidfd s#}"
    using assms by (auto simp: fds_inv_def)
  obtain res calls where c: "spawn_decoder_session (de_le E) (de_to_vec E) K (dr_source s) = (res, calls)" by force
  note a = spawn_session_accounts [OF c]
  show ?thesis
  proof (cases res)
    case (Inl e)
    then have "size (left_open K res) \<le> 1" by (rule size_left_open)
    then show ?thesis using fds a c Inl
      by (auto simp: fds_inv_def note_failure_eq respawn_def intro!: exI [of _ "left_open K res"])
  next
    case (Inr x)
    then show ?thesis using fds a c
      by (cases x) (auto simp: fds_inv_def note_failure_eq respawn_def left_open_def)
  qed
qed

interpretation fds: invariant_machine "decoder_relay_step E" "s0\<lparr>dr_fds := [FdOpened (dr_chan s0), FdOpened (dr_pidfd s0)], dr_dead := False\<rparr>"
  fds_inv for E s0
proof unfold_locales
  fix s :: decoder_relay and e
  assume "fds_inv s"
  then show "fds_inv (fst (decoder_relay_step E s e))" unfolding fst_relay_step
  proof (induction rule: poll_frames_induct)
    case (failure s)
    then show ?case by (rule fds_inv_failure)
  qed (simp_all add: fds_inv_def)
qed (simp add: fds_inv_def)

lemma relay_descriptors:
  assumes "decoder_relay_spawn E K path = Inr s0"
  shows "fds_inv (final (decoder_relay_step E) s0 polls)"
proof -
  obtain res calls where c: "spawn_decoder_session (de_le E) (de_to_vec E) K path = (res, calls)" by force
  have "fds_inv s0" using assms c spawn_session_accounts [OF c]
    by (auto simp: decoder_relay_spawn_def fds_inv_def left_open_def split: sum.splits)
  then show ?thesis by (rule fds.inv_run_from)
qed

section \<open>The child's descriptor table\<close>

text \<open>
  the socket the decoder process finds.  The socket pair is created close-on-exec, and the
  child moves its end to descriptor 3 before \<open>execve\<close>.  From any other number this works:
  afterwards 3 is the socket and the old number is closed.  But when the kernel already gave
  the child's end the number 3, \<open>dup2\<close> changes nothing, the close-on-exec flag stays, and the
  decoder starts without its socket.
\<close>

theorem decoder_socket_after_exec:
  assumes "t child_fd = Some (sock, True)"
  shows "\<exists>t'. pre_exec_decoder child_fd t = Some t' \<and>
    (if child_fd = IPC_CHILD_FD then after_exec t' IPC_CHILD_FD = None
     else after_exec t' IPC_CHILD_FD = Some (sock, False) \<and> after_exec t' child_fd = None \<and>
       (\<forall>n. n \<noteq> IPC_CHILD_FD \<and> n \<noteq> child_fd \<longrightarrow> after_exec t' n = after_exec t n))"
  using assms by (auto simp: pre_exec_decoder_def sys_dup2_def after_exec_def)

theorem decoder_socket_after_exec_witness:
  "\<exists>t'. pre_exec_decoder 3 [3 \<mapsto> (7, True)] = Some t' \<and> after_exec t' 3 = None"
  using decoder_socket_after_exec [of "[3 \<mapsto> (7, True)]" 3 7] by (auto simp: IPC_CHILD_FD_def)

section \<open>The frame plane\<close>

text \<open>
  a frame survives the wire.  Whatever valid frame the decoder encodes into a datagram
  (positive dimensions, the right number of pixel bytes, the header's length field set to it),
  the compositor's receive gives back its dimensions and exactly its pixels, provided JSON
  decodes what it encoded.
\<close>

theorem frame_datagram_roundtrip:
  assumes "encode_frame_datagram le to_vec (FrameHeader idx pts w h Rgba8 n) pixels = Inr datagram"
    and "unat n = length pixels" and "frame_fits w h pixels"
    and "\<And>body. to_vec (FrameHeader idx pts w h Rgba8 n) = Inr body \<Longrightarrow> from_slice body = Inr (FrameHeader idx pts w h Rgba8 n)"
  shows "recv_one le from_slice (Inr (False, datagram)) scratch =
    (Inr (Some (GotFrame \<lparr>fm_width = w, fm_height = h\<rparr>)), pixels)"
proof -
  obtain header where h: "encode_control le to_vec (FrameHeader idx pts w h Rgba8 n) = Inr header" "datagram = header @ pixels"
    using assms(1) by (auto simp: encode_frame_datagram_Inr)
  have d: "try_decode_control le from_slice datagram = Inr (Some (FrameHeader idx pts w h Rgba8 n, length header))"
    unfolding h(2) by (rule dec.decode_encode [OF h(1) assms(4)])
  have v: "validate_frame_header w h Rgba8 n = Inr ()"
    using assms(2,3) by (auto simp: validate_frame_header_Inr frame_fits_def)
  have "datagram \<noteq> []" using assms(3) h(2) by (auto simp: frame_fits_def)
  then show ?thesis using assms(2) by (simp add: recv_one_def d v) (simp add: h(2))
qed

section \<open>A run\<close>

text \<open>A JSON of one byte per message, and a kernel that grants everything.\<close>

definition demo_decoder :: decoder_env where
  "demo_decoder = \<lparr>de_le = True, de_to_vec = (\<lambda>m. Inr [7]),
     de_from_slice = (\<lambda>b. if b = [0] then Inr (DecReady 2) else if b = [1] then Inr (FrameHeader 0 0 1 1 Rgba8 4) else Inl ''bad'')\<rparr>"

definition demo_spawn_sys :: spawn_sys where
  "demo_spawn_sys = \<lparr>sy_socketpair = Inr (10, 11), sy_setsockopt = (\<lambda>f opt n. Inr ()), sy_open = (\<lambda>p. Inr 12),
     sy_decoder_path = None, sy_spawn = (\<lambda>b f. Inr 77), sy_pidfd_open = (\<lambda>p. Inr 13), sy_sendmsg = (\<lambda>b f. Inr (length b))\<rparr>"

definition demo_relay :: decoder_relay where
  "demo_relay = \<lparr>dr_chan = 10, dr_pidfd = 13, dr_pid = 77, dr_source = ''w'', dr_scratch = [],
     dr_latest = None, dr_next_idx = 0, dr_history = [], dr_dead = False, dr_ready = False, dr_spawns = [],
     dr_fds = [FdOpened 10, FdOpened 11, FdOpened 12, FdClosed 11, FdOpened 13, FdClosed 12]\<rparr>"

lemmas spawn_eval = spawn_decoder_session_def demo_spawn_sys_def demo_decoder_def set_socket_buffers_def
  fork_exec_decoder_def pidfd_open_def send_load_file_def encode_control_def MAX_CONTROL_MSG_BYTES_def

lemma demo_relay_spawned: "decoder_relay_spawn demo_decoder demo_spawn_sys ''w'' = Inr demo_relay"
  by (simp add: decoder_relay_spawn_def demo_relay_def spawn_eval)

lemma demo_datagrams:
  "recv_one True (de_from_slice demo_decoder) (Inr (False, [1, 0, 0, 0, 0])) p = (Inr (Some GotReady), p)"
  "recv_one True (de_from_slice demo_decoder) (Inr (False, [1, 0, 0, 0, 1, 9, 8, 7, 6])) p =
     (Inr (Some (GotFrame \<lparr>fm_width = 1, fm_height = 1\<rparr>)), [9, 8, 7, 6])"
  by (simp_all add: recv_one_def demo_decoder_def try_decode_control_def DEC_LENGTH_PREFIX_SIZE_def
      from_ne_bytes_def from_le_bytes_def MAX_CONTROL_MSG_BYTES_def WIRE_VERSION_def validate_frame_header_exact)

definition demo_polls :: "poll_event list" where
  "demo_polls = [(0, demo_spawn_sys, [Inr (False, [1, 0, 0, 0, 0]), Inr (False, [1, 0, 0, 0, 1, 9, 8, 7, 6])])]"

lemma demo_poll:
  "decoder_relay_step demo_decoder demo_relay (hd demo_polls) =
     (demo_relay\<lparr>dr_ready := True, dr_next_idx := 1,
        dr_latest := Some \<lparr>lf_width = 1, lf_height = 1, lf_bytes = [9, 8, 7, 6], lf_frame_idx = 0\<rparr>\<rparr>, True)"
proof -
  have "de_le demo_decoder = True" by (simp add: demo_decoder_def)
  then show ?thesis
    by (simp add: demo_polls_def poll_frames_def poll_loop.simps demo_datagrams demo_relay_def take_frame_def)
qed

theorem relayed_frames_are_wellformed_witness:
  "\<exists>f. relay_latest_frame (final (decoder_relay_step demo_decoder) demo_relay demo_polls) = Some f \<and>
     length (lf_bytes f) = unat (lf_width f) * unat (lf_height f) * 4"
proof -
  have p: "demo_polls = [hd demo_polls]" by (simp add: demo_polls_def)
  have "relay_latest_frame (final (decoder_relay_step demo_decoder) demo_relay demo_polls) =
      Some \<lparr>lf_width = 1, lf_height = 1, lf_bytes = [9, 8, 7, 6], lf_frame_idx = 0\<rparr>"
    by (subst p) (simp only: final_Cons demo_poll run.simps fst_conv, simp add: relay_latest_frame_def)
  from relayed_frames_are_wellformed [OF demo_relay_spawned this] this show ?thesis by blast
qed

theorem poll_reports_new_frames_witness:
  "(\<exists>s'. poll_frames demo_decoder demo_spawn_sys 0 (snd (snd (hd demo_polls))) demo_relay = (True, s') \<and>
      dr_next_idx s' \<noteq> dr_next_idx demo_relay)"
proof -
  obtain s' where s: "poll_frames demo_decoder demo_spawn_sys 0 (snd (snd (hd demo_polls))) demo_relay = (True, s')"
    using demo_poll by (auto simp: demo_polls_def split_beta prod_eq_iff simp del: prod.collapse)
  have "length (snd (snd (hd demo_polls))) < 2 ^ 64" by (simp add: demo_polls_def)
  from poll_reports_new_frames [OF s this] s show ?thesis by blast
qed

text \<open>A decoder that dies at 0, 1, 2 and 12 seconds is restarted each time.\<close>

definition dying :: "nat \<Rightarrow> poll_event" where
  "dying secs = (secs * 1000000000, demo_spawn_sys, [Inr (False, [])])"

lemma dying_step:
  assumes "\<not> dr_dead s" and "dr_source s = ''w''" and "length (kept_failures (secs * 1000000000) s) < 3"
  shows "fst (decoder_relay_step demo_decoder s (dying secs)) =
    s\<lparr>dr_chan := 10, dr_pidfd := 13, dr_pid := 77, dr_ready := False,
      dr_history := kept_failures (secs * 1000000000) s @ [secs * 1000000000],
      dr_spawns := dr_spawns s @ [secs * 1000000000],
      dr_fds := dr_fds s @ [FdOpened 10, FdOpened 11, FdOpened 12, FdClosed 11, FdOpened 13, FdClosed 12,
        FdClosed (dr_chan s), FdClosed (dr_pidfd s)]\<rparr>"
proof -
  have s: "s\<lparr>dr_scratch := dr_scratch s\<rparr> = s" by simp
  have "fst (decoder_relay_step demo_decoder s (dying secs)) = note_failure demo_decoder demo_spawn_sys (secs * 1000000000) s"
    using assms(1) by (simp add: fst_relay_step dying_def poll_frames_def poll_loop.simps recv_one_def Let_def)
  also have "\<dots> = snd (respawn demo_decoder demo_spawn_sys (s\<lparr>dr_history := kept_failures (secs * 1000000000) s @ [secs * 1000000000],
      dr_spawns := dr_spawns s @ [secs * 1000000000]\<rparr>))"
    using assms(2,3) by (simp add: note_failure_eq respawn_def spawn_eval)
  finally show ?thesis using assms(2) by (simp add: respawn_def spawn_eval)
qed

theorem decoder_restarts_are_bounded_witness:
  "dr_spawns (final (decoder_relay_step demo_decoder) demo_relay (map dying [0, 1, 2, 12])) =
     [0, 1000000000, 2000000000, 12000000000] \<and>
   10 * 1000000000 \<le> dr_spawns (final (decoder_relay_step demo_decoder) demo_relay (map dying [0, 1, 2, 12])) ! (0 + 3) -
     dr_spawns (final (decoder_relay_step demo_decoder) demo_relay (map dying [0, 1, 2, 12])) ! 0"
proof -
  have s: "dr_spawns (final (decoder_relay_step demo_decoder) demo_relay (map dying [0, 1, 2, 12])) =
      [0, 1000000000, 2000000000, 12000000000]"
    by (simp add: dying_step kept_failures_def demo_relay_def)
  have "sorted (map fst (map dying [0, 1, 2, 12]))" by (simp add: dying_def)
  from decoder_restarts_are_bounded [OF demo_relay_spawned this, of 0] s show ?thesis by simp
qed

theorem spawn_leaks_only_on_failed_fork_witness:
  "\<exists>calls. spawn_decoder_session True (de_to_vec demo_decoder) (demo_spawn_sys\<lparr>sy_spawn := (\<lambda>b f. Inl 12)\<rparr>) ''w'' = (Inl (SpawnError 12), calls) \<and>
     opened calls = closed_fds calls + {#11#}"
proof -
  obtain calls where c: "spawn_decoder_session True (de_to_vec demo_decoder) (demo_spawn_sys\<lparr>sy_spawn := (\<lambda>b f. Inl 12)\<rparr>) ''w''
      = (Inl (SpawnError 12), calls)" by (simp add: spawn_eval)
  from spawn_leaks_only_on_failed_fork [OF this] c show ?thesis by (simp add: demo_spawn_sys_def)
qed

theorem frame_datagram_roundtrip_witness:
  "recv_one True (de_from_slice demo_decoder) (Inr (False, [1, 0, 0, 0, 1, 9, 8, 7, 6])) [] =
     (Inr (Some (GotFrame \<lparr>fm_width = 1, fm_height = 1\<rparr>)), [9, 8, 7, 6])"
  by (rule frame_datagram_roundtrip [where to_vec = "\<lambda>m. Inr [1]" and idx = 0 and pts = 0 and n = 4])
    (simp_all add: encode_frame_datagram_def to_ne_bytes_def le_bytes_def MAX_FRAME_BYTES_def MAX_CONTROL_MSG_BYTES_def
      frame_fits_def demo_decoder_def)

end
