(* ===== verification/Luks_Agent.thy ===== *)
theory Luks_Agent
  imports Rust_Text
begin

text \<open>
  The disk-unlock prompt of the initramfs, \<open>crates/halmasuit-luks/src/agent.rs\<close> and \<open>main.rs\<close>:
  request files of systemd's password-agent protocol, the interactive prompt as a machine of
  polls, key presses and window events, and the unattended responder.  The file system at a
  poll and the answers of \<open>send_to\<close> and of the shared-memory pool are arguments.
\<close>

section \<open>Request files\<close>

record ask_file =
  af_socket :: string
  af_message :: string
  af_echo :: bool

datatype ask_error = MissingSocket | AskIo os_error

text \<open>The fields seen so far: socket, message, echo.\<close>

fun parse_ask_lines :: "string list \<Rightarrow> string option \<times> string \<times> bool \<Rightarrow> string option \<times> string \<times> bool" where
  "parse_ask_lines [] acc = acc"
| "parse_ask_lines (raw # ls) (socket, message, echo) =
     (let line = trim raw in
      if line = [] \<or> prefix ''['' line \<or> prefix ''#'' line then parse_ask_lines ls (socket, message, echo)
      else case split_once CHR ''='' line of
          None \<Rightarrow> parse_ask_lines ls (socket, message, echo)
        | Some (key, value) \<Rightarrow>
            let k = trim key in
            if k = ''Socket'' then parse_ask_lines ls (Some (trim value), message, echo)
            else if k = ''Message'' then parse_ask_lines ls (socket, trim value, echo)
            else if k = ''Echo'' then parse_ask_lines ls (socket, message, trim value \<in> {''1'', ''yes'', ''true''})
            else parse_ask_lines ls (socket, message, echo))"

definition parse_ask_file :: "string \<Rightarrow> ask_error + ask_file" where
  "parse_ask_file body = (case parse_ask_lines (text_lines body) (None, [], False) of
     (None, message, echo) \<Rightarrow> Inl MissingSocket
   | (Some socket, message, echo) \<Rightarrow> Inr \<lparr>af_socket = socket, af_message = message, af_echo = echo\<rparr>)"

text \<open>A view of the file system: the pivot marker, existing paths, the request directory, file contents.\<close>

datatype read_dir_error = DirNotFound | DirError os_error

record luks_fs =
  fs_initrd_exists :: bool
  fs_exists :: "string \<Rightarrow> bool"
  fs_read_dir :: "read_dir_error + (os_error + string \<times> string) list"
  fs_read :: "string \<Rightarrow> os_error + string"

definition read_ask_file :: "luks_fs \<Rightarrow> string \<Rightarrow> ask_error + ask_file" where
  "read_ask_file fs path = rbind (map_err AskIo (fs_read fs path)) parse_ask_file"

fun ask_entries :: "(os_error + string \<times> string) list \<Rightarrow> os_error + string list" where
  "ask_entries [] = Inr []"
| "ask_entries (Inl e # es) = Inl e"
| "ask_entries (Inr (name, path) # es) =
     rbind (ask_entries es) (\<lambda>out. Inr (if prefix ''ask.'' name then path # out else out))"

definition outstanding_requests :: "luks_fs \<Rightarrow> os_error + string list" where
  "outstanding_requests fs = (case fs_read_dir fs of
     Inl DirNotFound \<Rightarrow> Inr []
   | Inl (DirError e) \<Rightarrow> Inl e
   | Inr entries \<Rightarrow> ask_entries entries)"

section \<open>Answers\<close>

text \<open>The datagrams handed to the kernel: the socket path and the bytes.\<close>

type_synonym agent_datagram = "string \<times> byte list"

definition PLUS :: byte where "PLUS = 0x2B"
definition MINUS :: byte where "MINUS = 0x2D"

definition passphrase_frame :: "ask_file \<Rightarrow> byte list \<Rightarrow> agent_datagram" where
  "passphrase_frame ask passphrase = (af_socket ask, PLUS # passphrase)"

definition cancel_frame :: "ask_file \<Rightarrow> agent_datagram" where
  "cancel_frame ask = (af_socket ask, [MINUS])"

section \<open>The interactive prompt\<close>

definition PROMPT_W :: u32 where "PROMPT_W = 480"
definition PROMPT_H :: u32 where "PROMPT_H = 240"

datatype prompt_colour = PROMPT_BGRA | ACTIVE_BGRA

record current_request =
  cr_path :: string
  cr_ask :: ask_file

text \<open>
  \<open>State\<close> without the Wayland objects; \<open>lk_sent\<close> and \<open>lk_painted\<close> record the datagrams
  and the colours of the committed buffers.
\<close>

record luks_state =
  lk_width :: u32
  lk_height :: u32
  lk_configured :: bool
  lk_passphrase :: "byte list"
  lk_request :: "current_request option"
  lk_active :: bool
  lk_should_exit :: bool
  lk_sent :: "agent_datagram list"
  lk_painted :: "prompt_colour list"

definition new_luks_state :: luks_state where
  "new_luks_state = \<lparr>lk_width = 0, lk_height = 0, lk_configured = False, lk_passphrase = [], lk_request = None,
     lk_active = False, lk_should_exit = False, lk_sent = [], lk_painted = []\<rparr>"

text \<open>\<open>pool\<close> tells whether \<open>create_buffer\<close> and \<open>attach_to\<close> succeed.\<close>

definition luks_paint :: "bool \<times> bool \<Rightarrow> luks_state \<Rightarrow> luks_state" where
  "luks_paint pool s =
     (if lk_width s = 0 \<or> lk_height s = 0 then s
      else if \<not> fst pool then s
      else if \<not> snd pool then s
      else s\<lparr>lk_painted := lk_painted s @ [if lk_active s then ACTIVE_BGRA else PROMPT_BGRA]\<rparr>)"

definition repaint :: "bool \<times> bool \<Rightarrow> luks_state \<Rightarrow> luks_state" where
  "repaint pool s = (if lk_configured s then luks_paint pool s else s)"

definition luks_send :: "agent_datagram \<Rightarrow> luks_state \<Rightarrow> luks_state" where
  "luks_send d s = s\<lparr>lk_sent := lk_sent s @ [d]\<rparr>"

definition type_char :: "bool \<times> bool \<Rightarrow> byte \<Rightarrow> luks_state \<Rightarrow> luks_state" where
  "type_char pool b s = (case lk_request s of
     None \<Rightarrow> s
   | Some _ \<Rightarrow>
       let s1 = s\<lparr>lk_passphrase := lk_passphrase s @ [b]\<rparr> in
       if \<not> lk_active s1 then repaint pool (s1\<lparr>lk_active := True\<rparr>) else s1)"

definition backspace :: "luks_state \<Rightarrow> luks_state" where
  "backspace s = (case lk_request s of None \<Rightarrow> s | Some _ \<Rightarrow> s\<lparr>lk_passphrase := butlast (lk_passphrase s)\<rparr>)"

definition luks_submit :: "bool \<times> bool \<Rightarrow> luks_state \<Rightarrow> luks_state" where
  "luks_submit pool s = (case lk_request s of
     None \<Rightarrow> s
   | Some req \<Rightarrow>
       repaint pool ((luks_send (passphrase_frame (cr_ask req) (lk_passphrase s)) (s\<lparr>lk_request := None\<rparr>))
         \<lparr>lk_passphrase := [], lk_active := False\<rparr>))"

definition luks_cancel :: "bool \<times> bool \<Rightarrow> luks_state \<Rightarrow> luks_state" where
  "luks_cancel pool s = (case lk_request s of
     None \<Rightarrow> s
   | Some req \<Rightarrow>
       repaint pool ((luks_send (cancel_frame (cr_ask req)) (s\<lparr>lk_request := None\<rparr>))
         \<lparr>lk_passphrase := [], lk_active := False\<rparr>))"

text \<open>The request a poll would take up: the first outstanding one, when it can be read.\<close>

definition next_request :: "luks_fs \<Rightarrow> current_request option" where
  "next_request fs = (case outstanding_requests fs of
     Inr (path # _) \<Rightarrow> (case read_ask_file fs path of
         Inr ask \<Rightarrow> Some \<lparr>cr_path = path, cr_ask = ask\<rparr>
       | Inl _ \<Rightarrow> None)
   | _ \<Rightarrow> None)"

definition poll_external_state :: "bool \<times> bool \<Rightarrow> luks_fs \<Rightarrow> luks_state \<Rightarrow> luks_state" where
  "poll_external_state pool fs s =
     (if \<not> fs_initrd_exists fs then
        (case lk_request s of Some req \<Rightarrow> luks_send (cancel_frame (cr_ask req)) s | None \<Rightarrow> s)\<lparr>lk_should_exit := True\<rparr>
      else case lk_request s of
        Some req \<Rightarrow>
          if \<not> fs_exists fs (cr_path req)
          then repaint pool (s\<lparr>lk_request := None, lk_active := False, lk_passphrase := []\<rparr>)
          else s
      | None \<Rightarrow> (case next_request fs of
          Some req \<Rightarrow> repaint pool (s\<lparr>lk_request := Some req, lk_passphrase := [], lk_active := False\<rparr>)
        | None \<Rightarrow> s))"

definition accept_passphrase_byte :: "byte \<Rightarrow> bool" where
  "accept_passphrase_byte b = (0x20 \<le> b \<and> b \<le> 0x7E \<or> b \<ge> 0x80)"

definition press_key :: "bool \<times> bool \<Rightarrow> u32 \<Rightarrow> byte list option \<Rightarrow> luks_state \<Rightarrow> luks_state" where
  "press_key pool keysym utf8 s =
     (if keysym = 0xff0d \<or> keysym = 0xff8d then luks_submit pool s
      else if keysym = 0xff1b then luks_cancel pool s
      else if keysym = 0xff08 then backspace s
      else case utf8 of
          None \<Rightarrow> s
        | Some bs \<Rightarrow> foldl (\<lambda>s b. if accept_passphrase_byte b then type_char pool b s else s) s bs)"

definition request_close :: "bool \<times> bool \<Rightarrow> luks_state \<Rightarrow> luks_state" where
  "request_close pool s = (luks_cancel pool s)\<lparr>lk_should_exit := True\<rparr>"

definition luks_configure :: "bool \<times> bool \<Rightarrow> luks_state \<Rightarrow> luks_state" where
  "luks_configure pool s = luks_paint pool (s\<lparr>lk_width := PROMPT_W, lk_height := PROMPT_H, lk_configured := True\<rparr>)"

section \<open>The unattended responder\<close>

datatype args_error = MissingPath | UnknownArgument string

fun parse_luks_args :: "string list \<Rightarrow> string option \<Rightarrow> args_error + string option" where
  "parse_luks_args [] passphrase_from = Inr passphrase_from"
| "parse_luks_args (arg # argv) passphrase_from =
     (if arg = ''--passphrase-from'' then (case argv of
          [] \<Rightarrow> Inl MissingPath
        | path # rest \<Rightarrow> parse_luks_args rest (Some path))
      else Inl (UnknownArgument arg))"

definition respond_all :: "luks_fs \<Rightarrow> byte list \<Rightarrow> agent_datagram list" where
  "respond_all fs passphrase = (case outstanding_requests fs of
     Inl e \<Rightarrow> []
   | Inr requests \<Rightarrow> concat (map (\<lambda>path. case read_ask_file fs path of
       Inr ask \<Rightarrow> [passphrase_frame ask passphrase] | Inl e \<Rightarrow> []) requests))"

text \<open>
  \<open>run_noninteractive\<close> over the views of the file system in its successive rounds: the datagrams
  sent, and whether it returned.
\<close>

fun noninteractive_loop :: "byte list \<Rightarrow> luks_fs list \<Rightarrow> agent_datagram list \<times> bool" where
  "noninteractive_loop passphrase [] = ([], False)"
| "noninteractive_loop passphrase (fs # rounds) =
     (if \<not> fs_initrd_exists fs then ([], True)
      else let (sent, returned) = noninteractive_loop passphrase rounds in (respond_all fs passphrase @ sent, returned))"

definition run_noninteractive :: "os_error + byte list \<Rightarrow> luks_fs list \<Rightarrow> os_error + agent_datagram list \<times> bool" where
  "run_noninteractive file rounds = rbind file (\<lambda>passphrase. Inr (noninteractive_loop passphrase rounds))"

section \<open>What the prompt answers\<close>

datatype luks_event =
    LPoll "bool \<times> bool" luks_fs
  | LKey "bool \<times> bool" u32 "byte list option"
  | LClose "bool \<times> bool"
  | LConfigure "bool \<times> bool"

fun luks_handle :: "luks_event \<Rightarrow> luks_state \<Rightarrow> luks_state" where
  "luks_handle (LPoll pool fs) s = poll_external_state pool fs s"
| "luks_handle (LKey pool keysym utf8) s = press_key pool keysym utf8 s"
| "luks_handle (LClose pool) s = request_close pool s"
| "luks_handle (LConfigure pool) s = luks_configure pool s"

definition luks_run :: "luks_event list \<Rightarrow> luks_state" where
  "luks_run es = fold luks_handle es new_luks_state"

lemma luks_run_snoc [simp]: "luks_run (es @ [e]) = luks_handle e (luks_run es)"
  by (simp add: luks_run_def)

text \<open>A reference line editor: the accepted bytes of the keys, with backspace deleting one.\<close>

fun edit :: "byte list \<Rightarrow> luks_event \<Rightarrow> byte list" where
  "edit buf (LKey pool keysym utf8) =
     (if keysym = 0xff08 then butlast buf
      else case utf8 of None \<Rightarrow> buf | Some bs \<Rightarrow> buf @ filter accept_passphrase_byte bs)"
| "edit buf _ = buf"

definition typed :: "luks_event list \<Rightarrow> byte list" where
  "typed es = foldl edit [] es"

lemma typed_snoc [simp]: "typed (es @ [e]) = edit (typed es) e"
  by (simp add: typed_def)

fun is_enter :: "luks_event \<Rightarrow> bool" where
  "is_enter (LKey pool keysym utf8) = (keysym = 0xff0d \<or> keysym = 0xff8d)"
| "is_enter _ = False"

text \<open>Events that leave the prompt for a request open.\<close>

fun keeps_open :: "current_request \<Rightarrow> luks_event \<Rightarrow> bool" where
  "keeps_open req (LPoll pool fs) = (fs_initrd_exists fs \<longrightarrow> fs_exists fs (cr_path req))"
| "keeps_open req (LKey pool keysym utf8) = (keysym \<noteq> 0xff0d \<and> keysym \<noteq> 0xff8d \<and> keysym \<noteq> 0xff1b)"
| "keeps_open req (LClose pool) = False"
| "keeps_open req (LConfigure pool) = True"

text \<open>\<open>mid\<close> is what happened since the prompt for \<open>req\<close> was opened.\<close>

definition opened_then :: "luks_event list \<Rightarrow> current_request \<Rightarrow> luks_event list \<Rightarrow> bool" where
  "opened_then hist req mid \<longleftrightarrow> (\<exists>pre pool fs. hist = pre @ LPoll pool fs # mid \<and> fs_initrd_exists fs \<and>
     next_request fs = Some req \<and> list_all (keeps_open req) mid)"

lemma opened_then_snoc:
  "opened_then hist req mid \<Longrightarrow> keeps_open req e \<Longrightarrow> opened_then (hist @ [e]) req (mid @ [e])"
  by (auto simp: opened_then_def)

definition answered_as_typed :: "luks_event list \<Rightarrow> string \<Rightarrow> byte list \<Rightarrow> bool" where
  "answered_as_typed es sock bytes \<longleftrightarrow> (\<exists>hist req mid key post. es = hist @ key # post \<and> is_enter key \<and>
     opened_then hist req mid \<and> af_socket (cr_ask req) = sock \<and> bytes = typed mid)"

lemma answered_as_typed_append: "answered_as_typed es sock bytes \<Longrightarrow> answered_as_typed (es @ fs) sock bytes"
  unfolding answered_as_typed_def by fastforce

definition prompt_inv :: "luks_event list \<Rightarrow> luks_state \<Rightarrow> bool" where
  "prompt_inv hist s \<longleftrightarrow>
     (case lk_request s of
        None \<Rightarrow> lk_passphrase s = [] \<and> \<not> lk_active s
      | Some req \<Rightarrow> \<exists>mid. opened_then hist req mid \<and> lk_passphrase s = typed mid) \<and>
     (\<forall>sock bytes. (sock, PLUS # bytes) \<in> set (lk_sent s) \<longrightarrow> answered_as_typed hist sock bytes)"

lemma luks_paint_fields [simp]:
  "lk_request (luks_paint pool s) = lk_request s" "lk_passphrase (luks_paint pool s) = lk_passphrase s"
  "lk_active (luks_paint pool s) = lk_active s" "lk_sent (luks_paint pool s) = lk_sent s"
  "lk_should_exit (luks_paint pool s) = lk_should_exit s"
  by (simp_all add: luks_paint_def)

lemma repaint_fields [simp]:
  "lk_request (repaint pool s) = lk_request s" "lk_passphrase (repaint pool s) = lk_passphrase s"
  "lk_active (repaint pool s) = lk_active s" "lk_sent (repaint pool s) = lk_sent s"
  "lk_should_exit (repaint pool s) = lk_should_exit s"
  by (simp_all add: repaint_def)

lemma type_char_fields [simp]:
  "lk_request (type_char pool b s) = lk_request s" "lk_sent (type_char pool b s) = lk_sent s"
  "lk_passphrase (type_char pool b s) = lk_passphrase s @ (if lk_request s = None then [] else [b])"
  "lk_should_exit (type_char pool b s) = lk_should_exit s"
  "lk_request s = None \<Longrightarrow> type_char pool b s = s"
  by (auto simp: type_char_def Let_def split: option.split)

lemma type_bytes:
  fixes pool s
  defines "go \<equiv> foldl (\<lambda>s b. if accept_passphrase_byte b then type_char pool b s else s)"
  shows "lk_request (go s bs) = lk_request s" "lk_sent (go s bs) = lk_sent s"
    "lk_should_exit (go s bs) = lk_should_exit s"
    "lk_passphrase (go s bs) = lk_passphrase s @ (if lk_request s = None then [] else filter accept_passphrase_byte bs)"
    "lk_request s = None \<Longrightarrow> go s bs = s"
  unfolding go_def by (induction bs arbitrary: s) auto

text \<open>A key that keeps the prompt open edits the buffer like the reference editor.\<close>

lemma press_key_edits:
  assumes "keeps_open req (LKey pool keysym utf8)"
  shows "lk_request (press_key pool keysym utf8 s) = lk_request s"
    "lk_sent (press_key pool keysym utf8 s) = lk_sent s"
    "lk_request s \<noteq> None \<Longrightarrow> lk_passphrase (press_key pool keysym utf8 s) = edit (lk_passphrase s) (LKey pool keysym utf8)"
    "lk_request s = None \<Longrightarrow> press_key pool keysym utf8 s = s"
  using assms by (auto simp: press_key_def backspace_def type_bytes split: option.split)

lemma prompt_inv_kept:
  assumes "prompt_inv hist s" "lk_request s' = lk_request s" "lk_sent s' = lk_sent s"
    and "lk_request s = None \<Longrightarrow> lk_passphrase s' = lk_passphrase s \<and> lk_active s' = lk_active s"
    and "\<And>req. lk_request s = Some req \<Longrightarrow> keeps_open req e \<and> lk_passphrase s' = edit (lk_passphrase s) e"
  shows "prompt_inv (hist @ [e]) s'"
proof (cases "lk_request s")
  case None
  then show ?thesis using assms by (auto simp: prompt_inv_def intro: answered_as_typed_append)
next
  case (Some req)
  then obtain mid where "opened_then hist req mid" "lk_passphrase s = typed mid"
    using assms(1) by (auto simp: prompt_inv_def)
  then have "opened_then (hist @ [e]) req (mid @ [e])" "lk_passphrase s' = typed (mid @ [e])"
    using assms(5) [OF Some] by (simp_all add: opened_then_snoc)
  then show ?thesis using assms(1-3) Some by (auto simp: prompt_inv_def intro: answered_as_typed_append)
qed

lemma prompt_inv_closed:
  assumes "prompt_inv hist s" "lk_request s' = None" "lk_passphrase s' = []" "\<not> lk_active s'"
    and "set (lk_sent s') \<subseteq> set (lk_sent s) \<union> {d. snd d = [MINUS]}"
  shows "prompt_inv (hist @ [e]) s'"
  using assms by (auto simp: prompt_inv_def PLUS_def MINUS_def intro!: answered_as_typed_append)

lemma prompt_inv_submit:
  assumes "prompt_inv hist s" and "is_enter e"
  shows "prompt_inv (hist @ [e]) (luks_submit pool s)"
proof (cases "lk_request s")
  case None
  then show ?thesis using assms(1) by (auto simp: luks_submit_def prompt_inv_def intro: answered_as_typed_append)
next
  case (Some req)
  then obtain mid where m: "opened_then hist req mid" "lk_passphrase s = typed mid"
    using assms(1) by (auto simp: prompt_inv_def)
  then have "answered_as_typed (hist @ [e]) (af_socket (cr_ask req)) (lk_passphrase s)"
    using assms(2) unfolding answered_as_typed_def by blast
  then show ?thesis using assms(1) Some
    by (auto simp: luks_submit_def prompt_inv_def luks_send_def passphrase_frame_def intro: answered_as_typed_append)
qed

lemma prompt_inv_cancel: "prompt_inv hist s \<Longrightarrow> prompt_inv (hist @ [e]) (luks_cancel pool s)"
proof (cases "lk_request s")
  case None
  then show "prompt_inv hist s \<Longrightarrow> ?thesis"
    by (auto simp: luks_cancel_def prompt_inv_def intro: answered_as_typed_append)
next
  case (Some req)
  then show "prompt_inv hist s \<Longrightarrow> ?thesis"
    by (elim prompt_inv_closed) (simp_all add: luks_cancel_def luks_send_def cancel_frame_def)
qed

lemma prompt_inv_poll:
  assumes inv: "prompt_inv hist s"
  shows "prompt_inv (hist @ [LPoll pool fs]) (poll_external_state pool fs s)"
proof (cases "fs_initrd_exists fs")
  case False
  show ?thesis
  proof (cases "lk_request s")
    case None
    then show ?thesis using inv False by (intro prompt_inv_kept [OF inv]) (simp_all add: poll_external_state_def)
  next
    case (Some req)
    let ?t = "s\<lparr>lk_should_exit := True\<rparr>"
    have "prompt_inv (hist @ [LPoll pool fs]) ?t"
      using False Some by (intro prompt_inv_kept [OF inv]) simp_all
    then show ?thesis using False Some
      by (auto simp: poll_external_state_def prompt_inv_def luks_send_def cancel_frame_def PLUS_def MINUS_def)
  qed
next
  case True
  show ?thesis
  proof (cases "lk_request s")
    case None
    show ?thesis
    proof (cases "next_request fs")
      case (Some req)
      have "opened_then (hist @ [LPoll pool fs]) req []" using True Some by (auto simp: opened_then_def)
      moreover have "typed [] = []" by (simp add: typed_def)
      ultimately show ?thesis using inv True None Some
        by (fastforce simp: poll_external_state_def prompt_inv_def intro: answered_as_typed_append)
    qed (use True None in \<open>intro prompt_inv_kept [OF inv], simp_all add: poll_external_state_def\<close>)
  next
    case (Some req)
    show ?thesis
    proof (cases "fs_exists fs (cr_path req)")
      case False
      then show ?thesis using True Some by (intro prompt_inv_closed [OF inv]) (simp_all add: poll_external_state_def)
    qed (use True Some in \<open>intro prompt_inv_kept [OF inv], simp_all add: poll_external_state_def\<close>)
  qed
qed

lemma prompt_inv_step:
  assumes inv: "prompt_inv hist s"
  shows "prompt_inv (hist @ [e]) (luks_handle e s)"
proof (cases e)
  case (LKey pool k utf8)
  show ?thesis
  proof (cases "k = 0xff0d \<or> k = 0xff8d")
    case True
    then show ?thesis using inv LKey by (auto simp: press_key_def intro: prompt_inv_submit)
  next
    case not_enter: False
    show ?thesis
    proof (cases "k = 0xff1b")
      case True
      then show ?thesis using inv LKey by (simp add: press_key_def prompt_inv_cancel)
    next
      case False
      then have k: "keeps_open req (LKey pool k utf8)" for req using not_enter by simp
      show ?thesis unfolding LKey luks_handle.simps
        by (rule prompt_inv_kept [OF inv]) (use k press_key_edits [OF k] in auto)
    qed
  qed
next
  case (LClose pool)
  have "prompt_inv h (t\<lparr>lk_should_exit := True\<rparr>) = prompt_inv h t" for h t
    by (cases "lk_request t") (simp_all add: prompt_inv_def)
  then show ?thesis using inv LClose by (simp add: request_close_def prompt_inv_cancel)
next
  case (LConfigure pool)
  then show ?thesis by (intro prompt_inv_kept [OF inv]) (simp_all add: luks_configure_def)
qed (simp add: prompt_inv_poll inv)

lemma prompt_inv_run: "prompt_inv es (luks_run es)"
  by (induction es rule: rev_induct) (simp_all add: prompt_inv_step, simp add: prompt_inv_def luks_run_def new_luks_state_def)

text \<open>
  C6: the passphrase sent for a request is what was typed for that request.  For every
  sequence of polls, key presses and window events, a passphrase datagram comes from an
  Enter key while a prompt was open, goes to the socket of the request that prompt was
  opened for, and carries exactly the bytes a line editor makes of the keys pressed since
  the prompt opened; the prompt had stayed open all that time.  And whenever no prompt is
  open the passphrase buffer is empty.
\<close>

theorem passphrase_is_typed_for_its_request:
  assumes "(sock, PLUS # bytes) \<in> set (lk_sent (luks_run es))"
  shows "(\<exists>hist pool fs req mid key post.
      es = hist @ LPoll pool fs # mid @ key # post \<and> fs_initrd_exists fs \<and> next_request fs = Some req \<and>
      list_all (keeps_open req) mid \<and> is_enter key \<and> af_socket (cr_ask req) = sock \<and> bytes = typed mid) \<and>
    (lk_request (luks_run es) = None \<longrightarrow> lk_passphrase (luks_run es) = [])"
proof -
  note inv = prompt_inv_run [of es]
  then have "answered_as_typed es sock bytes" using assms by (simp add: prompt_inv_def)
  then obtain hist req mid key post pool fs where
    "es = hist @ LPoll pool fs # mid @ key # post" "fs_initrd_exists fs" "next_request fs = Some req"
    "list_all (keeps_open req) mid" "is_enter key" "af_socket (cr_ask req) = sock" "bytes = typed mid"
    unfolding answered_as_typed_def opened_then_def by auto
  moreover have "lk_request (luks_run es) = None \<longrightarrow> lk_passphrase (luks_run es) = []"
    using inv by (auto simp: prompt_inv_def)
  ultimately show ?thesis by blast
qed

section \<open>One answer per prompt\<close>

fun opens_prompt :: "luks_state \<Rightarrow> luks_event \<Rightarrow> bool" where
  "opens_prompt s (LPoll pool fs) = (fs_initrd_exists fs \<and> lk_request s = None \<and> next_request fs \<noteq> None)"
| "opens_prompt s _ = False"

fun prompts :: "luks_state \<Rightarrow> luks_event list \<Rightarrow> nat" where
  "prompts s [] = 0"
| "prompts s (e # es) = (if opens_prompt s e then 1 else 0) + prompts (luks_handle e s) es"

definition unanswered :: "luks_state \<Rightarrow> nat" where
  "unanswered s = (if lk_request s = None then 0 else 1)"

lemma should_exit_final: "lk_should_exit s \<Longrightarrow> lk_should_exit (luks_handle e s)"
  by (cases e) (auto simp: poll_external_state_def press_key_def backspace_def type_bytes luks_submit_def luks_cancel_def luks_send_def
      request_close_def luks_configure_def split: option.split)

lemma one_step_answers:
  assumes "\<not> lk_should_exit (luks_handle e s)"
  shows "length (lk_sent (luks_handle e s)) + unanswered (luks_handle e s) \<le>
    length (lk_sent s) + unanswered s + (if opens_prompt s e then 1 else 0)"
proof (cases e)
  case (LPoll pool fs)
  have i: "fs_initrd_exists fs" using assms LPoll
    by (cases "fs_initrd_exists fs") (simp_all add: poll_external_state_def)
  then show ?thesis using LPoll
    by (cases "lk_request s"; cases "next_request fs") (simp_all add: poll_external_state_def unanswered_def)
next
  case (LKey pool k utf8)
  then show ?thesis
    by (auto simp: press_key_def backspace_def luks_submit_def luks_cancel_def luks_send_def type_bytes unanswered_def
        split: option.split)
next
  case (LClose pool)
  then show ?thesis using assms by (simp add: request_close_def)
qed (simp add: luks_configure_def unanswered_def)

lemma answers_bounded:
  "\<not> lk_should_exit (fold luks_handle es s) \<Longrightarrow>
     length (lk_sent (fold luks_handle es s)) + unanswered (fold luks_handle es s) \<le> length (lk_sent s) + unanswered s + prompts s es"
proof (induction es arbitrary: s)
  case (Cons e es)
  have exit: "lk_should_exit t \<Longrightarrow> lk_should_exit (fold luks_handle fs t)" for t fs
    by (induction fs arbitrary: t) (simp_all add: should_exit_final)
  then have "\<not> lk_should_exit (luks_handle e s)" using Cons.prems by auto
  from one_step_answers [OF this] Cons.IH [of "luks_handle e s"] Cons.prems show ?case by simp
qed simp

text \<open>
  while the agent runs, every prompt is answered at most once: the datagrams sent never
  outnumber the prompts opened, and an open prompt has not been answered yet.
\<close>

theorem one_answer_per_prompt:
  assumes "\<not> lk_should_exit (luks_run es)"
  shows "length (lk_sent (luks_run es)) + (if lk_request (luks_run es) = None then 0 else 1) \<le> prompts new_luks_state es"
  using answers_bounded [of es new_luks_state] assms
  by (simp add: luks_run_def unanswered_def new_luks_state_def)

text \<open>
  After the pivot the cancel is sent but the request stays: an Enter that is dispatched before
  the event loop notices the exit answers the same request a second time.
\<close>

lemma pivot_then_enter_answers_twice:
  assumes "lk_request s = Some req" and "\<not> fs_initrd_exists fs"
  shows "lk_sent (luks_handle (LKey pool 0xff0d None) (luks_handle (LPoll pool fs) s)) =
    lk_sent s @ [cancel_frame (cr_ask req), passphrase_frame (cr_ask req) (lk_passphrase s)]"
  using assms by (simp add: poll_external_state_def press_key_def luks_submit_def luks_send_def)

text \<open>
  Only the first outstanding request is looked at: while it cannot be parsed, no other request
  is ever prompted for.
\<close>

lemma malformed_request_starves_others:
  assumes "lk_request s = None" and "fs_initrd_exists fs"
    and "outstanding_requests fs = Inr (path # others)" and "read_ask_file fs path = Inl e"
  shows "poll_external_state pool fs s = s"
  using assms by (simp add: poll_external_state_def next_request_def)

section \<open>The unattended responder answers every readable request\<close>

lemma noninteractive_rounds:
  assumes "list_all fs_initrd_exists before"
  shows "noninteractive_loop passphrase before = (concat (map (\<lambda>fs. respond_all fs passphrase) before), False)"
    and "\<not> fs_initrd_exists fs \<Longrightarrow> noninteractive_loop passphrase (before @ fs # later) =
      (concat (map (\<lambda>fs. respond_all fs passphrase) before), True)"
  using assms by (induction before) auto

lemma respond_all_iff:
  "(sock, b) \<in> set (respond_all fs passphrase) \<longleftrightarrow> b = PLUS # passphrase \<and>
     (\<exists>paths path ask. outstanding_requests fs = Inr paths \<and> path \<in> set paths \<and> read_ask_file fs path = Inr ask \<and>
       af_socket ask = sock)"
proof (cases "outstanding_requests fs")
  case (Inr paths)
  then show ?thesis
    by (auto simp: respond_all_def passphrase_frame_def split: sum.splits) metis+
qed (simp add: respond_all_def)

text \<open>
  in each round before the pivot the unattended responder sends the passphrase once to the
  socket of every readable request, in directory order, and nothing else; it returns in
  the first round whose pivot marker is gone.
\<close>

theorem unattended_answers_every_request:
  assumes "list_all fs_initrd_exists before" and "\<not> fs_initrd_exists fs"
  shows "run_noninteractive (Inr passphrase) (before @ fs # later) =
      Inr (concat (map (\<lambda>fs. respond_all fs passphrase) before), True) \<and>
    (\<forall>fs sock b. (sock, b) \<in> set (respond_all fs passphrase) \<longleftrightarrow> b = PLUS # passphrase \<and>
       (\<exists>paths path ask. outstanding_requests fs = Inr paths \<and> path \<in> set paths \<and>
          read_ask_file fs path = Inr ask \<and> af_socket ask = sock))"
  using noninteractive_rounds(2) [OF assms] respond_all_iff by (simp add: run_noninteractive_def)

section \<open>A run\<close>

definition demo_fs :: luks_fs where
  "demo_fs = \<lparr>fs_initrd_exists = True, fs_exists = (\<lambda>p. True),
     fs_read_dir = Inr [Inr (''sck.x'', ''/r/sck.x''), Inr (''ask.x'', ''/r/ask.x'')], fs_read = (\<lambda>p. Inr ''[Ask]\<newline>Socket=/s'')\<rparr>"

lemma demo_ask: "parse_ask_file ''[Ask]\<newline>Socket=/s'' = Inr \<lparr>af_socket = ''/s'', af_message = [], af_echo = False\<rparr>"
  by code_simp

definition demo_request :: current_request where
  "demo_request = \<lparr>cr_path = ''/r/ask.x'', cr_ask = \<lparr>af_socket = ''/s'', af_message = [], af_echo = False\<rparr>\<rparr>"

lemma demo_fs_request:
  "outstanding_requests demo_fs = Inr [''/r/ask.x'']" "read_ask_file demo_fs ''/r/ask.x'' = Inr (cr_ask demo_request)"
  "next_request demo_fs = Some demo_request" "fs_initrd_exists demo_fs" "fs_exists demo_fs p"
  using demo_ask by (simp_all add: outstanding_requests_def demo_fs_def next_request_def read_ask_file_def demo_request_def)

text \<open>The keys a, b, backspace, Enter at a prompt.\<close>

definition demo_session :: "luks_event list" where
  "demo_session = [LPoll (True, True) demo_fs, LKey (True, True) 0x61 (Some [0x61]), LKey (True, True) 0x62 (Some [0x62]),
     LKey (True, True) 0xff08 None, LKey (True, True) 0xff0d None]"

lemma demo_session_sent: "lk_sent (luks_run demo_session) = [(''/s'', PLUS # [0x61])]"
  by (simp add: luks_run_def demo_session_def new_luks_state_def poll_external_state_def demo_fs_request demo_request_def
      repaint_def press_key_def accept_passphrase_byte_def type_char_def backspace_def luks_submit_def luks_send_def
      passphrase_frame_def)

theorem passphrase_is_typed_for_its_request_witness:
  "lk_sent (luks_run demo_session) = [(''/s'', PLUS # [0x61])] \<and>
   (\<exists>hist pool fs mid key post. demo_session = hist @ LPoll pool fs # mid @ key # post \<and> is_enter key \<and> [0x61] = typed mid)"
proof -
  have "(''/s'', PLUS # [0x61]) \<in> set (lk_sent (luks_run demo_session))" by (simp add: demo_session_sent)
  from passphrase_is_typed_for_its_request [OF this] demo_session_sent show ?thesis by blast
qed

theorem one_answer_per_prompt_witness:
  "length (lk_sent (luks_run demo_session)) \<le> prompts new_luks_state demo_session"
proof -
  have "\<not> lk_should_exit (luks_run demo_session)"
    by (simp add: luks_run_def demo_session_def new_luks_state_def poll_external_state_def demo_fs_request demo_request_def
        repaint_def press_key_def accept_passphrase_byte_def type_char_def backspace_def luks_submit_def luks_send_def)
  from one_answer_per_prompt [OF this] show ?thesis by simp
qed

theorem unattended_answers_every_request_witness:
  "run_noninteractive (Inr [0x61]) [demo_fs, demo_fs\<lparr>fs_initrd_exists := False\<rparr>] = Inr ([(''/s'', [PLUS, 0x61])], True)"
proof -
  have "run_noninteractive (Inr [0x61]) ([demo_fs] @ demo_fs\<lparr>fs_initrd_exists := False\<rparr> # []) =
      Inr (concat (map (\<lambda>fs. respond_all fs [0x61]) [demo_fs]), True)"
    by (rule unattended_answers_every_request [THEN conjunct1]) (simp_all add: demo_fs_request)
  then show ?thesis
    by (simp add: respond_all_def demo_fs_request passphrase_frame_def demo_request_def)
qed

text \<open>
  backspace deletes a byte, not a character: after an accented letter and one backspace the
  Enter key sends the first byte of its encoding.
\<close>

theorem backspace_splits_characters:
  "lk_sent (luks_run [LPoll pool demo_fs, LKey pool 0xe9 (Some [0xC3, 0xA9]), LKey pool 0xff08 None, LKey pool 0xff0d None]) =
     [(''/s'', [PLUS, 0xC3])]"
  by (simp add: luks_run_def new_luks_state_def poll_external_state_def demo_fs_request demo_request_def
      repaint_def press_key_def accept_passphrase_byte_def type_char_def backspace_def luks_submit_def luks_send_def
      passphrase_frame_def luks_paint_def)

end
