(* ===== verification/Compositor.thy ===== *)
theory Compositor
  imports Broker_Episode Swap_Gate
begin

text \<open>
  The login half of the compositor binary, \<open>crates/halmasuit/src/main.rs\<close>: the greetd listener, the
  two event sources of a connection (the greeter's stream and the broker's channel), the
  pidfd backstop, the recording of the session uid, the gate for Wayland peers, and what the
  two-key gates do to the visible scene.  smithay, calloop and the kernel answer through
  arguments; the sources registered with the event loop and the descriptors whose owner is
  dropped are recorded in order.
\<close>

section \<open>State\<close>

definition MAX_GREETD_CONNECTIONS :: nat where "MAX_GREETD_CONNECTIONS = 4"

record greeter_handle =
  gh_pid :: u32
  gh_pidfd :: fd

datatype foreground = FgGreeter | FgSession

datatype layer_role = RoleBackground | RoleBottom | RoleTop | RoleOverlay

datatype shutdown_reason = SignalTerm | SignalInt | ReasonInternal | PrepareForShutdown

datatype emitted =
    EvSessionRequested u32 u32
  | EvSessionOpened
  | EvSessionEnded session_outcome
  | EvSessionClientFirstFrame
  | EvSessionLeaderPidfdArmed
  | EvSessionLeaderExitedViaPidfd
  | EvGreeterSpawned u32
  | EvGreeterTerminated u32
  | EvGreeterKillFailed u32 errno
  | EvGreeterDiedPreAuth u32
  | EvForegroundChanged foreground
  | EvClientFirstFrame layer_role
  | EvShutdown shutdown_reason

text \<open>
  Sources in the event loop, by registration token: those over the greeter's own stream, and
  those that borrow a descriptor owned by a connection (the broker channel, the leader pidfd).
  \<open>DropConn\<close> is the drop of a connection, which closes both owned descriptors, and
  \<open>DropPidfd\<close> the drop of the pidfd alone.
\<close>

datatype loop_call =
    InsertGreeter nat nat
  | InsertBroker nat nat
  | InsertLeader nat nat
  | RemoveSource nat
  | DropConn nat
  | DropPidfd nat

record conn_state =
  co_episode :: broker_episode
  co_write_buf :: "byte list"
  co_broker_token :: "nat option"
  co_greeter_token :: "nat option"
  co_terminate :: bool
  co_spawned :: bool
  co_leader_pidfd :: "fd option"
  co_leader_token :: "nat option"

record toplevel =
  tl_surface :: nat
  tl_uid :: "u32 option"

record compositor =
  cp_greeter_uid :: u32
  cp_pam_service :: string
  cp_connections :: "nat \<Rightarrow> conn_state option"
  cp_next_conn_id :: nat
  cp_next_token :: nat
  cp_idle :: "nat list"
  cp_greeter :: "greeter_handle option"
  cp_session_uid :: "u32 option"
  cp_swap :: swap_gate
  cp_first_frame_emitted :: bool
  cp_greeter_swap :: greeter_swap_gate
  cp_seen_roles :: "layer_role set"
  cp_foreground :: foreground
  cp_toplevel :: "toplevel option"
  cp_focus :: "nat option"
  cp_shutdown_armed :: bool
  cp_shutting_down :: bool
  cp_should_exit :: bool
  cp_events :: "emitted list"
  cp_calls :: "loop_call list"
  cp_rendered :: "nat option list"

text \<open>The record \<open>main\<close> builds, after the first greeter was spawned or not.\<close>

definition new_compositor :: "u32 \<Rightarrow> string \<Rightarrow> bool \<Rightarrow> greeter_handle option \<Rightarrow> compositor" where
  "new_compositor greeter_uid pam_service armed greeter =
     \<lparr>cp_greeter_uid = greeter_uid, cp_pam_service = pam_service, cp_connections = (\<lambda>_. None), cp_next_conn_id = 0,
      cp_next_token = 0, cp_idle = [], cp_greeter = greeter, cp_session_uid = None, cp_swap = new_swap_gate,
      cp_first_frame_emitted = False,
      cp_greeter_swap = (if greeter = None then new_greeter_swap_gate else snd (greeter_spawned new_greeter_swap_gate)),
      cp_seen_roles = {}, cp_foreground = FgGreeter, cp_toplevel = None, cp_focus = None, cp_shutdown_armed = armed,
      cp_shutting_down = False, cp_should_exit = False,
      cp_events = (case greeter of None \<Rightarrow> [] | Some g \<Rightarrow> [EvGreeterSpawned (gh_pid g), EvForegroundChanged FgGreeter]),
      cp_calls = [], cp_rendered = []\<rparr>"

definition emit_event :: "emitted \<Rightarrow> compositor \<Rightarrow> compositor" where
  "emit_event e s = s\<lparr>cp_events := cp_events s @ [e]\<rparr>"

definition log_calls :: "loop_call list \<Rightarrow> compositor \<Rightarrow> compositor" where
  "log_calls cs s = s\<lparr>cp_calls := cp_calls s @ cs\<rparr>"

definition put_conn :: "nat \<Rightarrow> conn_state \<Rightarrow> compositor \<Rightarrow> compositor" where
  "put_conn i c s = s\<lparr>cp_connections := (cp_connections s)(i \<mapsto> c)\<rparr>"

definition render :: "nat option \<Rightarrow> compositor \<Rightarrow> compositor" where
  "render surface s = s\<lparr>cp_rendered := cp_rendered s @ [surface]\<rparr>"

definition set_keyboard_focus :: "nat option \<Rightarrow> compositor \<Rightarrow> compositor" where
  "set_keyboard_focus surface s = s\<lparr>cp_focus := surface\<rparr>"

text \<open>Options of the tokens to take out of the loop.\<close>

definition remove_token :: "nat option \<Rightarrow> loop_call list" where
  "remove_token t = (case t of Some k \<Rightarrow> [RemoveSource k] | None \<Rightarrow> [])"

definition record_session_started :: "spawn_request \<Rightarrow> compositor \<Rightarrow> compositor" where
  "record_session_started spawn s =
     (if cp_session_uid s \<noteq> None then s
      else (emit_event (EvSessionRequested (sr_uid spawn) (sr_gid spawn)) s)\<lparr>cp_session_uid := Some (sr_uid spawn)\<rparr>)"

definition wayland_peer_authorized :: "u32 \<Rightarrow> u32 \<Rightarrow> u32 option \<Rightarrow> bool" where
  "wayland_peer_authorized peer_uid greeter_uid session_uid = (peer_uid = greeter_uid \<or> session_uid = Some peer_uid)"

section \<open>The visible scene\<close>

text \<open>\<open>pidfd_send_signal\<close> for a greeter, and what asking the broker for a new greeter gives.\<close>

record swap_sys =
  ss_kill :: "fd \<Rightarrow> errno + unit"
  ss_spawn_greeter :: "errno + greeter_handle"

definition kill_greeter :: "swap_sys \<Rightarrow> compositor \<Rightarrow> compositor" where
  "kill_greeter K s = (case cp_greeter s of
     None \<Rightarrow> s
   | Some g \<Rightarrow> (case ss_kill K (gh_pidfd g) of
       Inr _ \<Rightarrow> emit_event (EvGreeterTerminated (gh_pid g)) (s\<lparr>cp_greeter := None\<rparr>)
     | Inl e \<Rightarrow> emit_event (EvGreeterKillFailed (gh_pid g) e) (s\<lparr>cp_greeter := None\<rparr>)))"

definition respawn_greeter :: "swap_sys \<Rightarrow> compositor \<Rightarrow> compositor" where
  "respawn_greeter K s = (case ss_spawn_greeter K of
     Inr h \<Rightarrow> (emit_event (EvGreeterSpawned (gh_pid h)) s)
        \<lparr>cp_greeter_swap := snd (greeter_spawned (cp_greeter_swap s)), cp_greeter := Some h\<rparr>
   | Inl e \<Rightarrow> s)"

definition apply_swap_action :: "swap_sys \<Rightarrow> swap_action \<Rightarrow> compositor \<Rightarrow> compositor" where
  "apply_swap_action K action s = (case action of
     NoSwap \<Rightarrow> s
   | Swap \<Rightarrow>
       let s1 = emit_event (EvForegroundChanged FgSession) ((kill_greeter K s)\<lparr>cp_foreground := FgSession\<rparr>);
           s2 = (case cp_toplevel s1 of Some t \<Rightarrow> set_keyboard_focus (Some (tl_surface t)) s1 | None \<Rightarrow> s1) in
       render (map_option tl_surface (cp_toplevel s2)) s2
   | Revert \<Rightarrow>
       let s1 = set_keyboard_focus None (emit_event (EvForegroundChanged FgGreeter) (s\<lparr>cp_foreground := FgGreeter\<rparr>));
           s2 = s1\<lparr>cp_session_uid := None, cp_swap := new_swap_gate, cp_greeter_swap := new_greeter_swap_gate\<rparr> in
       render None (respawn_greeter K s2))"

text \<open>Feeding the gate and applying what it says, as each of its four callers does.\<close>

definition drive_gate :: "swap_sys \<Rightarrow> (swap_gate \<Rightarrow> swap_action \<times> swap_gate) \<Rightarrow> compositor \<Rightarrow> compositor" where
  "drive_gate K op s = (let (a, g) = op (cp_swap s) in apply_swap_action K a (s\<lparr>cp_swap := g\<rparr>))"

text \<open>\<open>maybe_emit_session_first_frame\<close>: the committing client's uid and whether its buffer is not empty.\<close>

definition maybe_emit_session_first_frame :: "swap_sys \<Rightarrow> u32 option \<Rightarrow> bool \<Rightarrow> compositor \<Rightarrow> compositor" where
  "maybe_emit_session_first_frame K client_uid non_empty s =
     (if cp_first_frame_emitted s then s
      else case cp_session_uid s of
          None \<Rightarrow> s
        | Some suid \<Rightarrow>
            if client_uid \<noteq> Some suid then s
            else if \<not> non_empty then s
            else drive_gate K session_first_frame
              (emit_event EvSessionClientFirstFrame (s\<lparr>cp_first_frame_emitted := True\<rparr>)))"

definition maybe_focus_foreground_toplevel :: "nat \<Rightarrow> bool \<Rightarrow> compositor \<Rightarrow> compositor" where
  "maybe_focus_foreground_toplevel surface has_buffer s =
     (if map_option tl_surface (cp_toplevel s) \<noteq> Some surface then s
      else if has_buffer then set_keyboard_focus (Some surface) s else s)"

text \<open>The part of \<open>handle_layer_shell_commit\<close> after the configure: a layer surface with a buffer.\<close>

definition layer_first_frame :: "layer_role \<Rightarrow> nat \<Rightarrow> bool \<Rightarrow> bool \<Rightarrow> compositor \<Rightarrow> compositor" where
  "layer_first_frame role surface has_buffer interactive s =
     (if \<not> has_buffer then s
      else
        let s1 = (if role \<in> cp_seen_roles s then s
              else let t = emit_event (EvClientFirstFrame role) (s\<lparr>cp_seen_roles := insert role (cp_seen_roles s)\<rparr>) in
                if role = RoleOverlay \<and> cp_foreground t = FgGreeter
                then t\<lparr>cp_greeter_swap := snd (greeter_first_frame (cp_greeter_swap t))\<rparr> else t) in
        if cp_foreground s1 = FgGreeter \<and> interactive then set_keyboard_focus (Some surface) s1 else s1)"

definition new_toplevel :: "toplevel \<Rightarrow> compositor \<Rightarrow> compositor" where
  "new_toplevel t s = s\<lparr>cp_toplevel := Some t\<rparr>"

definition toplevel_destroyed :: "swap_sys \<Rightarrow> toplevel \<Rightarrow> compositor \<Rightarrow> compositor" where
  "toplevel_destroyed K t s =
     (if cp_toplevel s \<noteq> Some t then s
      else
        let was_session = (case (cp_session_uid s, tl_uid t) of (Some sid, Some suid) \<Rightarrow> sid = suid | _ \<Rightarrow> False);
            s1 = render None (set_keyboard_focus None (s\<lparr>cp_toplevel := None\<rparr>)) in
        if was_session \<and> \<not> cp_should_exit s1 then drive_gate K session_client_gone s1 else s1)"

definition begin_graceful_session_close :: "compositor \<Rightarrow> bool" where
  "begin_graceful_session_close s = (cp_foreground s = FgSession \<and> cp_toplevel s \<noteq> None)"

section \<open>Signals\<close>

datatype reap_outcome = GreeterDiedPreAuth | GreeterDiedExpected | ReapOther

definition classify_reaped_child :: "u32 \<Rightarrow> u32 option \<Rightarrow> u32 option \<Rightarrow> reap_outcome" where
  "classify_reaped_child reaped_pid greeter_pid session_uid =
     (if greeter_pid \<noteq> Some reaped_pid then ReapOther
      else if session_uid = None then GreeterDiedPreAuth else GreeterDiedExpected)"

text \<open>What \<open>waitpid(WNOHANG)\<close> gives while there are children to reap: the pid of one that is gone, if it is.\<close>

fun reap_zombie_children :: "u32 option list \<Rightarrow> compositor \<Rightarrow> compositor" where
  "reap_zombie_children [] s = s"
| "reap_zombie_children (None # ws) s = reap_zombie_children ws s"
| "reap_zombie_children (Some p # ws) s =
     (case classify_reaped_child p (map_option gh_pid (cp_greeter s)) (cp_session_uid s) of
        GreeterDiedPreAuth \<Rightarrow> reap_zombie_children ws (emit_event (EvGreeterDiedPreAuth p) (s\<lparr>cp_greeter := None\<rparr>))
      | GreeterDiedExpected \<Rightarrow> reap_zombie_children ws (s\<lparr>cp_greeter := None\<rparr>)
      | ReapOther \<Rightarrow> reap_zombie_children ws s)"

definition graceful_shutdown :: "swap_sys \<Rightarrow> shutdown_reason \<Rightarrow> compositor \<Rightarrow> compositor" where
  "graceful_shutdown K reason s =
     (if cp_shutting_down s then s
      else
        let s1 = (case cp_greeter s of
              None \<Rightarrow> s
            | Some g \<Rightarrow> (case ss_kill K (gh_pidfd g) of
                Inr _ \<Rightarrow> emit_event (EvGreeterTerminated (gh_pid g)) (s\<lparr>cp_greeter := None\<rparr>)
              | Inl e \<Rightarrow> s\<lparr>cp_greeter := None\<rparr>)) in
        (emit_event (EvShutdown reason) (render None (s1\<lparr>cp_toplevel := None, cp_foreground := FgGreeter\<rparr>)))
          \<lparr>cp_shutting_down := True\<rparr>)"

datatype stop_signal = SIGTERM | SIGINT

definition handle_stop_signal :: "swap_sys \<Rightarrow> stop_signal \<Rightarrow> compositor \<Rightarrow> compositor" where
  "handle_stop_signal K sig s =
     (let reason = (case sig of SIGTERM \<Rightarrow> SignalTerm | SIGINT \<Rightarrow> SignalInt) in
      if \<not> cp_shutdown_armed s then s
      else if \<not> cp_shutting_down s then (emit_event (EvShutdown reason) s)\<lparr>cp_should_exit := True\<rparr>
      else graceful_shutdown K reason s)"

section \<open>The greetd listener\<close>

text \<open>
  What \<open>accept\<close> gives: a stream, with the answers for its peer credentials, \<open>set_nonblocking\<close>,
  the connection to the broker and the two registrations; or an error, \<open>WouldBlock\<close> included.
\<close>

datatype greetd_accept =
    AcceptStream "errno + u32" "errno + unit" "errno + unit" bool bool
  | AcceptFailed errno

definition accept_one :: "errno + u32 \<Rightarrow> errno + unit \<Rightarrow> errno + unit \<Rightarrow> bool \<Rightarrow> bool \<Rightarrow> compositor \<Rightarrow> compositor" where
  "accept_one creds nonblock connect_broker greeter_ok broker_ok s = (case creds of
     Inl e \<Rightarrow> s
   | Inr uid \<Rightarrow>
       if uid \<noteq> cp_greeter_uid s then s
       else if card (dom (cp_connections s)) \<ge> MAX_GREETD_CONNECTIONS then s
       else (case nonblock of
         Inl e \<Rightarrow> s
       | Inr _ \<Rightarrow>
           let i = cp_next_conn_id s; s1 = s\<lparr>cp_next_conn_id := i + 1\<rparr> in
           (case connect_broker of
             Inl e \<Rightarrow> s1
           | Inr _ \<Rightarrow>
               if \<not> greeter_ok then s1
               else
                 let gt = cp_next_token s1; s2 = log_calls [InsertGreeter gt i] (s1\<lparr>cp_next_token := gt + 1\<rparr>) in
                 if \<not> broker_ok then log_calls [RemoveSource gt] s2
                 else
                   let bt = cp_next_token s2; s3 = log_calls [InsertBroker bt i] (s2\<lparr>cp_next_token := bt + 1\<rparr>) in
                   put_conn i \<lparr>co_episode = new_broker_episode new_seqpacket_channel (cp_pam_service s3),
                     co_write_buf = [], co_broker_token = Some bt, co_greeter_token = Some gt, co_terminate = False,
                     co_spawned = False, co_leader_pidfd = None, co_leader_token = None\<rparr> s3)))"

fun handle_listener_ready :: "greetd_accept list \<Rightarrow> compositor \<Rightarrow> compositor" where
  "handle_listener_ready [] s = s"
| "handle_listener_ready (AcceptFailed e # rs) s = s"
| "handle_listener_ready (AcceptStream creds nonblock connect gok bok # rs) s =
     handle_listener_ready rs (accept_one creds nonblock connect gok bok s)"

section \<open>The greeter's source\<close>

datatype post_action = PostContinue | PostRemove

datatype read_result = ReadEof | ReadBytes "byte list" | ReadWouldBlock | ReadFailed errno

datatype write_result = WroteBytes nat | WriteWouldBlock | WriteFailed errno

definition end_unless_spawned :: "conn_state \<Rightarrow> conn_state" where
  "end_unless_spawned c = (if \<not> co_spawned c then c\<lparr>co_terminate := True\<rparr> else c)"

text \<open>The read loop: the connection, and the spawn requests to record in order.\<close>

fun read_loop :: "episode_env \<Rightarrow> read_result list \<Rightarrow> conn_state \<Rightarrow> conn_state \<times> spawn_request list" where
  "read_loop E [] c = (c, [])"
| "read_loop E (ReadEof # rs) c = (end_unless_spawned c, [])"
| "read_loop E (ReadWouldBlock # rs) c = (c, [])"
| "read_loop E (ReadFailed e # rs) c = ((end_unless_spawned c)\<lparr>co_write_buf := []\<rparr>, [])"
| "read_loop E (ReadBytes bytes # rs) c =
     (let (out, ep) = on_greeter_bytes E (co_episode c) bytes;
          c1 = c\<lparr>co_episode := ep, co_write_buf := co_write_buf c @ greeter_reply out\<rparr>;
          (c2, spawns) = (case spawned out of Some sp \<Rightarrow> (c1\<lparr>co_spawned := True\<rparr>, [sp]) | None \<Rightarrow> (c1, [])) in
      if terminate out then (c2\<lparr>co_terminate := True\<rparr>, spawns)
      else let (c3, more) = read_loop E rs c2 in (c3, spawns @ more))"

fun write_loop :: "write_result list \<Rightarrow> conn_state \<Rightarrow> conn_state" where
  "write_loop [] c = c"
| "write_loop (w # ws) c =
     (if co_write_buf c = [] then c
      else case w of
          WroteBytes n \<Rightarrow> (if n = 0 then (end_unless_spawned c)\<lparr>co_write_buf := []\<rparr>
            else write_loop ws (c\<lparr>co_write_buf := drop n (co_write_buf c)\<rparr>))
        | WriteWouldBlock \<Rightarrow> c
        | WriteFailed e \<Rightarrow> (end_unless_spawned c)\<lparr>co_write_buf := []\<rparr>)"

text \<open>The decision at the end of the callback, on the connection as it is then.\<close>

definition conclude_connection :: "nat \<Rightarrow> conn_state \<Rightarrow> compositor \<Rightarrow> post_action \<times> compositor" where
  "conclude_connection i c s =
     (if co_terminate c \<and> co_write_buf c = [] then
        (PostRemove, (log_calls (remove_token (co_broker_token c) @ remove_token (co_leader_token c) @ [DropConn i]) s)
           \<lparr>cp_connections := (cp_connections s)(i := None)\<rparr>)
      else if \<not> co_terminate c \<and> co_spawned c \<and> co_greeter_token c \<noteq> None \<and> co_write_buf c = [] then
        (PostRemove, put_conn i (c\<lparr>co_greeter_token := None\<rparr>) s)
      else (PostContinue, s))"

definition handle_connection_ready ::
    "episode_env \<Rightarrow> nat \<Rightarrow> bool \<Rightarrow> bool \<Rightarrow> read_result list \<Rightarrow> write_result list \<Rightarrow> compositor \<Rightarrow>
     post_action \<times> compositor" where
  "handle_connection_ready E i readable writable reads writes s = (case cp_connections s i of
     None \<Rightarrow> (PostRemove, s)
   | Some c \<Rightarrow>
       let (c1, spawns) = (if readable then read_loop E reads c else (c, []));
           c2 = (if writable \<and> co_write_buf c1 \<noteq> [] then write_loop writes c1 else c1) in
       conclude_connection i c2 (put_conn i c2 (fold record_session_started spawns s)))"

section \<open>The broker's source\<close>

definition arm_leader_pidfd_backstop :: "bool \<Rightarrow> nat \<Rightarrow> compositor \<Rightarrow> compositor" where
  "arm_leader_pidfd_backstop insert_ok i s = (case cp_connections s i of
     None \<Rightarrow> s
   | Some c \<Rightarrow>
       let (pidfd, ep) = take_leader_pidfd (co_episode c); s1 = put_conn i (c\<lparr>co_episode := ep\<rparr>) s in
       (case pidfd of
         None \<Rightarrow> s1
       | Some f \<Rightarrow>
           let c1 = c\<lparr>co_episode := ep, co_leader_pidfd := Some f\<rparr>;
               s2 = log_calls (if co_leader_pidfd c = None then [] else [DropPidfd i]) (put_conn i c1 s1) in
           if insert_ok then
             let lt = cp_next_token s2 in
             emit_event EvSessionLeaderPidfdArmed (put_conn i (c1\<lparr>co_leader_token := Some lt\<rparr>)
               (log_calls [InsertLeader lt i] (s2\<lparr>cp_next_token := lt + 1\<rparr>)))
           else log_calls [DropPidfd i] (put_conn i (c1\<lparr>co_leader_pidfd := None\<rparr>) s2)))"

definition apply_broker_outcome :: "swap_sys \<Rightarrow> bool \<Rightarrow> nat \<Rightarrow> episode_outcome \<Rightarrow> compositor \<Rightarrow> compositor" where
  "apply_broker_outcome K insert_ok i out s =
     (let s1 = (if session_opened_key out
            then arm_leader_pidfd_backstop insert_ok i (drive_gate K session_opened (emit_event EvSessionOpened s)) else s) in
      case session_ended_with out of
        Some oc \<Rightarrow> drive_gate K session_ended (emit_event (EvSessionEnded oc) s1)
      | None \<Rightarrow> s1)"

definition handle_broker_ready ::
    "episode_env \<Rightarrow> swap_sys \<Rightarrow> bool \<Rightarrow> nat \<Rightarrow> bool \<Rightarrow> recvmsg_result \<Rightarrow> compositor \<Rightarrow> post_action \<times> compositor" where
  "handle_broker_ready E K insert_ok i readable received s = (case cp_connections s i of
     None \<Rightarrow> (PostRemove, s)
   | Some c \<Rightarrow>
       let (out, c1) = (if readable
             then let (out, ep) = on_broker_readable E (co_episode c) received in
               (out, c\<lparr>co_episode := ep, co_write_buf := co_write_buf c @ greeter_reply out,
                       co_spawned := co_spawned c \<or> spawned out \<noteq> None, co_terminate := co_terminate c \<or> terminate out\<rparr>)
             else (default_outcome, c));
           s1 = put_conn i c1 (case spawned out of Some sp \<Rightarrow> record_session_started sp s | None \<Rightarrow> s);
           s2 = apply_broker_outcome K insert_ok i out s1 in
       if co_terminate c1 then
         (if co_greeter_token c1 \<noteq> None then (PostContinue, s2)
          else (PostRemove, s2\<lparr>cp_idle := cp_idle s2 @ [i]\<rparr>))
       else (PostContinue, s2))"

definition handle_leader_pidfd_ready :: "swap_sys \<Rightarrow> nat \<Rightarrow> compositor \<Rightarrow> post_action \<times> compositor" where
  "handle_leader_pidfd_ready K i s =
     (let s1 = (case cp_connections s i of Some c \<Rightarrow> put_conn i (c\<lparr>co_leader_token := None\<rparr>) s | None \<Rightarrow> s) in
      (PostRemove, drive_gate K session_client_gone (emit_event EvSessionLeaderExitedViaPidfd s1)))"

text \<open>The idle callback that drops a connection after its broker source has left the loop.\<close>

definition drop_idle :: "nat \<Rightarrow> compositor \<Rightarrow> compositor" where
  "drop_idle i s = (case cp_connections s i of
     None \<Rightarrow> s
   | Some c \<Rightarrow> (log_calls (remove_token (co_leader_token c) @ [DropConn i]) s)
       \<lparr>cp_connections := (cp_connections s)(i := None)\<rparr>)"

definition run_idle :: "compositor \<Rightarrow> compositor" where
  "run_idle s = fold drop_idle (cp_idle s) (s\<lparr>cp_idle := []\<rparr>)"

section \<open>Dispatch\<close>

text \<open>
  One event of the loop.  A source whose callback returns \<open>Remove\<close> leaves the loop when the
  callback has returned.  The idle callbacks run after all the sources of one dispatch; \<open>IdlesRun\<close> is
  that point, so events of other sources may come between a removal and the idle callback it
  scheduled.  \<open>Committed\<close> carries whether the surface has a buffer and whether that buffer's size is
  not empty.
\<close>

datatype comp_event =
    ListenerReady "greetd_accept list"
  | GreeterReady nat nat bool bool "read_result list" "write_result list"
  | BrokerReady nat nat bool recvmsg_result swap_sys bool
  | LeaderReady nat nat swap_sys
  | IdlesRun
  | Committed "u32 option" bool bool nat swap_sys
  | LayerCommitted layer_role nat bool bool
  | ToplevelNew toplevel
  | ToplevelGone toplevel swap_sys
  | ChildrenReaped "u32 option list"
  | StopSignal stop_signal swap_sys
  | ShutdownAnnounced swap_sys

definition finish_source :: "nat \<Rightarrow> post_action \<times> compositor \<Rightarrow> compositor" where
  "finish_source token r = (case r of
     (PostContinue, s) \<Rightarrow> s
   | (PostRemove, s) \<Rightarrow> log_calls [RemoveSource token] s)"

fun comp_handle :: "episode_env \<Rightarrow> comp_event \<Rightarrow> compositor \<Rightarrow> compositor" where
  "comp_handle E (ListenerReady rs) s = handle_listener_ready rs s"
| "comp_handle E (GreeterReady t i r w reads writes) s = finish_source t (handle_connection_ready E i r w reads writes s)"
| "comp_handle E (BrokerReady t i r received K ok) s = finish_source t (handle_broker_ready E K ok i r received s)"
| "comp_handle E (LeaderReady t i K) s = finish_source t (handle_leader_pidfd_ready K i s)"
| "comp_handle E IdlesRun s = run_idle s"
| "comp_handle E (Committed uid has_buffer non_empty surface K) s =
     maybe_focus_foreground_toplevel surface has_buffer (maybe_emit_session_first_frame K uid non_empty s)"
| "comp_handle E (LayerCommitted role surface has_buffer interactive) s = layer_first_frame role surface has_buffer interactive s"
| "comp_handle E (ToplevelNew t) s = new_toplevel t s"
| "comp_handle E (ToplevelGone t K) s = toplevel_destroyed K t s"
| "comp_handle E (ChildrenReaped ws) s = reap_zombie_children ws s"
| "comp_handle E (StopSignal sig K) s = handle_stop_signal K sig s"
| "comp_handle E (ShutdownAnnounced K) s = graceful_shutdown K PrepareForShutdown s"

definition comp_run :: "episode_env \<Rightarrow> compositor \<Rightarrow> comp_event list \<Rightarrow> compositor" where
  "comp_run E s es = fold (comp_handle E) es s"

lemma comp_run_simps [simp]:
  "comp_run E s [] = s"
  "comp_run E s (e # es) = comp_run E (comp_handle E e s) es"
  "comp_run E s (es @ fs) = comp_run E (comp_run E s es) fs"
  by (simp_all add: comp_run_def)

text \<open>A kernel and a broker that answer every request, and one login seen by the compositor.\<close>

definition demo_swap :: swap_sys where
  "demo_swap = \<lparr>ss_kill = (\<lambda>_. Inr ()), ss_spawn_greeter = Inr \<lparr>gh_pid = 77, gh_pidfd = 9\<rparr>\<rparr>"

definition login_events :: "comp_event list" where
  "login_events =
     [ListenerReady [AcceptStream (Inr 990) (Inr ()) (Inr ()) True True],
      GreeterReady 0 0 True False [ReadBytes [1, 0, 0, 0, 1], ReadWouldBlock] [],
      BrokerReady 1 0 True (Inr ([1, 0, 0, 0, 1], Inr [])) demo_swap True,
      GreeterReady 0 0 True False [ReadBytes [1, 0, 0, 0, 2], ReadWouldBlock] [],
      BrokerReady 1 0 True (Inr ([1, 0, 0, 0, 3], Inr [])) demo_swap True,
      GreeterReady 0 0 True False [ReadBytes [1, 0, 0, 0, 3], ReadWouldBlock] []]"

section \<open>The abstract scene\<close>

text \<open>
  What the login path means for the screen, without connections, buffers and sources: whose
  session is recorded, the session gate, the latch for the first frame, what is in the
  foreground, and how often the session came to the foreground.
\<close>

record scene =
  sc_uid :: "u32 option"
  sc_gate :: swap_gate
  sc_emitted :: bool
  sc_fg :: foreground
  sc_swaps :: nat

datatype scene_event =
    SessionStarted u32
  | KeyOpened
  | ClientFrame "u32 option" bool
  | SessionOver
  | ShutDown

fun scene_act :: "swap_action \<Rightarrow> scene \<Rightarrow> scene" where
  "scene_act NoSwap c = c"
| "scene_act Swap c = c\<lparr>sc_fg := FgSession, sc_swaps := sc_swaps c + 1\<rparr>"
| "scene_act Revert c = c\<lparr>sc_fg := FgGreeter, sc_uid := None, sc_gate := new_swap_gate\<rparr>"

definition scene_gate :: "(swap_gate \<Rightarrow> swap_action \<times> swap_gate) \<Rightarrow> scene \<Rightarrow> scene" where
  "scene_gate op c = (let (a, g) = op (sc_gate c) in scene_act a (c\<lparr>sc_gate := g\<rparr>))"

fun scene_step :: "scene_event \<Rightarrow> scene \<Rightarrow> scene" where
  "scene_step (SessionStarted u) c = (if sc_uid c = None then c\<lparr>sc_uid := Some u\<rparr> else c)"
| "scene_step KeyOpened c = scene_gate session_opened c"
| "scene_step (ClientFrame uid non_empty) c =
     (if \<not> sc_emitted c \<and> sc_uid c \<noteq> None \<and> uid = sc_uid c \<and> non_empty
      then scene_gate session_first_frame (c\<lparr>sc_emitted := True\<rparr>) else c)"
| "scene_step SessionOver c = scene_gate session_ended c"
| "scene_step ShutDown c = c\<lparr>sc_fg := FgGreeter\<rparr>"

definition scene_of :: "compositor \<Rightarrow> scene" where
  "scene_of s = \<lparr>sc_uid = cp_session_uid s, sc_gate = cp_swap s, sc_emitted = cp_first_frame_emitted s,
     sc_fg = cp_foreground s, sc_swaps = length (filter (\<lambda>e. e = EvForegroundChanged FgSession) (cp_events s))\<rparr>"

text \<open>The scene events of one dispatched event.\<close>

definition spawn_events :: "spawn_request option \<Rightarrow> scene_event list" where
  "spawn_events sp = (case sp of Some r \<Rightarrow> [SessionStarted (sr_uid r)] | None \<Rightarrow> [])"

fun scene_events :: "episode_env \<Rightarrow> comp_event \<Rightarrow> compositor \<Rightarrow> scene_event list" where
  "scene_events E (GreeterReady t i readable w reads writes) s = (case cp_connections s i of
     Some c \<Rightarrow> if readable then map (SessionStarted \<circ> sr_uid) (snd (read_loop E reads c)) else []
   | None \<Rightarrow> [])"
| "scene_events E (BrokerReady t i readable received K ok) s = (case cp_connections s i of
     Some c \<Rightarrow>
       if readable then
         let out = fst (on_broker_readable E (co_episode c) received) in
         spawn_events (spawned out) @ (if session_opened_key out then [KeyOpened] else []) @
         (if session_ended_with out = None then [] else [SessionOver])
       else []
   | None \<Rightarrow> [])"
| "scene_events E (LeaderReady t i K) s = [SessionOver]"
| "scene_events E (Committed uid has_buffer non_empty surface K) s = [ClientFrame uid non_empty]"
| "scene_events E (ToplevelGone t K) s =
     (if cp_toplevel s = Some t \<and> cp_session_uid s \<noteq> None \<and> tl_uid t = cp_session_uid s \<and> \<not> cp_should_exit s
      then [SessionOver] else [])"
| "scene_events E (StopSignal sig K) s = []"
| "scene_events E (ShutdownAnnounced K) s = (if cp_shutting_down s then [] else [ShutDown])"
| "scene_events E e s = []"

lemma scene_of_neutral [simp]:
  "scene_of (log_calls cs s) = scene_of s" "scene_of (put_conn i c s) = scene_of s"
  "scene_of (render x s) = scene_of s" "scene_of (set_keyboard_focus x s) = scene_of s"
  "scene_of (s\<lparr>cp_connections := m\<rparr>) = scene_of s" "scene_of (s\<lparr>cp_idle := ids\<rparr>) = scene_of s"
  "scene_of (s\<lparr>cp_next_token := n\<rparr>) = scene_of s" "scene_of (s\<lparr>cp_next_conn_id := n\<rparr>) = scene_of s"
  "scene_of (s\<lparr>cp_greeter := g\<rparr>) = scene_of s" "scene_of (s\<lparr>cp_greeter_swap := gg\<rparr>) = scene_of s"
  "scene_of (s\<lparr>cp_toplevel := t\<rparr>) = scene_of s" "scene_of (s\<lparr>cp_should_exit := b\<rparr>) = scene_of s"
  "scene_of (s\<lparr>cp_shutting_down := b\<rparr>) = scene_of s" "scene_of (s\<lparr>cp_seen_roles := rs\<rparr>) = scene_of s"
  "e \<noteq> EvForegroundChanged FgSession \<Longrightarrow> scene_of (emit_event e s) = scene_of s"
  by (simp_all add: scene_of_def log_calls_def put_conn_def render_def set_keyboard_focus_def emit_event_def)

lemma scene_of_kill [simp]: "scene_of (kill_greeter K s) = scene_of s"
  by (simp add: kill_greeter_def split: option.split sum.split)

lemma scene_of_respawn [simp]: "scene_of (respawn_greeter K s) = scene_of s"
  by (simp add: respawn_greeter_def split: sum.split)

lemma scene_of_fields:
  "scene_of (s\<lparr>cp_foreground := f\<rparr>) = (scene_of s)\<lparr>sc_fg := f\<rparr>"
  "scene_of (s\<lparr>cp_swap := g\<rparr>) = (scene_of s)\<lparr>sc_gate := g\<rparr>"
  "scene_of (s\<lparr>cp_session_uid := u\<rparr>) = (scene_of s)\<lparr>sc_uid := u\<rparr>"
  "scene_of (s\<lparr>cp_first_frame_emitted := b\<rparr>) = (scene_of s)\<lparr>sc_emitted := b\<rparr>"
  "scene_of (emit_event (EvForegroundChanged FgSession) s) = (scene_of s)\<lparr>sc_swaps := sc_swaps (scene_of s) + 1\<rparr>"
  by (simp_all add: scene_of_def emit_event_def)

lemma scene_of_sel [simp]:
  "sc_uid (scene_of s) = cp_session_uid s" "sc_gate (scene_of s) = cp_swap s"
  "sc_emitted (scene_of s) = cp_first_frame_emitted s" "sc_fg (scene_of s) = cp_foreground s"
  by (simp_all add: scene_of_def)

lemma scene_of_swap_action: "scene_of (apply_swap_action K a s) = scene_act a (scene_of s)"
proof (cases a)
  case Swap
  let ?t = "emit_event (EvForegroundChanged FgSession) ((kill_greeter K s)\<lparr>cp_foreground := FgSession\<rparr>)"
  have "scene_of (case cp_toplevel ?t of Some t \<Rightarrow> set_keyboard_focus (Some (tl_surface t)) ?t | None \<Rightarrow> ?t) = scene_of ?t"
    by (simp split: option.split)
  then show ?thesis using Swap by (simp add: apply_swap_action_def Let_def scene_of_fields)
next
  case Revert
  have "\<And>t. scene_of (t\<lparr>cp_session_uid := None, cp_swap := new_swap_gate, cp_greeter_swap := new_greeter_swap_gate\<rparr>) =
      (scene_of t)\<lparr>sc_uid := None, sc_gate := new_swap_gate\<rparr>" by (simp add: scene_of_def)
  then show ?thesis using Revert by (simp add: apply_swap_action_def Let_def scene_of_fields)
qed (simp add: apply_swap_action_def)

lemma scene_of_drive: "scene_of (drive_gate K op s) = scene_gate op (scene_of s)"
  by (simp add: drive_gate_def scene_gate_def scene_of_swap_action scene_of_fields split_beta)

lemma scene_of_record: "scene_of (record_session_started sp s) = scene_step (SessionStarted (sr_uid sp)) (scene_of s)"
  by (simp add: record_session_started_def scene_of_fields)

lemma scene_of_records: "scene_of (fold record_session_started sps s) = fold scene_step (map (SessionStarted \<circ> sr_uid) sps) (scene_of s)"
  by (induction sps arbitrary: s) (simp_all add: scene_of_record)

lemma scene_of_idle [simp]: "scene_of (run_idle s) = scene_of s"
proof -
  have "scene_of (drop_idle i t) = scene_of t" for i t by (simp add: drop_idle_def split: option.split)
  then have "scene_of (fold drop_idle is t) = scene_of t" for "is" t by (induction "is" arbitrary: t) simp_all
  then show ?thesis by (simp add: run_idle_def)
qed

lemma scene_of_finish [simp]: "scene_of (finish_source t r) = scene_of (snd r)"
  by (cases r; cases "fst r") (simp_all add: finish_source_def)

lemma scene_of_listener [simp]: "scene_of (handle_listener_ready rs s) = scene_of s"
proof -
  have "scene_of (accept_one a b c d e t) = scene_of t" for a b c d e t
    by (simp add: accept_one_def Let_def split: sum.split)
  then show ?thesis by (induction rs s rule: handle_listener_ready.induct) simp_all
qed

lemma scene_of_reap [simp]: "scene_of (reap_zombie_children ws s) = scene_of s"
  by (induction ws s rule: reap_zombie_children.induct) (simp_all split: reap_outcome.split)

lemma scene_of_arm [simp]: "scene_of (arm_leader_pidfd_backstop ok i s) = scene_of s"
  by (simp add: arm_leader_pidfd_backstop_def split_beta Let_def split: option.split)

lemma scene_of_conclude [simp]: "scene_of (snd (conclude_connection i c s)) = scene_of s"
  by (simp add: conclude_connection_def)

lemma scene_of_broker:
  "scene_of (snd (handle_broker_ready E K ok i readable received s)) =
     fold scene_step (scene_events E (BrokerReady t i readable received K ok) s) (scene_of s)"
proof (cases "cp_connections s i")
  case None
  then show ?thesis by (simp add: handle_broker_ready_def)
next
  case (Some c)
  obtain out ep where o: "on_broker_readable E (co_episode c) received = (out, ep)" by force
  have "scene_of (apply_broker_outcome K ok i out u) =
      fold scene_step ((if session_opened_key out then [KeyOpened] else []) @ (if session_ended_with out = None then [] else [SessionOver])) (scene_of u)"
    for u by (auto simp: apply_broker_outcome_def scene_of_drive split: option.split)
  moreover have "scene_of (case spawned out of Some sp \<Rightarrow> record_session_started sp s | None \<Rightarrow> s) =
      fold scene_step (spawn_events (spawned out)) (scene_of s)"
    by (simp add: spawn_events_def scene_of_record split: option.split)
  moreover have "apply_broker_outcome K ok i default_outcome u = u" for u
    by (simp add: apply_broker_outcome_def default_outcome_def)
  ultimately show ?thesis using Some o
    by (cases readable) (simp_all add: handle_broker_ready_def Let_def default_outcome_def)
qed

lemma scene_of_frame:
  "scene_of (maybe_emit_session_first_frame K uid non_empty s) = scene_step (ClientFrame uid non_empty) (scene_of s)"
proof (cases "\<not> cp_first_frame_emitted s \<and> cp_session_uid s \<noteq> None \<and> uid = cp_session_uid s \<and> non_empty")
  case True
  then show ?thesis
    by (auto simp: maybe_emit_session_first_frame_def scene_of_drive scene_of_fields)
next
  case False
  then have "maybe_emit_session_first_frame K uid non_empty s = s"
    by (auto simp: maybe_emit_session_first_frame_def split: option.split)
  then show ?thesis using False by auto
qed

lemma client_gone_is_ended: "session_client_gone = session_ended"
  by (simp add: fun_eq_iff session_client_gone_def session_ended_def)

lemma scene_of_toplevel_gone:
  "scene_of (toplevel_destroyed K t s) = fold scene_step (scene_events E (ToplevelGone t K) s) (scene_of s)"
proof -
  have "cp_should_exit (render x (set_keyboard_focus y (s\<lparr>cp_toplevel := z\<rparr>))) = cp_should_exit s" for x y z
    by (simp add: render_def set_keyboard_focus_def)
  then show ?thesis
    by (cases "cp_session_uid s"; cases "tl_uid t")
      (auto simp: toplevel_destroyed_def Let_def scene_of_drive client_gone_is_ended)
qed

lemma scene_of_shutdown:
  "scene_of (graceful_shutdown K reason s) = (if cp_shutting_down s then scene_of s else scene_step ShutDown (scene_of s))"
proof -
  have "scene_of (case cp_greeter s of None \<Rightarrow> s | Some g \<Rightarrow> (case ss_kill K (gh_pidfd g) of
      Inr _ \<Rightarrow> emit_event (EvGreeterTerminated (gh_pid g)) (s\<lparr>cp_greeter := None\<rparr>) | Inl e \<Rightarrow> s\<lparr>cp_greeter := None\<rparr>)) = scene_of s"
    by (simp split: option.split sum.split)
  then show ?thesis by (simp add: graceful_shutdown_def Let_def scene_of_fields)
qed

lemma scene_of_layer [simp]: "scene_of (layer_first_frame role surface hb ki s) = scene_of s"
  by (simp add: layer_first_frame_def Let_def)

lemma scene_of_handle:
  "scene_of (comp_handle E e s) = fold scene_step (scene_events E e s) (scene_of s)"
proof (cases e)
  case (GreeterReady t i readable w reads writes)
  then show ?thesis
    by (simp add: handle_connection_ready_def split_beta Let_def scene_of_records split: option.split)
next
  case (BrokerReady t i readable received K ok)
  then show ?thesis using scene_of_broker by simp
next
  case (LeaderReady t i K)
  then show ?thesis
    by (simp add: handle_leader_pidfd_ready_def Let_def scene_of_drive client_gone_is_ended split: option.split)
next
  case (Committed uid has_buffer non_empty surface K)
  have "scene_of (maybe_focus_foreground_toplevel surface has_buffer t) = scene_of t" for t
    by (simp add: maybe_focus_foreground_toplevel_def)
  then show ?thesis using Committed by (simp add: scene_of_frame del: scene_step.simps)
next
  case (ToplevelGone t K)
  then show ?thesis using scene_of_toplevel_gone [of K t s E] by simp
next
  case (StopSignal sig K)
  then show ?thesis by (simp add: handle_stop_signal_def Let_def scene_of_shutdown)
next
  case (ShutdownAnnounced K)
  then show ?thesis by (simp add: scene_of_shutdown)
qed (simp_all add: new_toplevel_def)

fun scene_trace :: "episode_env \<Rightarrow> compositor \<Rightarrow> comp_event list \<Rightarrow> scene_event list" where
  "scene_trace E s [] = []"
| "scene_trace E s (e # es) = scene_events E e s @ scene_trace E (comp_handle E e s) es"

lemma scene_of_run: "scene_of (comp_run E s es) = fold scene_step (scene_trace E s es) (scene_of s)"
  by (induction es arbitrary: s) (simp_all add: scene_of_handle)

text \<open>
  C14: the compositor's login path refines the abstract scene.  Whatever the greeter, the broker,
  the Wayland clients, the kernel and the event loop do, each dispatched event changes the
  recorded session uid, the session gate, the first-frame latch and the foreground exactly
  as the scene machine does on the few scene events that dispatch amounts to.
\<close>

theorem compositor_refines_scene:
  "scene_of (comp_run E s es) = fold scene_step (scene_trace E s es) (scene_of s) \<and>
   (\<forall>e. scene_of (comp_handle E e s) = fold scene_step (scene_events E e s) (scene_of s))"
  using scene_of_run scene_of_handle by blast

section \<open>What the scene can do\<close>

text \<open>
  The latch for the first frame is never reset, so the second key can come only once in the
  compositor's life.
\<close>

definition one_swap_inv :: "scene \<Rightarrow> bool" where
  "one_swap_inv c \<longleftrightarrow> (case sg_phase (sc_gate c) of
     Arming opened0 first \<Rightarrow> (first \<longrightarrow> sc_emitted c \<and> sc_swaps c = 0)
   | Swapped \<Rightarrow> sc_emitted c
   | SwapDone \<Rightarrow> True) \<and> sc_swaps c \<le> 1 \<and> (\<not> sc_emitted c \<longrightarrow> sc_swaps c = 0)"

lemmas scene_gate_defs = scene_gate_def session_opened_def session_first_frame_def session_ended_def
  sg_arm_def revert_or_disarm_def new_swap_gate_def

lemma one_swap_step: "one_swap_inv c \<Longrightarrow> one_swap_inv (scene_step e c)"
  by (cases e; cases "sg_phase (sc_gate c)") (auto simp: one_swap_inv_def scene_gate_defs Let_def)

lemma one_swap_run: "one_swap_inv c \<Longrightarrow> one_swap_inv (fold scene_step tr c)"
  by (induction tr arbitrary: c) (simp_all add: one_swap_step)

text \<open>
  the session comes to the foreground at most once in the compositor's life.  In every
  history of the compositor the event that announces the session as foreground is emitted at
  most once, because the latch \<open>session_first_frame_emitted\<close> is not cleared when the scene
  reverts to the greeter: a user who logs out and in again never gets the two-key swap.
\<close>

theorem session_foreground_at_most_once:
  "length (filter (\<lambda>e. e = EvForegroundChanged FgSession) (cp_events (comp_run E (new_compositor guid service armed greeter) es))) \<le> 1"
proof -
  let ?s = "new_compositor guid service armed greeter"
  have "one_swap_inv (scene_of ?s)"
    by (cases greeter) (simp_all add: one_swap_inv_def scene_of_def new_compositor_def new_swap_gate_def)
  then have "one_swap_inv (scene_of (comp_run E ?s es))" by (simp add: scene_of_run one_swap_run)
  then show ?thesis by (simp add: one_swap_inv_def scene_of_def)
qed

text \<open>A gate that is done is never replaced: only a revert after a swap makes a new one.\<close>

lemma done_step:
  "sg_phase (sc_gate c) = SwapDone \<Longrightarrow> sc_uid c = Some u \<Longrightarrow>
     sg_phase (sc_gate (scene_step e c)) = SwapDone \<and> sc_uid (scene_step e c) = Some u"
  by (cases e) (auto simp: scene_gate_defs)

lemma done_run:
  "sg_phase (sc_gate c) = SwapDone \<Longrightarrow> sc_uid c = Some u \<Longrightarrow> sc_uid (fold scene_step tr c) = Some u"
  by (induction tr arbitrary: c) (simp_all add: done_step)

text \<open>
  a session that ends before its first frame locks later users out.  When the gate is done
  while a session uid is recorded (the broker reported the end, or the leader exited, before
  the client painted), that uid stays recorded whatever happens afterwards: no Wayland peer
  other than this user and the greeter is ever authorised again, also after another user
  logged in.
\<close>

theorem early_session_end_locks_out_others:
  assumes "sg_phase (cp_swap s) = Arming opened0 first" and "cp_session_uid s = Some u"
    and "scene_events E e s = [SessionOver]"
  shows "cp_session_uid (comp_run E (comp_handle E e s) es) = Some u \<and>
    (wayland_peer_authorized peer (cp_greeter_uid s) (cp_session_uid (comp_run E (comp_handle E e s) es)) \<longleftrightarrow>
       peer = cp_greeter_uid s \<or> peer = u)"
proof -
  have "scene_of (comp_handle E e s) = scene_step SessionOver (scene_of s)" by (simp add: scene_of_handle assms(3))
  then have "sg_phase (sc_gate (scene_of (comp_handle E e s))) = SwapDone" "sc_uid (scene_of (comp_handle E e s)) = Some u"
    using assms(1,2) by (simp_all add: scene_gate_defs del: scene_of_sel) (simp_all add: scene_of_def)
  then have "sc_uid (scene_of (comp_run E (comp_handle E e s) es)) = Some u"
    by (simp add: scene_of_run done_run del: scene_of_sel)
  then show ?thesis by (auto simp: wayland_peer_authorized_def)
qed

theorem early_session_end_locks_out_others_witness:
  "let s = (new_compositor 990 ''login'' True None)\<lparr>cp_session_uid := Some 1000\<rparr> in
   \<not> wayland_peer_authorized 1001 990 (cp_session_uid (comp_run demo_episode_env (comp_handle demo_episode_env (LeaderReady 2 0 demo_swap) s)
       [ListenerReady [AcceptStream (Inr 990) (Inr ()) (Inr ()) True True]]))"
proof -
  let ?s = "(new_compositor 990 ''login'' True None)\<lparr>cp_session_uid := Some 1000\<rparr>"
  have p: "sg_phase (cp_swap ?s) = Arming False False" by (simp add: new_compositor_def new_swap_gate_def)
  have u: "cp_session_uid ?s = Some 1000" "cp_greeter_uid ?s = 990" by (simp_all add: new_compositor_def)
  have e: "scene_events demo_episode_env (LeaderReady 2 0 demo_swap) ?s = [SessionOver]" by simp
  have "\<not> wayland_peer_authorized 1001 990 (cp_session_uid (comp_run demo_episode_env
      (comp_handle demo_episode_env (LeaderReady 2 0 demo_swap) ?s) es))" for es
    using early_session_end_locks_out_others [OF p u(1) e, of es 1001] unfolding u(2)
    by (elim conjE) (simp add: wayland_peer_authorized_def del: comp_handle.simps)
  then show ?thesis unfolding Let_def .
qed

text \<open>
  a session that ends during a shutdown brings the greeter back.  After the wallpaper-only
  state of \<open>graceful_shutdown\<close> was entered with a session in front, the end of that session
  still reverts the gate, and the revert asks the broker for a new greeter.
\<close>

theorem shutdown_respawns_greeter:
  assumes "sg_phase (cp_swap s) = Swapped" and "cp_shutting_down s" and "ss_spawn_greeter K = Inr h"
  shows "cp_greeter (comp_handle E (LeaderReady t i K) s) = Some h \<and> cp_shutting_down (comp_handle E (LeaderReady t i K) s)"
proof -
  show ?thesis using assms
    by (simp add: finish_source_def handle_leader_pidfd_ready_def Let_def drive_gate_def session_client_gone_def revert_or_disarm_def
        apply_swap_action_def respawn_greeter_def put_conn_def emit_event_def render_def set_keyboard_focus_def log_calls_def
        split: option.split)
qed

theorem shutdown_respawns_greeter_witness:
  "let s = graceful_shutdown demo_swap PrepareForShutdown ((new_compositor 990 ''login'' True None)\<lparr>cp_swap := \<lparr>sg_phase = Swapped\<rparr>\<rparr>) in
   cp_greeter s = None \<and>
   cp_greeter (comp_handle demo_episode_env (LeaderReady 2 0 demo_swap) s) = Some \<lparr>gh_pid = 77, gh_pidfd = 9\<rparr>"
proof -
  let ?s = "graceful_shutdown demo_swap PrepareForShutdown ((new_compositor 990 ''login'' True None)\<lparr>cp_swap := \<lparr>sg_phase = Swapped\<rparr>\<rparr>)"
  have s: "sg_phase (cp_swap ?s) = Swapped" "cp_shutting_down ?s" "cp_greeter ?s = None"
    by (simp_all add: graceful_shutdown_def new_compositor_def emit_event_def render_def)
  have k: "ss_spawn_greeter demo_swap = Inr \<lparr>gh_pid = 77, gh_pidfd = 9\<rparr>" by (simp add: demo_swap_def)
  show ?thesis using shutdown_respawns_greeter [OF s(1,2) k, of demo_episode_env 2 0] s(3) by (simp add: Let_def del: comp_handle.simps)
qed

section \<open>Who may connect\<close>

text \<open>The operations on the scene leave the connections and the sources alone.\<close>

lemma neutral_conns [simp]:
  "cp_connections (emit_event e s) = cp_connections s" "cp_connections (log_calls cs s) = cp_connections s"
  "cp_connections (render x s) = cp_connections s" "cp_connections (set_keyboard_focus x s) = cp_connections s"
  "cp_connections (put_conn i c s) = (cp_connections s)(i \<mapsto> c)"
  "cp_connections (record_session_started sp s) = cp_connections s"
  "cp_connections (kill_greeter K s) = cp_connections s" "cp_connections (respawn_greeter K s) = cp_connections s"
  by (simp_all add: emit_event_def log_calls_def render_def set_keyboard_focus_def put_conn_def record_session_started_def
      kill_greeter_def respawn_greeter_def split: option.split sum.split)

lemma neutral_calls [simp]:
  "cp_calls (emit_event e s) = cp_calls s" "cp_calls (log_calls cs s) = cp_calls s @ cs"
  "cp_calls (render x s) = cp_calls s" "cp_calls (set_keyboard_focus x s) = cp_calls s"
  "cp_calls (put_conn i c s) = cp_calls s" "cp_calls (record_session_started sp s) = cp_calls s"
  "cp_calls (kill_greeter K s) = cp_calls s" "cp_calls (respawn_greeter K s) = cp_calls s"
  by (simp_all add: emit_event_def log_calls_def render_def set_keyboard_focus_def put_conn_def record_session_started_def
      kill_greeter_def respawn_greeter_def split: option.split sum.split)

lemma neutral_counters [simp]:
  "cp_next_token (emit_event e s) = cp_next_token s" "cp_next_token (log_calls cs s) = cp_next_token s"
  "cp_next_token (put_conn i c s) = cp_next_token s" "cp_next_token (record_session_started sp s) = cp_next_token s"
  "cp_next_conn_id (emit_event e s) = cp_next_conn_id s" "cp_next_conn_id (log_calls cs s) = cp_next_conn_id s"
  "cp_next_conn_id (put_conn i c s) = cp_next_conn_id s" "cp_next_conn_id (record_session_started sp s) = cp_next_conn_id s"
  "cp_idle (emit_event e s) = cp_idle s" "cp_idle (log_calls cs s) = cp_idle s"
  "cp_idle (put_conn i c s) = cp_idle s" "cp_idle (record_session_started sp s) = cp_idle s"
  by (simp_all add: emit_event_def log_calls_def put_conn_def record_session_started_def)

text \<open>What the connection-related part of the state is.\<close>

definition conn_part :: "compositor \<Rightarrow> (nat \<Rightarrow> conn_state option) \<times> loop_call list \<times> nat \<times> nat \<times> nat list" where
  "conn_part s = (cp_connections s, cp_calls s, cp_next_token s, cp_next_conn_id s, cp_idle s)"

lemma conn_part_swap [simp]: "conn_part (apply_swap_action K a s) = conn_part s"
  by (cases a) (simp_all add: apply_swap_action_def Let_def conn_part_def kill_greeter_def respawn_greeter_def emit_event_def
      render_def set_keyboard_focus_def split: option.split sum.split)

lemma conn_part_drive [simp]: "conn_part (drive_gate K op s) = conn_part s"
proof -
  have "conn_part (s\<lparr>cp_swap := g\<rparr>) = conn_part s" for g by (simp add: conn_part_def)
  then show ?thesis by (simp add: drive_gate_def split_beta)
qed

lemma conn_part_emit [simp]: "conn_part (emit_event e s) = conn_part s"
  by (simp add: conn_part_def)

lemma conn_part_records [simp]: "conn_part (fold record_session_started sps s) = conn_part s"
proof -
  have "conn_part (record_session_started sp t) = conn_part t" for sp t by (simp add: conn_part_def)
  then show ?thesis by (induction sps arbitrary: s) simp_all
qed

lemma conn_part_reap [simp]: "conn_part (reap_zombie_children ws s) = conn_part s"
proof -
  have "conn_part (t\<lparr>cp_greeter := g\<rparr>) = conn_part t" for t g by (simp add: conn_part_def)
  then show ?thesis by (induction ws s rule: reap_zombie_children.induct) (simp_all split: reap_outcome.split)
qed

lemma conn_part_scene_only:
  "conn_part (comp_handle E (Committed uid hb ne surface K) s) = conn_part s"
  "conn_part (comp_handle E (LayerCommitted role surface hb ki) s) = conn_part s"
  "conn_part (comp_handle E (ToplevelNew t) s) = conn_part s"
  "conn_part (comp_handle E (ToplevelGone t K) s) = conn_part s"
  "conn_part (comp_handle E (ChildrenReaped ws) s) = conn_part s"
  "conn_part (comp_handle E (StopSignal sig K) s) = conn_part s"
  "conn_part (comp_handle E (ShutdownAnnounced K) s) = conn_part s"
proof -
  have p: "conn_part (set_keyboard_focus x t) = conn_part t" "conn_part (render x t) = conn_part t"
    "conn_part (t\<lparr>cp_first_frame_emitted := b\<rparr>) = conn_part t" "conn_part (t\<lparr>cp_toplevel := y\<rparr>) = conn_part t"
    "conn_part (t\<lparr>cp_greeter := g\<rparr>) = conn_part t" "conn_part (t\<lparr>cp_should_exit := b\<rparr>) = conn_part t"
    "conn_part (t\<lparr>cp_shutting_down := b\<rparr>) = conn_part t" "conn_part (t\<lparr>cp_foreground := f\<rparr>) = conn_part t"
    "conn_part (t\<lparr>cp_seen_roles := rs\<rparr>) = conn_part t" "conn_part (t\<lparr>cp_greeter_swap := gg\<rparr>) = conn_part t"
    for t x b y g f rs gg by (simp_all add: conn_part_def set_keyboard_focus_def render_def)
  have down: "conn_part (graceful_shutdown K reason s) = conn_part s" for reason
    by (simp add: graceful_shutdown_def Let_def p split: option.split sum.split)
  show "conn_part (comp_handle E (Committed uid hb ne surface K) s) = conn_part s"
    by (simp add: maybe_emit_session_first_frame_def maybe_focus_foreground_toplevel_def p split: option.split)
  show "conn_part (comp_handle E (LayerCommitted role surface hb ki) s) = conn_part s"
    by (simp add: layer_first_frame_def Let_def p)
  show "conn_part (comp_handle E (ToplevelGone t K) s) = conn_part s"
    by (simp add: toplevel_destroyed_def Let_def p)
  show "conn_part (comp_handle E (StopSignal sig K) s) = conn_part s"
    by (simp add: handle_stop_signal_def Let_def p down)
  show "conn_part (comp_handle E (ShutdownAnnounced K) s) = conn_part s" by (simp add: down)
qed (simp_all add: new_toplevel_def conn_part_def [symmetric], simp add: conn_part_def)

text \<open>The identities the broker reported on the channel of connection \<open>i\<close>.\<close>

fun broker_datagrams :: "nat \<Rightarrow> comp_event list \<Rightarrow> ep_event list" where
  "broker_datagrams i [] = []"
| "broker_datagrams i (BrokerReady t j readable received K ok # es) =
     (if j = i \<and> readable then BrokerReadable received # broker_datagrams i es else broker_datagrams i es)"
| "broker_datagrams i (e # es) = broker_datagrams i es"

definition reported_on :: "episode_env \<Rightarrow> comp_event list \<Rightarrow> nat \<Rightarrow> identity set" where
  "reported_on E es i = reported E (broker_datagrams i es)"

lemma broker_datagrams_append: "broker_datagrams i (es @ fs) = broker_datagrams i es @ broker_datagrams i fs"
  by (induction i es rule: broker_datagrams.induct) simp_all

lemma reported_on_snoc: "reported_on E (es @ [e]) i = reported_on E es i \<union> reported_on E [e] i"
  by (auto simp: reported_on_def reported_def broker_datagrams_append)

definition episodes_ok :: "(nat \<Rightarrow> identity set) \<Rightarrow> compositor \<Rightarrow> bool" where
  "episodes_ok ids s \<longleftrightarrow> (\<forall>i c. cp_connections s i = Some c \<longrightarrow> ep_inv (ids i) (co_episode c))"

lemma episodes_ok_put: "episodes_ok ids s \<Longrightarrow> ep_inv (ids i) (co_episode c) \<Longrightarrow> episodes_ok ids (put_conn i c s)"
  by (auto simp: episodes_ok_def)

lemma episodes_ok_conns: "cp_connections t = cp_connections s \<Longrightarrow> episodes_ok ids s \<Longrightarrow> episodes_ok ids t"
  by (simp add: episodes_ok_def)

lemma episodes_ok_del: "episodes_ok ids s \<Longrightarrow> cp_connections t = (cp_connections s)(i := None) \<Longrightarrow> episodes_ok ids t"
  by (auto simp: episodes_ok_def)

lemma conn_part_conns: "conn_part t = conn_part s \<Longrightarrow> cp_connections t = cp_connections s"
  by (simp add: conn_part_def)

lemma fresh_episode_inv: "ep_inv ids (fresh_episode service)"
proof -
  have "ep_inv (reported undefined []) (fresh_episode service)" using ep_run_inv [of undefined "[]" service] by simp
  then show ?thesis by (rule ep_inv_mono) (auto simp: reported_def)
qed

lemma accept_episodes: "episodes_ok ids s \<Longrightarrow> episodes_ok ids (accept_one a b c d e s)"
  by (auto simp: accept_one_def Let_def episodes_ok_def fresh_episode_inv split: sum.split)

lemma listener_episodes: "episodes_ok ids s \<Longrightarrow> episodes_ok ids (handle_listener_ready rs s)"
  by (induction rs s rule: handle_listener_ready.induct) (simp_all add: accept_episodes)

lemma read_loop_inv:
  "ep_inv ids (co_episode c) \<Longrightarrow> read_loop E reads c = (c', sps) \<Longrightarrow>
     ep_inv ids (co_episode c') \<and> (\<forall>sp \<in> set sps. spawn_identity sp \<in> ids)"
proof (induction reads arbitrary: c c' sps)
  case Nil
  then show ?case by simp
next
  case (Cons r rs)
  show ?case
  proof (cases "\<exists>bytes. r = ReadBytes bytes")
    case False
    then show ?thesis using Cons.prems by (cases r) (auto simp: end_unless_spawned_def)
  next
    case True
    then obtain bytes where r: "r = ReadBytes bytes" by blast
    obtain out ep where o: "on_greeter_bytes E (co_episode c) bytes = (out, ep)" by force
    note inv = on_greeter_bytes_inv [OF Cons.prems(1) o]
    let ?c1 = "c\<lparr>co_episode := ep, co_write_buf := co_write_buf c @ greeter_reply out\<rparr>"
    let ?c2 = "case spawned out of Some sp \<Rightarrow> ?c1\<lparr>co_spawned := True\<rparr> | None \<Rightarrow> ?c1"
    let ?sps = "case spawned out of Some sp \<Rightarrow> [sp] | None \<Rightarrow> []"
    have p: "(case spawned out of Some sp \<Rightarrow> (?c1\<lparr>co_spawned := True\<rparr>, [sp]) | None \<Rightarrow> (?c1, [])) = (?c2, ?sps)"
      by (simp split: option.split)
    have c2: "ep_inv ids (co_episode ?c2)" using inv by (simp split: option.split)
    have sps: "\<forall>sp \<in> set ?sps. spawn_identity sp \<in> ids" using inv by (auto simp: spawn_ok_def split: option.splits)
    show ?thesis
    proof (cases "terminate out")
      case True
      then show ?thesis using Cons.prems(2) r o p c2 sps by (auto split: option.splits)
    next
      case False
      obtain c3 more where m: "read_loop E rs ?c2 = (c3, more)" by force
      have "ep_inv ids (co_episode c3) \<and> (\<forall>sp \<in> set more. spawn_identity sp \<in> ids)"
        using Cons.IH [OF c2 m] .
      moreover have "c' = c3" "sps = ?sps @ more" using Cons.prems(2) r o p m False by (auto simp: Let_def)
      ultimately show ?thesis using sps by auto
    qed
  qed
qed

lemma write_loop_episode [simp]: "co_episode (write_loop ws c) = co_episode c"
  by (induction ws c rule: write_loop.induct) (simp_all add: end_unless_spawned_def split: write_result.split)

lemma idle_episodes: "episodes_ok ids s \<Longrightarrow> episodes_ok ids (run_idle s)"
proof -
  have "episodes_ok ids t \<Longrightarrow> episodes_ok ids (drop_idle i t)" for i t
    by (auto simp: drop_idle_def episodes_ok_def log_calls_def split: option.split)
  then have "episodes_ok ids t \<Longrightarrow> episodes_ok ids (fold drop_idle is t)" for "is" t
    by (induction "is" arbitrary: t) simp_all
  moreover have "episodes_ok ids (s\<lparr>cp_idle := []\<rparr>) = episodes_ok ids s" by (simp add: episodes_ok_def)
  ultimately show "episodes_ok ids s \<Longrightarrow> ?thesis" by (simp add: run_idle_def)
qed

lemma finish_episodes: "episodes_ok ids (snd r) \<Longrightarrow> episodes_ok ids (finish_source t r)"
  by (cases r; cases "fst r") (auto simp: finish_source_def elim: episodes_ok_conns [rotated])

lemma conclude_episodes: "episodes_ok ids s \<Longrightarrow> ep_inv (ids i) (co_episode c) \<Longrightarrow> episodes_ok ids (snd (conclude_connection i c s))"
  by (auto simp: conclude_connection_def episodes_ok_def log_calls_def)

lemma connection_episodes:
  assumes "episodes_ok ids s"
  shows "episodes_ok ids (snd (handle_connection_ready E i readable w reads writes s)) \<and>
    (\<forall>u. SessionStarted u \<in> set (scene_events E (GreeterReady t i readable w reads writes) s) \<longrightarrow> (\<exists>name g. (name, u, g) \<in> ids i))"
proof (cases "cp_connections s i")
  case None
  then show ?thesis using assms by (simp add: handle_connection_ready_def)
next
  case (Some c)
  obtain c1 sps where r: "(if readable then read_loop E reads c else (c, [])) = (c1, sps)" by force
  have i: "ep_inv (ids i) (co_episode c)" using assms Some by (simp add: episodes_ok_def)
  have l: "ep_inv (ids i) (co_episode c1) \<and> (\<forall>sp \<in> set sps. spawn_identity sp \<in> ids i)"
    using read_loop_inv [OF i] r i by (auto split: if_splits)
  let ?c2 = "if w \<and> co_write_buf c1 \<noteq> [] then write_loop writes c1 else c1"
  have c2: "ep_inv (ids i) (co_episode ?c2)" using l by simp
  have "cp_connections (fold record_session_started sps s) = cp_connections s" by (rule conn_part_conns) simp
  then have "episodes_ok ids (put_conn i ?c2 (fold record_session_started sps s))"
    using assms c2 by (intro episodes_ok_put) (auto elim: episodes_ok_conns)
  then have "episodes_ok ids (snd (handle_connection_ready E i readable w reads writes s))"
    using Some r conclude_episodes [of ids _ i ?c2] c2 by (simp add: handle_connection_ready_def Let_def split del: if_split)
  moreover have "\<exists>name g. (name, u, g) \<in> ids i" if "SessionStarted u \<in> set (scene_events E (GreeterReady t i readable w reads writes) s)" for u
    using that Some r l by (auto split: if_splits)
  ultimately show ?thesis by blast
qed

lemma take_pidfd_inv: "ep_inv ids ep \<Longrightarrow> ep_inv ids (snd (take_leader_pidfd ep))"
  by (simp add: take_leader_pidfd_def ep_inv_def)

lemma arm_episodes: "episodes_ok ids s \<Longrightarrow> episodes_ok ids (arm_leader_pidfd_backstop ok i s)"
proof (cases "cp_connections s i")
  case (Some c)
  assume ok: "episodes_ok ids s"
  then have "ep_inv (ids i) (snd (take_leader_pidfd (co_episode c)))" using Some by (simp add: episodes_ok_def take_pidfd_inv)
  then show ?thesis using ok Some
    by (auto simp: arm_leader_pidfd_backstop_def episodes_ok_def split_beta Let_def split: option.split)
qed (simp add: arm_leader_pidfd_backstop_def)

lemma outcome_episodes: "episodes_ok ids s \<Longrightarrow> episodes_ok ids (apply_broker_outcome K ok i out s)"
proof -
  have d: "episodes_ok ids (drive_gate K op t) = episodes_ok ids t" "episodes_ok ids (emit_event e t) = episodes_ok ids t" for op t e
    by (simp_all add: episodes_ok_def conn_part_conns [OF conn_part_drive])
  show "episodes_ok ids s \<Longrightarrow> ?thesis"
    by (simp add: apply_broker_outcome_def Let_def d arm_episodes split: option.split)
qed

lemma broker_episodes:
  assumes "episodes_ok ids s" and "reported_on E [BrokerReady t i readable received K ok] i \<subseteq> ids i"
  shows "episodes_ok ids (snd (handle_broker_ready E K ok i readable received s)) \<and>
    (\<forall>u. SessionStarted u \<in> set (scene_events E (BrokerReady t i readable received K ok) s) \<longrightarrow> (\<exists>name g. (name, u, g) \<in> ids i))"
proof (cases "cp_connections s i")
  case None
  then show ?thesis using assms by (simp add: handle_broker_ready_def)
next
  case (Some c)
  obtain out ep where o: "on_broker_readable E (co_episode c) received = (out, ep)" by force
  have i: "ep_inv (ids i) (co_episode c)" using assms Some by (simp add: episodes_ok_def)
  have idle: "episodes_ok ids (u\<lparr>cp_idle := js\<rparr>) = episodes_ok ids u" for u js by (simp add: episodes_ok_def)
  show ?thesis
  proof (cases readable)
    case True
    then have "reported E [BrokerReadable received] \<subseteq> ids i" using assms(2) by (simp add: reported_on_def)
    note inv = on_broker_readable_inv [OF i o this]
    let ?s1 = "case spawned out of Some sp \<Rightarrow> record_session_started sp s | None \<Rightarrow> s"
    have "cp_connections ?s1 = cp_connections s" by (simp split: option.split)
    then have "episodes_ok ids (put_conn i d ?s1)" if "co_episode d = ep" for d
      using assms(1) inv that by (intro episodes_ok_put) (auto elim: episodes_ok_conns)
    then have "episodes_ok ids (apply_broker_outcome K ok i out (put_conn i d ?s1))" if "co_episode d = ep" for d
      using that by (intro outcome_episodes)
    then have "episodes_ok ids (snd (handle_broker_ready E K ok i readable received s))"
      using Some o True idle by (simp add: handle_broker_ready_def Let_def)
    moreover have "\<exists>name g. (name, u, g) \<in> ids i"
      if started: "SessionStarted u \<in> set (scene_events E (BrokerReady t i readable received K ok) s)" for u
    proof -
      obtain sp where "spawned out = Some sp" "u = sr_uid sp"
        using started Some o True by (cases "spawned out") (auto simp: spawn_events_def split: if_splits)
      then have "(sr_username sp, u, sr_gid sp) \<in> ids i" using inv by (simp add: spawn_ok_def)
      then show ?thesis by blast
    qed
    ultimately show ?thesis by blast
  next
    case False
    have "episodes_ok ids (apply_broker_outcome K ok i default_outcome (put_conn i c s))"
      using assms(1) i by (intro outcome_episodes episodes_ok_put)
    then show ?thesis using Some False idle
      by (simp add: handle_broker_ready_def Let_def default_outcome_def)
  qed
qed

lemma scene_uid_origin: "sc_uid (fold scene_step tr c) = Some u \<Longrightarrow> sc_uid c = Some u \<or> SessionStarted u \<in> set tr"
proof (induction tr arbitrary: c)
  case (Cons e tr)
  have g: "sc_uid (scene_gate op d) = Some u \<Longrightarrow> sc_uid d = Some u" for op d
    by (cases "fst (op (sc_gate d))") (auto simp: scene_gate_def split_beta)
  have "sc_uid (scene_step e c) = Some u \<Longrightarrow> sc_uid c = Some u \<or> e = SessionStarted u"
    by (cases e) (auto split: if_splits dest!: g)
  then show ?case using Cons by fastforce
qed simp

definition auth_inv :: "episode_env \<Rightarrow> comp_event list \<Rightarrow> compositor \<Rightarrow> bool" where
  "auth_inv E es s \<longleftrightarrow> episodes_ok (reported_on E es) s \<and>
     (\<forall>u. cp_session_uid s = Some u \<longrightarrow> (\<exists>i name g. (name, u, g) \<in> reported_on E es i))"

lemma episodes_ok_mono: "episodes_ok ids s \<Longrightarrow> (\<And>i. ids i \<subseteq> ids' i) \<Longrightarrow> episodes_ok ids' s"
  unfolding episodes_ok_def using ep_inv_mono by blast

lemma auth_inv_step:
  assumes "auth_inv E es s"
  shows "auth_inv E (es @ [e]) (comp_handle E e s)"
proof -
  let ?ids = "reported_on E (es @ [e])"
  have ok: "episodes_ok ?ids s"
    using assms by (auto simp: auth_inv_def reported_on_snoc elim!: episodes_ok_mono)
  have new: "reported_on E [e] i \<subseteq> ?ids i" for i by (simp add: reported_on_snoc)
  have main: "episodes_ok ?ids (comp_handle E e s) \<and>
    (\<forall>u. SessionStarted u \<in> set (scene_events E e s) \<longrightarrow> (\<exists>i name g. (name, u, g) \<in> ?ids i))"
  proof (cases e)
    case (ListenerReady rs)
    then show ?thesis using ok by (simp add: listener_episodes)
  next
    case (GreeterReady t i readable w reads writes)
    note c = connection_episodes [OF ok, of E i readable w reads writes t, folded GreeterReady]
    have "episodes_ok ?ids (comp_handle E e s)" using c by (simp add: GreeterReady finish_episodes)
    then show ?thesis using c by meson
  next
    case (BrokerReady t i readable received K b)
    note c = broker_episodes [OF ok, of E t i readable received K b, folded BrokerReady, OF new]
    have "episodes_ok ?ids (comp_handle E e s)" using c by (simp add: BrokerReady finish_episodes)
    then show ?thesis using c by meson
  next
    case IdlesRun
    then show ?thesis using idle_episodes [OF ok] by simp
  next
    case (LeaderReady t i K)
    have "cp_connections (drive_gate K session_client_gone u) = cp_connections u" for u
      by (rule conn_part_conns) simp
    then have "episodes_ok ?ids (snd (handle_leader_pidfd_ready K i s))"
      using ok by (auto simp: handle_leader_pidfd_ready_def Let_def episodes_ok_def split: option.split if_splits)
    then show ?thesis using LeaderReady by (auto intro!: finish_episodes)
  qed (use ok conn_part_conns [OF conn_part_scene_only(1)] conn_part_conns [OF conn_part_scene_only(2)]
      conn_part_conns [OF conn_part_scene_only(3)] conn_part_conns [OF conn_part_scene_only(4)]
      conn_part_conns [OF conn_part_scene_only(5)] conn_part_conns [OF conn_part_scene_only(6)]
      conn_part_conns [OF conn_part_scene_only(7)] in \<open>auto simp: episodes_ok_def simp del: comp_handle.simps\<close>)
  moreover have "\<exists>i name g. (name, u, g) \<in> ?ids i" if u: "cp_session_uid (comp_handle E e s) = Some u" for u
  proof -
    have "sc_uid (fold scene_step (scene_events E e s) (scene_of s)) = Some u"
      using u by (simp add: scene_of_handle [symmetric])
    then consider "cp_session_uid s = Some u" | "SessionStarted u \<in> set (scene_events E e s)"
      using scene_uid_origin by fastforce
    then show ?thesis
    proof cases
      case 1
      then show ?thesis using assms unfolding auth_inv_def reported_on_snoc by blast
    qed (use main in blast)
  qed
  ultimately show ?thesis by (simp add: auth_inv_def)
qed

lemma auth_inv_run: "auth_inv E es (comp_run E (new_compositor guid service armed greeter) es)"
proof (induction es rule: rev_induct)
  case Nil
  then show ?case by (simp add: auth_inv_def episodes_ok_def new_compositor_def)
qed (simp add: auth_inv_step)

text \<open>
  C10: the Wayland socket admits only the greeter and users the broker authenticated.  In every
  history of the compositor a peer that passes the gate has the greeter's uid, or the uid of
  an identity the broker reported as authenticated on the channel of one of the greetd
  connections.
\<close>

theorem wayland_peers_are_authenticated:
  assumes "wayland_peer_authorized peer guid (cp_session_uid (comp_run E (new_compositor guid service armed greeter) es))"
  shows "peer = guid \<or> (\<exists>i name gid. (name, peer, gid) \<in> reported_on E es i)"
  using assms auth_inv_run [of E es guid service armed greeter]
  by (auto simp: wayland_peer_authorized_def auth_inv_def)

lemmas comp_eval = accept_one_def MAX_GREETD_CONNECTIONS_def log_calls_def put_conn_def emit_event_def
  finish_source_def handle_connection_ready_def handle_broker_ready_def apply_broker_outcome_def
  record_session_started_def end_unless_spawned_def conclude_connection_def run_idle_def

lemma login_uid: "cp_session_uid (comp_run demo_episode_env (new_compositor 990 ''login'' True None) login_events) = Some 1000"
  by (simp add: login_events_def new_compositor_def comp_eval episode_eval)

theorem wayland_peers_are_authenticated_witness:
  "\<exists>i name gid. (name, 1000, gid) \<in> reported_on demo_episode_env login_events i"
proof -
  have "wayland_peer_authorized 1000 990 (cp_session_uid (comp_run demo_episode_env (new_compositor 990 ''login'' True None) login_events))"
    by (simp add: login_uid wayland_peer_authorized_def)
  from wayland_peers_are_authenticated [OF this] show ?thesis by simp
qed

end
