(* ===== verification/Compositor_Sources.thy ===== *)
theory Compositor_Sources
  imports Compositor
begin

text \<open>
  Sources and descriptors of the compositor's event loop (\<open>crates/halmasuit/src/main.rs\<close>).  The broker source
  and the leader source of a greetd connection borrow descriptors the connection owns; the
  code takes them out of the loop before it drops the connection, partly through an idle
  callback.  The calls recorded by \<open>Compositor\<close> are replayed into the set of registered
  sources, and an invariant over all reachable states shows that the order is kept.
\<close>

section \<open>Borrowed descriptors\<close>

text \<open>The sources in the loop after a sequence of calls, and what each belongs to.\<close>

datatype src = GreeterSrc | BrokerSrc | LeaderSrc

fun reg_step :: "(nat \<times> src \<times> nat) set \<Rightarrow> loop_call \<Rightarrow> (nat \<times> src \<times> nat) set" where
  "reg_step R (InsertGreeter t i) = insert (t, GreeterSrc, i) R"
| "reg_step R (InsertBroker t i) = insert (t, BrokerSrc, i) R"
| "reg_step R (InsertLeader t i) = insert (t, LeaderSrc, i) R"
| "reg_step R (RemoveSource t) = {x \<in> R. fst x \<noteq> t}"
| "reg_step R _ = R"

definition reg :: "loop_call list \<Rightarrow> (nat \<times> src \<times> nat) set" where
  "reg cs = foldl reg_step {} cs"

text \<open>The owner of a borrowed descriptor is dropped only when no source borrows it any more.\<close>

fun drop_safe :: "(nat \<times> src \<times> nat) set \<Rightarrow> loop_call \<Rightarrow> bool" where
  "drop_safe R (DropConn i) = (\<forall>t k j. (t, k, j) \<in> R \<longrightarrow> j = i \<longrightarrow> k = GreeterSrc)"
| "drop_safe R (DropPidfd i) = (\<forall>t k j. (t, k, j) \<in> R \<longrightarrow> j = i \<longrightarrow> k \<noteq> LeaderSrc)"
| "drop_safe R _ = True"

definition borrows_safe :: "loop_call list \<Rightarrow> bool" where
  "borrows_safe cs \<longleftrightarrow> (\<forall>pre call post. cs = pre @ call # post \<longrightarrow> drop_safe (reg pre) call)"

lemma reg_append: "reg (cs @ ds) = foldl reg_step (reg cs) ds"
  by (simp add: reg_def)

lemma borrows_safe_snoc: "borrows_safe (cs @ [call]) \<longleftrightarrow> borrows_safe cs \<and> drop_safe (reg cs) call"
proof -
  have "(\<exists>post. cs @ [call] = pre @ x # post) \<longleftrightarrow> (\<exists>post. cs = pre @ x # post) \<or> (pre = cs \<and> x = call)" for pre x
    by (auto simp: append_eq_append_conv2 append_eq_Cons_conv Cons_eq_append_conv)
  then show ?thesis unfolding borrows_safe_def by blast
qed

lemma borrows_safe_Nil [simp]: "borrows_safe []"
  by (simp add: borrows_safe_def)

lemma borrows_safe_removes: "borrows_safe cs \<Longrightarrow> borrows_safe (cs @ map RemoveSource ts)"
proof (induction ts rule: rev_induct)
  case (snoc t ts)
  then show ?case using borrows_safe_snoc [of "cs @ map RemoveSource ts" "RemoveSource t"] by simp
qed simp

lemma reg_removes: "reg (cs @ map RemoveSource ts) = {x \<in> reg cs. fst x \<notin> set ts}"
  by (induction ts rule: rev_induct) (auto simp: reg_append)

lemma remove_token_map: "remove_token t = map RemoveSource (case t of Some k \<Rightarrow> [k] | None \<Rightarrow> [])"
  by (simp add: remove_token_def split: option.split)

fun token_of :: "src \<Rightarrow> conn_state \<Rightarrow> nat option" where
  "token_of GreeterSrc c = co_greeter_token c"
| "token_of BrokerSrc c = co_broker_token c"
| "token_of LeaderSrc c = co_leader_token c"

text \<open>The broker has announced the session of an episode, or the episode is over.\<close>

definition opened_past :: "broker_episode \<Rightarrow> bool" where
  "opened_past ep \<longleftrightarrow> (case ep_relay ep of Some r \<Rightarrow> br_phase r \<in> {Running, PhaseDone} | None \<Rightarrow> False)"

definition conn_ok :: "conn_state \<Rightarrow> bool" where
  "conn_ok c \<longleftrightarrow> (co_leader_pidfd c \<noteq> None \<or> co_leader_token c \<noteq> None \<longrightarrow> opened_past (co_episode c))"

definition src_core :: "compositor \<Rightarrow> bool" where
  "src_core s \<longleftrightarrow>
     (\<forall>t k i. (t, k, i) \<in> reg (cp_calls s) \<longrightarrow> t < cp_next_token s \<and> (\<exists>c. cp_connections s i = Some c \<and> token_of k c = Some t)) \<and>
     (\<forall>i c. cp_connections s i = Some c \<longrightarrow> i < cp_next_conn_id s \<and> conn_ok c) \<and>
     borrows_safe (cp_calls s) \<and> finite (dom (cp_connections s)) \<and> card (dom (cp_connections s)) \<le> MAX_GREETD_CONNECTIONS"

text \<open>A connection whose idle drop is scheduled has at most its leader source left in the loop.\<close>

definition only_leader :: "nat \<Rightarrow> compositor \<Rightarrow> bool" where
  "only_leader i s \<longleftrightarrow> (\<forall>t k. (t, k, i) \<in> reg (cp_calls s) \<longrightarrow> k = LeaderSrc)"

definition idle_ok :: "compositor \<Rightarrow> bool" where
  "idle_ok s \<longleftrightarrow> (\<forall>i \<in> set (cp_idle s). i < cp_next_conn_id s \<and> only_leader i s)"

definition src_inv :: "compositor \<Rightarrow> bool" where
  "src_inv s \<longleftrightarrow> src_core s \<and> idle_ok s"

lemma src_inv_cong: "conn_part t = conn_part s \<Longrightarrow> src_inv t = src_inv s"
  by (simp add: src_inv_def src_core_def idle_ok_def only_leader_def conn_part_def)

lemma src_core_cong: "conn_part t = conn_part s \<Longrightarrow> src_core t = src_core s"
  by (simp add: src_core_def conn_part_def)

text \<open>A connection that keeps its tokens.\<close>

lemma src_core_update:
  assumes "src_core s" "cp_connections s i = Some c" "\<And>k. token_of k d = token_of k c" "conn_ok d"
  shows "src_core (put_conn i d s)"
proof -
  have "insert i (dom (cp_connections s)) = dom (cp_connections s)" using assms(2) by auto
  then show ?thesis using assms unfolding src_core_def by (auto simp: dom_fun_upd) (metis option.inject)+
qed

lemma reg_token: "src_core s \<Longrightarrow> cp_connections s i = Some c \<Longrightarrow> (x, k, i) \<in> reg (cp_calls s) \<Longrightarrow> token_of k c = Some x"
  unfolding src_core_def by fastforce

text \<open>Dropping a connection whose sources are taken out of the loop around the drop.\<close>

lemma src_core_drop:
  assumes core: "src_core s" and c: "cp_connections s i = Some c"
    and borrowed: "\<And>k x. (x, k, i) \<in> reg (cp_calls s) \<Longrightarrow> k \<noteq> GreeterSrc \<Longrightarrow> x \<in> set pre"
    and all: "\<And>x. (x, GreeterSrc, i) \<in> reg (cp_calls s) \<Longrightarrow> x \<in> set pre \<union> set post"
    and t: "cp_calls t = cp_calls s @ map RemoveSource pre @ [DropConn i] @ map RemoveSource post"
      "cp_connections t = (cp_connections s)(i := None)" "cp_next_token t = cp_next_token s" "cp_next_conn_id t = cp_next_conn_id s"
  shows "src_core t"
proof -
  let ?R = "reg (cp_calls s @ map RemoveSource pre)"
  have R: "(x, k, j) \<in> ?R \<Longrightarrow> j = i \<Longrightarrow> k = GreeterSrc" for x k j
    using borrowed [of x k] unfolding reg_removes by auto
  have r: "reg (cp_calls t) = {x \<in> reg (cp_calls s). fst x \<notin> set pre \<union> set post}"
    unfolding t(1) using reg_removes [of "cp_calls s @ map RemoveSource pre @ [DropConn i]" post]
    by (auto simp: reg_append reg_removes [unfolded reg_append])
  have "borrows_safe (cp_calls s @ map RemoveSource pre)" using core by (simp add: src_core_def borrows_safe_removes)
  then have "borrows_safe ((cp_calls s @ map RemoveSource pre) @ [DropConn i])"
    unfolding borrows_safe_snoc using R by auto
  then have safe: "borrows_safe (cp_calls t)" unfolding t(1) using borrows_safe_removes by (metis append.assoc)
  have "\<exists>d. cp_connections t j = Some d \<and> token_of k d = Some x" if m: "(x, k, j) \<in> reg (cp_calls t)" for x k j
  proof (cases "j = i")
    case True
    have "(x, k, i) \<in> reg (cp_calls s)" "x \<notin> set pre \<union> set post" using m True by (auto simp: r)
    then show ?thesis using borrowed [of x k] all [of x] by (cases "k = GreeterSrc") auto
  next
    case False
    then show ?thesis using m core unfolding src_core_def by (auto simp: r t(2))
  qed
  moreover have "card (dom (cp_connections t)) \<le> card (dom (cp_connections s))"
    using core unfolding src_core_def by (auto simp: t(2) intro: card_mono)
  ultimately show ?thesis using core safe unfolding src_core_def by (auto simp: r t(2-4) split: if_splits)
qed

section \<open>An episode announces its session once\<close>

lemma poison_past [simp]: "br_phase (poison r) = PhaseDone"
  by (simp add: poison_def)

lemma fail_closed_past: "ep_relay ep \<noteq> None \<Longrightarrow> opened_past (snd (fail_closed E ep out))"
  by (auto simp: fail_closed_def opened_past_def split_beta)

lemma fail_closed_keeps: "opened_past ep \<Longrightarrow> opened_past (snd (fail_closed E ep out))"
  by (rule fail_closed_past) (auto simp: opened_past_def split: option.splits)

lemma opened_past_fields [simp]:
  "opened_past (ep\<lparr>ep_conn := c\<rparr>) = opened_past ep" "opened_past (ep\<lparr>pending_challenges := ps\<rparr>) = opened_past ep"
  "opened_past (ep\<lparr>greetd_ready_for_challenge := b\<rparr>) = opened_past ep" "opened_past (ep\<lparr>leader_pidfd := f\<rparr>) = opened_past ep"
  "opened_past (ep\<lparr>ep_chan := ch\<rparr>) = opened_past ep"
  "opened_past (ep\<lparr>ep_relay := Some r\<rparr>) = (br_phase r = Running \<or> br_phase r = PhaseDone)"
  "opened_past (ep\<lparr>greetd_ready_for_challenge := b, ep_relay := Some r\<rparr>) = (br_phase r = Running \<or> br_phase r = PhaseDone)"
  by (simp_all add: opened_past_def)

lemma send_or_fail_keeps: "opened_past ep \<Longrightarrow> opened_past (snd (send_or_fail E ep f out sent))"
  by (cases E "ep_chan ep" f rule: channel_send_cases)
    (auto simp: send_or_fail_def intro!: fail_closed_keeps)

lemma opened_past_relay: "opened_past ep \<Longrightarrow> \<exists>r. ep_relay ep = Some r \<and> (br_phase r = Running \<or> br_phase r = PhaseDone)"
  by (auto simp: opened_past_def split: option.splits)

lemma act_on_demand_keeps:
  assumes "opened_past ep"
  shows "opened_past (snd (act_on_demand E ep rep d out))"
proof -
  obtain r where r: "ep_relay ep = Some r" "br_phase r = Running \<or> br_phase r = PhaseDone"
    using opened_past_relay [OF assms] by blast
  show ?thesis
  proof (cases d)
    case (DemandPam resp)
    have "on_pam_step r resp = (Inl OutOfPhase, r)" using r(2) by (auto simp: on_pam_step_def)
    then show ?thesis using DemandPam r assms
      by (subst act_on_demand.simps) (auto simp: relay_for_pam_def Let_def intro!: fail_closed_keeps)
  next
    case (DemandSpawn sp)
    have "start_session r cmd env = (Inl OutOfPhase, r)" for cmd env using r(2) by (auto simp: start_session_def)
    then show ?thesis using DemandSpawn r assms
      by (subst act_on_demand.simps)
        (auto simp: act_on_spawn_def Let_def intro!: fail_closed_keeps split: option.split)
  qed (use assms in \<open>subst act_on_demand.simps, simp\<close>)+
qed

lemma on_greeter_bytes_keeps: "opened_past ep \<Longrightarrow> opened_past (snd (on_greeter_bytes E ep bytes))"
  by (simp add: on_greeter_bytes_def split_beta Let_def act_on_demand_keeps split: sum.split)

lemma on_broker_frame_past:
  "br_phase r = Running \<or> br_phase r = PhaseDone \<Longrightarrow>
     br_phase (snd (on_broker_frame r f)) = Running \<or> br_phase (snd (on_broker_frame r f)) = PhaseDone"
  "br_phase r = Running \<or> br_phase r = PhaseDone \<Longrightarrow> fst (on_broker_frame r f) \<noteq> Inr RelaySessionOpened"
  "br_phase r = Running \<or> br_phase r = PhaseDone \<Longrightarrow> fst (on_broker_frame r f) \<noteq> Inr (RelayPam step)"
  "fst (on_broker_frame r f) = Inr RelaySessionOpened \<Longrightarrow> br_phase (snd (on_broker_frame r f)) = Running"
  by (auto simp: on_broker_frame_def split: broker_to_compositor.splits relay_phase.splits)

lemma on_broker_readable_past:
  assumes past: "opened_past ep"
  shows "opened_past (snd (on_broker_readable E ep rcv)) \<and> \<not> session_opened_key (fst (on_broker_readable E ep rcv))"
proof -
  obtain r where r: "ep_relay ep = Some r" "br_phase r = Running \<or> br_phase r = PhaseDone"
    using opened_past_relay [OF past] by blast
  have f: "\<not> session_opened_key (fst (fail_closed E e default_outcome))" for e
    by (simp add: fail_closed_def split_beta default_outcome_def)
  show ?thesis
  proof (cases "fst (recv_with_fd E rcv)")
    case (Inl e)
    then show ?thesis using past f by (simp add: on_broker_readable_def fail_closed_keeps)
  next
    case (Inr o')
    show ?thesis
    proof (cases o')
      case None
      then show ?thesis using past Inr by (simp add: on_broker_readable_def default_outcome_def)
    next
      case (Some fp)
      obtain frame pidfd where fp: "fp = (frame, pidfd)" by force
      obtain ev r' where ev: "on_broker_frame r frame = (ev, r')" by force
      have p: "opened_past (ep\<lparr>ep_relay := Some r'\<rparr>)" and no: "ev \<noteq> Inr RelaySessionOpened" "\<And>st. ev \<noteq> Inr (RelayPam st)"
        using on_broker_frame_past(1-3) [OF r(2)] ev by (auto simp: opened_past_def) (metis fst_conv snd_conv)+
      then show ?thesis using Inr Some fp r ev f
        by (auto simp: on_broker_readable_def Let_def fail_closed_keeps default_outcome_def
            split: sum.split relay_event.split relay_error.split)
    qed
  qed
qed

lemma act_on_demand_opened: "session_opened_key (fst (act_on_demand E ep rep d out)) = session_opened_key out"
proof (induction "length (pending_challenges ep)" arbitrary: ep rep d out rule: less_induct)
  case less
  have f: "session_opened_key (fst (fail_closed E e o')) = session_opened_key o'" for e o'
    by (simp add: fail_closed_def split_beta)
  have sf: "session_opened_key st = session_opened_key o' \<Longrightarrow>
      session_opened_key (fst (send_or_fail E e fr o' st)) = session_opened_key o'" for e fr o' st
    by (simp add: send_or_fail_def f split: prod.split sum.split)
  show ?case
    by (subst act_on_demand.simps)
      (auto simp: Let_def f sf act_on_spawn_def less split: demand.split prod.split sum.split option.split list.split relay_error.split)
qed

lemma on_broker_readable_opened:
  assumes "session_opened_key (fst (on_broker_readable E ep rcv))"
  shows "opened_past (snd (on_broker_readable E ep rcv))"
proof -
  have f: "\<not> session_opened_key (fst (fail_closed E e default_outcome))" for e
    by (simp add: fail_closed_def split_beta default_outcome_def)
  have d: "\<not> session_opened_key default_outcome" by (simp add: default_outcome_def)
  obtain frame pidfd r where r: "fst (recv_with_fd E rcv) = Inr (Some (frame, pidfd))" "ep_relay ep = Some r"
    using assms f d by (auto simp: on_broker_readable_def split: sum.splits option.splits)
  obtain ev r' where ev: "on_broker_frame r frame = (ev, r')" by force
  have "ev = Inr RelaySessionOpened"
    using assms r ev f d
    by (auto simp: on_broker_readable_def Let_def act_on_demand_opened default_outcome_def split_beta
        split: sum.splits relay_event.splits relay_error.splits if_splits)
  then show ?thesis using r ev on_broker_frame_past(4) [of r frame] by (simp add: on_broker_readable_def)
qed

section \<open>Steps keep the sources in order\<close>

text \<open>Reads and writes touch neither the tokens nor the pidfd.\<close>

definition same_sources :: "conn_state \<Rightarrow> conn_state \<Rightarrow> bool" where
  "same_sources d c \<longleftrightarrow> co_greeter_token d = co_greeter_token c \<and> co_broker_token d = co_broker_token c \<and>
     co_leader_token d = co_leader_token c \<and> co_leader_pidfd d = co_leader_pidfd c \<and>
     (opened_past (co_episode c) \<longrightarrow> opened_past (co_episode d))"

lemma same_sources_refl [simp]: "same_sources c c"
  by (simp add: same_sources_def)

lemma same_sources_trans: "same_sources d c \<Longrightarrow> same_sources e d \<Longrightarrow> same_sources e c"
  by (simp add: same_sources_def)

lemma same_sources_ok: "same_sources d c \<Longrightarrow> conn_ok c \<Longrightarrow> conn_ok d"
  by (auto simp: same_sources_def conn_ok_def)

lemma same_sources_token: "same_sources d c \<Longrightarrow> token_of k d = token_of k c"
  by (cases k) (simp_all add: same_sources_def)

lemma read_loop_sources: "same_sources (fst (read_loop E reads c)) c"
proof (induction reads arbitrary: c)
  case (Cons r rs)
  show ?case
  proof (cases r)
    case (ReadBytes bytes)
    obtain out ep where o: "on_greeter_bytes E (co_episode c) bytes = (out, ep)" by force
    have "opened_past (co_episode c) \<longrightarrow> opened_past ep" using on_greeter_bytes_keeps [of "co_episode c" E bytes] o by simp
    then have s: "same_sources (c\<lparr>co_episode := ep, co_write_buf := b\<rparr>) c"
      "same_sources (c\<lparr>co_episode := ep, co_write_buf := b, co_spawned := True\<rparr>) c"
      "same_sources (c\<lparr>co_episode := ep, co_write_buf := b, co_terminate := True\<rparr>) c"
      "same_sources (c\<lparr>co_episode := ep, co_write_buf := b, co_spawned := True, co_terminate := True\<rparr>) c" for b
      by (simp_all add: same_sources_def)
    show ?thesis
      using ReadBytes o s same_sources_trans [OF s(1) Cons.IH] same_sources_trans [OF s(2) Cons.IH]
      by (auto simp: split_beta Let_def split: option.split)
  qed (simp_all add: end_unless_spawned_def same_sources_def)
qed simp

lemma write_loop_sources: "same_sources (write_loop ws c) c"
proof (induction ws arbitrary: c)
  case (Cons w ws)
  have "same_sources (c\<lparr>co_write_buf := b\<rparr>) c" for b by (simp add: same_sources_def)
  note same_sources_trans [OF this Cons.IH]
  then show ?case
    by (auto simp: end_unless_spawned_def same_sources_def split: write_result.split)
qed simp

lemma src_core_same: "src_core s \<Longrightarrow> cp_connections s i = Some c \<Longrightarrow> same_sources d c \<Longrightarrow> src_core (put_conn i d s)"
  by (rule src_core_update) (auto simp: same_sources_token same_sources_ok src_core_def)

text \<open>New connections.\<close>

lemma accept_core: "src_core s \<Longrightarrow> src_core (accept_one creds nonblock connect gok bok s)"
proof -
  assume core: "src_core s"
  let ?i = "cp_next_conn_id s" and ?g = "cp_next_token s"
  have tok: "(t, k, i) \<in> reg (cp_calls s) \<Longrightarrow> t < ?g \<and> (\<exists>c. cp_connections s i = Some c \<and> token_of k c = Some t)" for t k i
    using core by (simp add: src_core_def)
  have old: "cp_connections s i = Some c \<Longrightarrow> i < ?i \<and> conn_ok c" for i c using core by (simp add: src_core_def)
  then have new: "cp_connections s ?i = None" by (metis less_irrefl not_None_eq)
  have safe: "borrows_safe (cp_calls s)" using core by (simp add: src_core_def)
  have b: "borrows_safe (cp_calls s @ [InsertGreeter ?g ?i])" "borrows_safe ((cp_calls s @ [InsertGreeter ?g ?i]) @ [RemoveSource ?g])"
    "borrows_safe ((cp_calls s @ [InsertGreeter ?g ?i]) @ [InsertBroker (Suc ?g) ?i])"
    using safe unfolding borrows_safe_snoc by simp_all
  have r: "reg (cp_calls s @ [InsertGreeter ?g ?i, RemoveSource ?g]) = reg (cp_calls s)"
    using tok by (fastforce simp: reg_append)
  have r2: "reg (cp_calls s @ [InsertGreeter ?g ?i, InsertBroker (Suc ?g) ?i]) =
      insert (Suc ?g, BrokerSrc, ?i) (insert (?g, GreeterSrc, ?i) (reg (cp_calls s)))"
    by (simp add: reg_append)
  let ?bare = "s\<lparr>cp_next_conn_id := ?i + 1\<rparr>"
  let ?s2 = "log_calls [InsertGreeter ?g ?i] (s\<lparr>cp_next_conn_id := ?i + 1, cp_next_token := ?g + 1\<rparr>)"
  let ?s3 = "log_calls [InsertBroker (?g + 1) ?i] (?s2\<lparr>cp_next_token := ?g + 1 + 1\<rparr>)"
  let ?c = "\<lparr>co_episode = new_broker_episode new_seqpacket_channel (cp_pam_service s), co_write_buf = [],
        co_broker_token = Some (?g + 1), co_greeter_token = Some ?g, co_terminate = False, co_spawned = False,
        co_leader_pidfd = None, co_leader_token = None\<rparr>"
  have bare: "src_core ?bare" using core by (fastforce simp: src_core_def)
  have half: "src_core (log_calls [RemoveSource ?g] ?s2)" using core b(2) r by (fastforce simp: src_core_def)
  have full: "src_core (put_conn ?i ?c ?s3)" if room: "card (dom (cp_connections s)) < MAX_GREETD_CONNECTIONS"
  proof -
    have "finite (dom (cp_connections s))" using core by (simp add: src_core_def)
    then have "card (insert ?i (dom (cp_connections s))) \<le> MAX_GREETD_CONNECTIONS" using room new by (simp add: domIff)
    then show ?thesis using core new tok old b(3) unfolding src_core_def
      by (simp add: r2 conn_ok_def) (fastforce simp: less_Suc_eq)
  qed
  have svc: "cp_pam_service (log_calls xs u) = cp_pam_service u" for xs u by (simp add: log_calls_def)
  show "src_core (accept_one creds nonblock connect gok bok s)"
    using core bare half full
    by (cases creds; cases nonblock; cases connect; cases gok; cases bok) (simp_all add: accept_one_def Let_def svc)
qed

text \<open>A source that leaves the loop while its connection stays.\<close>

lemma src_core_detach:
  assumes core: "src_core s" and c: "cp_connections s i = Some c" and k: "token_of k c = Some t"
    and d: "\<And>j. j \<noteq> k \<Longrightarrow> token_of j d = token_of j c" "conn_ok d"
  shows "src_core (log_calls [RemoveSource t] (put_conn i d s))"
proof -
  have safe: "borrows_safe (cp_calls s @ [RemoveSource t])" using core by (simp add: src_core_def borrows_safe_snoc)
  have r: "reg (cp_calls s @ [RemoveSource t]) = {x \<in> reg (cp_calls s). fst x \<noteq> t}" by (simp add: reg_append)
  have dom: "insert i (dom (cp_connections s)) = dom (cp_connections s)" using c by auto
  have "\<exists>e. ((cp_connections s)(i \<mapsto> d)) j = Some e \<and> token_of l e = Some x"
    if m: "(x, l, j) \<in> reg (cp_calls s)" "x \<noteq> t" for x l j
    using m core c k d(1) [of l] unfolding src_core_def by (cases "l = k") fastforce+
  then show ?thesis using core safe d(2) c unfolding src_core_def by (simp add: r dom) blast
qed

lemmas finish_core = finish_source_def

text \<open>
  Steps that insert no source but leaders and schedule no idle: they keep what is known of the
  scheduled drops.
\<close>

fun no_insert :: "loop_call \<Rightarrow> bool" where
  "no_insert (InsertGreeter t i) = False"
| "no_insert (InsertBroker t i) = False"
| "no_insert c = True"

definition quiet :: "compositor \<Rightarrow> compositor \<Rightarrow> bool" where
  "quiet s u \<longleftrightarrow> cp_next_conn_id u = cp_next_conn_id s \<and> cp_idle u = cp_idle s \<and>
     (\<exists>cs. cp_calls u = cp_calls s @ cs \<and> list_all no_insert cs)"

lemma quiet_refl [simp]: "quiet s s"
  by (simp add: quiet_def)

lemma quiet_trans [trans]: "quiet s u \<Longrightarrow> quiet u v \<Longrightarrow> quiet s v"
  by (auto simp: quiet_def)

lemma quiet_conn_part: "conn_part u = conn_part s \<Longrightarrow> quiet s u"
  by (simp add: quiet_def conn_part_def)

lemma quiet_log: "list_all no_insert cs \<Longrightarrow> quiet s (log_calls cs s)" "quiet s (put_conn i c s)" "quiet s (s\<lparr>cp_connections := m\<rparr>)"
  "quiet s (emit_event e s)" "quiet s (drive_gate K op s)"
proof -
  show "quiet s (drive_gate K op s)" "quiet s (emit_event e s)" by (simp_all add: quiet_conn_part)
qed (simp_all add: quiet_def log_calls_def put_conn_def)

lemma remove_token_no_insert [simp]: "list_all no_insert (remove_token tk)"
  by (simp add: remove_token_def split: option.split)

lemma reg_no_insert: "list_all no_insert ds \<Longrightarrow> (x, k, i) \<in> reg (cs @ ds) \<Longrightarrow> k \<noteq> LeaderSrc \<Longrightarrow> (x, k, i) \<in> reg cs"
proof (induction ds rule: rev_induct)
  case (snoc d ds)
  have "reg (cs @ ds @ [d]) = reg_step (reg (cs @ ds)) d" by (simp add: reg_append)
  then show ?case using snoc by (cases d) auto
qed simp

lemma quiet_only_leader: "quiet s u \<Longrightarrow> only_leader i s \<Longrightarrow> only_leader i u"
  unfolding quiet_def only_leader_def using reg_no_insert by metis

lemma quiet_idle_ok: "quiet s u \<Longrightarrow> idle_ok s \<Longrightarrow> idle_ok u"
  using quiet_only_leader [of s u] by (auto simp: idle_ok_def quiet_def)

lemma quiet_finish: "quiet s u \<Longrightarrow> quiet s (finish_source t (a, u))"
  using quiet_trans [OF _ quiet_log(1), of s u "[RemoveSource t]"] by (cases a) (simp_all add: finish_source_def)

text \<open>The idle callbacks.\<close>

lemma drop_idle_quiet: "quiet s (drop_idle i s)"
  by (auto simp: drop_idle_def quiet_def log_calls_def split: option.split)

lemma drop_idle_core:
  assumes core: "src_core s" and only: "only_leader i s"
  shows "src_core (drop_idle i s)"
proof (cases "cp_connections s i")
  case (Some c)
  show ?thesis
  proof (rule src_core_drop [OF core Some, where pre = "case co_leader_token c of Some k \<Rightarrow> [k] | None \<Rightarrow> []" and post = "[]"])
    fix k x assume m: "(x, k, i) \<in> reg (cp_calls s)"
    then have "k = LeaderSrc" using only by (simp add: only_leader_def)
    then show "x \<in> set (case co_leader_token c of Some k \<Rightarrow> [k] | None \<Rightarrow> [])" using reg_token [OF core Some m] by simp
  qed (use only Some in \<open>auto simp: only_leader_def drop_idle_def remove_token_map log_calls_def\<close>)
qed (simp add: drop_idle_def core)

lemma drop_idles_core:
  "src_core s \<Longrightarrow> \<forall>i \<in> set is. only_leader i s \<Longrightarrow> src_core (fold drop_idle is s) \<and> quiet s (fold drop_idle is s)"
proof (induction "is" arbitrary: s)
  case (Cons i "is")
  have "src_core (drop_idle i s)" using Cons.prems by (simp add: drop_idle_core)
  moreover have "\<forall>j \<in> set is. only_leader j (drop_idle i s)"
    using Cons.prems(2) quiet_only_leader [OF drop_idle_quiet] by simp
  ultimately show ?case using Cons.IH quiet_trans [OF drop_idle_quiet] by simp blast
qed simp

lemma run_idle_core:
  assumes "src_inv s"
  shows "src_inv (run_idle s)"
proof -
  let ?s = "s\<lparr>cp_idle := []\<rparr>"
  have "src_core ?s" "\<forall>i \<in> set (cp_idle s). only_leader i ?s"
    using assms by (simp_all add: src_inv_def src_core_def idle_ok_def only_leader_def)
  note d = drop_idles_core [OF this]
  then have "idle_ok (fold drop_idle (cp_idle s) ?s)" by (simp add: idle_ok_def quiet_def)
  then show ?thesis using d by (simp add: src_inv_def run_idle_def)
qed

text \<open>The greeter's source.\<close>

lemma conclude_core:
  assumes core: "src_core s" and c: "cp_connections s i = Some c" and t: "co_greeter_token c = Some t"
  shows "src_core (finish_source t (conclude_connection i c s))"
proof -
  have ok: "conn_ok c" using core c by (simp add: src_core_def)
  consider (gone) "co_terminate c" "co_write_buf c = []"
    | (detached) "\<not> (co_terminate c \<and> co_write_buf c = [])" "\<not> co_terminate c \<and> co_spawned c \<and> co_greeter_token c \<noteq> None \<and> co_write_buf c = []"
    | (stays) "\<not> (co_terminate c \<and> co_write_buf c = [])" "\<not> (\<not> co_terminate c \<and> co_spawned c \<and> co_greeter_token c \<noteq> None \<and> co_write_buf c = [])"
    by blast
  then show ?thesis
  proof cases
    case gone
    let ?pre = "(case co_broker_token c of Some k \<Rightarrow> [k] | None \<Rightarrow> []) @ (case co_leader_token c of Some k \<Rightarrow> [k] | None \<Rightarrow> [])"
    let ?u = "(log_calls (remove_token (co_broker_token c) @ remove_token (co_leader_token c) @ [DropConn i]) s)
           \<lparr>cp_connections := (cp_connections s)(i := None)\<rparr>"
    have "src_core (log_calls [RemoveSource t] ?u)"
    proof (rule src_core_drop [OF core c, where pre = ?pre and post = "[t]"])
      show "(x, k, i) \<in> reg (cp_calls s) \<Longrightarrow> k \<noteq> GreeterSrc \<Longrightarrow> x \<in> set ?pre" for k x
        using reg_token [OF core c, of x k] by (cases k) simp_all
      show "(x, GreeterSrc, i) \<in> reg (cp_calls s) \<Longrightarrow> x \<in> set ?pre \<union> set [t]" for x
        using reg_token [OF core c, of x GreeterSrc] t by simp
    qed (auto simp: remove_token_map log_calls_def)
    then show ?thesis using gone by (simp add: conclude_connection_def finish_core)
  next
    case detached
    have "src_core (log_calls [RemoveSource t] (put_conn i (c\<lparr>co_greeter_token := None\<rparr>) s))"
    proof (rule src_core_detach [OF core c, where k = GreeterSrc])
      show "j \<noteq> GreeterSrc \<Longrightarrow> token_of j (c\<lparr>co_greeter_token := None\<rparr>) = token_of j c" for j by (cases j) simp_all
    qed (use t ok in \<open>simp_all add: conn_ok_def\<close>)
    then show ?thesis using detached by (auto simp: conclude_connection_def finish_core)
  next
    case stays
    then show ?thesis using core by (auto simp: conclude_connection_def finish_core)
  qed
qed

lemma conclude_quiet: "quiet s (finish_source t (conclude_connection i c s))"
  by (auto simp: conclude_connection_def finish_source_def quiet_def log_calls_def)

lemma greeter_ready_core:
  assumes inv: "src_inv s" and e: "(t, GreeterSrc, i) \<in> reg (cp_calls s)"
  shows "src_inv (finish_source t (handle_connection_ready E i readable w reads writes s))"
proof -
  have core: "src_core s" and idle: "idle_ok s" using inv by (simp_all add: src_inv_def)
  obtain c where c: "cp_connections s i = Some c" "co_greeter_token c = Some t"
    using core e unfolding src_core_def by fastforce
  obtain c1 sps where r: "(if readable then read_loop E reads c else (c, [])) = (c1, sps)" by force
  have s1: "same_sources c1 c" using r read_loop_sources [of E reads c] by (auto split: if_splits)
  define c2 where "c2 = (if w \<and> co_write_buf c1 \<noteq> [] then write_loop writes c1 else c1)"
  have s2: "same_sources c2 c" using same_sources_trans [OF s1 write_loop_sources] s1 by (simp add: c2_def)
  let ?s = "fold record_session_started sps s"
  have p: "conn_part ?s = conn_part s" by simp
  have core': "src_core ?s" using core src_core_cong [OF p] by simp
  have conn': "cp_connections ?s i = Some c" using c conn_part_conns [OF p] by simp
  have core2: "src_core (put_conn i c2 ?s)" by (rule src_core_same [OF core' conn' s2])
  have "co_greeter_token c2 = Some t" using s2 c by (simp add: same_sources_def)
  then have "src_core (finish_source t (conclude_connection i c2 (put_conn i c2 ?s)))"
    by (intro conclude_core [OF core2]) simp_all
  moreover have "quiet s (finish_source t (conclude_connection i c2 (put_conn i c2 ?s)))"
    using quiet_conn_part [OF p] quiet_log(2) conclude_quiet by (meson quiet_trans)
  ultimately show ?thesis using c r quiet_idle_ok [OF _ idle]
    by (simp add: handle_connection_ready_def c2_def Let_def src_inv_def)
qed

text \<open>The broker's source.\<close>

lemma arm_core:
  assumes core: "src_core s" and c: "cp_connections s i = Some c" "co_leader_pidfd c = None" "co_leader_token c = None"
    and past: "opened_past (co_episode c)"
  shows "src_core (arm_leader_pidfd_backstop ok i s) \<and>
    (\<exists>d. cp_connections (arm_leader_pidfd_backstop ok i s) i = Some d \<and> co_greeter_token d = co_greeter_token c \<and> co_broker_token d = co_broker_token c) \<and>
    quiet s (arm_leader_pidfd_backstop ok i s)"
proof -
  obtain f ep where tk: "take_leader_pidfd (co_episode c) = (f, ep)" by force
  have past': "opened_past ep" using past tk by (auto simp: take_leader_pidfd_def)
  let ?c1 = "c\<lparr>co_episode := ep, co_leader_pidfd := f\<rparr>"
  have core1: "src_core (put_conn i (c\<lparr>co_episode := ep\<rparr>) s)"
  proof (rule src_core_update [OF core c(1)])
    show "token_of k (c\<lparr>co_episode := ep\<rparr>) = token_of k c" for k by (cases k) simp_all
  qed (simp add: conn_ok_def past')
  show ?thesis
  proof (cases f)
    case None
    then show ?thesis using core1 c tk by (simp add: arm_leader_pidfd_backstop_def quiet_log)
  next
    case (Some pf)
    let ?lt = "cp_next_token s"
    have safe: "borrows_safe (cp_calls s)" and tok: "\<And>t k j. (t, k, j) \<in> reg (cp_calls s) \<Longrightarrow> t < ?lt \<and> (\<exists>c. cp_connections s j = Some c \<and> token_of k c = Some t)"
      using core by (auto simp: src_core_def)
    have nolead: "(t, LeaderSrc, i) \<notin> reg (cp_calls s)" for t using tok c by fastforce
    have dropped: "borrows_safe (cp_calls s @ [DropPidfd i])" using safe nolead unfolding borrows_safe_snoc by auto
    have ins: "borrows_safe (cp_calls s @ [InsertLeader ?lt i])" using safe unfolding borrows_safe_snoc by simp
    have regs: "reg (cp_calls s @ [DropPidfd i]) = reg (cp_calls s)"
      "reg (cp_calls s @ [InsertLeader ?lt i]) = insert (?lt, LeaderSrc, i) (reg (cp_calls s))" by (simp_all add: reg_append)
    have dom: "insert i (dom (cp_connections s)) = dom (cp_connections s)" using c by auto
    have keep: "\<exists>e. ((cp_connections s)(i \<mapsto> d)) j = Some e \<and> token_of k e = Some t"
      if "(t, k, j) \<in> reg (cp_calls s)" "co_greeter_token d = co_greeter_token c" "co_broker_token d = co_broker_token c" for t k j d
      using tok [OF that(1)] that(2,3) c(1) nolead that(1) by (cases k) (auto split: if_splits)
    show ?thesis
    proof (cases ok)
      case True
      have "src_core (arm_leader_pidfd_backstop ok i s)"
        using True Some tk c core ins past' keep unfolding src_core_def
        by (auto simp: arm_leader_pidfd_backstop_def Let_def regs dom conn_ok_def fun_upd_upd split: if_splits dest: tok less_SucI)
      then show ?thesis using True Some tk c by (simp add: arm_leader_pidfd_backstop_def Let_def quiet_def)
    next
      case False
      have "src_core (arm_leader_pidfd_backstop ok i s)"
        using False Some tk c core dropped past' keep unfolding src_core_def
        by (auto simp: arm_leader_pidfd_backstop_def Let_def regs dom conn_ok_def fun_upd_upd split: if_splits dest: tok less_SucI)
      then show ?thesis using False Some tk c by (simp add: arm_leader_pidfd_backstop_def Let_def quiet_def)
    qed
  qed
qed

lemma src_core_drive [simp]: "src_core (drive_gate K op s) = src_core s" "src_core (emit_event e s) = src_core s"
  using src_core_cong [OF conn_part_drive] src_core_cong [OF conn_part_emit] by blast+

lemma drive_neutral [simp]: "cp_connections (drive_gate K op s) = cp_connections s" "cp_idle (drive_gate K op s) = cp_idle s"
  using conn_part_drive [of K op s] by (simp_all add: conn_part_def)

text \<open>After the outcome was applied the connection still has its two tokens.\<close>

lemma outcome_core:
  assumes core: "src_core s" and c: "cp_connections s i = Some c"
    and opened: "session_opened_key out \<Longrightarrow> co_leader_pidfd c = None \<and> co_leader_token c = None \<and> opened_past (co_episode c)"
  shows "src_core (apply_broker_outcome K ok i out s) \<and>
    (\<exists>d. cp_connections (apply_broker_outcome K ok i out s) i = Some d \<and> co_greeter_token d = co_greeter_token c \<and> co_broker_token d = co_broker_token c) \<and>
    quiet s (apply_broker_outcome K ok i out s)"
proof (cases "session_opened_key out")
  case True
  let ?u = "drive_gate K session_opened (emit_event EvSessionOpened s)"
  have "src_core ?u" "cp_connections ?u i = Some c" using core c by simp_all
  then have arm: "src_core (arm_leader_pidfd_backstop ok i ?u) \<and>
      (\<exists>d. cp_connections (arm_leader_pidfd_backstop ok i ?u) i = Some d \<and> co_greeter_token d = co_greeter_token c \<and> co_broker_token d = co_broker_token c) \<and>
      quiet ?u (arm_leader_pidfd_backstop ok i ?u)" using opened [OF True] by (intro arm_core) simp_all
  have "quiet s ?u" using quiet_trans [OF quiet_log(4) quiet_log(5)] .
  then have "quiet s (arm_leader_pidfd_backstop ok i ?u)" by (rule quiet_trans) (simp add: arm)
  moreover from this have "quiet s (drive_gate K op (emit_event e (arm_leader_pidfd_backstop ok i ?u)))" for op e
    using quiet_log(4,5) by (meson quiet_trans)
  ultimately show ?thesis using True arm
    by (simp add: apply_broker_outcome_def Let_def split: option.split)
next
  case False
  then show ?thesis using core c
    by (auto simp: apply_broker_outcome_def split: option.split intro: quiet_trans [OF quiet_log(4) quiet_log(5)])
qed

text \<open>A terminated connection without greeter source: its broker source leaves and the drop is scheduled.\<close>

lemma src_core_remove: "src_core s \<Longrightarrow> src_core (log_calls [RemoveSource t] s)"
  unfolding src_core_def by (auto simp: log_calls_def reg_append borrows_safe_snoc)

lemma broker_drop_core:
  assumes core: "src_core s" and idle: "idle_ok s"
    and c: "cp_connections s i = Some c" "co_broker_token c = Some t" "co_greeter_token c = None"
  shows "src_inv (finish_source t (PostRemove, s\<lparr>cp_idle := cp_idle s @ [i]\<rparr>))"
proof -
  let ?u = "log_calls [RemoveSource t] (s\<lparr>cp_idle := cp_idle s @ [i]\<rparr>)"
  have "src_core (s\<lparr>cp_idle := cp_idle s @ [i]\<rparr>)" using core by (simp add: src_core_def)
  then have "src_core ?u" by (rule src_core_remove)
  moreover have "idle_ok (log_calls [RemoveSource t] s)" using quiet_idle_ok [OF quiet_log(1) idle] by simp
  then have "\<forall>j \<in> set (cp_idle s). j < cp_next_conn_id ?u \<and> only_leader j ?u"
    by (simp add: idle_ok_def only_leader_def log_calls_def)
  moreover have "k = LeaderSrc" if "(x, k, i) \<in> reg (cp_calls ?u)" for x k
  proof -
    have "(x, k, i) \<in> reg (cp_calls s)" "x \<noteq> t" using that by (auto simp: log_calls_def reg_append)
    then show ?thesis using reg_token [OF core c(1)] c(2,3) by (cases k) fastforce+
  qed
  then have "only_leader i ?u" by (auto simp: only_leader_def)
  moreover have "i < cp_next_conn_id ?u" using core c(1) by (simp add: src_core_def log_calls_def)
  ultimately show ?thesis by (simp add: src_inv_def idle_ok_def finish_source_def)
qed

lemma broker_ready_core:
  assumes inv: "src_inv s" and e: "(t, BrokerSrc, i) \<in> reg (cp_calls s)"
  shows "src_inv (finish_source t (handle_broker_ready E K ok i readable received s))"
proof -
  have core: "src_core s" and idle: "idle_ok s" using inv by (simp_all add: src_inv_def)
  obtain c where c: "cp_connections s i = Some c" "co_broker_token c = Some t"
    using core e unfolding src_core_def by fastforce
  have ok0: "conn_ok c" using core c by (simp add: src_core_def)
  define oc where "oc = (if readable
             then let (out, ep) = on_broker_readable E (co_episode c) received in
               (out, c\<lparr>co_episode := ep, co_write_buf := co_write_buf c @ greeter_reply out,
                       co_spawned := co_spawned c \<or> spawned out \<noteq> None, co_terminate := co_terminate c \<or> terminate out\<rparr>)
             else (default_outcome, c))"
  obtain out c1 where o: "oc = (out, c1)" by force
  have same: "same_sources c1 c"
    using o on_broker_readable_past [of "co_episode c" E received]
    by (auto simp: oc_def same_sources_def split_beta split: if_splits)
  have opened: "co_leader_pidfd c1 = None \<and> co_leader_token c1 = None \<and> opened_past (co_episode c1)" if k: "session_opened_key out"
  proof (cases readable)
    case True
    then have f: "out = fst (on_broker_readable E (co_episode c) received)" "co_episode c1 = snd (on_broker_readable E (co_episode c) received)"
      using o by (auto simp: oc_def split_beta)
    have "\<not> opened_past (co_episode c)" using on_broker_readable_past [of "co_episode c" E received] k f by auto
    then have "co_leader_pidfd c = None" "co_leader_token c = None" using ok0 by (auto simp: conn_ok_def)
    moreover have "opened_past (co_episode c1)" using on_broker_readable_opened [of E "co_episode c" received] k f by simp
    ultimately show ?thesis using same by (simp add: same_sources_def)
  qed (use o k in \<open>auto simp: oc_def default_outcome_def\<close>)
  let ?r = "case spawned out of Some sp \<Rightarrow> record_session_started sp s | None \<Rightarrow> s"
  have p: "conn_part ?r = conn_part s" by (simp add: conn_part_def split: option.split)
  have core': "src_core ?r" using core src_core_cong [OF p] by simp
  have conn': "cp_connections ?r i = Some c" using c conn_part_conns [OF p] by simp
  have core1: "src_core (put_conn i c1 ?r)" by (rule src_core_same [OF core' conn' same])
  let ?s2 = "apply_broker_outcome K ok i out (put_conn i c1 ?r)"
  have quiet1: "quiet s (put_conn i c1 ?r)" using quiet_trans [OF quiet_conn_part [OF p] quiet_log(2)] .
  have "cp_connections (put_conn i c1 ?r) i = Some c1" by simp
  from outcome_core [OF core1 this opened, where K = K and ok = ok] obtain d where
    s2: "src_core ?s2" "cp_connections ?s2 i = Some d" "co_greeter_token d = co_greeter_token c1" "co_broker_token d = co_broker_token c1" "idle_ok ?s2"
    using quiet_idle_ok [OF quiet_trans [OF quiet1] idle] by auto
  have bt: "co_broker_token d = Some t" using s2(4) same c by (simp add: same_sources_def)
  have h: "handle_broker_ready E K ok i readable received s =
      (if co_terminate c1 then (if co_greeter_token c1 \<noteq> None then (PostContinue, ?s2) else (PostRemove, ?s2\<lparr>cp_idle := cp_idle ?s2 @ [i]\<rparr>))
       else (PostContinue, ?s2))"
    using c o by (simp add: handle_broker_ready_def oc_def [symmetric] Let_def)
  show ?thesis
  proof (cases "co_terminate c1 \<and> co_greeter_token c1 = None")
    case True
    then show ?thesis using broker_drop_core [OF s2(1,5,2) bt] s2(3) unfolding h by simp
  next
    case False
    then have "handle_broker_ready E K ok i readable received s = (PostContinue, ?s2)" unfolding h by simp
    then show ?thesis using s2(1,5) by (simp add: finish_core src_inv_def)
  qed
qed

lemma leader_ready_core:
  assumes inv: "src_inv s" and e: "(t, LeaderSrc, i) \<in> reg (cp_calls s)"
  shows "src_inv (finish_source t (handle_leader_pidfd_ready K i s))"
proof -
  have core: "src_core s" and idle: "idle_ok s" using inv by (simp_all add: src_inv_def)
  obtain c where c: "cp_connections s i = Some c" "co_leader_token c = Some t"
    using core e unfolding src_core_def by fastforce
  let ?u = "put_conn i (c\<lparr>co_leader_token := None\<rparr>) s"
  have ok: "conn_ok c" using core c by (simp add: src_core_def)
  have "token_of j (c\<lparr>co_leader_token := None\<rparr>) = token_of j c" if "j \<noteq> LeaderSrc" for j using that by (cases j) simp_all
  then have "src_core (log_calls [RemoveSource t] ?u)"
    by (intro src_core_detach [OF core c(1), where k = LeaderSrc]) (use c ok in \<open>auto simp: conn_ok_def\<close>)
  moreover have "conn_part (log_calls [RemoveSource t] (drive_gate K op (emit_event x ?u))) = conn_part (log_calls [RemoveSource t] ?u)" for op x
    using conn_part_drive [of K op "emit_event x ?u"] by (simp add: conn_part_def)
  note src_core_cong [OF this]
  ultimately have "src_core (log_calls [RemoveSource t] (drive_gate K session_client_gone (emit_event EvSessionLeaderExitedViaPidfd ?u)))"
    by simp
  moreover have "quiet s (drive_gate K session_client_gone (emit_event EvSessionLeaderExitedViaPidfd ?u))"
    using quiet_log(2,4,5) by (meson quiet_trans)
  note quiet_idle_ok [OF quiet_finish [OF this, of t PostRemove] idle]
  ultimately show ?thesis using c by (simp add: handle_leader_pidfd_ready_def Let_def finish_core src_inv_def)
qed

text \<open>
  The events the loop can dispatch: a callback of a connection runs only while its source is registered.
  The idle callbacks may run at any time after they were scheduled.
\<close>

fun enabled :: "comp_event \<Rightarrow> compositor \<Rightarrow> bool" where
  "enabled (GreeterReady t i r w reads writes) s = ((t, GreeterSrc, i) \<in> reg (cp_calls s))"
| "enabled (BrokerReady t i r received K ok) s = ((t, BrokerSrc, i) \<in> reg (cp_calls s))"
| "enabled (LeaderReady t i K) s = ((t, LeaderSrc, i) \<in> reg (cp_calls s))"
| "enabled e s = True"

text \<open>A new connection gets an identity no scheduled drop names.\<close>

lemma accept_idle: "idle_ok s \<Longrightarrow> idle_ok (accept_one creds nonblock connect gok bok s)"
proof -
  assume idle: "idle_ok s"
  let ?i = "cp_next_conn_id s"
  have one: "only_leader j (log_calls [c] u)" if "only_leader j u" "j < ?i" "no_insert c \<or> (\<exists>t. c = InsertGreeter t ?i \<or> c = InsertBroker t ?i)" for j c u
    using that by (cases c) (auto simp: only_leader_def log_calls_def reg_append)
  have neutral: "only_leader j (put_conn k c u) = only_leader j u" "only_leader j (u\<lparr>cp_next_token := n\<rparr>) = only_leader j u"
      "only_leader j (u\<lparr>cp_next_conn_id := n\<rparr>) = only_leader j u" for j k c u n
    by (simp_all add: only_leader_def put_conn_def)
  show ?thesis using idle
    by (cases creds; cases nonblock; cases connect; cases gok; cases bok)
      (auto simp: accept_one_def Let_def idle_ok_def neutral less_SucI intro!: one)
qed

lemma src_inv_listener: "src_inv s \<Longrightarrow> src_inv (handle_listener_ready rs s)"
  by (induction rs s rule: handle_listener_ready.induct) (simp_all add: src_inv_def accept_core accept_idle)

lemma src_inv_step: "src_inv s \<Longrightarrow> enabled e s \<Longrightarrow> src_inv (comp_handle E e s)"
  by (cases e) (auto simp: src_inv_listener greeter_ready_core broker_ready_core leader_ready_core run_idle_core
    src_inv_cong [OF conn_part_scene_only(1)]
    src_inv_cong [OF conn_part_scene_only(2)] src_inv_cong [OF conn_part_scene_only(3)] src_inv_cong [OF conn_part_scene_only(4)]
    src_inv_cong [OF conn_part_scene_only(5)] src_inv_cong [OF conn_part_scene_only(6)] src_inv_cong [OF conn_part_scene_only(7)]
    simp del: comp_handle.simps(6-))

inductive comp_reach :: "episode_env \<Rightarrow> compositor \<Rightarrow> compositor \<Rightarrow> bool" for E s0 where
  start: "comp_reach E s0 s0"
| dispatch: "comp_reach E s0 s \<Longrightarrow> enabled e s \<Longrightarrow> comp_reach E s0 (comp_handle E e s)"

lemma src_inv_new: "src_inv (new_compositor guid service armed greeter)"
  by (simp add: src_inv_def src_core_def idle_ok_def new_compositor_def reg_def)

lemma src_inv_reach: "comp_reach E s0 s \<Longrightarrow> src_inv s0 \<Longrightarrow> src_inv s"
  by (induction rule: comp_reach.induct) (simp_all add: src_inv_step)

text \<open>
  C12: borrowed descriptors outlive their sources.  In every state the loop can reach, at every
  point of the recorded calls where a connection was dropped no broker or leader source of it
  was still registered, and where a pidfd was dropped no leader source was; every registered
  source belongs to a connection that is still there; and there are never more connections
  than the limit.  This holds although events of other sources, and of the same connection's leader, may
  be dispatched between the removal of a broker source and the idle callback that drops its connection.
\<close>

theorem borrowed_sources_leave_first:
  assumes "comp_reach E (new_compositor guid service armed greeter) s"
  shows "borrows_safe (cp_calls s) \<and>
    (\<forall>(t, k, i) \<in> reg (cp_calls s). \<exists>c. cp_connections s i = Some c \<and> token_of k c = Some t) \<and>
    card (dom (cp_connections s)) \<le> MAX_GREETD_CONNECTIONS"
  using src_inv_reach [OF assms src_inv_new] by (auto simp: src_inv_def src_core_def)

definition closed_greeter_run :: compositor where
  "closed_greeter_run = comp_run demo_episode_env (new_compositor 7 ''login'' True None)
     [ListenerReady [AcceptStream (Inr 7) (Inr ()) (Inr ()) True True], GreeterReady 0 0 True False [ReadEof] []]"

text \<open>A greeter that connects and closes its stream.\<close>

theorem borrowed_sources_leave_first_witness:
  "cp_calls closed_greeter_run = [InsertGreeter 0 0, InsertBroker 1 0, RemoveSource 1, DropConn 0, RemoveSource 0] \<and>
   borrows_safe (cp_calls closed_greeter_run)"
proof -
  let ?s0 = "new_compositor 7 ''login'' True None"
  let ?e1 = "ListenerReady [AcceptStream (Inr 7) (Inr ()) (Inr ()) True True]" and ?e2 = "GreeterReady 0 0 True False [ReadEof] []"
  let ?s1 = "comp_handle demo_episode_env ?e1 ?s0"
  have calls: "cp_calls ?s1 = [InsertGreeter 0 0, InsertBroker 1 0]"
    by (simp add: accept_one_def Let_def new_compositor_def MAX_GREETD_CONNECTIONS_def log_calls_def put_conn_def)
  have "enabled ?e2 ?s1" unfolding enabled.simps calls by (simp add: reg_def)
  then have "comp_reach demo_episode_env ?s0 (comp_handle demo_episode_env ?e2 ?s1)"
    by (intro comp_reach.intros) simp_all
  then have "comp_reach demo_episode_env ?s0 closed_greeter_run" by (simp add: closed_greeter_run_def del: comp_handle.simps)
  from borrowed_sources_leave_first [OF this] show ?thesis
    by (simp add: closed_greeter_run_def accept_one_def Let_def new_compositor_def MAX_GREETD_CONNECTIONS_def
        log_calls_def put_conn_def finish_source_def handle_connection_ready_def end_unless_spawned_def
        conclude_connection_def remove_token_def)
qed

end
