(* ===== verification/Process_Inheritance.thy ===== *)
theory Process_Inheritance
  imports Session_Leader Descriptors Rust_Text
begin

text \<open>
  What the processes of a login pass on to each other beside credentials: descriptors and
  the CPU limit.  \<open>crates/halmasuit-session/src/bin/halmasuit-session.rs\<close> (socket activation),
  and \<open>accept_seqpacket\<close> and \<open>spawn_worker\<close> of \<open>crates/halmasuit-session/src/worker.rs\<close>, composed with the
  children of \<open>Session_Leader\<close>, which change neither before their \<open>execve\<close>.
\<close>

section \<open>Socket activation\<close>

definition SD_LISTEN_FDS_START :: fd where "SD_LISTEN_FDS_START = 3"

datatype activation_error = NotActivated | WrongPid int int | UnexpectedCount int

definition env_i32 :: "(string \<Rightarrow> string option) \<Rightarrow> string \<Rightarrow> activation_error + int" where
  "env_i32 var key = (case var key of
     None \<Rightarrow> Inl NotActivated
   | Some s \<Rightarrow> (case parse_i32 s of None \<Rightarrow> Inl NotActivated | Some v \<Rightarrow> Inr v))"

definition listen_fd :: "(string \<Rightarrow> string option) \<Rightarrow> int \<Rightarrow> activation_error + fd" where
  "listen_fd var my_pid =
     rbind (env_i32 var ''LISTEN_PID'') (\<lambda>pid.
     rbind (env_i32 var ''LISTEN_FDS'') (\<lambda>count.
     if pid \<noteq> my_pid then Inl (WrongPid pid my_pid)
     else if count \<noteq> 1 then Inl (UnexpectedCount count)
     else Inr SD_LISTEN_FDS_START))"

datatype peer_uid_error = PeerUidUnset | PeerUidNotNumber string

definition relay_peer_uid :: "(string \<Rightarrow> string option) \<Rightarrow> peer_uid_error + u32" where
  "relay_peer_uid var = (case var ''HALMASUIT_BROKER_PEER_UID'' of
     None \<Rightarrow> Inl PeerUidUnset
   | Some s \<Rightarrow> (case parse_u32 s of None \<Rightarrow> Inl (PeerUidNotNumber s) | Some u \<Rightarrow> Inr u))"

datatype start_error = StartActivation activation_error | StartPeerUid peer_uid_error

text \<open>What \<open>main\<close> hands to \<open>run_broker\<close>, or why it exits.\<close>

definition broker_main :: "(string \<Rightarrow> string option) \<Rightarrow> int \<Rightarrow> start_error + fd \<times> u32" where
  "broker_main var my_pid =
     rbind (map_err StartActivation (listen_fd var my_pid)) (\<lambda>lfd.
     rbind (map_err StartPeerUid (relay_peer_uid var)) (\<lambda>guid. Inr (lfd, guid)))"

lemma listen_fd_exact:
  "listen_fd var my_pid = Inr f \<longleftrightarrow> f = 3 \<and> (\<exists>p n. var ''LISTEN_PID'' = Some p \<and> parse_i32 p = Some my_pid \<and>
     var ''LISTEN_FDS'' = Some n \<and> parse_i32 n = Some 1)"
  by (auto simp: listen_fd_def env_i32_def rbind_def SD_LISTEN_FDS_START_def split: option.splits sum.splits)

section \<open>Processes\<close>

text \<open>The objects behind the descriptors of interest.\<close>

definition LISTENER :: nat where "LISTENER = 0"
definition COMPOSITOR_CONN :: nat where "COMPOSITOR_CONN = 1"
definition WORKER_PARENT_END :: nat where "WORKER_PARENT_END = 2"
definition WORKER_CHILD_END :: nat where "WORKER_CHILD_END = 3"
definition PIDFD :: nat where "PIDFD = 4"

record process =
  pr_fds :: fd_table
  pr_cpu :: "nat option"
  pr_blocked :: bool

definition close_fd :: "fd \<Rightarrow> process \<Rightarrow> process" where
  "close_fd f p = p\<lparr>pr_fds := (pr_fds p)(f := None)\<rparr>"

definition open_fd :: "fd \<Rightarrow> nat \<Rightarrow> bool \<Rightarrow> process \<Rightarrow> process" where
  "open_fd f obj cloexec p = p\<lparr>pr_fds := (pr_fds p)(f \<mapsto> (obj, cloexec))\<rparr>"

text \<open>\<open>accept(2)\<close> without flags: the new descriptor survives \<open>execve\<close>.\<close>

definition accept_seqpacket :: "errno + fd \<Rightarrow> process \<Rightarrow> (errno + fd) \<times> process" where
  "accept_seqpacket accepted p = (case accepted of
     Inl e \<Rightarrow> (Inl e, p)
   | Inr f \<Rightarrow> (Inr f, open_fd f COMPOSITOR_CONN False p))"

definition RLIMIT_CPU_SECS :: nat where "RLIMIT_CPU_SECS = 30"

record worker_sys =
  wk_socketpair :: "errno + fd \<times> fd"
  wk_fork :: "errno + i32"
  wk_setrlimit :: "errno + unit"
  wk_pidfd_open :: "u32 \<Rightarrow> os_error + fd"

text \<open>The child of \<open>spawn_worker\<close> when it enters \<open>child_main\<close>.\<close>

definition worker_child :: "worker_sys \<Rightarrow> fd \<Rightarrow> process \<Rightarrow> process" where
  "worker_child W parent_fd p =
     (let c = (close_fd parent_fd p)\<lparr>pr_blocked := False\<rparr> in
      case wk_setrlimit W of Inr _ \<Rightarrow> c\<lparr>pr_cpu := Some RLIMIT_CPU_SECS\<rparr> | Inl _ \<Rightarrow> c)"

text \<open>\<open>spawn_worker\<close>: its result, the broker afterwards, and the child if there is one.\<close>

definition spawn_worker :: "worker_sys \<Rightarrow> process \<Rightarrow> (spawn_error + worker_handle \<times> fd) \<times> process \<times> process option" where
  "spawn_worker W p = (case wk_socketpair W of
     Inl e \<Rightarrow> (Inl (OsError e), p, None)
   | Inr (parent_fd, child_fd) \<Rightarrow>
       let p1 = open_fd child_fd WORKER_CHILD_END False (open_fd parent_fd WORKER_PARENT_END False p) in
       (case wk_fork W of
         Inl e \<Rightarrow> (Inl (OsError e), close_fd child_fd (close_fd parent_fd p1), None)
       | Inr child \<Rightarrow>
           let c = worker_child W parent_fd p1; p2 = close_fd child_fd p1 in
           (case parent_side child (wk_pidfd_open W) of
             Inl e \<Rightarrow> (Inl e, close_fd parent_fd p2, Some c)
           | Inr handle \<Rightarrow> (Inr (handle, parent_fd), open_fd (wh_pidfd handle) PIDFD True p2, Some c))))"

text \<open>A forked child that reached \<open>execve\<close>: credentials aside, only the table changes.\<close>

definition exec_child :: "process \<Rightarrow> child_end \<Rightarrow> process option" where
  "exec_child p e = (case e of
     Execed im c \<Rightarrow> Some (p\<lparr>pr_fds := after_exec (pr_fds p), pr_blocked := cr_signals_blocked c\<rparr>)
   | Died code \<Rightarrow> None)"

section \<open>What is inherited\<close>

lemma worker_child_fields [simp]:
  "pr_fds (worker_child W f p) = (pr_fds p)(f := None)"
  "pr_cpu (worker_child W f p) = (if wk_setrlimit W = Inr () then Some RLIMIT_CPU_SECS else pr_cpu p)"
  by (simp_all add: worker_child_def close_fd_def Let_def split: sum.split)

lemma spawned_worker:
  assumes "spawn_worker W b = (res, b', Some w)"
  obtains parent_fd child_fd where "wk_socketpair W = Inr (parent_fd, child_fd)"
    "pr_fds w = (pr_fds b)(parent_fd \<mapsto> (WORKER_PARENT_END, False), child_fd \<mapsto> (WORKER_CHILD_END, False), parent_fd := None)"
    "pr_cpu w = (if wk_setrlimit W = Inr () then Some RLIMIT_CPU_SECS else pr_cpu b)"
proof -
  obtain parent_fd child_fd where s: "wk_socketpair W = Inr (parent_fd, child_fd)"
    using assms by (auto simp: spawn_worker_def split: sum.splits)
  moreover have "w = worker_child W parent_fd (open_fd child_fd WORKER_CHILD_END False (open_fd parent_fd WORKER_PARENT_END False b))"
    using assms s by (auto simp: spawn_worker_def Let_def split: sum.splits)
  ultimately show thesis using that by (simp add: open_fd_def)
qed

text \<open>
  what a user's session inherits from the root broker.  The session leader is forked from
  the worker, the worker from the broker, and none of them closes descriptors it does not
  use or marks them close-on-exec.  So after its \<open>execve\<close> the user's program holds exactly the
  child's end of the channel the broker takes for the worker, and every descriptor of the
  broker that was not close-on-exec; among them the listening socket PID 1 passed on
  descriptor 3 and the accepted connection of the compositor.  And it runs under the 30
  seconds of CPU time meant for the authentication.
\<close>

theorem session_inherits_broker_sockets:
  assumes "pr_fds b0 SD_LISTEN_FDS_START = Some (LISTENER, False)"
    and "accept_seqpacket (Inr conn) b0 = (Inr conn, b)" and "conn \<noteq> SD_LISTEN_FDS_START"
    and "spawn_worker W b = (res, b', Some w)"
    and "wk_socketpair W = Inr (parent_fd, child_fd)" and "parent_fd \<noteq> child_fd" and "{parent_fd, child_fd} \<inter> {conn, SD_LISTEN_FDS_START} = {}"
    and "spawn_session_leader euid ForkChild pidfd_open K c spec groups = InChild (Execed im c')"
  shows "\<exists>leader. exec_child w (Execed im c') = Some leader \<and>
    pr_fds leader child_fd = Some (WORKER_CHILD_END, False) \<and> pr_fds leader parent_fd = None \<and>
    pr_fds leader conn = Some (COMPOSITOR_CONN, False) \<and> pr_fds leader SD_LISTEN_FDS_START = Some (LISTENER, False) \<and>
    (\<forall>f. f \<notin> {parent_fd, child_fd} \<longrightarrow> pr_fds leader f = after_exec (pr_fds b) f) \<and>
    (wk_setrlimit W = Inr () \<longrightarrow> pr_cpu leader = Some 30)"
proof -
  have b: "pr_fds b = (pr_fds b0)(conn \<mapsto> (COMPOSITOR_CONN, False))" using assms(2) by (auto simp: accept_seqpacket_def open_fd_def)
  obtain p q where w: "wk_socketpair W = Inr (p, q)"
    "pr_fds w = (pr_fds b)(p \<mapsto> (WORKER_PARENT_END, False), q \<mapsto> (WORKER_CHILD_END, False), p := None)"
    "pr_cpu w = (if wk_setrlimit W = Inr () then Some RLIMIT_CPU_SECS else pr_cpu b)"
    using spawned_worker [OF assms(4)] by metis
  then have pq: "p = parent_fd" "q = child_fd" using assms(5) by auto
  have rest: "after_exec (pr_fds w) f = after_exec (pr_fds b) f" if "f \<notin> {parent_fd, child_fd}" for f
    using that by (auto simp: w(2) pq after_exec_def)
  have "after_exec (pr_fds b) conn = Some (COMPOSITOR_CONN, False)" "after_exec (pr_fds b) SD_LISTEN_FDS_START = Some (LISTENER, False)"
    using assms(1,3) by (auto simp: b)
  moreover have "after_exec (pr_fds w) child_fd = Some (WORKER_CHILD_END, False)" "after_exec (pr_fds w) parent_fd = None"
    using assms(6) by (auto simp: w(2) pq)
  ultimately show ?thesis using assms(7) rest w(3) by (auto simp: exec_child_def RLIMIT_CPU_SECS_def)
qed

text \<open>
  a worker whose pidfd cannot be opened runs on unsupervised.  \<open>spawn_worker\<close> then reports
  an error and the broker keeps no handle, but the forked child exists, has not been
  signalled, and nothing will wait for it; the same holds for the session leader.
\<close>

theorem failed_pidfd_leaves_worker_running:
  assumes "wk_socketpair W = Inr (parent_fd, child_fd)" and "wk_fork W = Inr child" and "\<not> child <s 0"
    and "wk_pidfd_open W child = Inl e"
  shows "\<exists>b' w. spawn_worker W b = (Inl (OsError e), b', Some w) \<and>
    (leader_image euid spec groups = Inr im \<longrightarrow>
       spawn_session_leader euid (ForkParent child) (wk_pidfd_open W) K c spec groups = InParent (Inl (OsError e)) \<and>
       spawn_session_leader euid ForkChild (wk_pidfd_open W) K c spec groups = InChild (leader_child_exec K c im))"
  using assms by (simp add: spawn_worker_def parent_side_def spawn_session_leader_def Let_def)

section \<open>A login, evaluated\<close>

definition demo_broker_process :: process where
  "demo_broker_process = \<lparr>pr_fds = [3 \<mapsto> (LISTENER, False), 4 \<mapsto> (PIDFD, True)], pr_cpu = None, pr_blocked = True\<rparr>"

definition demo_worker_sys :: worker_sys where
  "demo_worker_sys = \<lparr>wk_socketpair = Inr (6, 7), wk_fork = Inr 100, wk_setrlimit = Inr (), wk_pidfd_open = (\<lambda>p. Inr 8)\<rparr>"

definition demo_session_spec :: session_spec where
  "demo_session_spec = \<lparr>ss_username = ''alice'', ss_uid = 1000, ss_gid = 1000, ss_cmd = [''/bin/niri''], ss_env = []\<rparr>"

theorem session_inherits_broker_sockets_witness:
  "\<exists>im c (leader :: process). spawn_session_leader 0 ForkChild (\<lambda>p. Inr 9) demo_kernel root_creds demo_session_spec [1000] = InChild (Execed im c) \<and>
     pr_fds leader 3 = Some (LISTENER, False) \<and> pr_fds leader 5 = Some (COMPOSITOR_CONN, False) \<and>
     pr_fds leader 7 = Some (WORKER_CHILD_END, False) \<and> pr_cpu leader = Some 30"
proof -
  let ?b = "open_fd 5 COMPOSITOR_CONN False demo_broker_process"
  have l: "pr_fds demo_broker_process SD_LISTEN_FDS_START = Some (LISTENER, False)"
    by (simp add: demo_broker_process_def SD_LISTEN_FDS_START_def)
  have a: "accept_seqpacket (Inr 5) demo_broker_process = (Inr 5, ?b)" by (simp add: accept_seqpacket_def)
  have "\<exists>res b' w. spawn_worker demo_worker_sys ?b = (res, b', Some w)"
    by (simp add: spawn_worker_def demo_worker_sys_def parent_side_def Let_def split: sum.split)
  then obtain res b' w where s: "spawn_worker demo_worker_sys ?b = (res, b', Some w)" by blast
  have "\<exists>im c. spawn_session_leader 0 ForkChild (\<lambda>p. Inr 9) demo_kernel root_creds demo_session_spec [1000] = InChild (Execed im c)"
    by (simp add: spawn_session_leader_def leader_image_def prefork_gates_def UID_MIN_def to_c_def demo_session_spec_def
        leader_child_exec_def or_die_def demo_kernel_def root_creds_def Let_def)
  then obtain im c where e: "spawn_session_leader 0 ForkChild (\<lambda>p. Inr 9) demo_kernel root_creds demo_session_spec [1000] = InChild (Execed im c)"
    by blast
  have k: "wk_socketpair demo_worker_sys = Inr (6, 7)" "wk_setrlimit demo_worker_sys = Inr ()" by (simp_all add: demo_worker_sys_def)
  have d: "(5 :: fd) \<noteq> SD_LISTEN_FDS_START" "(6 :: fd) \<noteq> 7" "{6, 7} \<inter> {5, SD_LISTEN_FDS_START} = ({} :: fd set)"
    by (simp_all add: SD_LISTEN_FDS_START_def)
  from session_inherits_broker_sockets [OF l a d(1) s k(1) d(2,3) e] k(2) obtain leader :: process where
    "pr_fds leader 3 = Some (LISTENER, False)" "pr_fds leader 5 = Some (COMPOSITOR_CONN, False)"
    "pr_fds leader 7 = Some (WORKER_CHILD_END, False)" "pr_cpu leader = Some 30"
    unfolding SD_LISTEN_FDS_START_def by blast
  then show ?thesis using e by blast
qed

theorem failed_pidfd_leaves_worker_running_witness:
  "\<exists>b' w. spawn_worker (demo_worker_sys\<lparr>wk_pidfd_open := (\<lambda>p. Inl 24)\<rparr>) demo_broker_process = (Inl (OsError 24), b', Some w)"
proof -
  let ?W = "demo_worker_sys\<lparr>wk_pidfd_open := (\<lambda>p. Inl 24)\<rparr>"
  have "wk_socketpair ?W = Inr (6, 7)" "wk_fork ?W = Inr 100" "\<not> (100 :: i32) <s 0" "wk_pidfd_open ?W 100 = Inl 24"
    by (simp_all add: demo_worker_sys_def word_sless_alt)
  from failed_pidfd_leaves_worker_running [OF this] show ?thesis by blast
qed

end
