(* ===== verification/Task_Caps.thy ===== *)
theory Task_Caps
  imports Rust_Text
begin

text \<open>
  The compositor's privilege drop: \<open>crates/halmasuit/src/task_caps.rs\<close> (parsing
  \<open>/proc/self/task/*/status\<close>, the check of one thread, the audit of all) and \<open>clear_bounding_set\<close>,
  \<open>compositor_uid_from_env\<close> and \<open>drop_privileges\<close> of \<open>crates/halmasuit/src/main.rs\<close>.  System calls,
  environment variables and the contents of procfs are arguments; the calls made are
  recorded in order.
\<close>

unbundle bit_operations_syntax

section \<open>One thread\<close>

definition CAP_KILL_MASK :: u64 where
  "CAP_KILL_MASK = push_bit 5 1"

record task_creds =
  tc_uids :: "u32 list"
  cap_inh :: u64
  cap_prm :: u64
  cap_eff :: u64
  cap_bnd :: u64
  cap_amb :: u64

datatype status_error = MissingLine string | BadCap string string | BadUid string | UidCount nat

text \<open>\<open>u64::from_str_radix(_, 16)\<close>: an optional plus sign, then hexadecimal digits, without overflow.\<close>

definition parse_hex_u64 :: "string \<Rightarrow> u64 option" where
  "parse_hex_u64 s = (let t = (case s of CHR ''+'' # rest \<Rightarrow> rest | _ \<Rightarrow> s) in
     if t \<noteq> [] \<and> list_all (\<lambda>c. hex_digit c \<noteq> None) t \<and> hex_value t < 2 ^ 64 then Some (of_nat (hex_value t)) else None)"

text \<open>The closures \<open>field\<close> and \<open>cap\<close> of \<open>parse_status\<close>.\<close>

fun find_map :: "('a \<Rightarrow> 'b option) \<Rightarrow> 'a list \<Rightarrow> 'b option" where
  "find_map f [] = None"
| "find_map f (x # xs) = (case f x of Some y \<Rightarrow> Some y | None \<Rightarrow> find_map f xs)"

definition field_line :: "string \<Rightarrow> string \<Rightarrow> string option" where
  "field_line name line = (case strip_prefix name line of None \<Rightarrow> None | Some r \<Rightarrow> strip_prefix '':'' r)"

definition status_field :: "string \<Rightarrow> string \<Rightarrow> status_error + string" where
  "status_field text name = (case find_map (field_line name) (text_lines text) of
     Some v \<Rightarrow> Inr (trim v) | None \<Rightarrow> Inl (MissingLine name))"

definition status_cap :: "string \<Rightarrow> string \<Rightarrow> status_error + u64" where
  "status_cap text name = (case status_field text name of
     Inl e \<Rightarrow> Inl e
   | Inr raw \<Rightarrow> (case parse_hex_u64 raw of Some w \<Rightarrow> Inr w | None \<Rightarrow> Inl (BadCap name raw)))"

definition parse_status :: "string \<Rightarrow> status_error + task_creds" where
  "parse_status text = rbind (status_field text ''Uid'') (\<lambda>uid_raw.
     let parsed = map parse_u32 (split_whitespace uid_raw) in
     if None \<in> set parsed then Inl (BadUid uid_raw)
     else if length parsed \<noteq> 4 then Inl (UidCount (length parsed))
     else rbind (status_cap text ''CapInh'') (\<lambda>inh. rbind (status_cap text ''CapPrm'') (\<lambda>prm.
       rbind (status_cap text ''CapEff'') (\<lambda>eff. rbind (status_cap text ''CapBnd'') (\<lambda>bnd.
       rbind (status_cap text ''CapAmb'') (\<lambda>amb.
         Inr \<lparr>tc_uids = map the parsed, cap_inh = inh, cap_prm = prm, cap_eff = eff, cap_bnd = bnd, cap_amb = amb\<rparr>))))))"

datatype violation = WrongUids "u32 list" u32 | CapNotEmpty string u64 | CapExceeds string u64

definition check_creds :: "task_creds \<Rightarrow> u32 \<Rightarrow> violation list + unit" where
  "check_creds creds uid =
     (let v1 = (if tc_uids creds \<noteq> replicate 4 uid then [WrongUids (tc_uids creds) uid] else []);
          v2 = concat (map (\<lambda>(name, value). if value \<noteq> 0 then [CapNotEmpty name value] else [])
            [(''CapBnd'', cap_bnd creds), (''CapInh'', cap_inh creds), (''CapAmb'', cap_amb creds)]);
          v3 = concat (map (\<lambda>(name, value). if value AND NOT CAP_KILL_MASK \<noteq> 0 then [CapExceeds name value] else [])
            [(''CapPrm'', cap_prm creds), (''CapEff'', cap_eff creds)]);
          vs = v1 @ v2 @ v3 in
      if vs = [] then Inr () else Inl vs)"

section \<open>All threads\<close>

text \<open>What reading the \<open>status\<close> of a listed thread gives.\<close>

datatype status_read = StatusText string | StatusGone | StatusFailed errno

datatype audit_error =
    AuditIo errno
  | TaskStatus string status_error
  | NoTask
  | Violations "(string \<times> violation list) list"

fun audit_loop :: "u32 \<Rightarrow> (errno + string \<times> status_read) list \<Rightarrow> nat \<Rightarrow> (string \<times> violation list) list \<Rightarrow> audit_error + unit" where
  "audit_loop uid [] audited vs =
     (if audited = 0 then Inl NoTask else if vs = [] then Inr () else Inl (Violations vs))"
| "audit_loop uid (Inl e # es) audited vs = Inl (AuditIo e)"
| "audit_loop uid (Inr (tid, StatusGone) # es) audited vs = audit_loop uid es audited vs"
| "audit_loop uid (Inr (tid, StatusFailed e) # es) audited vs = Inl (AuditIo e)"
| "audit_loop uid (Inr (tid, StatusText text) # es) audited vs = (case parse_status text of
     Inl e \<Rightarrow> Inl (TaskStatus tid e)
   | Inr creds \<Rightarrow> (case check_creds creds uid of
       Inl v \<Rightarrow> audit_loop uid es (audited + 1) (vs @ [(tid, v)])
     | Inr _ \<Rightarrow> audit_loop uid es (audited + 1) vs))"

definition audit_all_tasks :: "errno + (errno + string \<times> status_read) list \<Rightarrow> u32 \<Rightarrow> audit_error + unit" where
  "audit_all_tasks listing uid = (case listing of Inl e \<Rightarrow> Inl (AuditIo e) | Inr es \<Rightarrow> audit_loop uid es 0 [])"

section \<open>Dropping privileges\<close>

text \<open>A variable of the environment, which need not be UTF-8.\<close>

datatype env_var = EnvUnset | EnvNotUnicode | EnvText string

datatype drop_call =
    SetKeepCaps | SetResGid u32 | SetResUid u32 | CapSetKill | AuditTasks | BoundingDrop nat

datatype drop_error =
    KeepCapsFailed errno
  | GidZeroRefused
  | GidNotNumber string
  | SetGidFailed errno
  | SetUidFailed errno
  | CapSetFailed errno
  | AuditFailed audit_error
  | UidNotUnicode
  | UidNotNumber string
  | BoundingFailed nat errno

record priv_sys =
  py_keepcaps :: "errno + unit"
  py_gid_var :: env_var
  py_egid :: u32
  py_setresgid :: "u32 \<Rightarrow> errno + unit"
  py_setresuid :: "u32 \<Rightarrow> errno + unit"
  py_capset :: "errno + unit"
  py_tasks :: "errno + (errno + string \<times> status_read) list"

definition compositor_uid_from_env :: "env_var \<Rightarrow> drop_error + u32 option" where
  "compositor_uid_from_env v = (case v of
     EnvUnset \<Rightarrow> Inr None
   | EnvNotUnicode \<Rightarrow> Inl UidNotUnicode
   | EnvText s \<Rightarrow> (case parse_u32 s of Some u \<Rightarrow> Inr (Some u) | None \<Rightarrow> Inl (UidNotNumber s)))"

definition target_gid :: "priv_sys \<Rightarrow> drop_error + u32" where
  "target_gid S = (case py_gid_var S of
     EnvText s \<Rightarrow> (case parse_u32 s of
         Some g \<Rightarrow> if g = 0 then Inl GidZeroRefused else Inr g
       | None \<Rightarrow> Inl (GidNotNumber s))
   | _ \<Rightarrow> Inr (py_egid S))"

definition drop_privileges :: "priv_sys \<Rightarrow> u32 \<Rightarrow> (drop_error + unit) \<times> drop_call list" where
  "drop_privileges S uid = (case py_keepcaps S of
     Inl e \<Rightarrow> (Inl (KeepCapsFailed e), [SetKeepCaps])
   | Inr _ \<Rightarrow> (case target_gid S of
       Inl e \<Rightarrow> (Inl e, [SetKeepCaps])
     | Inr g \<Rightarrow> (case py_setresgid S g of
         Inl e \<Rightarrow> (Inl (SetGidFailed e), [SetKeepCaps, SetResGid g])
       | Inr _ \<Rightarrow> (case py_setresuid S uid of
           Inl e \<Rightarrow> (Inl (SetUidFailed e), [SetKeepCaps, SetResGid g, SetResUid uid])
         | Inr _ \<Rightarrow> (case py_capset S of
             Inl e \<Rightarrow> (Inl (CapSetFailed e), [SetKeepCaps, SetResGid g, SetResUid uid, CapSetKill])
           | Inr _ \<Rightarrow> (map_err AuditFailed (audit_all_tasks (py_tasks S) uid),
               [SetKeepCaps, SetResGid g, SetResUid uid, CapSetKill, AuditTasks]))))))"

text \<open>\<open>clear_bounding_set\<close> over the capabilities the \<open>caps\<close> crate lists.\<close>

fun clear_bounding_set :: "(nat \<Rightarrow> errno + unit) \<Rightarrow> nat list \<Rightarrow> (drop_error + unit) \<times> drop_call list" where
  "clear_bounding_set drop_cap [] = (Inr (), [])"
| "clear_bounding_set drop_cap (c # cs) = (case drop_cap c of
     Inl e \<Rightarrow> (Inl (BoundingFailed c e), [BoundingDrop c])
   | Inr _ \<Rightarrow> let (r, calls) = clear_bounding_set drop_cap cs in (r, BoundingDrop c # calls))"

section \<open>The format of procfs\<close>

text \<open>How the kernel prints the lines the parser looks for (proc(5)): decimal ids and 16
  hexadecimal digits, after a tab; other lines around them.\<close>

fun join_tabs :: "string list \<Rightarrow> string" where
  "join_tabs [] = []"
| "join_tabs [w] = w"
| "join_tabs (w # ws) = w @ CHR 0x09 # join_tabs ws"

definition uid_line :: "task_creds \<Rightarrow> string" where
  "uid_line creds = ''Uid:'' @ CHR 0x09 # join_tabs (map (\<lambda>u. show_nat (unat u)) (tc_uids creds))"

definition cap_line :: "string \<Rightarrow> u64 \<Rightarrow> string" where
  "cap_line name w = name @ CHR '':'' # CHR 0x09 # show_hex 16 (unat w)"

definition status_text :: "string list \<Rightarrow> string list \<Rightarrow> string list \<Rightarrow> task_creds \<Rightarrow> string" where
  "status_text before mid after creds = concat (map (\<lambda>l. l @ [CHR 0x0A])
     (before @ uid_line creds # mid @
      [cap_line ''CapInh'' (cap_inh creds), cap_line ''CapPrm'' (cap_prm creds), cap_line ''CapEff'' (cap_eff creds),
       cap_line ''CapBnd'' (cap_bnd creds), cap_line ''CapAmb'' (cap_amb creds)] @ after))"

definition plain_line :: "string \<Rightarrow> bool" where
  "plain_line l = (CHR 0x0A \<notin> set l \<and> (l = [] \<or> last l \<noteq> CHR 0x0D))"

text \<open>A line of another field.\<close>

definition other_line :: "string \<Rightarrow> bool" where
  "other_line l = (plain_line l \<and> list_all (\<lambda>name. field_line name l = None) [''Uid'', ''CapInh'', ''CapPrm'', ''CapEff'', ''CapBnd'', ''CapAmb''])"

lemma text_lines_concat: "list_all plain_line ls \<Longrightarrow> text_lines (concat (map (\<lambda>l. l @ [CHR 0x0A]) ls)) = ls"
  by (induction ls) (auto simp: text_lines_Cons plain_line_def strip_cr_def)

lemma find_map_append: "find_map f (xs @ ys) = (case find_map f xs of Some y \<Rightarrow> Some y | None \<Rightarrow> find_map f ys)"
  by (induction xs) (simp_all split: option.split)

lemma find_map_None: "(\<And>x. x \<in> set xs \<Longrightarrow> f x = None) \<Longrightarrow> find_map f xs = None"
  by (induction xs) auto

lemma hd_last_list_all: "list_all P s \<Longrightarrow> s \<noteq> [] \<Longrightarrow> P (hd s) \<and> P (last s)"
  by (auto simp: list_all_iff)

lemma parse_show_hex: "parse_hex_u64 (show_hex 16 (unat w)) = Some w" "trim (CHR 0x09 # show_hex 16 (unat w)) = show_hex 16 (unat w)"
proof -
  note h = show_hex_ok [of 16 "unat w"]
  have ne: "show_hex 16 (unat w) \<noteq> []" using h by (metis length_0_conv zero_neq_numeral)
  have e: "visible (hd (show_hex 16 (unat w))) \<and> visible (last (show_hex 16 (unat w)))" "hd (show_hex 16 (unat w)) \<noteq> CHR ''+''"
    using hd_last_list_all [OF conjunct1 [OF h] ne] by auto
  have "unat w < 16 ^ 16" using unsigned_less [of w] by simp
  then have "hex_value (show_hex 16 (unat w)) = unat w" "unat w < 2 ^ 64" using h by simp_all
  then show "parse_hex_u64 (show_hex 16 (unat w)) = Some w"
    using h ne no_plus_prefix [OF ne e(2)] by (simp add: parse_hex_u64_def Let_def list_all_iff del: show_hex.simps)
  show "trim (CHR 0x09 # show_hex 16 (unat w)) = show_hex 16 (unat w)"
    using trim_ws [of "[CHR 0x09]"] trim_visible [OF ne] e(1) by simp
qed

text \<open>Words of visible characters between tabs.\<close>

lemma take_word_visible: "list_all visible w \<Longrightarrow> take_word w = (w, []) \<and> take_word (w @ CHR 0x09 # r) = (w, CHR 0x09 # r)"
proof (induction w)
  case Nil
  have "strip_any ws_seqs (CHR 0x09 # r) \<noteq> None" by (simp add: ws_seqs_def)
  then show ?case by simp
next
  case (Cons c w)
  then show ?case using visible_not_ws(1) [of c] by simp
qed

lemma split_whitespace_tab: "split_whitespace (CHR 0x09 # s) = split_whitespace s"
  using strip_all_ws [of "[CHR 0x09]" s] by (simp add: split_whitespace.simps [of "CHR 0x09 # s"] split_whitespace.simps [of s])

lemma split_join_tabs:
  "list_all (\<lambda>w. w \<noteq> [] \<and> list_all visible w) ws \<Longrightarrow> split_whitespace (join_tabs ws) = ws"
proof (induction ws rule: join_tabs.induct)
  case 1
  have "strip_all ws_seqs [] = []" by (simp add: strip_any_None ws_seqs_def)
  then show ?case by (simp add: split_whitespace.simps)
next
  case (2 w)
  then have s: "strip_all ws_seqs w = w" using visible_not_ws(1) [of "hd w" "tl w"] by (cases w) simp_all
  have "split_whitespace [] = []" by (simp add: split_whitespace.simps strip_any_None ws_seqs_def)
  then show ?case using 2 take_word_visible [of w "[]"] s by (simp add: split_whitespace.simps [of w])
next
  case (3 w v vs)
  let ?r = "join_tabs (v # vs)"
  have "strip_all ws_seqs (w @ CHR 0x09 # ?r) = w @ CHR 0x09 # ?r"
    using 3(2) visible_not_ws(1) [of "hd w" "tl w @ CHR 0x09 # ?r"] by (cases w) simp_all
  then have "split_whitespace (w @ CHR 0x09 # ?r) = w # split_whitespace (CHR 0x09 # ?r)"
    using 3(2) take_word_visible [of w ?r] by (subst split_whitespace.simps) (simp add: Let_def)
  then show ?case using 3 by (simp add: split_whitespace_tab)
qed

lemma show_nat_visible: "list_all visible (show_nat n) \<and> show_nat n \<noteq> []"
  using show_nat_ok [of n] by (auto simp: list_all_iff is_digit_def visible_def)

lemma visible_plain: "list_all visible s \<Longrightarrow> c \<in> set s \<Longrightarrow> c \<noteq> CHR 0x0A \<and> c \<noteq> CHR 0x0D"
  by (auto simp: list_all_iff visible_def)

lemma join_tabs_ok:
  assumes "ws \<noteq> []" "list_all (\<lambda>w. w \<noteq> [] \<and> list_all visible w) ws"
  shows "join_tabs ws \<noteq> [] \<and> visible (hd (join_tabs ws)) \<and> visible (last (join_tabs ws)) \<and> CHR 0x0A \<notin> set (join_tabs ws)"
  using assms
proof (induction ws rule: join_tabs.induct)
  case (2 w)
  then show ?case using hd_last_list_all [of visible w] visible_plain [of w] by auto
next
  case (3 w v vs)
  then show ?case using hd_last_list_all [of visible w] visible_plain [of w] by auto
qed simp

lemma uid_line_ok:
  assumes "length (tc_uids creds) = 4"
  shows "plain_line (uid_line creds)" "field_line ''Uid'' (uid_line creds) = Some (CHR 0x09 # join_tabs (map (\<lambda>u. show_nat (unat u)) (tc_uids creds)))"
    "split_whitespace (trim (CHR 0x09 # join_tabs (map (\<lambda>u. show_nat (unat u)) (tc_uids creds)))) = map (\<lambda>u. show_nat (unat u)) (tc_uids creds)"
proof -
  let ?ws = "map (\<lambda>u. show_nat (unat u)) (tc_uids creds)"
  have ws: "?ws \<noteq> []" "list_all (\<lambda>w. w \<noteq> [] \<and> list_all visible w) ?ws"
    using assms show_nat_visible by (auto simp: list_all_iff)
  note j = join_tabs_ok [OF ws]
  have "last (join_tabs ?ws) \<noteq> CHR 0x0D" using j by (auto simp: visible_def)
  then show "plain_line (uid_line creds)" using j by (simp add: plain_line_def uid_line_def)
  show "field_line ''Uid'' (uid_line creds) = Some (CHR 0x09 # join_tabs ?ws)"
    by (simp add: field_line_def uid_line_def strip_prefix_def)
  show "split_whitespace (trim (CHR 0x09 # join_tabs ?ws)) = ?ws"
    using trim_ws [of "[CHR 0x09]" "join_tabs ?ws"] trim_visible [of "join_tabs ?ws"] j split_join_tabs [OF ws(2)] by simp
qed

lemma cap_line_plain: "plain_line name \<Longrightarrow> plain_line (cap_line name w)"
proof -
  note h = show_hex_ok [of 16 "unat w"]
  have ne: "show_hex 16 (unat w) \<noteq> []" using h by (metis length_0_conv zero_neq_numeral)
  have "list_all visible (show_hex 16 (unat w))" using h by (auto simp: list_all_iff)
  then show "plain_line name \<Longrightarrow> ?thesis"
    using ne visible_plain [of "show_hex 16 (unat w)"] hd_last_list_all [of visible "show_hex 16 (unat w)"]
    by (auto simp: plain_line_def cap_line_def)
qed

lemma cap_line_field: "field_line name (cap_line name w) = Some (CHR 0x09 # show_hex 16 (unat w))"
  by (simp add: field_line_def cap_line_def strip_prefix_def)

lemma parse_status_text:
  assumes "list_all other_line before" and "list_all other_line mid" and "list_all plain_line after"
    and "length (tc_uids creds) = 4"
  shows "parse_status (status_text before mid after creds) = Inr creds"
proof -
  let ?caps = "[cap_line ''CapInh'' (cap_inh creds), cap_line ''CapPrm'' (cap_prm creds), cap_line ''CapEff'' (cap_eff creds),
       cap_line ''CapBnd'' (cap_bnd creds), cap_line ''CapAmb'' (cap_amb creds)]"
  have "list_all plain_line [''CapInh'', ''CapPrm'', ''CapEff'', ''CapBnd'', ''CapAmb'']" by (simp add: plain_line_def)
  then have "list_all plain_line ?caps" by (simp add: cap_line_plain)
  then have lines: "text_lines (status_text before mid after creds) = before @ uid_line creds # mid @ ?caps @ after"
    unfolding status_text_def by (intro text_lines_concat) (use assms uid_line_ok(1) in \<open>auto simp: list_all_iff other_line_def\<close>)
  have skip: "find_map (field_line name) before = None" "find_map (field_line name) mid = None"
    if "name \<in> set [''Uid'', ''CapInh'', ''CapPrm'', ''CapEff'', ''CapBnd'', ''CapAmb'']" for name
    using that assms by (auto simp: list_all_iff other_line_def intro!: find_map_None)
  have u: "field_line name (uid_line creds) = None" if "name \<in> set [''CapInh'', ''CapPrm'', ''CapEff'', ''CapBnd'', ''CapAmb'']" for name
    using that by (auto simp: field_line_def uid_line_def strip_prefix_def)
  have cap: "status_cap (status_text before mid after creds) (''Cap'' @ n) = Inr w"
    if "find_map (field_line (''Cap'' @ n)) ?caps = Some (CHR 0x09 # show_hex 16 (unat w))"
      "n \<in> set [''Inh'', ''Prm'', ''Eff'', ''Bnd'', ''Amb'']" for n w
  proof -
    have m: "''Cap'' @ n \<in> set [''CapInh'', ''CapPrm'', ''CapEff'', ''CapBnd'', ''CapAmb'']" using that(2) by auto
    then show ?thesis
      using skip [of "''Cap'' @ n"] u [OF m] that(1) parse_show_hex [of w]
      by (simp add: status_cap_def status_field_def lines find_map_append del: show_hex.simps append.simps)
  qed
  have uid: "status_field (status_text before mid after creds) ''Uid'' =
      Inr (trim (CHR 0x09 # join_tabs (map (\<lambda>u. show_nat (unat u)) (tc_uids creds))))"
    using skip [of "''Uid''"] uid_line_ok(2) [OF assms(4)] by (simp add: status_field_def lines find_map_append)
  have caps: "status_cap (status_text before mid after creds) ''CapInh'' = Inr (cap_inh creds)"
    "status_cap (status_text before mid after creds) ''CapPrm'' = Inr (cap_prm creds)"
    "status_cap (status_text before mid after creds) ''CapEff'' = Inr (cap_eff creds)"
    "status_cap (status_text before mid after creds) ''CapBnd'' = Inr (cap_bnd creds)"
    "status_cap (status_text before mid after creds) ''CapAmb'' = Inr (cap_amb creds)"
    using cap [of "''Inh''" "cap_inh creds"] cap [of "''Prm''" "cap_prm creds"] cap [of "''Eff''" "cap_eff creds"]
      cap [of "''Bnd''" "cap_bnd creds"] cap [of "''Amb''" "cap_amb creds"]
    by (simp_all add: field_line_def cap_line_def strip_prefix_def del: show_hex.simps)
  show ?thesis unfolding parse_status_def uid caps
    using uid_line_ok(3) [OF assms(4)] assms(4) by (auto simp: parse_u32_show Let_def comp_def)
qed

text \<open>
  the parser of \<open>/proc/<pid>/task/<tid>/status\<close> reads back what the kernel prints.  Whatever the
  other lines are, as long as none before the capability lines is one of the parsed fields,
  parsing gives exactly the four uids and the five capability sets of the thread.
\<close>

theorem status_roundtrip:
  assumes "list_all other_line before" and "list_all other_line mid" and "list_all plain_line after"
    and "length (tc_uids creds) = 4"
  shows "parse_status (status_text before mid after creds) = Inr creds"
  using assms by (rule parse_status_text)

section \<open>What the audit establishes\<close>

text \<open>A thread after the drop: every uid component is the compositor's, nothing can be gained or
  passed on, and what is held is at most \<open>CAP_KILL\<close>, capability 5.\<close>

definition confined :: "task_creds \<Rightarrow> u32 \<Rightarrow> bool" where
  "confined creds uid \<longleftrightarrow> tc_uids creds = replicate 4 uid \<and> cap_bnd creds = 0 \<and> cap_inh creds = 0 \<and> cap_amb creds = 0 \<and>
     (\<forall>n. bit (cap_prm creds) n \<or> bit (cap_eff creds) n \<longrightarrow> n = 5)"

lemma kill_mask_only: "(w :: u64) AND NOT CAP_KILL_MASK = 0 \<longleftrightarrow> (\<forall>n. bit w n \<longrightarrow> n = 5)"
proof -
  have b: "bit CAP_KILL_MASK n \<longleftrightarrow> n = 5" for n
    unfolding CAP_KILL_MASK_def bit_push_bit_iff by (auto simp only: bit_1_iff) (simp_all add: possible_bit_word)
  show ?thesis
  proof
    assume z: "w AND NOT CAP_KILL_MASK = 0"
    show "\<forall>n. bit w n \<longrightarrow> n = 5"
    proof (intro allI impI, rule ccontr)
      fix n :: nat
      assume n: "bit w n" "n \<noteq> 5"
      then have "bit (w AND NOT CAP_KILL_MASK) n" using bit_imp_le_length [OF n(1)] by (simp add: bit_and_iff bit_not_iff b)
      then show False by (simp add: z)
    qed
  next
    assume "\<forall>n. bit w n \<longrightarrow> n = 5"
    then show "w AND NOT CAP_KILL_MASK = 0" by (intro bit_word_eqI) (simp add: bit_and_iff bit_not_iff b)
  qed
qed

lemma check_exact: "check_creds creds uid = Inr () \<longleftrightarrow> confined creds uid"
  by (auto simp: check_creds_def confined_def Let_def kill_mask_only)

definition entry_ok :: "u32 \<Rightarrow> errno + string \<times> status_read \<Rightarrow> bool" where
  "entry_ok uid e = (case e of
     Inr (tid, StatusGone) \<Rightarrow> True
   | Inr (tid, StatusText text) \<Rightarrow> (case parse_status text of Inr creds \<Rightarrow> confined creds uid | Inl _ \<Rightarrow> False)
   | _ \<Rightarrow> False)"

definition has_text :: "errno + string \<times> status_read \<Rightarrow> bool" where
  "has_text e = (case e of Inr (tid, StatusText text) \<Rightarrow> True | _ \<Rightarrow> False)"

lemma audit_loop_exact:
  "audit_loop uid es k vs = Inr () \<longleftrightarrow> vs = [] \<and> list_all (entry_ok uid) es \<and> (0 < k \<or> list_ex has_text es)"
proof (induction uid es k vs rule: audit_loop.induct)
  case (5 uid tid body es k vs)
  show ?case
  proof (cases "parse_status body")
    case p: (Inr creds)
    have c: "check_creds creds uid = Inr () \<longleftrightarrow> confined creds uid" by (rule check_exact)
    show ?thesis
    proof (cases "check_creds creds uid")
      case (Inl v)
      then have "\<not> confined creds uid" using c by auto
      then show ?thesis using 5(1) [OF p Inl] p Inl by (simp add: entry_ok_def)
    next
      case (Inr u)
      then have "confined creds uid" using c by simp
      then show ?thesis using 5(2) [OF p Inr] p Inr
        by (simp add: entry_ok_def has_text_def)
    qed
  qed (simp add: entry_ok_def)
qed (auto simp: entry_ok_def has_text_def)

lemma audit_exact:
  "audit_all_tasks listing uid = Inr () \<longleftrightarrow> (\<exists>es. listing = Inr es \<and> list_all (entry_ok uid) es \<and> list_ex has_text es)"
  by (auto simp: audit_all_tasks_def audit_loop_exact split: sum.split)

text \<open>The threads procfs shows: each one listed, with the status text the kernel prints for it.\<close>

definition shown_by_procfs :: "(string \<times> task_creds) set \<Rightarrow> errno + (errno + string \<times> status_read) list \<Rightarrow> bool" where
  "shown_by_procfs threads listing \<longleftrightarrow> (\<exists>es. listing = Inr es \<and> (\<forall>(tid, creds) \<in> threads. length (tc_uids creds) = 4 \<and>
     (\<exists>before mid after. list_all other_line before \<and> list_all other_line mid \<and> list_all plain_line after \<and>
        Inr (tid, StatusText (status_text before mid after creds)) \<in> set es)))"

lemma drop_privileges_Inr:
  "drop_privileges S uid = (Inr (), calls) \<longleftrightarrow>
     (\<exists>g. py_keepcaps S = Inr () \<and> target_gid S = Inr g \<and> py_setresgid S g = Inr () \<and> py_setresuid S uid = Inr () \<and>
        py_capset S = Inr () \<and> audit_all_tasks (py_tasks S) uid = Inr () \<and>
        calls = [SetKeepCaps, SetResGid g, SetResUid uid, CapSetKill, AuditTasks])"
  by (auto simp: drop_privileges_def map_err_def split: sum.splits)

lemma target_gid_Inr: "target_gid S = Inr g \<Longrightarrow> py_gid_var S = EnvText s \<Longrightarrow> g \<noteq> 0 \<and> parse_u32 s = Some g"
  by (auto simp: target_gid_def split: option.splits if_splits)

lemma drop_confines:
  assumes "drop_privileges S uid = (Inr (), calls)" and "shown_by_procfs threads (py_tasks S)" and "(tid, creds) \<in> threads"
  shows "confined creds uid"
proof -
  obtain es where es: "py_tasks S = Inr es" "list_all (entry_ok uid) es"
    using assms(1) unfolding drop_privileges_Inr audit_exact by blast
  obtain before mid after where l: "length (tc_uids creds) = 4" "list_all other_line before" "list_all other_line mid"
    "list_all plain_line after" "Inr (tid, StatusText (status_text before mid after creds)) \<in> set es"
    using assms(2,3) es(1) unfolding shown_by_procfs_def by fastforce
  have "entry_ok uid (Inr (tid, StatusText (status_text before mid after creds)))"
    using es(2) l(5) by (simp add: list_all_iff)
  then show ?thesis using parse_status_text [OF l(2-4) l(1)] by (simp add: entry_ok_def)
qed

text \<open>
  a successful privilege drop confines every thread.  When \<open>drop_privileges\<close> returns \<open>Ok\<close>, it made
  its five calls in the documented order with a gid that is the non-zero one of the environment
  if one is set, and every thread procfs shows has only the compositor's uid, empty bounding,
  inheritable and ambient sets, and no capability but \<open>CAP_KILL\<close>.
\<close>

theorem dropped_threads_are_confined:
  assumes "drop_privileges S uid = (Inr (), calls)" and "shown_by_procfs threads (py_tasks S)"
  shows "(\<forall>(tid, creds) \<in> threads. confined creds uid) \<and>
    (\<exists>g. calls = [SetKeepCaps, SetResGid g, SetResUid uid, CapSetKill, AuditTasks] \<and>
       (\<forall>s. py_gid_var S = EnvText s \<longrightarrow> g \<noteq> 0 \<and> parse_u32 s = Some g))"
proof -
  obtain g where g: "target_gid S = Inr g" "calls = [SetKeepCaps, SetResGid g, SetResUid uid, CapSetKill, AuditTasks]"
    using assms(1) unfolding drop_privileges_Inr by blast
  show ?thesis using drop_confines [OF assms] g(2) target_gid_Inr [OF g(1)] by blast
qed

definition demo_creds :: task_creds where
  "demo_creds = \<lparr>tc_uids = [998, 998, 998, 998], cap_inh = 0, cap_prm = 32, cap_eff = 32, cap_bnd = 0, cap_amb = 0\<rparr>"

definition demo_status :: string where
  "demo_status = status_text [''Name: halmasuit''] [''Gid: 998''] [''NoNewPrivs: 0''] demo_creds"

definition demo_priv :: "env_var \<Rightarrow> priv_sys" where
  "demo_priv gid = \<lparr>py_keepcaps = Inr (), py_gid_var = gid, py_egid = 0, py_setresgid = (\<lambda>_. Inr ()), py_setresuid = (\<lambda>_. Inr ()),
     py_capset = Inr (), py_tasks = Inr [Inr (''1'', StatusText demo_status), Inr (''2'', StatusGone)]\<rparr>"

lemma demo_lines: "list_all other_line [''Name: halmasuit'']" "list_all other_line [''Gid: 998'']" "list_all plain_line [''NoNewPrivs: 0'']"
  by (simp_all add: other_line_def plain_line_def field_line_def strip_prefix_def)

lemma demo_parsed: "parse_status demo_status = Inr demo_creds"
  unfolding demo_status_def by (rule parse_status_text [OF demo_lines]) (simp add: demo_creds_def)

lemma demo_confined: "confined demo_creds 998"
proof -
  have "(32 :: u64) AND NOT CAP_KILL_MASK = 0" by (simp add: CAP_KILL_MASK_def)
  then have "\<forall>n. bit (32 :: u64) n \<longrightarrow> n = 5" by (simp only: kill_mask_only)
  then show ?thesis by (simp add: confined_def demo_creds_def numeral_eq_Suc)
qed

lemma demo_audit: "audit_all_tasks (py_tasks (demo_priv v)) 998 = Inr ()"
  by (simp add: audit_exact demo_priv_def entry_ok_def has_text_def demo_parsed demo_confined)

lemma demo_drop:
  "drop_privileges (demo_priv (EnvText ''997'')) 998 = (Inr (), [SetKeepCaps, SetResGid 997, SetResUid 998, CapSetKill, AuditTasks])"
proof -
  have p: "parse_u32 ''997'' = Some 997" by (simp add: parse_u32_def is_digit_def digits_value_def)
  show ?thesis unfolding drop_privileges_Inr using demo_audit by (simp add: demo_priv_def target_gid_def p)
qed

theorem status_roundtrip_witness:
  "parse_status (status_text [''Name: halmasuit''] [''Gid: 998''] [''NoNewPrivs: 0''] demo_creds) = Inr demo_creds"
  by (rule status_roundtrip [OF demo_lines]) (simp add: demo_creds_def)

theorem dropped_threads_are_confined_witness:
  "\<exists>g. snd (drop_privileges (demo_priv (EnvText ''997'')) 998) = [SetKeepCaps, SetResGid g, SetResUid 998, CapSetKill, AuditTasks] \<and> g \<noteq> 0"
proof -
  note d = demo_drop
  have "shown_by_procfs {(''1'', demo_creds)} (py_tasks (demo_priv (EnvText ''997'')))"
  proof -
    let ?es = "[Inr (''1'', StatusText demo_status), Inr (''2'', StatusGone)]"
    have "py_tasks (demo_priv (EnvText ''997'')) = Inr ?es" by (simp add: demo_priv_def)
    moreover have "length (tc_uids demo_creds) = 4" by (simp add: demo_creds_def)
    moreover have "Inr (''1'', StatusText (status_text [''Name: halmasuit''] [''Gid: 998''] [''NoNewPrivs: 0''] demo_creds)) \<in> set ?es"
      by (simp add: demo_status_def)
    ultimately show ?thesis unfolding shown_by_procfs_def using demo_lines by blast
  qed
  from dropped_threads_are_confined [OF d this] d show ?thesis by (auto simp: demo_priv_def)
qed

text \<open>
  the gid floor covers only the environment variable.  A compositor gid of 0 in the environment is
  refused, but when the variable is unset or not UTF-8 and the process has the root group, the
  drop takes that group over and succeeds; and a uid of 0 passes every check.
\<close>

theorem drop_keeps_root_group:
  assumes "fst (drop_privileges S uid) = Inr ()" and "py_gid_var S = EnvUnset \<or> py_gid_var S = EnvNotUnicode"
  shows "SetResGid (py_egid S) \<in> set (snd (drop_privileges S uid)) \<and>
    (\<forall>T. fst (drop_privileges T 0) = Inr () \<longrightarrow> SetResUid 0 \<in> set (snd (drop_privileges T 0)))"
proof -
  have d: "drop_privileges T v = (Inr (), snd (drop_privileges T v))" if "fst (drop_privileges T v) = Inr ()" for T v
    using that by (metis prod.collapse)
  obtain g where g: "target_gid S = Inr g" "SetResGid g \<in> set (snd (drop_privileges S uid))"
    using d [OF assms(1)] unfolding drop_privileges_Inr by auto
  have "g = py_egid S" using g(1) assms(2) by (auto simp: target_gid_def)
  moreover have "SetResUid 0 \<in> set (snd (drop_privileges T 0))" if "fst (drop_privileges T 0) = Inr ()" for T
    using d [OF that] unfolding drop_privileges_Inr by auto
  ultimately show ?thesis using g(2) by blast
qed

theorem drop_keeps_root_group_witness: "SetResGid 0 \<in> set (snd (drop_privileges (demo_priv EnvUnset) 998))"
proof -
  have "drop_privileges (demo_priv EnvUnset) 998 = (Inr (), [SetKeepCaps, SetResGid 0, SetResUid 998, CapSetKill, AuditTasks])"
    unfolding drop_privileges_Inr using demo_audit by (simp add: demo_priv_def target_gid_def)
  then have "fst (drop_privileges (demo_priv EnvUnset) 998) = Inr ()" by simp
  from drop_keeps_root_group [OF this] show ?thesis by (simp add: demo_priv_def)
qed

end
