(* ===== verification/Pivot.thy ===== *)
theory Pivot
  imports Compositor Task_Caps Sliding_Window
begin

text \<open>
  The compositor's move from the initramfs to the root file system, in \<open>crates/halmasuit/src/main.rs\<close>: the
  pivot-poll timer with its four phases, the request for the broker's root descriptor,
  \<open>broker_spawn_greeter\<close>, \<open>setup_greetd_listener\<close> and \<open>run_post_pivot_setup\<close>.  The clock, the kernel and the
  broker answer through the record of each tick.
\<close>

section \<open>Asking the broker\<close>

definition millis :: "nat \<Rightarrow> duration" where "millis n = n * 1000000"

definition BROKER_CONNECT_DEADLINE :: duration where "BROKER_CONNECT_DEADLINE = millis 90000"
definition BROKER_CONNECT_WARN_EVERY :: duration where "BROKER_CONNECT_WARN_EVERY = millis 10000"

datatype pivot_error =
    PivotConnect wire_error
  | PivotSend wire_error
  | PivotRecv wire_error
  | PivotPoll errno
  | PivotNoReply
  | PivotClosed
  | PivotWrongFrame broker_to_compositor
  | PivotNoFd
  | PivotFchdir errno
  | PivotChroot errno

definition try_connect_and_request_root_fd :: "episode_env \<Rightarrow> wire_error + unit \<Rightarrow> pivot_error + seqpacket_channel" where
  "try_connect_and_request_root_fd E connected = (case connected of
     Inl e \<Rightarrow> Inl (PivotConnect e)
   | Inr _ \<Rightarrow> (case channel_send E new_seqpacket_channel RequestRootFd of
       (Inl e, ch) \<Rightarrow> Inl (PivotSend e)
     | (Inr _, ch) \<Rightarrow> Inr ch))"

definition try_recv_root_fd :: "episode_env \<Rightarrow> recvmsg_result \<Rightarrow> pivot_error + fd option" where
  "try_recv_root_fd E received = (case fst (recv_with_fd E received) of
     Inl e \<Rightarrow> Inl (PivotRecv e)
   | Inr None \<Rightarrow> Inr None
   | Inr (Some (frame, None)) \<Rightarrow> Inl PivotNoFd
   | Inr (Some (frame, Some root_fd)) \<Rightarrow> Inr (Some root_fd))"

definition apply_chroot_to_root_fd :: "errno + unit \<Rightarrow> errno + unit \<Rightarrow> pivot_error + unit" where
  "apply_chroot_to_root_fd fchdir chroot = (case fchdir of
     Inl e \<Rightarrow> Inl (PivotFchdir e)
   | Inr _ \<Rightarrow> (case chroot of Inl e \<Rightarrow> Inl (PivotChroot e) | Inr _ \<Rightarrow> Inr ()))"

text \<open>The answers for one \<open>broker_spawn_greeter\<close>: the connection, the number of descriptors \<open>poll\<close> found ready
  within five seconds, and what was received.\<close>

record greeter_request =
  gr_connect :: "wire_error + unit"
  gr_poll :: "errno + nat"
  gr_received :: recvmsg_result

definition broker_spawn_greeter :: "episode_env \<Rightarrow> greeter_request \<Rightarrow> pivot_error + greeter_handle" where
  "broker_spawn_greeter E R = (case gr_connect R of
     Inl e \<Rightarrow> Inl (PivotConnect e)
   | Inr _ \<Rightarrow> (case fst (channel_send E new_seqpacket_channel SpawnGreeter) of
       Inl e \<Rightarrow> Inl (PivotSend e)
     | Inr _ \<Rightarrow> (case gr_poll R of
         Inl e \<Rightarrow> Inl (PivotPoll e)
       | Inr n \<Rightarrow>
           if n = 0 then Inl PivotNoReply
           else (case fst (recv_with_fd E (gr_received R)) of
             Inl e \<Rightarrow> Inl (PivotRecv e)
           | Inr None \<Rightarrow> Inl PivotClosed
           | Inr (Some (frame, pidfd)) \<Rightarrow> (case frame of
               GreeterSpawned p \<Rightarrow> (case pidfd of
                   None \<Rightarrow> Inl PivotNoFd
                 | Some f \<Rightarrow> Inr \<lparr>gh_pid = (if p <s 0 then 0 else p), gh_pidfd = f\<rparr>)
             | _ \<Rightarrow> Inl (PivotWrongFrame frame))))))"

section \<open>The greetd listener\<close>

datatype listener_error = ListenerIo io_kind | ListenerErrno errno

record listener_sys =
  ls_env :: "string \<Rightarrow> string option"
  ls_create_parent :: "errno + unit"
  ls_bind_abstract :: "string \<Rightarrow> io_kind + unit"
  ls_bind_path :: "string \<Rightarrow> io_kind + unit"
  ls_set_permissions :: "string \<Rightarrow> u32 \<Rightarrow> io_kind + unit"
  ls_set_nonblocking :: "errno + unit"
  ls_chown_gid :: "string \<Rightarrow> u32 \<Rightarrow> errno + unit"
  ls_insert :: "errno + nat"
  ls_uid :: u32

definition greeter_uid_from_env :: "listener_sys \<Rightarrow> u32" where
  "greeter_uid_from_env S = (case ls_env S ''HALMASUIT_GREETER_UID'' of
     Some s \<Rightarrow> (case parse_u32 s of Some u \<Rightarrow> u | None \<Rightarrow> ls_uid S)
   | None \<Rightarrow> ls_uid S)"

text \<open>\<open>Path::join\<close> with a relative file name.\<close>

definition join_path :: "string \<Rightarrow> string \<Rightarrow> string" where
  "join_path dir name = (if dir = [] \<or> last dir = CHR ''/'' then dir @ name else dir @ CHR ''/'' # name)"

definition greetd_socket_path_from_env :: "listener_sys \<Rightarrow> string" where
  "greetd_socket_path_from_env S = (case ls_env S ''HALMASUIT_GREETD_SOCKET'' of
     Some p \<Rightarrow> p
   | None \<Rightarrow> join_path (case ls_env S ''XDG_RUNTIME_DIR'' of Some d \<Rightarrow> d | None \<Rightarrow> ''/run/halmasuit'') ''greetd.sock'')"

definition pam_service_from_env :: "listener_sys \<Rightarrow> string" where
  "pam_service_from_env S = (case ls_env S ''HALMASUIT_PAM_SERVICE'' of Some s \<Rightarrow> s | None \<Rightarrow> ''halmasuit'')"

definition apply_wayland_group_gid :: "listener_sys \<Rightarrow> string \<Rightarrow> errno + unit" where
  "apply_wayland_group_gid S path = (case ls_env S ''HALMASUIT_WAYLAND_GROUP_GID'' of
     None \<Rightarrow> Inr ()
   | Some s \<Rightarrow> (case parse_u32 s of None \<Rightarrow> Inr () | Some gid \<Rightarrow> ls_chown_gid S path gid))"

definition setup_greetd_listener :: "listener_sys \<Rightarrow> listener_error + nat \<times> u32 \<times> string" where
  "setup_greetd_listener S =
     (let greetd_path = greetd_socket_path_from_env S in
      rbind (map_err ListenerErrno (ls_create_parent S)) (\<lambda>_.
      rbind (map_err ListenerIo (bind_socket (ls_bind_abstract S) (ls_bind_path S) (ls_set_permissions S) greetd_path 0x1B0)) (\<lambda>_.
      rbind (map_err ListenerErrno (ls_set_nonblocking S)) (\<lambda>_.
      rbind (map_err ListenerErrno (apply_wayland_group_gid S greetd_path)) (\<lambda>_.
      rbind (map_err ListenerErrno (ls_insert S)) (\<lambda>token.
      Inr (token, greeter_uid_from_env S, pam_service_from_env S)))))))"

section \<open>After the pivot\<close>

datatype boot_phase = PhaseRootfsReady | PhaseGreetdReady | PhaseDeprivileged

datatype setup_step = StepListener listener_error | StepGreeter pivot_error | StepInput errno

datatype setup_error = SetupUidVar drop_error | SetupDrop u32 drop_error "setup_step list" | SetupStillRoot "setup_step list"

record setup_sys =
  su_listener :: listener_sys
  su_greeter :: greeter_request
  su_libinput :: "errno + nat"
  su_uid_var :: env_var
  su_euid :: u32
  su_priv :: priv_sys

text \<open>The timer's phases, with their instants.\<close>

datatype pivot_phase =
    PivotAwaiting
  | PivotConnecting instant duration instant
  | PivotAwaitingReply seqpacket_channel instant
  | PivotSetup

text \<open>What the pivot reads and writes of the compositor's state.  \<open>pv_calls\<close> are the calls of the privilege drop and
  \<open>pv_setup\<close> the result of the post-pivot setup, once it ran.\<close>

record pivot_state =
  pv_phase :: pivot_phase
  pv_comp :: compositor
  pv_in_initramfs :: bool
  pv_listener :: "nat option"
  pv_libinput :: "nat option"
  pv_root_fd :: "fd option"
  pv_phases :: "boot_phase list"
  pv_calls :: "drop_call list"
  pv_setup :: "(setup_error + unit) option"
  pv_warnings :: nat

definition enter_phase :: "boot_phase \<Rightarrow> pivot_state \<Rightarrow> pivot_state" where
  "enter_phase ph s = s\<lparr>pv_phases := pv_phases s @ [ph]\<rparr>"

text \<open>Steps 1 and 2, whose failures are collected.\<close>

definition setup_listener_step :: "setup_sys \<Rightarrow> pivot_state \<Rightarrow> pivot_state \<times> setup_step list" where
  "setup_listener_step U s = (case setup_greetd_listener (su_listener U) of
     Inl e \<Rightarrow> (s, [StepListener e])
   | Inr (token, guid, service) \<Rightarrow>
       (enter_phase PhaseGreetdReady (s\<lparr>pv_listener := Some token,
          pv_comp := (pv_comp s)\<lparr>cp_greeter_uid := guid, cp_pam_service := service\<rparr>\<rparr>), []))"

definition setup_greeter_step :: "episode_env \<Rightarrow> setup_sys \<Rightarrow> pivot_state \<Rightarrow> pivot_state \<times> setup_step list" where
  "setup_greeter_step E U s = (case broker_spawn_greeter E (su_greeter U) of
     Inl e \<Rightarrow> (s, [StepGreeter e])
   | Inr h \<Rightarrow>
       (s\<lparr>pv_comp := (emit_event (EvForegroundChanged FgGreeter) (emit_event (EvGreeterSpawned (gh_pid h)) (pv_comp s)))
          \<lparr>cp_greeter_swap := snd (greeter_spawned new_greeter_swap_gate), cp_greeter := Some h\<rparr>\<rparr>, []))"

definition setup_post_pivot_input :: "setup_sys \<Rightarrow> pivot_state \<Rightarrow> pivot_state \<times> setup_step list" where
  "setup_post_pivot_input U s = (case su_libinput U of
     Inr token \<Rightarrow> (s\<lparr>pv_libinput := Some token\<rparr>, [])
   | Inl e \<Rightarrow> (s, [StepInput e]))"

definition run_post_pivot_setup :: "episode_env \<Rightarrow> setup_sys \<Rightarrow> pivot_state \<Rightarrow> (setup_error + unit) \<times> pivot_state" where
  "run_post_pivot_setup E U s =
     (let (s1, e1) = setup_listener_step U s;
          (s2, e2) = setup_greeter_step E U s1;
          (s3, e3) = (if pv_libinput s2 = None then setup_post_pivot_input U s2 else (s2, []));
          errs = e1 @ e2 @ e3 in
      case compositor_uid_from_env (su_uid_var U) of
        Inl e \<Rightarrow> (Inl (SetupUidVar e), s3)
      | Inr None \<Rightarrow> if su_euid U = 0 then (Inl (SetupStillRoot errs), s3) else (Inr (), s3)
      | Inr (Some uid) \<Rightarrow>
          let (res, calls) = drop_privileges (su_priv U) uid; s4 = s3\<lparr>pv_calls := pv_calls s3 @ calls\<rparr> in
          (case res of
            Inl e \<Rightarrow> (Inl (SetupDrop uid e errs), s4)
          | Inr _ \<Rightarrow> (Inr (), (enter_phase PhaseDeprivileged s4)\<lparr>pv_comp := (pv_comp s4)\<lparr>cp_shutdown_armed := True\<rparr>\<rparr>)))"

section \<open>The timer\<close>

datatype timeout_action = ToDuration duration | DropTimer

record pivot_tick =
  pt_now :: instant
  pt_initramfs :: bool
  pt_connected :: "wire_error + unit"
  pt_received :: recvmsg_result
  pt_fchdir :: "errno + unit"
  pt_chroot :: "errno + unit"
  pt_setup :: setup_sys

definition tick_connecting :: "episode_env \<Rightarrow> pivot_tick \<Rightarrow> instant \<Rightarrow> duration \<Rightarrow> instant \<Rightarrow> pivot_state \<Rightarrow> timeout_action \<times> pivot_state" where
  "tick_connecting E T deadline next_delay next_warn s = (case try_connect_and_request_root_fd E (pt_connected T) of
     Inr chan \<Rightarrow> (ToDuration (millis 50), s\<lparr>pv_phase := PivotAwaitingReply chan (pt_now T + millis 5000)\<rparr>)
   | Inl e \<Rightarrow>
       if pt_now T \<ge> deadline then (ToDuration 0, s\<lparr>pv_phase := PivotSetup\<rparr>)
       else
         let (next_warn', warned) = (if pt_now T \<ge> next_warn then (pt_now T + BROKER_CONNECT_WARN_EVERY, 1) else (next_warn, 0)) in
         (ToDuration next_delay, s\<lparr>pv_phase := PivotConnecting deadline (min (next_delay * 2) (millis 200)) next_warn',
            pv_warnings := pv_warnings s + warned\<rparr>))"

definition tick_reply :: "episode_env \<Rightarrow> pivot_tick \<Rightarrow> instant \<Rightarrow> pivot_state \<Rightarrow> timeout_action \<times> pivot_state" where
  "tick_reply E T deadline s = (case try_recv_root_fd E (pt_received T) of
     Inr (Some root_fd) \<Rightarrow> (ToDuration 0,
       (case apply_chroot_to_root_fd (pt_fchdir T) (pt_chroot T) of
         Inr _ \<Rightarrow> s\<lparr>pv_root_fd := Some root_fd\<rparr> | Inl e \<Rightarrow> s)\<lparr>pv_phase := PivotSetup\<rparr>)
   | Inr None \<Rightarrow>
       if pt_now T \<ge> deadline then (ToDuration 0, s\<lparr>pv_phase := PivotSetup\<rparr>) else (ToDuration (millis 50), s)
   | Inl e \<Rightarrow> (ToDuration 0, s\<lparr>pv_phase := PivotSetup\<rparr>))"

definition pivot_timer :: "episode_env \<Rightarrow> pivot_tick \<Rightarrow> pivot_state \<Rightarrow> timeout_action \<times> pivot_state" where
  "pivot_timer E T s = (case pv_phase s of
     PivotAwaiting \<Rightarrow>
       if pt_initramfs T then (ToDuration (millis 1000), s)
       else (ToDuration (millis 20), (enter_phase PhaseRootfsReady s)\<lparr>pv_in_initramfs := False,
         pv_phase := PivotConnecting (pt_now T + BROKER_CONNECT_DEADLINE) (millis 20) (pt_now T + BROKER_CONNECT_WARN_EVERY)\<rparr>)
   | PivotConnecting deadline next_delay next_warn \<Rightarrow> tick_connecting E T deadline next_delay next_warn s
   | PivotAwaitingReply chan deadline \<Rightarrow> tick_reply E T deadline s
   | PivotSetup \<Rightarrow> let (r, s') = run_post_pivot_setup E (pt_setup T) s in (DropTimer, s'\<lparr>pv_setup := Some r\<rparr>))"

text \<open>The ticks of the timer in order, until it is dropped.\<close>

fun run_timer :: "episode_env \<Rightarrow> pivot_tick list \<Rightarrow> pivot_state \<Rightarrow> timeout_action \<times> pivot_state" where
  "run_timer E [] s = (ToDuration (millis 1000), s)"
| "run_timer E (T # Ts) s = (case pivot_timer E T s of
     (DropTimer, s') \<Rightarrow> (DropTimer, s')
   | (ToDuration d, s') \<Rightarrow> if Ts = [] then (ToDuration d, s') else run_timer E Ts s')"

definition new_pivot :: "compositor \<Rightarrow> nat option \<Rightarrow> pivot_state" where
  "new_pivot c libinput = \<lparr>pv_phase = PivotAwaiting, pv_comp = c, pv_in_initramfs = True, pv_listener = None, pv_libinput = libinput,
     pv_root_fd = None, pv_phases = [], pv_calls = [], pv_setup = None, pv_warnings = 0\<rparr>"

section \<open>The timer ends\<close>

text \<open>The ticks come no earlier than the event loop was asked for: \<open>t\<close> is the earliest time of the next one.\<close>

fun timely :: "episode_env \<Rightarrow> instant \<Rightarrow> pivot_tick list \<Rightarrow> pivot_state \<Rightarrow> bool" where
  "timely E t [] s = True"
| "timely E t (T # Ts) s = (t \<le> pt_now T \<and> (case pivot_timer E T s of
     (DropTimer, s') \<Rightarrow> True
   | (ToDuration d, s') \<Rightarrow> timely E (pt_now T + d) Ts s'))"

text \<open>The timer has been dropped after the post-pivot setup ran.\<close>

definition timer_done :: "timeout_action \<times> pivot_state \<Rightarrow> bool" where
  "timer_done r \<longleftrightarrow> fst r = DropTimer \<and> pv_setup (snd r) \<noteq> None"

lemma run_timer_step:
  assumes "pivot_timer E T s = (ToDuration d, s')" and "Ts \<noteq> []"
  shows "run_timer E (T # Ts) s = run_timer E Ts s'"
  using assms by simp

lemma setup_done:
  assumes "pv_phase s = PivotSetup" and "Ts \<noteq> []"
  shows "timer_done (run_timer E Ts s)"
proof -
  obtain T Ts' where Ts: "Ts = T # Ts'" using assms(2) by (cases Ts) auto
  obtain r s' where "run_post_pivot_setup E (pt_setup T) s = (r, s')" by (cases "run_post_pivot_setup E (pt_setup T) s")
  then show ?thesis using assms(1) by (simp add: Ts pivot_timer_def timer_done_def)
qed

text \<open>One tick that waits for the reply asks for 50 ms more, or for the setup at once.\<close>

lemma tick_reply_cases:
  obtains (ready) s' where "tick_reply E T deadline s = (ToDuration 0, s')" "pv_phase s' = PivotSetup"
  | (wait) "tick_reply E T deadline s = (ToDuration (millis 50), s)" "pt_now T < deadline"
proof (cases "try_recv_root_fd E (pt_received T)")
  case (Inr r)
  then show thesis using ready wait by (cases r; cases "pt_now T \<ge> deadline") (force simp: tick_reply_def not_le)+
qed (use ready in \<open>simp add: tick_reply_def\<close>)

lemma tick_connecting_cases:
  obtains (connected) chan where "tick_connecting E T deadline d w s =
      (ToDuration (millis 50), s\<lparr>pv_phase := PivotAwaitingReply chan (pt_now T + millis 5000)\<rparr>)"
  | (ready) s' where "tick_connecting E T deadline d w s = (ToDuration 0, s')" "pv_phase s' = PivotSetup"
  | (retry) s' w' where "tick_connecting E T deadline d w s = (ToDuration d, s')" "pt_now T < deadline"
      "pv_phase s' = PivotConnecting deadline (min (d * 2) (millis 200)) w'"
proof (cases "try_connect_and_request_root_fd E (pt_connected T)")
  case (Inl e)
  then show thesis using ready retry by (cases "pt_now T \<ge> deadline"; cases "pt_now T \<ge> w") (force simp: tick_connecting_def Let_def not_le)+
qed (use connected in \<open>simp add: tick_connecting_def\<close>)

lemma step_done:
  assumes "pivot_timer E T s = (ToDuration d, s')" and "Ts \<noteq> []" and "timer_done (run_timer E Ts s')"
  shows "timer_done (run_timer E (T # Ts) s)"
  using assms by simp

lemma reply_done:
  "pv_phase s = PivotAwaitingReply chan deadline \<Longrightarrow> deadline \<le> t + k * millis 50 \<Longrightarrow> k + 2 \<le> length Ts \<Longrightarrow>
   timely E t Ts s \<Longrightarrow> timer_done (run_timer E Ts s)"
proof (induction Ts arbitrary: k t)
  case (Cons T Ts)
  have ne: "Ts \<noteq> []" using Cons.prems(3) by auto
  have t: "pivot_timer E T s = tick_reply E T deadline s" using Cons.prems(1) by (simp add: pivot_timer_def)
  show ?case
  proof (cases rule: tick_reply_cases [of E T deadline s])
    case (ready s')
    then show ?thesis using step_done [OF _ ne] setup_done [OF _ ne] t by metis
  next
    case wait
    have a: "timely E (pt_now T + millis 50) Ts s" "t \<le> pt_now T" using Cons.prems(4) by (simp_all add: t wait(1))
    then obtain k' where k: "k = Suc k'" using Cons.prems(2) wait(2) by (cases k) auto
    have "deadline \<le> (pt_now T + millis 50) + k' * millis 50" using Cons.prems(2) a(2) by (simp add: k)
    from Cons.IH [OF Cons.prems(1) this _ a(1)] show ?thesis
      using step_done [OF _ ne] t wait(1) Cons.prems(3) by (simp add: k)
  qed
qed simp

lemma connecting_done:
  "pv_phase s = PivotConnecting deadline d w \<Longrightarrow> millis 20 \<le> d \<Longrightarrow> deadline \<le> t + k * millis 20 \<Longrightarrow>
   k + 102 \<le> length Ts \<Longrightarrow> timely E t Ts s \<Longrightarrow> timer_done (run_timer E Ts s)"
proof (induction Ts arbitrary: k t s d w)
  case (Cons T Ts)
  have ne: "Ts \<noteq> []" using Cons.prems(4) by auto
  have t: "pivot_timer E T s = tick_connecting E T deadline d w s" using Cons.prems(1) by (simp add: pivot_timer_def)
  show ?case
  proof (cases rule: tick_connecting_cases [of E T deadline d w s])
    case (connected chan)
    let ?s' = "s\<lparr>pv_phase := PivotAwaitingReply chan (pt_now T + millis 5000)\<rparr>"
    have p: "pv_phase ?s' = PivotAwaitingReply chan (pt_now T + millis 5000)" by simp
    have l: "pt_now T + millis 5000 \<le> pt_now T + millis 50 + 99 * millis 50" "99 + 2 \<le> length Ts"
      using Cons.prems(4) by (simp_all add: millis_def)
    have "timely E (pt_now T + millis 50) Ts ?s'" using Cons.prems(5) by (simp add: t connected)
    with reply_done [OF p l] have "timer_done (run_timer E Ts ?s')" by simp
    then show ?thesis using step_done [OF _ ne] t connected by metis
  next
    case (ready s')
    then show ?thesis using step_done [OF _ ne] setup_done [OF _ ne] t by metis
  next
    case (retry s' w')
    have a: "timely E (pt_now T + d) Ts s'" "t \<le> pt_now T" using Cons.prems(5) by (simp_all add: t retry(1))
    then obtain k' where k: "k = Suc k'" using Cons.prems(3) retry(2) by (cases k) auto
    have "millis 20 \<le> min (d * 2) (millis 200)" using Cons.prems(2) by (simp add: millis_def)
    moreover have "deadline \<le> (pt_now T + d) + k' * millis 20" using Cons.prems(2,3) a(2) by (simp add: k)
    ultimately have "timer_done (run_timer E Ts s')" using Cons.IH [OF retry(3)] Cons.prems(4) a(1) by (simp add: k)
    then show ?thesis using step_done [OF _ ne] t retry(1) by metis
  qed
qed simp

text \<open>
  C15: the pivot always ends in the post-pivot setup.  Once a tick finds the initramfs gone, whatever the
  broker and the kernel answer, the timer has run the setup and is dropped after at most 4,602 ticks (the
  connection attempts come at least 20 ms apart for at most 90 s, the polls for the reply 50 ms apart for at
  most 5 s), provided no tick comes earlier than the timer asked for.
\<close>

theorem pivot_reaches_setup:
  assumes "pv_phase s = PivotAwaiting" and "\<not> pt_initramfs T" and "timely E t (T # Ts) s" and "4601 \<le> length Ts"
  shows "fst (run_timer E (T # Ts) s) = DropTimer \<and> pv_setup (snd (run_timer E (T # Ts) s)) \<noteq> None"
proof -
  obtain s' where s': "pivot_timer E T s = (ToDuration (millis 20), s')"
    "pv_phase s' = PivotConnecting (pt_now T + BROKER_CONNECT_DEADLINE) (millis 20) (pt_now T + BROKER_CONNECT_WARN_EVERY)"
    using assms(1,2) by (simp add: pivot_timer_def)
  have ne: "Ts \<noteq> []" using assms(4) by auto
  have "timely E (pt_now T + millis 20) Ts s'" using assms(3) by (simp add: s'(1))
  then have "timer_done (run_timer E Ts s')"
    by (rule connecting_done [OF s'(2), rotated 3, where k = 4499])
      (use assms(4) in \<open>simp_all add: millis_def BROKER_CONNECT_DEADLINE_def add.commute\<close>)
  from step_done [OF s'(1) ne this] show ?thesis by (simp add: timer_done_def)
qed

section \<open>Arming the stop signals\<close>

lemma setup_steps_keep:
  assumes "run_post_pivot_setup E U s = (r, s')"
  shows "(r = Inr () \<and> (\<exists>uid calls. compositor_uid_from_env (su_uid_var U) = Inr (Some uid) \<and>
            drop_privileges (su_priv U) uid = (Inr (), calls) \<and> cp_shutdown_armed (pv_comp s') \<and>
            last (pv_phases s') = PhaseDeprivileged \<and> pv_calls s' = pv_calls s @ calls)) \<or>
         cp_shutdown_armed (pv_comp s') = cp_shutdown_armed (pv_comp s) \<and>
         cp_should_exit (pv_comp s') = cp_should_exit (pv_comp s) \<and>
         ((\<exists>uid e errs. r = Inl (SetupDrop uid e errs)) \<or> pv_calls s' = pv_calls s) \<and>
         (\<forall>errs. r = Inl (SetupStillRoot errs) \<longrightarrow> su_euid U = 0)"
proof -
  obtain s1 e1 where 1: "setup_listener_step U s = (s1, e1)" by (cases "setup_listener_step U s")
  obtain s2 e2 where 2: "setup_greeter_step E U s1 = (s2, e2)" by (cases "setup_greeter_step E U s1")
  obtain s3 e3 where 3: "(if pv_libinput s2 = None then setup_post_pivot_input U s2 else (s2, [])) = (s3, e3)"
    by (cases "if pv_libinput s2 = None then setup_post_pivot_input U s2 else (s2, [])")
  let ?same = "\<lambda>a b. cp_shutdown_armed (pv_comp a) = cp_shutdown_armed (pv_comp b) \<and>
    cp_should_exit (pv_comp a) = cp_should_exit (pv_comp b) \<and> pv_calls a = pv_calls b"
  have "?same s1 s" using 1 by (auto simp: setup_listener_step_def enter_phase_def split: sum.splits)
  moreover have "?same s2 s1" using 2 by (auto simp: setup_greeter_step_def emit_event_def split: sum.splits)
  moreover have "?same s3 s2" using 3 by (auto simp: setup_post_pivot_input_def split: sum.splits if_splits)
  ultimately have same: "?same s3 s" by simp
  consider (var) e where "compositor_uid_from_env (su_uid_var U) = Inl e"
    | (unset) "compositor_uid_from_env (su_uid_var U) = Inr None"
    | (uid) uid where "compositor_uid_from_env (su_uid_var U) = Inr (Some uid)"
    by (metis old.sum.exhaust option.exhaust)
  then show ?thesis
  proof cases
    case uid
    obtain res calls where d: "drop_privileges (su_priv U) uid = (res, calls)" by (cases "drop_privileges (su_priv U) uid")
    show ?thesis using assms same by (cases res) (auto simp: run_post_pivot_setup_def 1 2 3 uid d enter_phase_def)
  qed (use assms same in \<open>auto simp: run_post_pivot_setup_def 1 2 3 split: if_splits\<close>)
qed

lemma pivot_timer_arms:
  assumes "pivot_timer E T s = (a, s')" and "\<not> cp_shutdown_armed (pv_comp s)"
  shows "\<not> cp_shutdown_armed (pv_comp s') \<or>
    a = DropTimer \<and> last (pv_phases s') = PhaseDeprivileged \<and> (\<exists>uid calls. compositor_uid_from_env (su_uid_var (pt_setup T)) = Inr (Some uid) \<and>
      drop_privileges (su_priv (pt_setup T)) uid = (Inr (), calls))"
proof (cases "pv_phase s")
  case PivotAwaiting
  then show ?thesis using assms by (auto simp: pivot_timer_def enter_phase_def split: if_splits)
next
  case (PivotConnecting deadline d w)
  then have "pv_comp s' = pv_comp s"
    using assms(1) by (auto simp: pivot_timer_def tick_connecting_def Let_def split: sum.splits if_splits)
  then show ?thesis using assms(2) by simp
next
  case (PivotAwaitingReply chan deadline)
  then have "pv_comp s' = pv_comp s"
    using assms(1) by (auto simp: pivot_timer_def tick_reply_def split: sum.splits option.splits if_splits)
  then show ?thesis using assms(2) by simp
next
  case PivotSetup
  obtain r s'' where r: "run_post_pivot_setup E (pt_setup T) s = (r, s'')" by (cases "run_post_pivot_setup E (pt_setup T) s")
  from setup_steps_keep [OF r] show ?thesis using assms PivotSetup by (auto simp: pivot_timer_def r)
qed

text \<open>
  C11: the compositor obeys stop signals only after it gave up root.  In a boot from the initramfs, however the
  ticks go, if shutdown handling is armed at the end then the timer was dropped by a setup whose privilege
  drop succeeded, the last phase announced is \<open>Deprivileged\<close>, and every thread procfs showed to the
  drop's audit has only the compositor's uid and no capability but \<open>CAP_KILL\<close>.
\<close>

theorem armed_compositor_is_confined:
  assumes "\<not> cp_shutdown_armed c" and "run_timer E Ts (new_pivot c libinput) = (a, s)" and "cp_shutdown_armed (pv_comp s)"
  shows "a = DropTimer \<and> last (pv_phases s) = PhaseDeprivileged \<and>
    (\<exists>T \<in> set Ts. \<exists>uid. compositor_uid_from_env (su_uid_var (pt_setup T)) = Inr (Some uid) \<and>
       (\<forall>threads tid creds. shown_by_procfs threads (py_tasks (su_priv (pt_setup T))) \<longrightarrow>
          (tid, creds) \<in> threads \<longrightarrow> confined creds uid))"
proof -
  have "\<exists>T \<in> set Ts. a = DropTimer \<and> last (pv_phases s) = PhaseDeprivileged \<and>
      (\<exists>uid calls. compositor_uid_from_env (su_uid_var (pt_setup T)) = Inr (Some uid) \<and>
         drop_privileges (su_priv (pt_setup T)) uid = (Inr (), calls))"
    if "run_timer E Ts s0 = (a, s)" "\<not> cp_shutdown_armed (pv_comp s0)" for s0
    using that
  proof (induction Ts arbitrary: s0)
    case Nil
    then show ?case using assms(3) by simp
  next
    case (Cons T Ts)
    obtain b s1 where 1: "pivot_timer E T s0 = (b, s1)" by (cases "pivot_timer E T s0")
    note arms = pivot_timer_arms [OF 1 Cons.prems(2)]
    show ?case
    proof (cases "b = DropTimer \<or> Ts = []")
      case True
      then have "s = s1" "a = b" using Cons.prems(1) by (auto simp: 1 split: timeout_action.splits)
      then show ?thesis using arms assms(3) by auto
    next
      case False
      then have "run_timer E Ts s1 = (a, s)" using Cons.prems(1) by (auto simp: 1 split: timeout_action.splits)
      then show ?thesis using Cons.IH arms False by auto
    qed
  qed
  from this [OF assms(2)] assms(1) show ?thesis by (simp add: new_pivot_def) (metis drop_confines)
qed

text \<open>
  a compositor whose privilege drop failed cannot be stopped.  When the post-pivot setup returns an error,
  no further tick comes, the compositor has not asked to exit, and it ignores every \<open>SIGTERM\<close> and
  \<open>SIGINT\<close> from then on; unless the error is one of \<open>drop_privileges\<close> it made none of the calls that
  give up root.  The documentation of \<open>run_post_pivot_setup\<close> requires it to die instead.
\<close>

theorem failed_drop_ignores_stop_signals:
  assumes "pv_phase s = PivotSetup" and "\<not> cp_shutdown_armed (pv_comp s)" and "\<not> cp_should_exit (pv_comp s)"
    and "pivot_timer E T s = (a, s')" and "pv_setup s' = Some (Inl e)"
  shows "a = DropTimer \<and> \<not> cp_should_exit (pv_comp s') \<and>
    fold (\<lambda>(sig, K). handle_stop_signal K sig) sigs (pv_comp s') = pv_comp s' \<and>
    ((\<exists>uid err errs. e = SetupDrop uid err errs) \<or> pv_calls s' = pv_calls s) \<and>
    (\<forall>errs. e = SetupStillRoot errs \<longrightarrow> su_euid (pt_setup T) = 0)"
proof -
  obtain s'' where r: "run_post_pivot_setup E (pt_setup T) s = (Inl e, s'')" "s' = s''\<lparr>pv_setup := Some (Inl e)\<rparr>" "a = DropTimer"
    using assms(1,4,5) by (cases "run_post_pivot_setup E (pt_setup T) s") (auto simp: pivot_timer_def)
  have p: "\<not> cp_shutdown_armed (pv_comp s')" "\<not> cp_should_exit (pv_comp s')"
    "(\<exists>uid err errs. e = SetupDrop uid err errs) \<or> pv_calls s' = pv_calls s"
    "\<forall>errs. e = SetupStillRoot errs \<longrightarrow> su_euid (pt_setup T) = 0"
    using setup_steps_keep [OF r(1)] assms(2,3) by (simp_all add: r(2))
  have "handle_stop_signal K sig (pv_comp s') = pv_comp s'" for K sig
    using p(1) by (simp add: handle_stop_signal_def Let_def)
  then have "fold (\<lambda>(sig, K). handle_stop_signal K sig) sigs (pv_comp s') = pv_comp s'" by (induction sigs) auto
  then show ?thesis using p r(3) by blast
qed

text \<open>A boot in which the broker is never reached, with the privilege drop of a working kernel.\<close>

definition demo_setup :: "env_var \<Rightarrow> setup_sys" where
  "demo_setup v = \<lparr>su_listener = \<lparr>ls_env = (\<lambda>_. None), ls_create_parent = Inl 30, ls_bind_abstract = (\<lambda>_. Inr ()), ls_bind_path = (\<lambda>_. Inr ()),
       ls_set_permissions = (\<lambda>_ _. Inr ()), ls_set_nonblocking = Inr (), ls_chown_gid = (\<lambda>_ _. Inr ()), ls_insert = Inr 1, ls_uid = 0\<rparr>,
     su_greeter = \<lparr>gr_connect = Inl (WireIo 2), gr_poll = Inr 0, gr_received = Inl 11\<rparr>, su_libinput = Inl 2, su_uid_var = v,
     su_euid = 0, su_priv = demo_priv (EnvText ''997'')\<rparr>"

definition demo_tick :: "instant \<Rightarrow> env_var \<Rightarrow> pivot_tick" where
  "demo_tick now v = \<lparr>pt_now = now, pt_initramfs = False, pt_connected = Inl (WireIo 2), pt_received = Inl 11, pt_fchdir = Inr (),
     pt_chroot = Inr (), pt_setup = demo_setup v\<rparr>"

lemma demo_first: "pivot_timer E (demo_tick 0 v) (new_pivot c l) = (ToDuration (millis 20),
    (enter_phase PhaseRootfsReady (new_pivot c l))\<lparr>pv_in_initramfs := False,
      pv_phase := PivotConnecting BROKER_CONNECT_DEADLINE (millis 20) BROKER_CONNECT_WARN_EVERY\<rparr>)"
  by (simp add: pivot_timer_def demo_tick_def new_pivot_def)

lemma demo_second:
  "BROKER_CONNECT_DEADLINE \<le> t \<Longrightarrow> pv_phase s = PivotConnecting BROKER_CONNECT_DEADLINE d w \<Longrightarrow>
   pivot_timer E (demo_tick t v) s = (ToDuration 0, s\<lparr>pv_phase := PivotSetup\<rparr>)"
  by (simp add: pivot_timer_def demo_tick_def tick_connecting_def try_connect_and_request_root_fd_def)

lemma demo_third: "pv_phase s = PivotSetup \<Longrightarrow> \<exists>s'. pivot_timer E T s = (DropTimer, s')"
  by (simp add: pivot_timer_def split: prod.splits)

lemma demo_setup_tick:
  "pv_phase s = PivotSetup \<Longrightarrow> pivot_timer E (demo_tick t v) s =
     (DropTimer, (snd (run_post_pivot_setup E (demo_setup v) s))\<lparr>pv_setup := Some (fst (run_post_pivot_setup E (demo_setup v) s))\<rparr>)"
  by (simp add: pivot_timer_def demo_tick_def split: prod.splits)

lemmas demo_setup_eval = run_post_pivot_setup_def setup_listener_step_def setup_greeter_step_def setup_post_pivot_input_def demo_setup_def
  setup_greetd_listener_def broker_spawn_greeter_def map_err_def new_pivot_def enter_phase_def Let_def

lemma demo_deadline: "BROKER_CONNECT_DEADLINE \<le> 100000000000"
  by (simp add: BROKER_CONNECT_DEADLINE_def millis_def)

theorem pivot_reaches_setup_witness:
  "fst (run_timer demo_episode_env (demo_tick 0 EnvUnset # demo_tick 100000000000 EnvUnset # demo_tick 100000000000 EnvUnset #
       replicate 4700 (demo_tick 100000000000 EnvUnset))
     (new_pivot (new_compositor 990 ''login'' False None) None)) = DropTimer"
proof -
  let ?T = "demo_tick 100000000000 EnvUnset" and ?s = "new_pivot (new_compositor 990 ''login'' False None) None"
  obtain Ts where Ts: "Ts = replicate 4700 ?T" "length Ts = 4700" by (metis length_replicate)
  have now: "pt_now (demo_tick t v) = t" for t v by (simp add: demo_tick_def)
  have "timely demo_episode_env 0 (demo_tick 0 EnvUnset # ?T # ?T # Ts) ?s"
    by (simp add: demo_first demo_second [OF demo_deadline] demo_setup_tick now millis_def)
  moreover have "pv_phase ?s = PivotAwaiting" by (simp add: new_pivot_def)
  moreover have "\<not> pt_initramfs (demo_tick 0 EnvUnset)" by (simp add: demo_tick_def)
  moreover have "4601 \<le> length (?T # ?T # Ts)" using Ts(2) by simp
  ultimately show ?thesis unfolding Ts(1) [symmetric] using pivot_reaches_setup by blast
qed

theorem armed_compositor_is_confined_witness:
  "last (pv_phases (snd (run_timer demo_episode_env
     [demo_tick 0 (EnvText ''998''), demo_tick 100000000000 (EnvText ''998''), demo_tick 100000000000 (EnvText ''998'')]
     (new_pivot (new_compositor 990 ''login'' False None) None)))) = PhaseDeprivileged"
proof -
  let ?v = "EnvText ''998''" and ?c = "new_compositor 990 ''login'' False None"
  let ?Ts = "[demo_tick 0 ?v, demo_tick 100000000000 ?v, demo_tick 100000000000 ?v]"
  have u: "compositor_uid_from_env ?v = Inr (Some 998)"
    by (simp add: compositor_uid_from_env_def parse_u32_def is_digit_def digits_value_def)
  obtain a s where r: "run_timer demo_episode_env ?Ts (new_pivot ?c None) = (a, s)"
    by (cases "run_timer demo_episode_env ?Ts (new_pivot ?c None)")
  have "cp_shutdown_armed (pv_comp s)" using r
    by (simp add: demo_first demo_second [OF demo_deadline] demo_setup_tick) (auto simp: demo_setup_eval demo_drop u)
  moreover have "\<not> cp_shutdown_armed ?c" by (simp add: new_compositor_def)
  ultimately have "last (pv_phases s) = PhaseDeprivileged" using armed_compositor_is_confined [OF _ r] by blast
  then show ?thesis unfolding r by simp
qed

theorem failed_drop_ignores_stop_signals_witness:
  "let s = (new_pivot (new_compositor 990 ''login'' False None) None)\<lparr>pv_phase := PivotSetup\<rparr>;
       s' = snd (pivot_timer demo_episode_env (demo_tick 0 EnvUnset) s)
   in pv_calls s' = [] \<and> handle_stop_signal demo_swap SIGTERM (pv_comp s') = pv_comp s'"
proof -
  let ?s = "(new_pivot (new_compositor 990 ''login'' False None) None)\<lparr>pv_phase := PivotSetup\<rparr>"
  obtain a s' where r: "pivot_timer demo_episode_env (demo_tick 0 EnvUnset) ?s = (a, s')"
    by (cases "pivot_timer demo_episode_env (demo_tick 0 EnvUnset) ?s")
  then obtain errs where e: "pv_setup s' = Some (Inl (SetupStillRoot errs))"
    by (auto simp: demo_setup_tick demo_setup_eval compositor_uid_from_env_def)
  have "\<not> cp_shutdown_armed (pv_comp ?s)" "\<not> cp_should_exit (pv_comp ?s)" "pv_phase ?s = PivotSetup" "pv_calls ?s = []"
    by (simp_all add: new_pivot_def new_compositor_def)
  then show ?thesis using failed_drop_ignores_stop_signals [OF _ _ _ r e, of "[(SIGTERM, demo_swap)]"] by (simp add: r)
qed

end
