(* ===== verification/Event_Loop.thy ===== *)
theory Event_Loop
  imports Pivot Sliding_Window
begin

text \<open>
  The main loop of the compositor, at the end of \<open>main\<close> in \<open>crates/halmasuit/src/main.rs\<close>: one iteration behind
  its fault boundary (\<open>run_loop_iteration\<close>), the rate-limited log (\<open>should_log_degraded\<close>) and the exit after a
  stop signal.  One iteration dispatches events of the compositor's sources and ticks of the pivot timer,
  may fail or panic, and then looks at the exit flag.
\<close>

section \<open>One iteration\<close>

datatype iter_result = IterOk | IterErr errno | IterPanic

datatype loop_log = LogRecovered u32 | LogError errno u32 | LogPanic u32

text \<open>\<open>u32::is_power_of_two\<close>, and the addition on the counter, which wraps in a release build.\<close>

definition is_power_of_two :: "u32 \<Rightarrow> bool" where
  "is_power_of_two n = list_ex (\<lambda>k. n = 2 ^ k) [0..<32]"

definition should_log_degraded :: "u32 \<Rightarrow> bool" where
  "should_log_degraded n = (n \<le> 5 \<or> is_power_of_two n)"

definition run_loop_iteration :: "u32 \<Rightarrow> iter_result \<Rightarrow> u32 \<times> loop_log list" where
  "run_loop_iteration consecutive_errors result = (case result of
     IterOk \<Rightarrow> if consecutive_errors \<noteq> 0 then (0, [LogRecovered consecutive_errors]) else (consecutive_errors, [])
   | IterErr e \<Rightarrow> let n = consecutive_errors + 1 in (n, if should_log_degraded n then [LogError e n] else [])
   | IterPanic \<Rightarrow> let n = consecutive_errors + 1 in (n, if should_log_degraded n then [LogPanic n] else []))"

section \<open>The loop\<close>

definition GRACEFUL_SESSION_CLOSE_GRACE :: duration where
  "GRACEFUL_SESSION_CLOSE_GRACE = 2000000000"

text \<open>
  What is dispatched: an event of the sources \<open>Compositor\<close> models, or a tick of the pivot timer, which is
  registered only in a boot from the initramfs and leaves the loop when its callback returns \<open>Drop\<close>.
\<close>

datatype dispatched = CompEvent comp_event | PivotTick pivot_tick

text \<open>
  What one iteration dispatches, its result and the time it reads when it decides about the exit.  A callback
  that fails or panics may have run only a part of its events: they are the ones listed.
\<close>

record iteration =
  it_events :: "dispatched list"
  it_result :: iter_result
  it_now :: instant

record loop_state =
  ml_pivot :: pivot_state
  ml_timer :: bool
  ml_errors :: u32
  ml_deadline :: "instant option"
  ml_logs :: "loop_log list"

abbreviation ml_comp :: "loop_state \<Rightarrow> compositor" where
  "ml_comp s \<equiv> pv_comp (ml_pivot s)"

definition dispatch_event :: "episode_env \<Rightarrow> dispatched \<Rightarrow> loop_state \<Rightarrow> loop_state" where
  "dispatch_event E ev s = (case ev of
     CompEvent e \<Rightarrow> s\<lparr>ml_pivot := (ml_pivot s)\<lparr>pv_comp := comp_handle E e (ml_comp s)\<rparr>\<rparr>
   | PivotTick T \<Rightarrow>
       if ml_timer s then (let (action, p) = pivot_timer E T (ml_pivot s) in s\<lparr>ml_pivot := p, ml_timer := action \<noteq> DropTimer\<rparr>)
       else s)"

definition dispatch_events :: "episode_env \<Rightarrow> dispatched list \<Rightarrow> loop_state \<Rightarrow> loop_state" where
  "dispatch_events E evs s = fold (dispatch_event E) evs s"

datatype loop_flow = LoopContinue | LoopBreak

definition exit_check :: "instant \<Rightarrow> loop_state \<Rightarrow> loop_flow \<times> loop_state" where
  "exit_check now s =
     (if \<not> cp_should_exit (ml_comp s) then (LoopContinue, s)
      else case ml_deadline s of
          None \<Rightarrow>
            if begin_graceful_session_close (ml_comp s)
            then (LoopContinue, s\<lparr>ml_deadline := Some (now + GRACEFUL_SESSION_CLOSE_GRACE)\<rparr>)
            else (LoopBreak, s)
        | Some deadline \<Rightarrow>
            if cp_toplevel (ml_comp s) = None \<or> now \<ge> deadline then (LoopBreak, s) else (LoopContinue, s))"

definition loop_iteration :: "episode_env \<Rightarrow> iteration \<Rightarrow> loop_state \<Rightarrow> loop_flow \<times> loop_state" where
  "loop_iteration E it s =
     (let (n, logs) = run_loop_iteration (ml_errors s) (it_result it) in
      exit_check (it_now it) ((dispatch_events E (it_events it) s)\<lparr>ml_errors := n, ml_logs := ml_logs s @ logs\<rparr>))"

fun main_loop :: "episode_env \<Rightarrow> iteration list \<Rightarrow> loop_state \<Rightarrow> loop_flow \<times> loop_state" where
  "main_loop E [] s = (LoopContinue, s)"
| "main_loop E (it # its) s = (case loop_iteration E it s of
     (LoopBreak, s') \<Rightarrow> (LoopBreak, s')
   | (LoopContinue, s') \<Rightarrow> main_loop E its s')"

text \<open>
  The state \<open>main\<close> enters the loop with.  In a boot from the initramfs the pivot timer is registered and shutdown
  handling is not armed; otherwise it is the other way round.
\<close>

definition new_loop :: "bool \<Rightarrow> u32 \<Rightarrow> string \<Rightarrow> greeter_handle option \<Rightarrow> nat option \<Rightarrow> loop_state" where
  "new_loop in_initramfs guid service greeter libinput =
     \<lparr>ml_pivot = (new_pivot (new_compositor guid service (\<not> in_initramfs) greeter) libinput)\<lparr>pv_in_initramfs := in_initramfs\<rparr>,
      ml_timer = in_initramfs, ml_errors = 0, ml_deadline = None, ml_logs = []\<rparr>"

section \<open>The flags that decide about the exit\<close>

definition stop_part :: "compositor \<Rightarrow> bool \<times> bool \<times> bool" where
  "stop_part s = (cp_shutdown_armed s, cp_shutting_down s, cp_should_exit s)"

lemma stop_part_neutral [simp]:
  "stop_part (emit_event e s) = stop_part s" "stop_part (log_calls cs s) = stop_part s" "stop_part (put_conn i c s) = stop_part s"
  "stop_part (render x s) = stop_part s" "stop_part (set_keyboard_focus x s) = stop_part s"
  "stop_part (s\<lparr>cp_connections := m\<rparr>) = stop_part s" "stop_part (s\<lparr>cp_idle := ids\<rparr>) = stop_part s"
  "stop_part (s\<lparr>cp_next_token := n\<rparr>) = stop_part s" "stop_part (s\<lparr>cp_next_conn_id := n\<rparr>) = stop_part s"
  "stop_part (s\<lparr>cp_greeter := g\<rparr>) = stop_part s" "stop_part (s\<lparr>cp_greeter_swap := gg\<rparr>) = stop_part s"
  "stop_part (s\<lparr>cp_toplevel := t\<rparr>) = stop_part s" "stop_part (s\<lparr>cp_seen_roles := rs\<rparr>) = stop_part s"
  "stop_part (s\<lparr>cp_foreground := f\<rparr>) = stop_part s" "stop_part (s\<lparr>cp_swap := sg\<rparr>) = stop_part s"
  "stop_part (s\<lparr>cp_session_uid := u\<rparr>) = stop_part s" "stop_part (s\<lparr>cp_first_frame_emitted := b\<rparr>) = stop_part s"
  by (simp_all add: stop_part_def log_calls_def put_conn_def render_def set_keyboard_focus_def emit_event_def)

lemma stop_part_swap [simp]: "stop_part (apply_swap_action K a s) = stop_part s"
  by (cases a) (simp_all add: apply_swap_action_def Let_def stop_part_def kill_greeter_def respawn_greeter_def emit_event_def
      render_def set_keyboard_focus_def split: option.split sum.split)

lemma stop_part_drive [simp]: "stop_part (drive_gate K op s) = stop_part s"
  by (simp add: drive_gate_def split_beta)

lemma stop_part_record [simp]: "stop_part (record_session_started sp s) = stop_part s"
  by (simp add: record_session_started_def)

lemma stop_part_records [simp]: "stop_part (fold record_session_started sps s) = stop_part s"
  by (induction sps arbitrary: s) simp_all

lemma stop_part_finish [simp]: "stop_part (finish_source t r) = stop_part (snd r)"
  by (cases r; cases "fst r") (simp_all add: finish_source_def)

lemma stop_part_idle [simp]: "stop_part (run_idle s) = stop_part s"
proof -
  have "stop_part (drop_idle i t) = stop_part t" for i t by (simp add: drop_idle_def split: option.split)
  then have "stop_part (fold drop_idle is t) = stop_part t" for "is" t by (induction "is" arbitrary: t) simp_all
  then show ?thesis by (simp add: run_idle_def)
qed

lemma stop_part_listener [simp]: "stop_part (handle_listener_ready rs s) = stop_part s"
proof -
  have "stop_part (accept_one a b c d e t) = stop_part t" for a b c d e t
    by (simp add: accept_one_def Let_def split: sum.split)
  then show ?thesis by (induction rs s rule: handle_listener_ready.induct) simp_all
qed

lemma stop_part_reap [simp]: "stop_part (reap_zombie_children ws s) = stop_part s"
  by (induction ws s rule: reap_zombie_children.induct) (simp_all split: reap_outcome.split)

lemma stop_part_arm [simp]: "stop_part (arm_leader_pidfd_backstop ok i s) = stop_part s"
  by (simp add: arm_leader_pidfd_backstop_def split_beta Let_def split: option.split)

lemma stop_part_outcome [simp]: "stop_part (apply_broker_outcome K ok i out s) = stop_part s"
  by (simp add: apply_broker_outcome_def Let_def split: option.split)

lemma stop_part_connection [simp]: "stop_part (snd (handle_connection_ready E i r w reads writes s)) = stop_part s"
  by (simp add: handle_connection_ready_def conclude_connection_def split_beta Let_def split: option.split)

lemma stop_part_broker [simp]: "stop_part (snd (handle_broker_ready E K ok i r received s)) = stop_part s"
  by (simp add: handle_broker_ready_def split_beta Let_def split: option.split)

lemma stop_part_leader [simp]: "stop_part (snd (handle_leader_pidfd_ready K i s)) = stop_part s"
  by (simp add: handle_leader_pidfd_ready_def Let_def split: option.split)

lemma stop_part_shutdown: "stop_part (graceful_shutdown K reason s) = (cp_shutdown_armed s, True, cp_should_exit s)"
  by (simp add: graceful_shutdown_def stop_part_def Let_def emit_event_def render_def split: option.split sum.split)

lemma stop_part_other:
  assumes "\<forall>sig K. e \<noteq> StopSignal sig K" and "\<forall>K. e \<noteq> ShutdownAnnounced K"
  shows "stop_part (comp_handle E e s) = stop_part s"
  using assms by (cases e)
    (simp_all add: maybe_emit_session_first_frame_def maybe_focus_foreground_toplevel_def layer_first_frame_def new_toplevel_def
      toplevel_destroyed_def Let_def split: option.split)

lemma stop_step:
  "cp_shutdown_armed (comp_handle E e s) = cp_shutdown_armed s"
  "cp_shutting_down (comp_handle E e s) \<longleftrightarrow> cp_shutting_down s \<or> (\<exists>K. e = ShutdownAnnounced K)"
  "cp_should_exit (comp_handle E e s) \<longleftrightarrow>
     cp_should_exit s \<or> cp_shutdown_armed s \<and> \<not> cp_shutting_down s \<and> (\<exists>sig K. e = StopSignal sig K)"
proof -
  have sp: "stop_part t = (cp_shutdown_armed t, cp_shutting_down t, cp_should_exit t)" for t by (simp add: stop_part_def)
  consider (stop) sig K where "e = StopSignal sig K" | (down) K where "e = ShutdownAnnounced K"
    | (other) "\<forall>sig K. e \<noteq> StopSignal sig K" "\<forall>K. e \<noteq> ShutdownAnnounced K" by blast
  then have "cp_shutdown_armed (comp_handle E e s) = cp_shutdown_armed s \<and>
    (cp_shutting_down (comp_handle E e s) \<longleftrightarrow> cp_shutting_down s \<or> (\<exists>K. e = ShutdownAnnounced K)) \<and>
    (cp_should_exit (comp_handle E e s) \<longleftrightarrow>
      cp_should_exit s \<or> cp_shutdown_armed s \<and> \<not> cp_shutting_down s \<and> (\<exists>sig K. e = StopSignal sig K))"
  proof cases
    case stop
    then show ?thesis using stop_part_shutdown by (simp add: handle_stop_signal_def Let_def emit_event_def graceful_shutdown_def)
  next
    case down
    then show ?thesis using stop_part_shutdown [of K PrepareForShutdown s] by (simp add: sp)
  next
    case other
    then show ?thesis using stop_part_other [OF other, of E s] by (simp add: sp)
  qed
  then show "cp_shutdown_armed (comp_handle E e s) = cp_shutdown_armed s"
    "cp_shutting_down (comp_handle E e s) \<longleftrightarrow> cp_shutting_down s \<or> (\<exists>K. e = ShutdownAnnounced K)"
    "cp_should_exit (comp_handle E e s) \<longleftrightarrow>
      cp_should_exit s \<or> cp_shutdown_armed s \<and> \<not> cp_shutting_down s \<and> (\<exists>sig K. e = StopSignal sig K)" by blast+
qed

text \<open>A tick whose setup dropped the privileges.\<close>

definition drop_succeeds :: "pivot_tick \<Rightarrow> bool" where
  "drop_succeeds T \<longleftrightarrow> (\<exists>uid calls. compositor_uid_from_env (su_uid_var (pt_setup T)) = Inr (Some uid) \<and>
     drop_privileges (su_priv (pt_setup T)) uid = (Inr (), calls))"

lemma setup_stop_part:
  assumes "run_post_pivot_setup E (pt_setup T) p = (r, p')"
  shows "stop_part (pv_comp p') = stop_part (pv_comp p) \<or>
    stop_part (pv_comp p') = (True, cp_shutting_down (pv_comp p), cp_should_exit (pv_comp p)) \<and> drop_succeeds T"
proof -
  let ?U = "pt_setup T"
  obtain s1 e1 where 1: "setup_listener_step ?U p = (s1, e1)" by (cases "setup_listener_step ?U p")
  obtain s2 e2 where 2: "setup_greeter_step E ?U s1 = (s2, e2)" by (cases "setup_greeter_step E ?U s1")
  obtain s3 e3 where 3: "(if pv_libinput s2 = None then setup_post_pivot_input ?U s2 else (s2, [])) = (s3, e3)"
    by (cases "if pv_libinput s2 = None then setup_post_pivot_input ?U s2 else (s2, [])")
  have "stop_part (pv_comp s1) = stop_part (pv_comp p)"
    using 1 by (auto simp: setup_listener_step_def enter_phase_def stop_part_def split: sum.splits)
  moreover have "stop_part (pv_comp s2) = stop_part (pv_comp s1)"
    using 2 by (auto simp: setup_greeter_step_def stop_part_def emit_event_def split: sum.splits)
  moreover have "pv_comp s3 = pv_comp s2"
    using 3 by (auto simp: setup_post_pivot_input_def split: sum.splits if_splits)
  ultimately have same: "stop_part (pv_comp s3) = stop_part (pv_comp p)" by simp
  consider (var) e where "compositor_uid_from_env (su_uid_var ?U) = Inl e"
    | (unset) "compositor_uid_from_env (su_uid_var ?U) = Inr None"
    | (uid) uid where "compositor_uid_from_env (su_uid_var ?U) = Inr (Some uid)"
    by (metis old.sum.exhaust option.exhaust)
  then show ?thesis
  proof cases
    case uid
    obtain res calls where d: "drop_privileges (su_priv ?U) uid = (res, calls)" by (cases "drop_privileges (su_priv ?U) uid")
    show ?thesis using assms same uid d
      by (cases res) (auto simp: run_post_pivot_setup_def 1 2 3 enter_phase_def stop_part_def drop_succeeds_def)
  qed (use assms same in \<open>auto simp: run_post_pivot_setup_def 1 2 3 split: if_splits\<close>)
qed

lemma timer_stop_part:
  assumes "pivot_timer E T p = (a, p')"
  shows "stop_part (pv_comp p') = stop_part (pv_comp p) \<or>
    stop_part (pv_comp p') = (True, cp_shutting_down (pv_comp p), cp_should_exit (pv_comp p)) \<and> drop_succeeds T"
proof (cases "pv_phase p")
  case PivotSetup
  obtain r p'' where r: "run_post_pivot_setup E (pt_setup T) p = (r, p'')" by (cases "run_post_pivot_setup E (pt_setup T) p")
  then have "pv_comp p' = pv_comp p''" using assms PivotSetup by (auto simp: pivot_timer_def)
  then show ?thesis using setup_stop_part [OF r] by simp
next
  case PivotAwaiting
  then show ?thesis using assms by (auto simp: pivot_timer_def enter_phase_def split: if_splits)
next
  case (PivotConnecting deadline d w)
  then have "pv_comp p' = pv_comp p"
    using assms by (auto simp: pivot_timer_def tick_connecting_def Let_def split: sum.splits if_splits)
  then show ?thesis by simp
next
  case (PivotAwaitingReply chan deadline)
  then have "pv_comp p' = pv_comp p"
    using assms by (auto simp: pivot_timer_def tick_reply_def split: sum.splits option.splits if_splits)
  then show ?thesis by simp
qed

text \<open>The flags after one dispatched event, and after a sequence of them.\<close>

lemma dispatch_flags:
  "cp_shutting_down (ml_comp (dispatch_event E ev s)) \<longleftrightarrow> cp_shutting_down (ml_comp s) \<or> (\<exists>K. ev = CompEvent (ShutdownAnnounced K))"
  "cp_should_exit (ml_comp (dispatch_event E ev s)) \<longleftrightarrow> cp_should_exit (ml_comp s) \<or>
     cp_shutdown_armed (ml_comp s) \<and> \<not> cp_shutting_down (ml_comp s) \<and> (\<exists>sig K. ev = CompEvent (StopSignal sig K))"
  "cp_shutdown_armed (ml_comp (dispatch_event E ev s)) \<Longrightarrow> cp_shutdown_armed (ml_comp s) \<or> (\<exists>T. ev = PivotTick T \<and> drop_succeeds T)"
proof -
  have "stop_part (ml_comp (dispatch_event E (PivotTick T) s)) = stop_part (ml_comp s) \<or>
      stop_part (ml_comp (dispatch_event E (PivotTick T) s)) = (True, cp_shutting_down (ml_comp s), cp_should_exit (ml_comp s)) \<and> drop_succeeds T" for T
    using timer_stop_part [of E T "ml_pivot s"] by (auto simp: dispatch_event_def split: prod.split)
  then have tick: "cp_shutting_down (ml_comp (dispatch_event E (PivotTick T) s)) = cp_shutting_down (ml_comp s)"
      "cp_should_exit (ml_comp (dispatch_event E (PivotTick T) s)) = cp_should_exit (ml_comp s)"
      "cp_shutdown_armed (ml_comp (dispatch_event E (PivotTick T) s)) \<Longrightarrow> cp_shutdown_armed (ml_comp s) \<or> drop_succeeds T" for T
    unfolding stop_part_def prod.inject by blast+
  have comp: "ml_comp (dispatch_event E (CompEvent e) s) = comp_handle E e (ml_comp s)" for e by (simp add: dispatch_event_def)
  show "cp_shutting_down (ml_comp (dispatch_event E ev s)) \<longleftrightarrow> cp_shutting_down (ml_comp s) \<or> (\<exists>K. ev = CompEvent (ShutdownAnnounced K))"
    by (cases ev) (simp_all add: comp stop_step tick(1) del: comp_handle.simps)
  show "cp_should_exit (ml_comp (dispatch_event E ev s)) \<longleftrightarrow> cp_should_exit (ml_comp s) \<or>
     cp_shutdown_armed (ml_comp s) \<and> \<not> cp_shutting_down (ml_comp s) \<and> (\<exists>sig K. ev = CompEvent (StopSignal sig K))"
    by (cases ev) (auto simp: comp stop_step tick(2) simp del: comp_handle.simps)
  show "cp_shutdown_armed (ml_comp (dispatch_event E ev s)) \<Longrightarrow> cp_shutdown_armed (ml_comp s) \<or> (\<exists>T. ev = PivotTick T \<and> drop_succeeds T)"
    using tick(3) by (cases ev) (auto simp: comp stop_step simp del: comp_handle.simps)
qed

lemma dispatch_events_simps [simp]:
  "dispatch_events E [] s = s"
  "dispatch_events E (ev # evs) s = dispatch_events E evs (dispatch_event E ev s)"
  "dispatch_events E (evs @ fvs) s = dispatch_events E fvs (dispatch_events E evs s)"
  by (simp_all add: dispatch_events_def)

lemma shutting_down_run:
  "cp_shutting_down (ml_comp (dispatch_events E evs s)) \<longleftrightarrow>
     cp_shutting_down (ml_comp s) \<or> (\<exists>K. CompEvent (ShutdownAnnounced K) \<in> set evs)"
  by (induction evs arbitrary: s) (auto simp: dispatch_flags(1))

lemma armed_run:
  "cp_shutdown_armed (ml_comp (dispatch_events E evs s)) \<Longrightarrow>
     cp_shutdown_armed (ml_comp s) \<or> (\<exists>T. PivotTick T \<in> set evs \<and> drop_succeeds T)"
proof (induction evs arbitrary: s)
  case (Cons ev evs)
  then show ?case using dispatch_flags(3) [of E ev s] by fastforce
qed simp

text \<open>A stop signal that is obeyed: at its moment shutdown handling is armed and no shutdown is under way.\<close>

definition obeyed_stop :: "episode_env \<Rightarrow> loop_state \<Rightarrow> dispatched list \<Rightarrow> bool" where
  "obeyed_stop E s evs \<longleftrightarrow> (\<exists>evs1 sig K evs2. evs = evs1 @ CompEvent (StopSignal sig K) # evs2 \<and>
     cp_shutdown_armed (ml_comp (dispatch_events E evs1 s)) \<and> \<not> cp_shutting_down (ml_comp (dispatch_events E evs1 s)))"

lemma obeyed_stop_snoc:
  "obeyed_stop E s (evs @ [ev]) \<longleftrightarrow> obeyed_stop E s evs \<or>
     cp_shutdown_armed (ml_comp (dispatch_events E evs s)) \<and> \<not> cp_shutting_down (ml_comp (dispatch_events E evs s)) \<and>
     (\<exists>sig K. ev = CompEvent (StopSignal sig K))"
proof -
  have "(\<exists>evs2. evs @ [ev] = evs1 @ x # evs2) \<longleftrightarrow> (\<exists>evs2. evs = evs1 @ x # evs2) \<or> (evs1 = evs \<and> x = ev)" for evs1 x
    by (auto simp: append_eq_append_conv2 append_eq_Cons_conv Cons_eq_append_conv)
  then show ?thesis unfolding obeyed_stop_def by blast
qed

lemma stop_run: "cp_should_exit (ml_comp (dispatch_events E evs s)) \<longleftrightarrow> cp_should_exit (ml_comp s) \<or> obeyed_stop E s evs"
proof (induction evs rule: rev_induct)
  case Nil
  then show ?case by (simp add: obeyed_stop_def)
next
  case (snoc ev evs)
  then show ?case unfolding obeyed_stop_snoc by (simp add: dispatch_flags(2))
qed

section \<open>When the loop ends\<close>

text \<open>The sources see only their own part of the state of the loop.\<close>

lemma dispatch_event_part:
  assumes "ml_pivot u = ml_pivot s" and "ml_timer u = ml_timer s"
  shows "ml_pivot (dispatch_event E ev u) = ml_pivot (dispatch_event E ev s)" and "ml_timer (dispatch_event E ev u) = ml_timer (dispatch_event E ev s)"
proof -
  have "ml_pivot (dispatch_event E ev u) = ml_pivot (dispatch_event E ev s) \<and> ml_timer (dispatch_event E ev u) = ml_timer (dispatch_event E ev s)"
    by (cases ev) (simp_all add: dispatch_event_def split_beta assms)
  then show "ml_pivot (dispatch_event E ev u) = ml_pivot (dispatch_event E ev s)" "ml_timer (dispatch_event E ev u) = ml_timer (dispatch_event E ev s)"
    by blast+
qed

lemma dispatch_events_part:
  "ml_pivot u = ml_pivot s \<Longrightarrow> ml_timer u = ml_timer s \<Longrightarrow>
     ml_pivot (dispatch_events E evs u) = ml_pivot (dispatch_events E evs s) \<and> ml_timer (dispatch_events E evs u) = ml_timer (dispatch_events E evs s)"
proof (induction evs arbitrary: u s)
  case (Cons ev evs)
  show ?case unfolding dispatch_events_simps by (rule Cons.IH [OF dispatch_event_part [OF Cons.prems]])
qed simp

lemma dispatch_event_rest [simp]:
  "ml_errors (dispatch_event E ev s) = ml_errors s" "ml_deadline (dispatch_event E ev s) = ml_deadline s" "ml_logs (dispatch_event E ev s) = ml_logs s"
  unfolding dispatch_event_def split_beta Let_def by (simp_all split: dispatched.split)

lemma dispatch_events_rest [simp]:
  "ml_errors (dispatch_events E evs s) = ml_errors s" "ml_deadline (dispatch_events E evs s) = ml_deadline s" "ml_logs (dispatch_events E evs s) = ml_logs s"
  by (induction evs arbitrary: s) simp_all

lemma iteration_comp:
  assumes "loop_iteration E it s = (f, s')"
  shows "ml_pivot s' = ml_pivot (dispatch_events E (it_events it) s)" and "ml_timer s' = ml_timer (dispatch_events E (it_events it) s)"
    and "f = LoopBreak \<Longrightarrow> cp_should_exit (ml_comp s')"
  using assms by (auto simp: loop_iteration_def exit_check_def split_beta Let_def split: if_splits option.splits)

lemma break_after:
  "fst (main_loop E its s) = LoopBreak \<Longrightarrow>
     \<exists>its1 its2. its = its1 @ its2 \<and> cp_should_exit (ml_comp (dispatch_events E (concat (map it_events its1)) s))"
proof (induction its arbitrary: s)
  case (Cons it its)
  obtain f s' where s': "loop_iteration E it s = (f, s')" by (cases "loop_iteration E it s")
  note c = iteration_comp [OF s']
  show ?case
  proof (cases f)
    case LoopBreak
    then have "cp_should_exit (ml_comp (dispatch_events E (concat (map it_events [it])) s))" using c by simp
    then show ?thesis by (metis append_Cons append_Nil)
  next
    case LoopContinue
    then have "fst (main_loop E its s') = LoopBreak" using Cons.prems by (simp add: s')
    from Cons.IH [OF this] obtain its1 its2 where "its = its1 @ its2"
      "cp_should_exit (ml_comp (dispatch_events E (concat (map it_events its1)) s'))" by blast
    then have "it # its = (it # its1) @ its2" "cp_should_exit (ml_comp (dispatch_events E (concat (map it_events (it # its1))) s))"
      using dispatch_events_part [OF c(1,2), of E "concat (map it_events its1)"] by simp_all
    then show ?thesis by blast
  qed
qed simp

text \<open>
  C16: the compositor leaves its loop only for a plain stop.  Whatever is dispatched and however often an iteration
  fails or panics, the loop ends only if a \<open>SIGTERM\<close> or \<open>SIGINT\<close> was dispatched with no announcement of a
  shutdown before it and, in a boot from the initramfs, after a tick of the pivot timer whose privilege drop
  succeeded: during a shutdown, and in the boot from the initramfs until the drop, the compositor keeps
  painting.
\<close>

theorem exit_only_on_plain_stop:
  assumes "fst (main_loop E its (new_loop in_initramfs guid service greeter libinput)) = LoopBreak"
  shows "\<exists>evs1 sig K evs2. concat (map it_events its) = evs1 @ CompEvent (StopSignal sig K) # evs2 \<and>
    (\<forall>K'. CompEvent (ShutdownAnnounced K') \<notin> set evs1) \<and>
    (in_initramfs \<longrightarrow> (\<exists>T uid calls. PivotTick T \<in> set evs1 \<and> compositor_uid_from_env (su_uid_var (pt_setup T)) = Inr (Some uid) \<and>
       drop_privileges (su_priv (pt_setup T)) uid = (Inr (), calls)))"
proof -
  let ?s = "new_loop in_initramfs guid service greeter libinput"
  have s: "\<not> cp_should_exit (ml_comp ?s)" "\<not> cp_shutting_down (ml_comp ?s)" "cp_shutdown_armed (ml_comp ?s) \<longleftrightarrow> \<not> in_initramfs"
    by (simp_all add: new_loop_def new_pivot_def new_compositor_def)
  obtain its1 its2 where its: "its = its1 @ its2" "cp_should_exit (ml_comp (dispatch_events E (concat (map it_events its1)) ?s))"
    using break_after [OF assms] by blast
  then obtain evs1 sig K evs2 where e: "concat (map it_events its1) = evs1 @ CompEvent (StopSignal sig K) # evs2"
      "cp_shutdown_armed (ml_comp (dispatch_events E evs1 ?s))" "\<not> cp_shutting_down (ml_comp (dispatch_events E evs1 ?s))"
    using s(1) by (auto simp: stop_run obeyed_stop_def)
  have "concat (map it_events its) = evs1 @ CompEvent (StopSignal sig K) # (evs2 @ concat (map it_events its2))"
    using its(1) e(1) by simp
  moreover have "\<forall>K'. CompEvent (ShutdownAnnounced K') \<notin> set evs1" using e(3) by (auto simp: shutting_down_run)
  moreover have "in_initramfs \<longrightarrow> (\<exists>T. PivotTick T \<in> set evs1 \<and> drop_succeeds T)" using armed_run [OF e(2)] s(3) by blast
  ultimately show ?thesis unfolding drop_succeeds_def by blast
qed

lemma armed_deadline_breaks:
  "cp_should_exit (ml_comp s) \<Longrightarrow> ml_deadline s = Some d \<Longrightarrow> it \<in> set its \<Longrightarrow> d \<le> it_now it \<Longrightarrow> fst (main_loop E its s) = LoopBreak"
proof (induction its arbitrary: s)
  case (Cons i its)
  obtain f s' where s': "loop_iteration E i s = (f, s')" by (cases "loop_iteration E i s")
  have x: "cp_should_exit (ml_comp s')" using iteration_comp(1) [OF s'] Cons.prems(1) by (simp add: stop_run)
  show ?case
  proof (cases f)
    case LoopContinue
    have d: "ml_deadline s' = Some d" "\<not> d \<le> it_now i" using s' x Cons.prems(2) LoopContinue
      by (auto simp: loop_iteration_def exit_check_def split_beta Let_def split: if_splits)
    then have "it \<in> set its" using Cons.prems(3,4) by auto
    from Cons.IH [OF x d(1) this Cons.prems(4)] show ?thesis by (simp add: s' LoopContinue)
  qed (simp add: s')
qed simp

text \<open>
  C17: a plain stop ends the loop.  When an iteration dispatches a stop signal at whose moment shutdown handling is
  armed (perhaps by a tick of the pivot timer just before it) and no shutdown is under way, the loop has
  ended by the time of any iteration that reads the clock two seconds after it or later, whether or not
  the session closes; it ends at once when no session is in the foreground.
\<close>

theorem plain_stop_ends_loop:
  assumes "it_events it = evs1 @ CompEvent (StopSignal sig K) # evs2"
    and "cp_shutdown_armed (ml_comp (dispatch_events E evs1 s))" and "\<not> cp_shutting_down (ml_comp (dispatch_events E evs1 s))"
    and "ml_deadline s = None"
    and "\<not> begin_graceful_session_close (ml_comp (dispatch_events E (it_events it) s)) \<or>
      (\<exists>it' \<in> set its. it_now it + GRACEFUL_SESSION_CLOSE_GRACE \<le> it_now it')"
  shows "fst (main_loop E (it # its) s) = LoopBreak"
proof -
  obtain f s' where s': "loop_iteration E it s = (f, s')" by (cases "loop_iteration E it s")
  note c = iteration_comp [OF s']
  have "obeyed_stop E s (it_events it)" using assms(1-3) unfolding obeyed_stop_def by blast
  then have x: "cp_should_exit (ml_comp s')" using c(1) by (simp add: stop_run)
  show ?thesis
  proof (cases f)
    case LoopContinue
    have b: "begin_graceful_session_close (ml_comp (dispatch_events E (it_events it) s))"
      "ml_deadline s' = Some (it_now it + GRACEFUL_SESSION_CLOSE_GRACE)"
      using s' x assms(4) LoopContinue by (auto simp: loop_iteration_def exit_check_def split_beta Let_def split: if_splits)
    then obtain it' where "it' \<in> set its" "it_now it + GRACEFUL_SESSION_CLOSE_GRACE \<le> it_now it'" using assms(5) by blast
    from armed_deadline_breaks [OF x b(2) this] show ?thesis by (simp add: s' LoopContinue)
  qed (simp add: s')
qed

section \<open>How much is logged\<close>

definition logged_at :: "nat \<Rightarrow> bool" where
  "logged_at n \<longleftrightarrow> n \<le> 5 \<or> (\<exists>k. n = 2 ^ k)"

lemma should_log_at:
  assumes "n < 2 ^ 32"
  shows "should_log_degraded (of_nat n) \<longleftrightarrow> logged_at n"
proof -
  have u: "unat (of_nat n :: u32) = n" using assms by (simp add: unat_of_nat take_bit_nat_def)
  have "(of_nat n :: u32) \<le> 5 \<longleftrightarrow> n \<le> 5" unfolding word_le_nat_alt u by simp
  moreover have "(of_nat n :: u32) = 2 ^ k \<longleftrightarrow> n = 2 ^ k" if "k < 32" for k
  proof -
    have "(2 :: nat) ^ k < 2 ^ 32" using that by (intro power_strict_increasing) simp_all
    moreover have "(2 ^ k :: u32) = of_nat (2 ^ k)" by simp
    ultimately have "unat (2 ^ k :: u32) = 2 ^ k" by (simp only: unat_of_nat take_bit_nat_def) simp
    then show ?thesis using u by (metis word_unat_eq_iff)
  qed
  moreover have "k < 32" if "n = 2 ^ k" for k
  proof -
    have "(2 :: nat) ^ k < 2 ^ 32" using assms that by simp
    then show ?thesis by (rule power_less_imp_less_exp [rotated]) simp
  qed
  ultimately show ?thesis by (auto simp: should_log_degraded_def is_power_of_two_def logged_at_def list_ex_iff)
qed

lemma logged_count:
  "5 \<le> n \<Longrightarrow> 2 ^ k \<le> n \<Longrightarrow> n < 2 ^ (k + 1) \<Longrightarrow> length (filter logged_at [1..<Suc n]) = k + 3"
proof (induction n arbitrary: k rule: nat_induct_at_least)
  case base
  have "(2 :: nat) ^ k < 2 ^ 3" "(2 :: nat) ^ 2 < 2 ^ (k + 1)" using base by simp_all
  then have "k < 3 \<and> 2 < k + 1" by (metis one_less_numeral_iff power_less_imp_less_exp semiring_norm(76))
  then have "k = 2" by simp
  then show ?case by (simp add: logged_at_def numeral_eq_Suc)
next
  case (Suc n)
  have *: "length (filter logged_at [1..<Suc (Suc n)]) = length (filter logged_at [1..<Suc n]) + (if logged_at (Suc n) then 1 else 0)"
    by simp
  show ?case
  proof (cases "Suc n = 2 ^ k")
    case True
    then have "k \<noteq> 0" using Suc.hyps by (cases k) auto
    then obtain j where k: "k = Suc j" by (cases k) auto
    have "0 < (2 :: nat) ^ j" by simp
    then have "2 ^ j \<le> n" "n < 2 ^ (j + 1)" using True by (simp_all add: k)
    moreover have "logged_at (Suc n)" using True by (auto simp: logged_at_def)
    ultimately show ?thesis using Suc.IH * by (simp add: k)
  next
    case False
    then have l: "2 ^ k \<le> n" "n < 2 ^ (k + 1)" using Suc.prems by simp_all
    have "\<not> logged_at (Suc n)"
    proof
      assume "logged_at (Suc n)"
      then obtain j where j: "Suc n = 2 ^ j" using Suc.hyps by (auto simp: logged_at_def)
      then have "(2 :: nat) ^ k < 2 ^ j" "(2 :: nat) ^ j < 2 ^ (k + 1)" using Suc.prems False by linarith+
      then have "k < j" "j < k + 1" using power_less_imp_less_exp [of 2] by (metis one_less_numeral_iff semiring_norm(76))+
      then show False by simp
    qed
    then show ?thesis using Suc.IH [OF l] * by simp
  qed
qed

lemma failing_iterations:
  assumes "fst (main_loop E its s) = LoopContinue" and "\<forall>it \<in> set its. it_result it \<noteq> IterOk" and "ml_errors s = of_nat m"
    and "m + length its < 2 ^ 32"
  shows "length (ml_logs (snd (main_loop E its s))) = length (ml_logs s) + length (filter logged_at [Suc m..<Suc (m + length its)]) \<and>
    ml_errors (snd (main_loop E its s)) = of_nat (m + length its)"
  using assms
proof (induction its arbitrary: s m)
  case (Cons it its)
  obtain f s' where s': "loop_iteration E it s = (f, s')" by (cases "loop_iteration E it s")
  have f: "f = LoopContinue" using Cons.prems(1) by (cases f) (simp_all add: s')
  have n: "should_log_degraded (of_nat (Suc m)) \<longleftrightarrow> logged_at (Suc m)" using Cons.prems(4) by (intro should_log_at) simp
  have e: "ml_errors (snd (exit_check t u)) = ml_errors u" "ml_logs (snd (exit_check t u)) = ml_logs u" for t u
    by (simp_all add: exit_check_def split: option.split)
  have s'': "s' = snd (loop_iteration E it s)" by (simp add: s')
  have "ml_errors s' = of_nat (Suc m) \<and> length (ml_logs s') = length (ml_logs s) + (if logged_at (Suc m) then 1 else 0)"
    unfolding s'' loop_iteration_def using Cons.prems(2,3) n
    by (cases "it_result it") (auto simp: e run_loop_iteration_def Let_def add.commute)
  moreover have "[Suc m..<Suc (m + length (it # its))] = Suc m # [Suc (Suc m)..<Suc (Suc m + length its)]" by (simp add: upt_rec)
  ultimately show ?case using Cons.IH [of s' "Suc m"] Cons.prems by (simp add: s' f)
qed simp

text \<open>
  a lasting fault is logged a logarithmic number of times.  After \<open>n\<close> failed iterations in a row, for \<open>n\<close>
  from 5 up to the range of the counter, with \<open>2^k \<le> n < 2^(k+1)\<close>, exactly \<open>k + 3\<close> lines were logged, and
  the next clean iteration reports the \<open>n\<close> failures and resets the counter.
\<close>

theorem degraded_log_is_logarithmic:
  assumes "\<forall>it \<in> set its. it_result it \<noteq> IterOk" and "fst (main_loop E its (new_loop in_initramfs guid service greeter libinput)) = LoopContinue"
    and "5 \<le> length its" and "length its < 2 ^ 32" and "2 ^ k \<le> length its" and "length its < 2 ^ (k + 1)"
  shows "length (ml_logs (snd (main_loop E its (new_loop in_initramfs guid service greeter libinput)))) = k + 3 \<and>
    run_loop_iteration (ml_errors (snd (main_loop E its (new_loop in_initramfs guid service greeter libinput)))) IterOk = (0, [LogRecovered (of_nat (length its))])"
proof -
  have "length (ml_logs (snd (main_loop E its (new_loop in_initramfs guid service greeter libinput)))) = length (filter logged_at [1..<Suc (length its)]) \<and>
      ml_errors (snd (main_loop E its (new_loop in_initramfs guid service greeter libinput))) = of_nat (length its)"
    using failing_iterations [OF assms(2,1), of 0] assms(4) by (simp add: new_loop_def)
  moreover have "(of_nat (length its) :: u32) \<noteq> 0"
  proof -
    have "unat (of_nat (length its) :: u32) = length its" using assms(4) by (simp add: unat_of_nat take_bit_nat_def)
    then show ?thesis using assms(3) by (metis not_numeral_le_zero unat_0)
  qed
  ultimately show ?thesis using logged_count [OF assms(3,5,6)] by (simp add: run_loop_iteration_def)
qed

text \<open>
  A boot from the initramfs in which the broker is never reached: a stop signal before the drop is ignored,
  the one after it ends the loop.
\<close>

definition demo_stop :: dispatched where
  "demo_stop = CompEvent (StopSignal SIGTERM demo_swap)"

definition demo_pivot_ticks :: "dispatched list" where
  "demo_pivot_ticks = map PivotTick
     [demo_tick 0 (EnvText ''998''), demo_tick 100000000000 (EnvText ''998''), demo_tick 100000000000 (EnvText ''998'')]"

definition demo_boot :: "iteration list" where
  "demo_boot = [\<lparr>it_events = [demo_stop], it_result = IterOk, it_now = 0\<rparr>,
     \<lparr>it_events = demo_pivot_ticks @ [demo_stop], it_result = IterOk, it_now = 100000000000\<rparr>]"

lemma demo_uid: "compositor_uid_from_env (EnvText ''998'') = Inr (Some 998)"
  by (simp add: compositor_uid_from_env_def parse_u32_def is_digit_def digits_value_def)

lemma demo_stop_ignored: "\<not> cp_shutdown_armed (ml_comp s) \<Longrightarrow> dispatch_event E demo_stop s = s"
  by (simp add: dispatch_event_def demo_stop_def handle_stop_signal_def)

lemma demo_arms:
  assumes "\<not> cp_shutdown_armed (ml_comp s)" and "ml_timer s" and "ml_pivot s = new_pivot c None"
  shows "cp_shutdown_armed (ml_comp (dispatch_events E demo_pivot_ticks s)) \<and>
    cp_toplevel (ml_comp (dispatch_events E demo_pivot_ticks s)) = cp_toplevel c \<and>
    cp_foreground (ml_comp (dispatch_events E demo_pivot_ticks s)) = cp_foreground c"
  using assms(2,3)
  by (simp add: demo_pivot_ticks_def dispatch_event_def demo_first demo_second [OF demo_deadline] demo_setup_tick split_beta)
    (simp add: demo_setup_eval demo_drop demo_uid)

abbreviation demo_start :: loop_state where
  "demo_start \<equiv> new_loop True 990 ''login'' None None"

lemma demo_start_simps:
  "\<not> cp_shutdown_armed (ml_comp demo_start)" "ml_timer demo_start" "ml_pivot demo_start = new_pivot (new_compositor 990 ''login'' False None) None"
  "\<not> cp_should_exit (ml_comp demo_start)" "\<not> cp_shutting_down (ml_comp demo_start)" "ml_deadline demo_start = None"
  by (simp_all add: new_loop_def new_pivot_def new_compositor_def)

lemma demo_obeyed: "obeyed_stop E demo_start (demo_pivot_ticks @ [demo_stop])"
proof -
  have "\<not> cp_shutting_down (ml_comp (dispatch_events E demo_pivot_ticks demo_start))"
    unfolding shutting_down_run using demo_start_simps(5) by (auto simp: demo_pivot_ticks_def)
  then show ?thesis using demo_arms [OF demo_start_simps(1-3)] unfolding obeyed_stop_snoc by (simp add: demo_stop_def)
qed

lemma break_at_once:
  assumes "cp_should_exit (ml_comp (dispatch_events E (it_events it) s))" and "ml_deadline s = None"
    and "\<not> begin_graceful_session_close (ml_comp (dispatch_events E (it_events it) s))"
  shows "fst (loop_iteration E it s) = LoopBreak"
  using assms by (simp add: loop_iteration_def exit_check_def split_beta)

lemma demo_boot_breaks: "fst (main_loop demo_episode_env demo_boot demo_start) = LoopBreak"
proof -
  let ?E = demo_episode_env and ?evs = "demo_pivot_ticks @ [demo_stop]"
  let ?s = "dispatch_events ?E ?evs demo_start"
  have first: "loop_iteration ?E \<lparr>it_events = [demo_stop], it_result = IterOk, it_now = 0\<rparr> demo_start = (LoopContinue, demo_start)"
    using demo_start_simps by (simp add: loop_iteration_def demo_stop_ignored run_loop_iteration_def exit_check_def new_loop_def)
  have x: "cp_should_exit (ml_comp ?s)" unfolding stop_run using demo_obeyed by blast
  have "cp_foreground (ml_comp (dispatch_events ?E demo_pivot_ticks demo_start)) \<noteq> FgSession"
    using demo_arms [OF demo_start_simps(1-3)] by (simp add: new_compositor_def)
  then have "\<not> begin_graceful_session_close (ml_comp ?s)"
    by (simp add: demo_stop_def dispatch_event_def begin_graceful_session_close_def handle_stop_signal_def emit_event_def
        graceful_shutdown_def Let_def)
  then have "fst (loop_iteration ?E \<lparr>it_events = ?evs, it_result = IterOk, it_now = 100000000000\<rparr> demo_start) = LoopBreak"
    using x demo_start_simps(6) by (intro break_at_once) simp_all
  then show ?thesis
    by (cases "loop_iteration ?E \<lparr>it_events = ?evs, it_result = IterOk, it_now = 100000000000\<rparr> demo_start") (simp add: demo_boot_def first)
qed

theorem exit_only_on_plain_stop_witness:
  "\<exists>evs1 sig K evs2 T. concat (map it_events demo_boot) = evs1 @ CompEvent (StopSignal sig K) # evs2 \<and> PivotTick T \<in> set evs1"
  using exit_only_on_plain_stop [OF demo_boot_breaks] by blast

text \<open>The session does not close: the loop ends at the first iteration two seconds later.\<close>

theorem plain_stop_ends_loop_witness:
  "let s = (new_loop False 990 ''login'' None None)\<lparr>ml_pivot := new_pivot ((new_compositor 990 ''login'' True None)\<lparr>cp_foreground := FgSession,
         cp_toplevel := Some \<lparr>tl_surface = 1, tl_uid = None\<rparr>\<rparr>) None\<rparr> in
   fst (main_loop demo_episode_env [\<lparr>it_events = [CompEvent (ListenerReady []), demo_stop], it_result = IterOk, it_now = 7\<rparr>,
     \<lparr>it_events = [], it_result = IterPanic, it_now = 3000000000\<rparr>] s) = LoopBreak"
proof -
  let ?s = "(new_loop False 990 ''login'' None None)\<lparr>ml_pivot := new_pivot ((new_compositor 990 ''login'' True None)\<lparr>cp_foreground := FgSession,
         cp_toplevel := Some \<lparr>tl_surface = 1, tl_uid = None\<rparr>\<rparr>) None\<rparr>"
  have "fst (main_loop demo_episode_env [\<lparr>it_events = [CompEvent (ListenerReady []), demo_stop], it_result = IterOk, it_now = 7\<rparr>,
     \<lparr>it_events = [], it_result = IterPanic, it_now = 3000000000\<rparr>] ?s) = LoopBreak"
    by (rule plain_stop_ends_loop [where ?evs1.0 = "[CompEvent (ListenerReady [])]" and ?evs2.0 = "[]"])
      (simp_all add: demo_stop_def dispatch_event_def new_loop_def new_pivot_def new_compositor_def GRACEFUL_SESSION_CLOSE_GRACE_def)
  then show ?thesis by simp
qed

theorem degraded_log_is_logarithmic_witness:
  "length (ml_logs (snd (main_loop demo_episode_env (replicate 9 \<lparr>it_events = [], it_result = IterErr 5, it_now = 0\<rparr>) demo_start))) = 6"
proof -
  let ?its = "replicate 9 \<lparr>it_events = [], it_result = IterErr 5, it_now = 0\<rparr>"
  have "loop_iteration E \<lparr>it_events = [], it_result = IterErr 5, it_now = 0\<rparr> s =
      (LoopContinue, s\<lparr>ml_errors := fst (run_loop_iteration (ml_errors s) (IterErr 5)), ml_logs := ml_logs s @ snd (run_loop_iteration (ml_errors s) (IterErr 5))\<rparr>)"
    if "\<not> cp_should_exit (ml_comp s)" for E s using that by (simp add: loop_iteration_def exit_check_def split_beta)
  then have "fst (main_loop E (replicate n \<lparr>it_events = [], it_result = IterErr 5, it_now = 0\<rparr>) s) = LoopContinue"
    if "\<not> cp_should_exit (ml_comp s)" for E s n using that by (induction n arbitrary: s) simp_all
  then have "fst (main_loop demo_episode_env ?its demo_start) = LoopContinue" using demo_start_simps(4) by blast
  from degraded_log_is_logarithmic [OF _ this, of 3] show ?thesis by simp
qed

end
