(* ===== verification/Drm_Device.thy ===== *)
theory Drm_Device
  imports Rust_Text Sliding_Window "HOL-Library.List_Lexorder" "HOL-Library.Char_ord"
begin

text \<open>
  Which DRM device the compositor opens, in \<open>crates/halmasuit/src/drm.rs\<close>: the value of
  \<open>HALMASUIT_DRM_DEVICE\<close>, the discovery of a card by its connectors or its PCI address, and the bounded
  wait for the device node; and \<open>drm_device_path_from_env\<close> of \<open>main.rs\<close>.  The file systems each probe sees
  and the clock are arguments.
\<close>

section \<open>PCI addresses\<close>

datatype bdf_error = BadFormat | BadFunction

text \<open>\<open>from_str_radix(_, 16)\<close> of an unsigned type of \<open>w\<close> bits.\<close>

definition parse_hex :: "nat \<Rightarrow> string \<Rightarrow> nat option" where
  "parse_hex w s = (let t = (case s of CHR ''+'' # rest \<Rightarrow> rest | _ \<Rightarrow> s) in
     if t \<noteq> [] \<and> list_all (\<lambda>c. hex_digit c \<noteq> None) t \<and> hex_value t < 2 ^ w then Some (hex_value t) else None)"

text \<open>\<open>rsplit_once\<close> and \<open>split\<close> at a character, and \<open>to_ascii_lowercase\<close>.\<close>

definition rsplit_once :: "char \<Rightarrow> string \<Rightarrow> (string \<times> string) option" where
  "rsplit_once c s = (case split_once c (rev s) of None \<Rightarrow> None | Some (a, b) \<Rightarrow> Some (rev b, rev a))"

fun split_at :: "char \<Rightarrow> string \<Rightarrow> string list" where
  "split_at c [] = [[]]"
| "split_at c (x # xs) = (if x = c then [] # split_at c xs
     else (case split_at c xs of [] \<Rightarrow> [[x]] | p # ps \<Rightarrow> (x # p) # ps))"

definition lower_char :: "char \<Rightarrow> char" where
  "lower_char c = (let n = (of_char c :: nat) in if 65 \<le> n \<and> n < 91 then char_of (n + 32) else c)"

definition to_ascii_lowercase :: "string \<Rightarrow> string" where
  "to_ascii_lowercase s = map lower_char s"

definition pci_bdf_parse :: "string \<Rightarrow> bdf_error + string" where
  "pci_bdf_parse s = (case rsplit_once CHR ''.'' s of
     None \<Rightarrow> Inl BadFormat
   | Some (domain_bus_dev, fn) \<Rightarrow>
       if length fn \<noteq> 1 then Inl BadFormat
       else (case parse_hex 8 fn of
         None \<Rightarrow> Inl BadFormat
       | Some function_digit \<Rightarrow>
           if function_digit > 7 then Inl BadFunction
           else (case split_at CHR '':'' domain_bus_dev of
             [domain, bus, device] \<Rightarrow>
               if length domain \<noteq> 4 \<or> length bus \<noteq> 2 \<or> length device \<noteq> 2 then Inl BadFormat
               else if parse_hex 32 domain = None \<or> parse_hex 8 bus = None \<or> parse_hex 8 device = None then Inl BadFormat
               else Inr (to_ascii_lowercase s)
           | _ \<Rightarrow> Inl BadFormat)))"

datatype drm_device_spec = SpecAuto | SpecPath string | SpecPci string

datatype drm_spec_error = BadBdf bdf_error | BadPath

definition is_dev_dri_card_path :: "string \<Rightarrow> bool" where
  "is_dev_dri_card_path s = (case strip_prefix ''/dev/dri/card'' s of
     None \<Rightarrow> False | Some rest \<Rightarrow> rest \<noteq> [] \<and> list_all is_digit rest)"

definition from_env_value :: "string \<Rightarrow> drm_spec_error + drm_device_spec" where
  "from_env_value s =
     (if s = [] then Inr SpecAuto
      else case strip_prefix ''pci:'' s of
        Some rest \<Rightarrow> (case pci_bdf_parse rest of Inl e \<Rightarrow> Inl (BadBdf e) | Inr bdf \<Rightarrow> Inr (SpecPci bdf))
      | None \<Rightarrow> if is_dev_dri_card_path s then Inr (SpecPath s) else Inl BadPath)"

section \<open>One look at the file systems\<close>

datatype fs_error = FsNotFound | FsPermissionDenied | FsOther errno

text \<open>
  What a probe sees: the kind of a path (whether it is a symbolic link), the entries of \<open>/dev/dri\<close> and
  \<open>/sys/class/drm\<close>, the \<open>device\<close> link of a card, the connectors of an opened card (\<open>None\<close> when its
  resources cannot be read; a connector whose state cannot be read is \<open>None\<close>), and which names are UTF-8.
\<close>

record drm_fs =
  df_is_symlink :: "string \<Rightarrow> fs_error + bool"
  df_dev_dri :: "fs_error + (fs_error + string) list"
  df_sys_drm :: "fs_error + (fs_error + string) list"
  df_device_link :: "string \<Rightarrow> fs_error + string"
  df_open :: "string \<Rightarrow> fs_error + bool option list option"
  df_utf8 :: "string \<Rightarrow> bool"

definition dri_path :: "string \<Rightarrow> string" where
  "dri_path name = ''/dev/dri/'' @ name"

definition is_card_name :: "drm_fs \<Rightarrow> string \<Rightarrow> bool" where
  "is_card_name F name = (df_utf8 F name \<and> prefix ''card'' name \<and> parse_u32 (drop 4 name) \<noteq> None)"

fun list_cards :: "drm_fs \<Rightarrow> (fs_error + string) list \<Rightarrow> fs_error + string list" where
  "list_cards F [] = Inr []"
| "list_cards F (Inl e # es) = Inl e"
| "list_cards F (Inr name # es) = rbind (list_cards F es) (\<lambda>cards. Inr (if is_card_name F name then name # cards else cards))"

definition card_has_connected_connector :: "drm_fs \<Rightarrow> string \<Rightarrow> fs_error + bool" where
  "card_has_connected_connector F path = (case df_open F path of
     Inl FsNotFound \<Rightarrow> Inr False
   | Inl FsPermissionDenied \<Rightarrow> Inr False
   | Inl e \<Rightarrow> Inl e
   | Inr None \<Rightarrow> Inr False
   | Inr (Some connectors) \<Rightarrow> Inr (Some True \<in> set connectors))"

fun first_connected :: "drm_fs \<Rightarrow> string list \<Rightarrow> fs_error + string option" where
  "first_connected F [] = Inr None"
| "first_connected F (c # cs) = (case card_has_connected_connector F (dri_path c) of
     Inl e \<Rightarrow> Inl e
   | Inr True \<Rightarrow> Inr (Some (dri_path c))
   | Inr False \<Rightarrow> first_connected F cs)"

text \<open>The paths differ only in their last component, so the sort compares the names.\<close>

definition find_auto :: "drm_fs \<Rightarrow> fs_error + string option" where
  "find_auto F = (case df_dev_dri F of
     Inl FsNotFound \<Rightarrow> Inr None
   | Inl e \<Rightarrow> Inl e
   | Inr es \<Rightarrow> rbind (list_cards F es) (\<lambda>cards. first_connected F (sort cards)))"

text \<open>\<open>Path::file_name\<close>: the last component, unless it is \<open>..\<close> or there is none.\<close>

definition file_name :: "string \<Rightarrow> string option" where
  "file_name p = (let cs = filter (\<lambda>c. c \<noteq> [] \<and> c \<noteq> ''.'') (split_at CHR ''/'' p) in
     if cs = [] \<or> last cs = ''..'' then None else Some (last cs))"

definition eq_ignore_ascii_case :: "string \<Rightarrow> string \<Rightarrow> bool" where
  "eq_ignore_ascii_case s t = (to_ascii_lowercase s = to_ascii_lowercase t)"

fun match_bdf :: "drm_fs \<Rightarrow> string \<Rightarrow> (fs_error + string) list \<Rightarrow> fs_error + string option" where
  "match_bdf F bdf [] = Inr None"
| "match_bdf F bdf (Inl e # es) = Inl e"
| "match_bdf F bdf (Inr name # es) =
     (if \<not> is_card_name F name then match_bdf F bdf es
      else case df_device_link F name of
        Inl FsNotFound \<Rightarrow> match_bdf F bdf es
      | Inl e \<Rightarrow> Inl e
      | Inr target \<Rightarrow> (case file_name target of
          None \<Rightarrow> match_bdf F bdf es
        | Some basename \<Rightarrow>
            if df_utf8 F basename \<and> eq_ignore_ascii_case basename bdf then Inr (Some (dri_path name)) else match_bdf F bdf es))"

definition find_by_bdf :: "drm_fs \<Rightarrow> string \<Rightarrow> fs_error + string option" where
  "find_by_bdf F bdf = (case df_sys_drm F of
     Inl FsNotFound \<Rightarrow> Inr None
   | Inl e \<Rightarrow> Inl e
   | Inr es \<Rightarrow> match_bdf F bdf es)"

definition try_resolve_once :: "drm_fs \<Rightarrow> drm_device_spec \<Rightarrow> fs_error + string option" where
  "try_resolve_once F spec = (case spec of
     SpecAuto \<Rightarrow> find_auto F
   | SpecPath p \<Rightarrow> (case df_is_symlink F p of
       Inr True \<Rightarrow> Inr None
     | Inr False \<Rightarrow> Inr (Some p)
     | Inl FsNotFound \<Rightarrow> Inr None
     | Inl e \<Rightarrow> Inl e)
   | SpecPci bdf \<Rightarrow> find_by_bdf F bdf)"

section \<open>Waiting for the device\<close>

definition RESOLVE_POLL_INTERVAL :: duration where "RESOLVE_POLL_INTERVAL = 100000000"
definition DRM_RESOLVE_DEADLINE :: duration where "DRM_RESOLVE_DEADLINE = 10000000000"

text \<open>
  \<open>fs k\<close> is what the k-th probe sees, and \<open>elapsed k\<close> the time since the start when the k-th sleep is over.
  The number of probes made is returned beside the result; \<open>None\<close> means that the loop never ends.
\<close>

partial_function (option) resolve_loop ::
    "(nat \<Rightarrow> drm_fs) \<Rightarrow> (nat \<Rightarrow> duration) \<Rightarrow> drm_device_spec \<Rightarrow> duration \<Rightarrow> nat \<Rightarrow> ((fs_error + string) \<times> nat) option" where
  "resolve_loop fs elapsed spec deadline k =
     (if elapsed k \<ge> deadline then Some (Inl FsNotFound, k)
      else case try_resolve_once (fs k) spec of
        Inl e \<Rightarrow> Some (Inl e, Suc k)
      | Inr (Some p) \<Rightarrow> Some (Inr p, Suc k)
      | Inr None \<Rightarrow> resolve_loop fs elapsed spec deadline (Suc k))"

definition resolve_drm_device ::
    "(nat \<Rightarrow> drm_fs) \<Rightarrow> (nat \<Rightarrow> duration) \<Rightarrow> drm_device_spec \<Rightarrow> duration \<Rightarrow> ((fs_error + string) \<times> nat) option" where
  "resolve_drm_device fs elapsed spec deadline = (case try_resolve_once (fs 0) spec of
     Inl e \<Rightarrow> Some (Inl e, 1)
   | Inr (Some p) \<Rightarrow> Some (Inr p, 1)
   | Inr None \<Rightarrow> resolve_loop fs elapsed spec deadline 1)"

datatype drm_env = DrmUnset | DrmNotUnicode | DrmText string

datatype drm_error = SkipAsRoot | SpecRejected drm_spec_error | ResolveFailed fs_error

text \<open>\<open>main.rs\<close>: the bypass for development, refused to root; a value that is not UTF-8 counts as unset.\<close>

definition drm_device_path_from_env ::
    "bool \<Rightarrow> u32 \<Rightarrow> drm_env \<Rightarrow> (nat \<Rightarrow> drm_fs) \<Rightarrow> (nat \<Rightarrow> duration) \<Rightarrow> (drm_error + string option) option" where
  "drm_device_path_from_env skip euid v fs elapsed =
     (if skip then Some (if euid = 0 then Inl SkipAsRoot else Inr None)
      else case from_env_value (case v of DrmText s \<Rightarrow> s | _ \<Rightarrow> []) of
        Inl e \<Rightarrow> Some (Inl (SpecRejected e))
      | Inr spec \<Rightarrow> (case resolve_drm_device fs elapsed spec DRM_RESOLVE_DEADLINE of
          None \<Rightarrow> None
        | Some (Inl e, _) \<Rightarrow> Some (Inl (ResolveFailed e))
        | Some (Inr p, _) \<Rightarrow> Some (Inr (Some p))))"

section \<open>The addresses accepted\<close>

lemma rsplit_once_Some: "rsplit_once c s = Some (a, b) \<longleftrightarrow> s = a @ c # b \<and> c \<notin> set b"
proof -
  have "split_once c (rev s) = Some (rev b, rev a) \<longleftrightarrow> s = a @ c # b \<and> c \<notin> set b"
    unfolding split_once_Some by (metis (no_types) append_Cons append_Nil append_assoc rev.simps(2) rev_append rev_rev_ident set_rev)
  moreover have "rsplit_once c s = Some (a, b) \<longleftrightarrow> split_once c (rev s) = Some (rev b, rev a)"
    by (auto simp: rsplit_once_def split: option.splits prod.splits)
  ultimately show ?thesis by simp
qed

lemma split_at_plain [simp]: "c \<notin> set p \<Longrightarrow> split_at c p = [p]"
  by (induction p) auto

lemma split_at_sep [simp]: "c \<notin> set p \<Longrightarrow> split_at c (p @ c # s) = p # split_at c s"
  by (induction p) auto

lemma split_at_nonempty [simp]: "split_at c s \<noteq> []"
  by (cases s) (auto split: list.splits)

lemma split_at_cases:
  "split_at c s = p # ps \<Longrightarrow> c \<notin> set p \<and> (if ps = [] then s = p else \<exists>s'. s = p @ c # s' \<and> split_at c s' = ps)"
proof (induction s arbitrary: p ps)
  case (Cons x xs)
  show ?case
  proof (cases "x = c")
    case False
    then obtain q where q: "split_at c xs = q # ps" "p = x # q" using Cons.prems by (cases "split_at c xs") auto
    from Cons.IH [OF q(1)] False q(2) show ?thesis by (auto split: if_splits)
  next
    case True
    then have *: "p = []" "split_at c xs = ps" using Cons.prems by auto
    then have "ps \<noteq> []" using split_at_nonempty by metis
    then show ?thesis using * True by auto
  qed
qed auto

lemma split_at_three:
  "split_at c s = [a, b, d] \<longleftrightarrow> s = a @ c # b @ c # d \<and> c \<notin> set a \<and> c \<notin> set b \<and> c \<notin> set d"
proof
  assume s: "split_at c s = [a, b, d]"
  then obtain s' where 1: "c \<notin> set a" "s = a @ c # s'" "split_at c s' = [b, d]" using split_at_cases [OF s] by auto
  then obtain s'' where 2: "c \<notin> set b" "s' = b @ c # s''" "split_at c s'' = [d]" using split_at_cases [OF 1(3)] by auto
  then show "s = a @ c # b @ c # d \<and> c \<notin> set a \<and> c \<notin> set b \<and> c \<notin> set d" using 1 2 split_at_cases [OF 2(3)] by auto
qed auto

text \<open>A field of \<open>n\<close> characters that parses as a hexadecimal number: its first character may be a plus sign.\<close>

definition hex_field :: "nat \<Rightarrow> string \<Rightarrow> bool" where
  "hex_field n t = (length t = n \<and> list_all (\<lambda>c. hex_digit c \<noteq> None) (if hd t = CHR ''+'' then tl t else t))"

lemma hex_digit_less: "hex_digit c = Some d \<Longrightarrow> d < 16"
  by (auto simp: hex_digit_def Let_def split: if_splits)

lemma hex_value_bound: "list_all (\<lambda>c. hex_digit c \<noteq> None) t \<Longrightarrow> hex_value t < 16 ^ length t"
proof (induction t rule: rev_induct)
  case (snoc c t)
  then obtain d where "hex_digit c = Some d" "d < 16" using hex_digit_less by auto
  then show ?case using snoc by (simp add: hex_value_def)
qed (simp add: hex_value_def)

lemma parse_hex_field:
  assumes "length t = n" "2 \<le> n" "16 ^ n \<le> (2 :: nat) ^ w"
  shows "parse_hex w t \<noteq> None \<longleftrightarrow> hex_field n t"
proof -
  obtain c cs where t: "t = c # cs" "cs \<noteq> []" using assms(1,2) by (cases t) (auto simp: Suc_le_length_iff numeral_2_eq_2)
  let ?u = "if c = CHR ''+'' then cs else t"
  have u: "(case t of CHR ''+'' # rest \<Rightarrow> rest | _ \<Rightarrow> t) = ?u"
    using no_plus_prefix [of t] t by (cases "c = CHR ''+''") simp_all
  have "hex_value ?u < 2 ^ w" if h: "list_all (\<lambda>c. hex_digit c \<noteq> None) ?u"
  proof -
    have "hex_value ?u < 16 ^ length ?u" by (rule hex_value_bound [OF h])
    also have "(16 :: nat) ^ length ?u \<le> 16 ^ n" using t assms(1) by (intro power_increasing) auto
    finally show ?thesis using assms(3) by simp
  qed
  then have "parse_hex w t \<noteq> None \<longleftrightarrow> list_all (\<lambda>c. hex_digit c \<noteq> None) ?u"
    unfolding parse_hex_def u Let_def using t by (cases "list_all (\<lambda>c. hex_digit c \<noteq> None) ?u") simp_all
  then show ?thesis using t assms(1) by (simp add: hex_field_def)
qed

lemma parse_hex_digit: "parse_hex 8 [f] = hex_digit f"
proof (cases "f = CHR ''+''")
  case False
  have u: "(case [f] of CHR ''+'' # rest \<Rightarrow> rest | _ \<Rightarrow> [f]) = [f]" by (rule no_plus_prefix) (use False in simp_all)
  show ?thesis unfolding parse_hex_def u using hex_digit_less [of f] by (cases "hex_digit f") (auto simp: hex_value_def Let_def)
qed (simp add: parse_hex_def hex_digit_def)

lemma hex_field_chars: "hex_field n t \<Longrightarrow> c \<in> set t \<Longrightarrow> c = CHR ''+'' \<or> hex_digit c \<noteq> None"
  by (cases t) (auto simp: hex_field_def list_all_iff split: if_splits)

lemma separators_not_hex: "hex_digit CHR '':'' = None" "hex_digit CHR ''.'' = None"
  by (simp_all add: hex_digit_def)

lemma bdf_parse_iff:
  "pci_bdf_parse s = Inr b \<longleftrightarrow> b = to_ascii_lowercase s \<and>
     (\<exists>domain bus device f. s = domain @ '':'' @ bus @ '':'' @ device @ ''.'' @ [f] \<and>
        hex_field 4 domain \<and> hex_field 2 bus \<and> hex_field 2 device \<and> (\<exists>k < 8. hex_digit f = Some k))"
    (is "?l \<longleftrightarrow> ?r")
proof
  assume ?l
  then obtain pre f k domain bus device where s: "rsplit_once CHR ''.'' s = Some (pre, f)" "length f = 1"
    "parse_hex 8 f = Some k" "k \<le> 7" "split_at CHR '':'' pre = [domain, bus, device]"
    "length domain = 4" "length bus = 2" "length device = 2"
    "parse_hex 32 domain \<noteq> None" "parse_hex 8 bus \<noteq> None" "parse_hex 8 device \<noteq> None" "b = to_ascii_lowercase s"
    unfolding pci_bdf_parse_def by (simp split: option.splits prod.splits if_splits list.splits)
  obtain c where f: "f = [c]" using s(2) by (cases f) auto
  have "s = domain @ '':'' @ bus @ '':'' @ device @ ''.'' @ [c]"
    using s(1,5) by (simp add: rsplit_once_Some split_at_three f)
  moreover have "\<exists>k < 8. hex_digit c = Some k" using s(3,4) by (auto simp: f parse_hex_digit)
  moreover have "hex_field 4 domain" "hex_field 2 bus" "hex_field 2 device"
    using s(6-11) parse_hex_field [of domain 4 32] parse_hex_field [of bus 2 8] parse_hex_field [of device 2 8] by simp_all
  ultimately show ?r using s(12) by blast
next
  assume ?r
  then obtain domain bus device f k where s: "b = to_ascii_lowercase s" "s = domain @ '':'' @ bus @ '':'' @ device @ ''.'' @ [f]"
    "hex_field 4 domain" "hex_field 2 bus" "hex_field 2 device" "k < 8" "hex_digit f = Some k" by blast
  have no: "CHR '':'' \<notin> set domain" "CHR '':'' \<notin> set bus" "CHR '':'' \<notin> set device" "f \<noteq> CHR ''.''"
    using hex_field_chars [OF s(3), of "CHR '':''"] hex_field_chars [OF s(4), of "CHR '':''"] hex_field_chars [OF s(5), of "CHR '':''"] s(7)
    by (auto simp: separators_not_hex)
  have "rsplit_once CHR ''.'' s = Some (domain @ CHR '':'' # bus @ CHR '':'' # device, [f])"
    using no(4) by (simp add: rsplit_once_Some s(2))
  moreover have "split_at CHR '':'' (domain @ CHR '':'' # bus @ CHR '':'' # device) = [domain, bus, device]"
    using no by (simp add: split_at_three)
  moreover have "length domain = 4" "length bus = 2" "length device = 2" using s(3-5) by (simp_all add: hex_field_def)
  moreover have "parse_hex 32 domain \<noteq> None" "parse_hex 8 bus \<noteq> None" "parse_hex 8 device \<noteq> None"
    using s(3-5) calculation(3-5) parse_hex_field [of domain 4 32] parse_hex_field [of bus 2 8] parse_hex_field [of device 2 8] by simp_all
  ultimately show ?l using s(1,6,7) by (simp add: pci_bdf_parse_def parse_hex_digit)
qed

lemma demo_bdf:
  "pci_bdf_parse ''+000:+1:+0.0'' = Inr ''+000:+1:+0.0''" "pci_bdf_parse ''0000:01:00.0'' = Inr ''0000:01:00.0''"
proof -
  have low: "to_ascii_lowercase ''+000:+1:+0.0'' = ''+000:+1:+0.0''" "to_ascii_lowercase ''0000:01:00.0'' = ''0000:01:00.0''"
    by (simp_all add: to_ascii_lowercase_def lower_char_def)
  have h: "hex_field 4 ''+000''" "hex_field 2 ''+1''" "hex_field 2 ''+0''" "hex_field 4 ''0000''" "hex_field 2 ''01''" "hex_field 2 ''00''"
    "\<exists>k < 8. hex_digit CHR ''0'' = Some k"
    by (simp_all add: hex_field_def hex_digit_def)
  have "''+000:+1:+0.0'' = ''+000'' @ '':'' @ ''+1'' @ '':'' @ ''+0'' @ ''.'' @ ''0''"
    "''0000:01:00.0'' = ''0000'' @ '':'' @ ''01'' @ '':'' @ ''00'' @ ''.'' @ ''0''" by simp_all
  then show "pci_bdf_parse ''+000:+1:+0.0'' = Inr ''+000:+1:+0.0''" "pci_bdf_parse ''0000:01:00.0'' = Inr ''0000:01:00.0''"
    unfolding bdf_parse_iff low using h by blast+
qed

text \<open>
  which PCI addresses are accepted.  \<open>PciBdf::parse\<close> accepts exactly the texts of a domain of four, a bus
  and a device of two and a function of one hexadecimal digit below 8, with their separators, and returns
  the text in lower case; but each of the first three fields may begin with a plus sign.
\<close>

theorem bdf_parse_exact:
  "pci_bdf_parse s = Inr b \<longleftrightarrow> b = to_ascii_lowercase s \<and>
     (\<exists>domain bus device f. s = domain @ '':'' @ bus @ '':'' @ device @ ''.'' @ [f] \<and>
        hex_field 4 domain \<and> hex_field 2 bus \<and> hex_field 2 device \<and> (\<exists>k < 8. hex_digit f = Some k))"
  by (rule bdf_parse_iff)

section \<open>Resolving a device\<close>

definition probe_count :: "duration \<Rightarrow> nat" where
  "probe_count deadline = max 1 ((deadline + RESOLVE_POLL_INTERVAL - 1) div RESOLVE_POLL_INTERVAL)"

lemma probe_count_covers: "deadline \<le> probe_count deadline * RESOLVE_POLL_INTERVAL"
proof -
  have "d \<le> max 1 ((d + i - 1) div i) * i" if "0 < i" for d i :: nat
  proof (cases "d = 0")
    case False
    have "d + i - 1 = i * ((d + i - 1) div i) + (d + i - 1) mod i" by simp
    moreover have "(d + i - 1) mod i \<le> i - 1" using that by (metis Suc_pred' less_Suc_eq_le mod_less_divisor)
    ultimately have "d \<le> i * ((d + i - 1) div i)" using that False by linarith
    also have "\<dots> \<le> max 1 ((d + i - 1) div i) * i" by simp
    finally show ?thesis .
  qed simp
  then show ?thesis unfolding probe_count_def by (simp add: RESOLVE_POLL_INTERVAL_def)
qed

text \<open>What the result \<open>r\<close> after \<open>n\<close> probes, of which the first is the one numbered \<open>k\<close>, has to do with them.\<close>

definition probed :: "(nat \<Rightarrow> drm_fs) \<Rightarrow> (nat \<Rightarrow> duration) \<Rightarrow> drm_device_spec \<Rightarrow> duration \<Rightarrow> nat \<Rightarrow> fs_error + string \<Rightarrow> nat \<Rightarrow> bool" where
  "probed fs elapsed spec deadline k r n \<longleftrightarrow> (\<forall>j. k \<le> j \<and> Suc j < n \<longrightarrow> try_resolve_once (fs j) spec = Inr None) \<and>
     (case r of
        Inr p \<Rightarrow> try_resolve_once (fs (n - 1)) spec = Inr (Some p)
      | Inl e \<Rightarrow> try_resolve_once (fs (n - 1)) spec = Inl e \<or>
          e = FsNotFound \<and> deadline \<le> elapsed n \<and> (k < n \<longrightarrow> try_resolve_once (fs (n - 1)) spec = Inr None))"

lemma probed_step:
  assumes "try_resolve_once (fs k) spec = Inr None" "Suc k \<le> n" "probed fs elapsed spec deadline (Suc k) r n"
  shows "probed fs elapsed spec deadline k r n"
proof -
  have "try_resolve_once (fs j) spec = Inr None" if "k \<le> j" "Suc j < n" for j
    using that assms(1,3) by (cases "j = k") (auto simp: probed_def)
  moreover have "n = Suc k \<or> Suc k < n" using assms(2) by auto
  then have "case r of Inr p \<Rightarrow> try_resolve_once (fs (n - 1)) spec = Inr (Some p)
      | Inl e \<Rightarrow> try_resolve_once (fs (n - 1)) spec = Inl e \<or>
          e = FsNotFound \<and> deadline \<le> elapsed n \<and> (k < n \<longrightarrow> try_resolve_once (fs (n - 1)) spec = Inr None)"
    using assms(1,3) unfolding probed_def by (cases r) auto
  ultimately show ?thesis unfolding probed_def by blast
qed

lemma resolve_loop_bounded:
  assumes clock: "\<And>j. j * RESOLVE_POLL_INTERVAL \<le> elapsed j" and N: "deadline \<le> N * RESOLVE_POLL_INTERVAL"
  shows "k \<le> N \<Longrightarrow> \<exists>r n. resolve_loop fs elapsed spec deadline k = Some (r, n) \<and> k \<le> n \<and> n \<le> N \<and> probed fs elapsed spec deadline k r n"
proof (induction "N - k" arbitrary: k)
  case 0
  then have "deadline \<le> elapsed k" using clock [of N] N by simp
  then show ?case using 0 by (auto simp: resolve_loop.simps [of _ _ _ _ k] probed_def)
next
  case (Suc m)
  note unf = resolve_loop.simps [of fs elapsed spec deadline k]
  show ?case
  proof (cases "elapsed k \<ge> deadline")
    case True
    then show ?thesis using Suc(3) by (auto simp: unf probed_def)
  next
    case False
    show ?thesis
    proof (cases "try_resolve_once (fs k) spec = Inr None")
      case True
      have "m = N - Suc k" "Suc k \<le> N" using Suc(2) by simp_all
      from Suc(1) [OF this] obtain r n where r: "resolve_loop fs elapsed spec deadline (Suc k) = Some (r, n)" "Suc k \<le> n" "n \<le> N"
        "probed fs elapsed spec deadline (Suc k) r n" by blast
      have "probed fs elapsed spec deadline k r n"
        by (rule probed_step [OF True r(2,4)])
      then show ?thesis using r False by (simp add: unf True)
    next
      case not: False
      then show ?thesis using False Suc(2)
        by (cases "try_resolve_once (fs k) spec") (auto simp: unf probed_def split: option.splits)
    qed
  qed
qed

text \<open>
  C29: the wait for the device ends.  Each sleep lasting at least the 100 ms asked for, \<open>resolve_drm_device\<close>
  returns after at most \<open>deadline / 100 ms\<close> probes, rounded up (and at least one): with the path its last
  probe found, with the error its last probe met, or with \<open>NotFound\<close> once the deadline has passed; all probes
  before found nothing.
\<close>

theorem resolve_ends:
  assumes "\<And>j. j * RESOLVE_POLL_INTERVAL \<le> elapsed j"
  shows "\<exists>r n. resolve_drm_device fs elapsed spec deadline = Some (r, n) \<and> 1 \<le> n \<and>
    n \<le> max 1 ((deadline + RESOLVE_POLL_INTERVAL - 1) div RESOLVE_POLL_INTERVAL) \<and>
    (\<forall>j. Suc j < n \<longrightarrow> try_resolve_once (fs j) spec = Inr None) \<and>
    (case r of
       Inr p \<Rightarrow> try_resolve_once (fs (n - 1)) spec = Inr (Some p)
     | Inl e \<Rightarrow> try_resolve_once (fs (n - 1)) spec = Inl e \<or> e = FsNotFound \<and> deadline \<le> elapsed n)"
proof (cases "try_resolve_once (fs 0) spec = Inr None")
  case True
  have N: "1 \<le> probe_count deadline" by (simp add: probe_count_def)
  from resolve_loop_bounded [OF assms probe_count_covers N] obtain r n where
    r: "resolve_loop fs elapsed spec deadline 1 = Some (r, n)" "1 \<le> n" "n \<le> probe_count deadline" "probed fs elapsed spec deadline 1 r n"
    by blast
  have "\<forall>j. Suc j < n \<longrightarrow> try_resolve_once (fs j) spec = Inr None"
  proof (intro allI impI)
    fix j assume "Suc j < n"
    then show "try_resolve_once (fs j) spec = Inr None" using r(4) True by (cases j) (auto simp: probed_def)
  qed
  moreover have "case r of Inr p \<Rightarrow> try_resolve_once (fs (n - 1)) spec = Inr (Some p)
     | Inl e \<Rightarrow> try_resolve_once (fs (n - 1)) spec = Inl e \<or> e = FsNotFound \<and> deadline \<le> elapsed n"
    using r(4) by (auto simp: probed_def split: sum.splits)
  ultimately show ?thesis using r True by (auto simp: resolve_drm_device_def probe_count_def)
next
  case False
  then show ?thesis by (cases "try_resolve_once (fs 0) spec") (auto simp: resolve_drm_device_def split: option.splits)
qed

lemma list_cards_names: "list_cards F es = Inr cs \<Longrightarrow> c \<in> set cs \<Longrightarrow> is_card_name F c"
proof (induction F es arbitrary: cs rule: list_cards.induct)
  case (3 F name es)
  then show ?case by (auto simp: rbind_eq_Inr split: if_splits)
qed auto

lemma first_connected_Some: "first_connected F cs = Inr (Some p) \<Longrightarrow> \<exists>c \<in> set cs. p = dri_path c"
  by (induction F cs rule: first_connected.induct) (auto split: sum.splits bool.splits)

lemma match_bdf_Some:
  "match_bdf F bdf es = Inr (Some p) \<Longrightarrow> \<exists>name target base. is_card_name F name \<and> p = dri_path name \<and>
     df_device_link F name = Inr target \<and> file_name target = Some base \<and> eq_ignore_ascii_case base bdf"
proof (induction es)
  case (Cons e es)
  show ?case
  proof (cases e)
    case (Inr name)
    show ?thesis
    proof (cases "match_bdf F bdf es = Inr (Some p)")
      case False
      then have "is_card_name F name \<and> p = dri_path name \<and> (\<exists>target base. df_device_link F name = Inr target \<and>
          file_name target = Some base \<and> eq_ignore_ascii_case base bdf)"
        using Cons.prems by (auto simp: Inr split: if_splits sum.splits fs_error.splits option.splits)
      then show ?thesis by blast
    qed (rule Cons.IH)
  qed (use Cons.prems in simp)
qed simp

lemma loop_answer:
  assumes "resolve_loop fs elapsed spec deadline k = Some y"
  shows "\<forall>p. fst y = Inr p \<longrightarrow> (\<exists>j. try_resolve_once (fs j) spec = Inr (Some p))"
  by (rule resolve_loop.raw_induct [where P = "\<lambda>fs elapsed spec deadline k y. \<forall>p. fst y = Inr p \<longrightarrow> (\<exists>j. try_resolve_once (fs j) spec = Inr (Some p))", OF _ assms])
    (auto split: if_splits sum.splits option.splits)

lemma resolve_answer: "resolve_drm_device fs elapsed spec deadline = Some (Inr p, n) \<Longrightarrow> \<exists>j. try_resolve_once (fs j) spec = Inr (Some p)"
  by (fastforce simp: resolve_drm_device_def split: sum.splits option.splits dest: loop_answer)

lemma pci_answer: "try_resolve_once F (SpecPci bdf) = Inr (Some p) \<Longrightarrow> \<exists>es. match_bdf F bdf es = Inr (Some p)"
  by (auto simp: try_resolve_once_def find_by_bdf_def split: sum.splits fs_error.splits)

text \<open>The number of a card: digits, and \<open>parse::<u32>\<close> allows one plus sign before them.\<close>

definition card_number :: "string \<Rightarrow> bool" where
  "card_number n = (let d = (if n \<noteq> [] \<and> hd n = CHR ''+'' then tl n else n) in d \<noteq> [] \<and> list_all is_digit d)"

lemma digits_card: "n \<noteq> [] \<Longrightarrow> list_all is_digit n \<Longrightarrow> card_number n"
  by (cases n) (auto simp: card_number_def is_digit_def)

lemma parse_u32_card: "parse_u32 n \<noteq> None \<Longrightarrow> card_number n"
proof (cases "n \<noteq> [] \<and> hd n = CHR ''+''")
  case True
  then obtain r where "n = CHR ''+'' # r" by (cases n) auto
  moreover assume "parse_u32 n \<noteq> None"
  ultimately show ?thesis by (auto simp: parse_u32_def card_number_def list_all_iff Let_def split: if_splits)
next
  case False
  assume p: "parse_u32 n \<noteq> None"
  then have ne: "n \<noteq> []" by (auto simp: parse_u32_def)
  then have "(case n of CHR ''+'' # rest \<Rightarrow> rest | _ \<Rightarrow> n) = n" using False by (intro no_plus_prefix) auto
  then show ?thesis using p ne by (auto simp: parse_u32_def Let_def intro!: digits_card split: if_splits)
qed

lemma card_name_path: "is_card_name F name \<Longrightarrow> \<exists>n. dri_path name = ''/dev/dri/card'' @ n \<and> card_number n"
  using parse_u32_card by (auto simp: is_card_name_def dri_path_def prefix_def)

lemma resolved_card:
  assumes "try_resolve_once F spec = Inr (Some p)" "from_env_value s = Inr spec"
  shows "\<exists>n. p = ''/dev/dri/card'' @ n \<and> card_number n"
proof (cases spec)
  case SpecAuto
  then obtain es cs where "list_cards F es = Inr cs" "first_connected F (sort cs) = Inr (Some p)"
    using assms(1) by (auto simp: try_resolve_once_def find_auto_def rbind_eq_Inr split: sum.splits fs_error.splits)
  then obtain c where "is_card_name F c" "p = dri_path c" using first_connected_Some list_cards_names by fastforce
  then show ?thesis using card_name_path by blast
next
  case (SpecPath q)
  then have "q = s" "is_dev_dri_card_path s" using assms(2) by (auto simp: from_env_value_def split: if_splits option.splits sum.splits)
  then show ?thesis using assms(1) SpecPath
    by (auto simp: try_resolve_once_def is_dev_dri_card_path_def strip_prefix_Some intro!: digits_card
        split: sum.splits bool.splits fs_error.splits option.splits)
next
  case (SpecPci bdf)
  then obtain es where "match_bdf F bdf es = Inr (Some p)" using assms(1) pci_answer by blast
  from match_bdf_Some [OF this] show ?thesis using card_name_path by blast
qed

text \<open>
  C30: whatever \<open>HALMASUIT_DRM_DEVICE\<close> holds and the file systems show, the device the compositor opens as root
  is a name \<open>card\<close> with a number directly in \<open>/dev/dri\<close>.  The bypass variable never leads to a device and is
  refused to root.
\<close>

theorem drm_path_is_a_card:
  assumes "drm_device_path_from_env skip euid v fs elapsed = Some (Inr r)"
  shows "(\<forall>p. r = Some p \<longrightarrow> \<not> skip \<and> (\<exists>n. p = ''/dev/dri/card'' @ n \<and> CHR ''/'' \<notin> set n \<and> card_number n)) \<and>
    (r = None \<longrightarrow> skip \<and> euid \<noteq> 0)"
proof -
  have no: "CHR ''/'' \<notin> set n" if "card_number n" for n
  proof
    assume "CHR ''/'' \<in> set n"
    then have "is_digit CHR ''/''" using that by (cases n) (auto simp: card_number_def list_all_iff Let_def split: if_splits)
    then show False by (simp add: is_digit_def)
  qed
  have "\<exists>n. p = ''/dev/dri/card'' @ n \<and> card_number n" if r: "r = Some p" "\<not> skip" for p
  proof -
    obtain t spec n where t: "from_env_value t = Inr spec" "resolve_drm_device fs elapsed spec DRM_RESOLVE_DEADLINE = Some (Inr p, n)"
      using assms r unfolding drm_device_path_from_env_def by (auto split: if_splits sum.splits option.splits prod.splits)
    then show ?thesis using resolve_answer [OF t(2)] resolved_card [OF _ t(1)] by blast
  qed
  then show ?thesis using assms no
    by (auto simp: drm_device_path_from_env_def split: if_splits sum.splits option.splits)
qed

text \<open>
  an address with a plus sign is accepted and never found.  The documentation of \<open>PciBdf\<close> allows only
  hexadecimal digits; one of the accepted addresses with a plus sign matches no device, as no name in sysfs
  has one, so every probe fails and the compositor gives up at the deadline.
\<close>

theorem signed_bdf_never_found:
  assumes "\<And>k name target base. df_device_link (fs k) name = Inr target \<Longrightarrow> file_name target = Some base \<Longrightarrow> CHR ''+'' \<notin> set base"
    and "CHR ''+'' \<in> set s"
  shows "from_env_value (''pci:'' @ ''+000:+1:+0.0'') = Inr (SpecPci ''+000:+1:+0.0'') \<and>
    (\<forall>b. pci_bdf_parse s = Inr b \<longrightarrow> resolve_drm_device fs elapsed (SpecPci b) deadline \<noteq> Some (Inr p, n))"
proof -
  have plus: "CHR ''+'' \<in> set (to_ascii_lowercase t) \<longleftrightarrow> CHR ''+'' \<in> set t" for t
  proof -
    have "lower_char c = CHR ''+'' \<longleftrightarrow> c = CHR ''+''" for c
    proof (cases "65 \<le> (of_char c :: nat) \<and> (of_char c :: nat) < 91")
      case True
      then have "(of_char (lower_char c) :: nat) = of_char c + 32" by (simp add: lower_char_def)
      then have "lower_char c \<noteq> CHR ''+''" using True by auto
      moreover have "c \<noteq> CHR ''+''" using True by auto
      ultimately show ?thesis by simp
    qed (auto simp: lower_char_def Let_def)
    then show ?thesis unfolding to_ascii_lowercase_def set_map image_iff by metis
  qed
  have "from_env_value (''pci:'' @ ''+000:+1:+0.0'') = Inr (SpecPci ''+000:+1:+0.0'')"
    by (simp add: from_env_value_def strip_prefix_def demo_bdf)
  moreover have "resolve_drm_device fs elapsed (SpecPci b) deadline \<noteq> Some (Inr p, n)" if "pci_bdf_parse s = Inr b" for b
  proof
    have "b = to_ascii_lowercase s" using that unfolding bdf_parse_iff by blast
    then have b: "CHR ''+'' \<in> set (to_ascii_lowercase b)" using assms(2) plus by simp
    assume "resolve_drm_device fs elapsed (SpecPci b) deadline = Some (Inr p, n)"
    from resolve_answer [OF this] obtain j es where "match_bdf (fs j) b es = Inr (Some p)" using pci_answer by blast
    from match_bdf_Some [OF this] obtain name target base where
      t: "df_device_link (fs j) name = Inr target" "file_name target = Some base" "eq_ignore_ascii_case base b" by blast
    then have "CHR ''+'' \<in> set base" using b plus by (metis eq_ignore_ascii_case_def)
    then show False using assms(1) [OF t(1,2)] by simp
  qed
  ultimately show ?thesis by blast
qed

text \<open>
  one card that cannot be opened ends the discovery.  When a card of \<open>/dev/dri\<close> has an error other than
  \<open>NotFound\<close> or \<open>PermissionDenied\<close> on opening, and no card before it in the order of names is connected,
  the discovery fails at once with that error, without another probe and whatever the cards after it show.
  The documentation of \<open>find_auto\<close> says that such a card is skipped.
\<close>

theorem unopenable_card_ends_discovery:
  assumes "df_dev_dri (fs 0) = Inr es" and "list_cards (fs 0) es = Inr cards" and "sort cards = before @ c # after"
    and "\<And>d. d \<in> set before \<Longrightarrow> card_has_connected_connector (fs 0) (dri_path d) = Inr False"
    and "df_open (fs 0) (dri_path c) = Inl (FsOther e)"
  shows "resolve_drm_device fs elapsed SpecAuto deadline = Some (Inl (FsOther e), 1)"
proof -
  have "card_has_connected_connector (fs 0) (dri_path c) = Inl (FsOther e)" by (simp add: card_has_connected_connector_def assms(5))
  then have "first_connected (fs 0) (before @ c # after) = Inl (FsOther e)" using assms(4) by (induction before) auto
  then show ?thesis by (simp add: resolve_drm_device_def try_resolve_once_def find_auto_def assms(1-3))
qed


text \<open>A machine with two cards: \<open>card0\<close> busy, \<open>card1\<close> with a connected connector.\<close>

definition demo_drm :: drm_fs where
  "demo_drm = \<lparr>df_is_symlink = (\<lambda>p. Inr False), df_dev_dri = Inr [Inr ''card1'', Inr ''renderD128'', Inr ''card0''],
     df_sys_drm = Inr [Inr ''card0'', Inr ''card1''],
     df_device_link = (\<lambda>n. Inr (if n = ''card1'' then ''../../../0000:01:00.0'' else ''../../../0000:00:02.0'')),
     df_open = (\<lambda>p. if p = ''/dev/dri/card0'' then Inl (FsOther 16) else Inr (Some [None, Some True])), df_utf8 = (\<lambda>_. True)\<rparr>"

theorem resolve_ends_witness:
  "\<exists>r n. resolve_drm_device (\<lambda>_. demo_drm) (\<lambda>j. j * RESOLVE_POLL_INTERVAL) (SpecPci ''0000:01:00.0'') DRM_RESOLVE_DEADLINE = Some (r, n) \<and> n \<le> 100"
  using resolve_ends [of "\<lambda>j. j * RESOLVE_POLL_INTERVAL" "\<lambda>_. demo_drm" "SpecPci ''0000:01:00.0''" DRM_RESOLVE_DEADLINE]
  by (auto simp: RESOLVE_POLL_INTERVAL_def DRM_RESOLVE_DEADLINE_def)

lemma demo_first_probe: "try_resolve_once demo_drm (SpecPci ''0000:01:00.0'') = Inr (Some ''/dev/dri/card1'')"
  by (simp add: demo_drm_def try_resolve_once_def find_by_bdf_def is_card_name_def parse_u32_def is_digit_def digits_value_def dri_path_def
      file_name_def eq_ignore_ascii_case_def to_ascii_lowercase_def lower_char_def)

theorem drm_path_is_a_card_witness:
  "\<exists>n. drm_device_path_from_env False 0 (DrmText ''pci:0000:01:00.0'') (\<lambda>_. demo_drm) (\<lambda>j. j) = Some (Inr (Some (''/dev/dri/card'' @ n))) \<and> card_number n"
proof -
  have "drm_device_path_from_env False 0 (DrmText ''pci:0000:01:00.0'') (\<lambda>_. demo_drm) (\<lambda>j. j) = Some (Inr (Some ''/dev/dri/card1''))"
    by (simp add: drm_device_path_from_env_def from_env_value_def strip_prefix_def resolve_drm_device_def demo_first_probe demo_bdf)
  from drm_path_is_a_card [OF this] this show ?thesis by auto
qed

theorem signed_bdf_never_found_witness:
  "resolve_drm_device (\<lambda>_. demo_drm) (\<lambda>j. j) (SpecPci ''+000:+1:+0.0'') 5 \<noteq> Some (Inr ''/dev/dri/card1'', 1)"
proof -
  have f: "file_name ''../../../0000:01:00.0'' = Some ''0000:01:00.0''" "file_name ''../../../0000:00:02.0'' = Some ''0000:00:02.0''"
    by code_simp+
  have "CHR ''+'' \<notin> set base" if "df_device_link demo_drm name = Inr target" "file_name target = Some base" for name target base
    using that f by (auto simp: demo_drm_def split: if_splits)
  then show ?thesis using signed_bdf_never_found [of "\<lambda>_. demo_drm" "''+000:+1:+0.0''"] by (simp add: demo_bdf)
qed

theorem unopenable_card_ends_discovery_witness:
  "resolve_drm_device (\<lambda>_. demo_drm) (\<lambda>j. j) SpecAuto DRM_RESOLVE_DEADLINE = Some (Inl (FsOther 16), 1) \<and>
   card_has_connected_connector demo_drm ''/dev/dri/card1'' = Inr True"
proof
  have l: "list_cards demo_drm [Inr ''card1'', Inr ''renderD128'', Inr ''card0''] = Inr [''card1'', ''card0'']"
    by (simp add: demo_drm_def is_card_name_def parse_u32_def is_digit_def digits_value_def)
  have s: "sort [''card1'', ''card0''] = [] @ ''card0'' # [''card1'']" by code_simp
  show "resolve_drm_device (\<lambda>_. demo_drm) (\<lambda>j. j) SpecAuto DRM_RESOLVE_DEADLINE = Some (Inl (FsOther 16), 1)"
    by (rule unopenable_card_ends_discovery [OF _ l s]) (simp_all add: demo_drm_def dri_path_def)
qed (simp add: card_has_connected_connector_def demo_drm_def)

end
