(* ===== verification/Vt_Switch.thy ===== *)
theory Vt_Switch
  imports Rust_Text
begin

text \<open>
  Switching between virtual terminals and the diagnostic overlay: \<open>crates/halmasuit/src/vt_switch.rs\<close>,
  \<open>diagnostic.rs\<close>, and from \<open>main.rs\<close> the keyboard filter of \<open>dispatch_libinput\<close>, \<open>handle_chord_action\<close>,
  \<open>apply_overlay_state\<close>, \<open>compose_overlay_text\<close>, \<open>trigger_vt_switch\<close>, \<open>handle_vt_relsig\<close>, \<open>handle_vt_acqsig\<close>,
  \<open>home_vt_from_env\<close> and \<open>open_home_vt\<close>.  The system calls are recorded in order, with what the kernel answers
  as arguments.
\<close>

section \<open>Key chords\<close>

definition XF86_SWITCH_VT_1 :: u32 where "XF86_SWITCH_VT_1 = 0x1008FE01"
definition XF86_SWITCH_VT_12 :: u32 where "XF86_SWITCH_VT_12 = 0x1008FE0C"
definition XK_ESCAPE :: u32 where "XK_ESCAPE = 0xFF1B"

text \<open>\<open>u8::try_from\<close> of a \<open>u32\<close>.\<close>

definition u8_try_from :: "u32 \<Rightarrow> byte option" where
  "u8_try_from w = (if w < 256 then Some (ucast w) else None)"

definition detect_vt_chord :: "u32 \<Rightarrow> byte option" where
  "detect_vt_chord keysym_raw =
     (if XF86_SWITCH_VT_1 \<le> keysym_raw \<and> keysym_raw \<le> XF86_SWITCH_VT_12
      then u8_try_from (keysym_raw - XF86_SWITCH_VT_1 + 1) else None)"

definition detect_overlay_chord :: "u32 \<Rightarrow> bool \<Rightarrow> bool \<Rightarrow> bool \<Rightarrow> bool" where
  "detect_overlay_chord keysym_raw ctrl alt shift = (ctrl \<and> alt \<and> shift \<and> keysym_raw = XK_ESCAPE)"

definition is_dismiss_key :: "u32 \<Rightarrow> bool" where
  "is_dismiss_key keysym_raw = (keysym_raw = XK_ESCAPE)"

datatype chord_action = VtSwitch byte | OverlayToggle | OverlayDismiss

record key_event =
  ke_pressed :: bool
  ke_keysym :: u32
  ke_ctrl :: bool
  ke_alt :: bool
  ke_shift :: bool

text \<open>The filter: \<open>None\<close> forwards the key to the focused client.\<close>

definition chord_filter :: "bool \<Rightarrow> key_event \<Rightarrow> chord_action option" where
  "chord_filter overlay_open k =
     (if \<not> ke_pressed k then None
      else case detect_vt_chord (ke_keysym k) of
          Some vt \<Rightarrow> Some (VtSwitch vt)
        | None \<Rightarrow>
            if detect_overlay_chord (ke_keysym k) (ke_ctrl k) (ke_alt k) (ke_shift k) then Some OverlayToggle
            else if overlay_open \<and> is_dismiss_key (ke_keysym k) then Some OverlayDismiss
            else None)"

section \<open>State\<close>

datatype vt_call =
    DetachTty | SetSid | SetCtty | SetModeProcess "16 word" "16 word"
  | Activate byte | DropMaster | SetMaster | RelDisp nat

text \<open>
  The part of \<open>HalmasuitState\<close> and of its DRM backend this code works on.  \<open>vt_outputs\<close> is \<open>None\<close> without a
  backend, and otherwise its number of outputs; \<open>vt_master\<close> is whether the device's master is held.
\<close>

record vt_state =
  vt_fd :: "fd option"
  vt_outputs :: "nat option"
  vt_master :: bool
  vt_calls :: "vt_call list"
  diag_overlay_open :: bool
  overlay_journal :: string
  backend_overlay_visible :: bool
  backend_overlay_text :: string
  journal_fetches :: nat
  forwarded_keys :: nat

text \<open>The answers to the calls on the master; those to \<open>VT_ACTIVATE\<close> and \<open>VT_RELDISP\<close> are only logged.\<close>

record vt_sys =
  vs_drop_master :: "errno + unit"
  vs_set_master :: "errno + unit"

definition vt_log :: "vt_call \<Rightarrow> vt_state \<Rightarrow> vt_state" where
  "vt_log c s = s\<lparr>vt_calls := vt_calls s @ [c]\<rparr>"

section \<open>The overlay\<close>

text \<open>What the observability store holds: the phase, the broker's state and the windows.\<close>

record overlay_info =
  oi_phase :: string
  oi_broker :: string
  oi_windows :: "(u32 \<times> string \<times> string) list"

definition newline :: string where "newline = [CHR 0x0A]"

definition window_line :: "u32 \<times> string \<times> string \<Rightarrow> string" where
  "window_line w = (case w of (pid, app_id, title) \<Rightarrow> ''  ['' @ show_nat (unat pid) @ ''] '' @ app_id @ '' '' @ title @ newline)"

definition compose_overlay_text :: "overlay_info \<Rightarrow> vt_state \<Rightarrow> string" where
  "compose_overlay_text I s =
     ''halmasuit diagnostic overlay'' @ newline @ ''(esc to close)'' @ newline @ newline @
     ''phase:  '' @ oi_phase I @ newline @ ''broker: '' @ oi_broker I @ newline @
     ''windows: '' @ show_nat (length (oi_windows I)) @ newline @ concat (map window_line (oi_windows I)) @
     newline @ ''--- journal (last 20) ---'' @ newline @ overlay_journal s"

definition set_overlay :: "string \<Rightarrow> vt_state \<Rightarrow> vt_state" where
  "set_overlay content s = (if vt_outputs s = None then s else s\<lparr>backend_overlay_text := content\<rparr>)"

definition set_overlay_visible :: "bool \<Rightarrow> vt_state \<Rightarrow> vt_state" where
  "set_overlay_visible b s = (if vt_outputs s = None then s else s\<lparr>backend_overlay_visible := b\<rparr>)"

text \<open>\<open>fetch\<close>: whether the journal channel was registered.\<close>

definition apply_overlay_state :: "overlay_info \<Rightarrow> bool \<Rightarrow> vt_state \<Rightarrow> vt_state" where
  "apply_overlay_state I fetch s =
     (if diag_overlay_open s then
        let s1 = set_overlay_visible True (set_overlay (compose_overlay_text I s) s) in
        if fetch then s1\<lparr>journal_fetches := journal_fetches s1 + 1\<rparr> else s1
      else set_overlay_visible False s)"

text \<open>The handler of the journal channel.\<close>

definition journal_landed :: "overlay_info \<Rightarrow> string \<Rightarrow> vt_state \<Rightarrow> vt_state" where
  "journal_landed I journal s =
     (let s1 = s\<lparr>overlay_journal := journal\<rparr> in
      if \<not> diag_overlay_open s1 then s1 else set_overlay (compose_overlay_text I s1) s1)"

section \<open>Switching\<close>

definition vt_activate :: "byte \<Rightarrow> vt_state \<Rightarrow> vt_state" where
  "vt_activate vt s = vt_log (Activate vt) s"

definition trigger_vt_switch :: "byte \<Rightarrow> vt_state \<Rightarrow> vt_state" where
  "trigger_vt_switch target_vt s = (if vt_fd s = None then s else vt_activate target_vt s)"

definition handle_chord_action :: "overlay_info \<Rightarrow> bool \<Rightarrow> chord_action \<Rightarrow> vt_state \<Rightarrow> vt_state" where
  "handle_chord_action I fetch action s = (case action of
     VtSwitch vt \<Rightarrow> trigger_vt_switch vt s
   | OverlayToggle \<Rightarrow> apply_overlay_state I fetch (s\<lparr>diag_overlay_open := \<not> diag_overlay_open s\<rparr>)
   | OverlayDismiss \<Rightarrow> apply_overlay_state I fetch (s\<lparr>diag_overlay_open := False\<rparr>))"

definition dispatch_key :: "overlay_info \<Rightarrow> bool \<Rightarrow> key_event \<Rightarrow> vt_state \<Rightarrow> vt_state" where
  "dispatch_key I fetch k s = (case chord_filter (diag_overlay_open s) k of
     Some action \<Rightarrow> handle_chord_action I fetch action s
   | None \<Rightarrow> s\<lparr>forwarded_keys := forwarded_keys s + 1\<rparr>)"

text \<open>\<open>DrmBackend::pause\<close> and \<open>resume\<close>: the master belongs to the device, so one output's descriptor is enough.\<close>

definition backend_pause :: "vt_sys \<Rightarrow> vt_state \<Rightarrow> vt_state" where
  "backend_pause K s = (case vt_outputs s of
     None \<Rightarrow> s
   | Some n \<Rightarrow> if n = 0 then s
       else (case vs_drop_master K of Inr _ \<Rightarrow> (vt_log DropMaster s)\<lparr>vt_master := False\<rparr> | Inl e \<Rightarrow> vt_log DropMaster s))"

definition backend_resume :: "vt_sys \<Rightarrow> vt_state \<Rightarrow> vt_state" where
  "backend_resume K s = (case vt_outputs s of
     None \<Rightarrow> s
   | Some n \<Rightarrow> if n = 0 then s
       else (case vs_set_master K of Inr _ \<Rightarrow> (vt_log SetMaster s)\<lparr>vt_master := True\<rparr> | Inl e \<Rightarrow> vt_log SetMaster s))"

definition VT_RELDISP_RELEASE :: nat where "VT_RELDISP_RELEASE = 1"
definition VT_RELDISP_ACKACQ :: nat where "VT_RELDISP_ACKACQ = 2"

definition handle_vt_relsig :: "vt_sys \<Rightarrow> vt_state \<Rightarrow> vt_state" where
  "handle_vt_relsig K s = (if vt_fd s = None then s else vt_log (RelDisp VT_RELDISP_RELEASE) (backend_pause K s))"

definition handle_vt_acqsig :: "vt_sys \<Rightarrow> vt_state \<Rightarrow> vt_state" where
  "handle_vt_acqsig K s = (if vt_fd s = None then s else vt_log (RelDisp VT_RELDISP_ACKACQ) (backend_resume K s))"

section \<open>The signals\<close>

datatype vt_signal = VtRelease | VtAcquire

text \<open>\<open>sigrtmin\<close> is what \<open>SIGRTMIN()\<close> gives.\<close>

definition vt_relsig :: "int \<Rightarrow> int" where "vt_relsig sigrtmin = sigrtmin + 4"
definition vt_acqsig :: "int \<Rightarrow> int" where "vt_acqsig sigrtmin = sigrtmin + 5"

definition classify_vt_signal :: "int \<Rightarrow> int \<Rightarrow> vt_signal option" where
  "classify_vt_signal sigrtmin signo =
     (if signo = vt_relsig sigrtmin then Some VtRelease
      else if signo = vt_acqsig sigrtmin then Some VtAcquire else None)"

text \<open>The reads of the signal descriptor: an error, the end of the file (\<open>None\<close>), or a signal's number.\<close>

fun read_vt_signals :: "int \<Rightarrow> (errno + u32 option) list \<Rightarrow> vt_signal list \<Rightarrow> errno + vt_signal list" where
  "read_vt_signals sigrtmin [] out = Inr out"
| "read_vt_signals sigrtmin (Inl e # rs) out = (if e = EAGAIN then Inr out else Inl e)"
| "read_vt_signals sigrtmin (Inr None # rs) out = Inr out"
| "read_vt_signals sigrtmin (Inr (Some signo) # rs) out =
     read_vt_signals sigrtmin rs (if unat signo < 2 ^ 31
       then (case classify_vt_signal sigrtmin (int (unat signo)) of Some sig \<Rightarrow> out @ [sig] | None \<Rightarrow> out) else out)"

definition handle_vt_signal :: "vt_sys \<Rightarrow> vt_signal \<Rightarrow> vt_state \<Rightarrow> vt_state" where
  "handle_vt_signal K sig s = (case sig of VtRelease \<Rightarrow> handle_vt_relsig K s | VtAcquire \<Rightarrow> handle_vt_acqsig K s)"

definition vt_source_ready :: "vt_sys \<Rightarrow> int \<Rightarrow> (errno + u32 option) list \<Rightarrow> vt_state \<Rightarrow> (errno + unit) \<times> vt_state" where
  "vt_source_ready K sigrtmin rs s = (case read_vt_signals sigrtmin rs [] of
     Inl e \<Rightarrow> (Inl e, s)
   | Inr sigs \<Rightarrow> (Inr (), fold (handle_vt_signal K) sigs s))"

section \<open>The home terminal\<close>

datatype vt_error = VtErrno errno | RelsigRange int | AcqsigRange int

definition EPERM :: errno where "EPERM = 1"

record home_sys =
  hs_open :: "errno + fd"
  hs_has_tty :: bool
  hs_setsid :: "errno + unit"
  hs_setctty :: "errno + unit"
  hs_setmode :: "errno + unit"
  hs_activate :: "errno + unit"
  hs_sigrtmin :: int

text \<open>\<open>u16::try_from\<close> of a signal number.\<close>

definition u16_try_from :: "int \<Rightarrow> 16 word option" where
  "u16_try_from i = (if 0 \<le> i \<and> i < 2 ^ 16 then Some (of_int i) else None)"

definition vt_setmode_process :: "home_sys \<Rightarrow> int \<Rightarrow> int \<Rightarrow> (vt_error + unit) \<times> vt_call list" where
  "vt_setmode_process H relsig acqsig = (case u16_try_from relsig of
     None \<Rightarrow> (Inl (RelsigRange relsig), [])
   | Some r \<Rightarrow> (case u16_try_from acqsig of
       None \<Rightarrow> (Inl (AcqsigRange acqsig), [])
     | Some a \<Rightarrow> (map_err VtErrno (hs_setmode H), [SetModeProcess r a])))"

definition setup_home_vt_controller :: "home_sys \<Rightarrow> (vt_error + unit) \<times> vt_call list" where
  "setup_home_vt_controller H =
     (let detach = (if hs_has_tty H then [DetachTty] else []) in
      if (case hs_setsid H of Inl e \<Rightarrow> e \<noteq> EPERM | Inr _ \<Rightarrow> False)
      then (map_err VtErrno (hs_setsid H), detach @ [SetSid])
      else case hs_setctty H of
          Inl e \<Rightarrow> (Inl (VtErrno e), detach @ [SetSid, SetCtty])
        | Inr _ \<Rightarrow>
            let (r, cs) = vt_setmode_process H (vt_relsig (hs_sigrtmin H)) (vt_acqsig (hs_sigrtmin H)) in
            (r, detach @ [SetSid, SetCtty] @ cs))"

definition home_vt_from_env :: "string option \<Rightarrow> byte option" where
  "home_vt_from_env v = (case v of
     None \<Rightarrow> None
   | Some s \<Rightarrow> (case parse_u32 s of
       Some n \<Rightarrow> if n < 256 \<and> 1 \<le> n then Some (ucast n) else None
     | None \<Rightarrow> None))"

definition open_home_vt :: "home_sys \<Rightarrow> byte \<Rightarrow> (vt_error + fd) \<times> vt_call list" where
  "open_home_vt H vt = (case hs_open H of
     Inl e \<Rightarrow> (Inl (VtErrno e), [])
   | Inr f \<Rightarrow> (case setup_home_vt_controller H of
       (Inl e, cs) \<Rightarrow> (Inl e, cs)
     | (Inr _, cs) \<Rightarrow> (case hs_activate H of
         Inl e \<Rightarrow> (Inl (VtErrno e), cs @ [Activate vt])
       | Inr _ \<Rightarrow> (Inr f, cs @ [Activate vt]))))"

text \<open>What \<open>main\<close> keeps: the descriptor, or nothing when there is no home terminal or its setup failed.\<close>

definition setup_home_vt :: "home_sys \<Rightarrow> string option \<Rightarrow> vt_state \<Rightarrow> vt_state" where
  "setup_home_vt H v s = (case home_vt_from_env v of
     None \<Rightarrow> s\<lparr>vt_fd := None\<rparr>
   | Some vt \<Rightarrow> (case open_home_vt H vt of
       (Inr f, cs) \<Rightarrow> s\<lparr>vt_fd := Some f, vt_calls := vt_calls s @ cs\<rparr>
     | (Inl e, cs) \<Rightarrow> s\<lparr>vt_fd := None, vt_calls := vt_calls s @ cs\<rparr>))"

section \<open>What the chords and signals do\<close>

text \<open>
  the switching chord.  A key symbol asks for a switch exactly when it is one of the twelve of
  \<open>XF86Switch_VT\<close>, and then for the terminal of its number, from 1 to 12.
\<close>

theorem vt_chord_exact:
  "detect_vt_chord k = Some n \<longleftrightarrow> 1 \<le> unat n \<and> unat n \<le> 12 \<and> unat k = 0x1008FE00 + unat n"
proof (cases "XF86_SWITCH_VT_1 \<le> k \<and> k \<le> XF86_SWITCH_VT_12")
  case True
  then have k: "0x1008FE01 \<le> unat k" "unat k \<le> 0x1008FE0C"
    by (simp_all add: XF86_SWITCH_VT_1_def XF86_SWITCH_VT_12_def word_le_nat_alt)
  have d: "unat (k - XF86_SWITCH_VT_1) = unat k - 0x1008FE01"
    using True by (simp add: unat_sub XF86_SWITCH_VT_1_def)
  have "unat (k - XF86_SWITCH_VT_1 + 1) = unat k - 0x1008FE00"
    using k d by (subst unat_add_lem [THEN iffD1]) simp_all
  then obtain m where m: "m = k - XF86_SWITCH_VT_1 + 1" "unat m = unat k - 0x1008FE00" by blast
  then have lt: "m < 256" using k by (simp add: word_less_nat_alt)
  have "unat (ucast m :: byte) = unat m" using lt by (simp add: unsigned_ucast_eq take_bit_nat_def word_less_nat_alt)
  then have "Some (ucast m :: byte) = Some n \<longleftrightarrow> unat n = unat m" by (auto simp: word_unat_eq_iff)
  then show ?thesis using True k lt m by (auto simp: detect_vt_chord_def u8_try_from_def)
next
  case False
  then have "\<not> (0x1008FE01 \<le> unat k \<and> unat k \<le> 0x1008FE0C)"
    by (simp add: XF86_SWITCH_VT_1_def XF86_SWITCH_VT_12_def word_le_nat_alt)
  then show ?thesis using False by (auto simp: detect_vt_chord_def)
qed

datatype overlay_event = KeyEvent key_event overlay_info bool | JournalEvent string overlay_info

fun overlay_step :: "overlay_event \<Rightarrow> vt_state \<Rightarrow> vt_state" where
  "overlay_step (KeyEvent k I fetch) s = dispatch_key I fetch k s"
| "overlay_step (JournalEvent j I) s = journal_landed I j s"

definition overlay_ok :: "vt_state \<Rightarrow> bool" where
  "overlay_ok s \<longleftrightarrow> vt_outputs s \<noteq> None \<and> backend_overlay_visible s = diag_overlay_open s \<and>
     (diag_overlay_open s \<longrightarrow> (\<exists>I. backend_overlay_text s = compose_overlay_text I s))"

lemma compose_journal_only: "overlay_journal t = overlay_journal s \<Longrightarrow> compose_overlay_text I t = compose_overlay_text I s"
  by (simp add: compose_overlay_text_def)

lemma overlay_ok_step: "overlay_ok s \<Longrightarrow> overlay_ok (overlay_step e s)"
proof (cases e)
  case (KeyEvent k I fetch)
  assume ok: "overlay_ok s"
  have "overlay_ok (apply_overlay_state I fetch (s\<lparr>diag_overlay_open := b\<rparr>))" for b
    using ok by (auto simp: overlay_ok_def apply_overlay_state_def set_overlay_def set_overlay_visible_def Let_def compose_overlay_text_def)
  moreover have "overlay_ok (trigger_vt_switch vt s)" for vt
    using ok by (auto simp: overlay_ok_def trigger_vt_switch_def vt_activate_def vt_log_def compose_overlay_text_def)
  moreover have "overlay_ok (s\<lparr>forwarded_keys := n\<rparr>)" for n using ok by (auto simp: overlay_ok_def compose_overlay_text_def)
  ultimately show ?thesis using KeyEvent
    by (simp add: dispatch_key_def handle_chord_action_def split: option.split chord_action.split)
next
  case (JournalEvent j I)
  assume "overlay_ok s"
  then show ?thesis using JournalEvent by (auto simp: overlay_ok_def journal_landed_def set_overlay_def Let_def compose_overlay_text_def)
qed

text \<open>
  the overlay on the screen is the one the chords ask for.  From a state with a DRM backend and the overlay
  closed, after any keys and journal answers in any order the backend shows the overlay exactly when the
  compositor takes it for open, and then with text composed around the journal tail received last.
\<close>

theorem overlay_matches_chords:
  assumes "vt_outputs s \<noteq> None" and "\<not> diag_overlay_open s" and "\<not> backend_overlay_visible s"
  shows "let t = fold overlay_step es s in backend_overlay_visible t = diag_overlay_open t \<and>
    (diag_overlay_open t \<longrightarrow> (\<exists>I. backend_overlay_text t = compose_overlay_text I t))"
proof -
  have "overlay_ok t \<Longrightarrow> overlay_ok (fold overlay_step es t)" for t by (induction es arbitrary: t) (simp_all add: overlay_ok_step)
  moreover have "overlay_ok s" using assms by (simp add: overlay_ok_def)
  ultimately show ?thesis by (simp add: overlay_ok_def Let_def)
qed

text \<open>The two calls for a signal, in their order.\<close>

definition signal_calls :: "vt_signal \<Rightarrow> vt_call list" where
  "signal_calls sig = (case sig of VtRelease \<Rightarrow> [DropMaster, RelDisp 1] | VtAcquire \<Rightarrow> [SetMaster, RelDisp 2])"

lemma signals_fold:
  assumes "vt_fd s \<noteq> None" "vt_outputs s = Some (Suc n)" "vs_drop_master K = Inr ()" "vs_set_master K = Inr ()"
  shows "fold (handle_vt_signal K) sigs s = s\<lparr>vt_calls := vt_calls s @ concat (map signal_calls sigs),
    vt_master := (if sigs = [] then vt_master s else last sigs = VtAcquire)\<rparr>"
  using assms
proof (induction sigs arbitrary: s)
  case (Cons sig sigs)
  let ?t = "handle_vt_signal K sig s"
  have t: "?t = s\<lparr>vt_calls := vt_calls s @ signal_calls sig, vt_master := (sig = VtAcquire)\<rparr>"
    using Cons.prems by (cases sig) (auto simp: handle_vt_signal_def handle_vt_relsig_def handle_vt_acqsig_def backend_pause_def
        backend_resume_def vt_log_def signal_calls_def VT_RELDISP_RELEASE_def VT_RELDISP_ACKACQ_def)
  have "fold (handle_vt_signal K) sigs ?t = ?t\<lparr>vt_calls := vt_calls ?t @ concat (map signal_calls sigs),
      vt_master := (if sigs = [] then vt_master ?t else last sigs = VtAcquire)\<rparr>"
    by (rule Cons.IH) (use Cons.prems in \<open>simp_all add: t\<close>)
  then show ?case by (simp add: t)
qed simp

text \<open>What the descriptor gives when the signals of these numbers are pending, read in this order.\<close>

definition pending_reads :: "int list \<Rightarrow> (errno + u32 option) list" where
  "pending_reads ns = map (\<lambda>n. Inr (Some (of_int n))) ns @ [Inl EAGAIN]"

lemma read_pending:
  assumes "\<And>n. n \<in> set ns \<Longrightarrow> 0 \<le> n \<and> n < 2 ^ 31"
  shows "read_vt_signals m (pending_reads ns) out = Inr (out @ concat (map (\<lambda>n. case classify_vt_signal m n of Some sig \<Rightarrow> [sig] | None \<Rightarrow> []) ns))"
  using assms
proof (induction ns arbitrary: out)
  case (Cons n ns)
  have n: "0 \<le> n" "n < 2 ^ 31" using Cons.prems by auto
  have "uint (of_int n :: u32) = n" using n by (simp add: uint_word_of_int take_bit_int_eq_self)
  then have u: "int (unat (of_int n :: u32)) = n" by simp
  then have "int (unat (of_int n :: u32)) < int (2 ^ 31)" using n by simp
  then have "unat (of_int n :: u32) < 2 ^ 31" by (simp only: of_nat_less_iff)
  then show ?case using Cons u by (simp add: pending_reads_def split: option.split)
qed (simp add: pending_reads_def)

text \<open>
  the handling of the terminal signals.  However many are pending, with the master calls succeeding, each
  release first gives up the master and then lets the terminal go, each acquisition first takes the master
  and then acknowledges, in the order the signals are read; afterwards the master is held exactly if the
  last one was an acquisition.
\<close>

theorem vt_signals_in_order:
  assumes "vt_fd s \<noteq> None" and "vt_outputs s = Some (Suc n)" and "vs_drop_master K = Inr ()" and "vs_set_master K = Inr ()"
    and "read_vt_signals m rs [] = Inr sigs"
  shows "let t = snd (vt_source_ready K m rs s) in vt_calls t = vt_calls s @ concat (map signal_calls sigs) \<and>
    vt_master t = (if sigs = [] then vt_master s else last sigs = VtAcquire)"
  using signals_fold [OF assms(1-4)] by (simp add: vt_source_ready_def assms(5) Let_def)

text \<open>
  a release overtakes an acquisition.  Pending realtime signals are read with the lowest number first, and the
  release signal has the lower number: when the home terminal is left again before the acquisition is
  handled, the release is handled first and the acquisition after it takes the master back and keeps it,
  although the terminal has been let go.  In the order of arrival, which the documentation of
  \<open>read_vt_signals\<close> promises, the master would have been given up.
\<close>

theorem late_release_is_overtaken:
  assumes "vt_fd s \<noteq> None" and "vt_outputs s = Some (Suc n)" and "vs_drop_master K = Inr ()" and "vs_set_master K = Inr ()"
    and "0 \<le> m" and "m + 5 < 2 ^ 31"
  shows "let arrival = [vt_acqsig m, vt_relsig m];
             t = snd (vt_source_ready K m (pending_reads (sort arrival)) s) in
    vt_master t \<and> vt_calls t = vt_calls s @ [DropMaster, RelDisp 1, SetMaster, RelDisp 2] \<and>
    \<not> vt_master (snd (vt_source_ready K m (pending_reads arrival) s))"
proof -
  have c: "classify_vt_signal m (vt_acqsig m) = Some VtAcquire" "classify_vt_signal m (vt_relsig m) = Some VtRelease"
    by (simp_all add: classify_vt_signal_def vt_acqsig_def vt_relsig_def)
  have s: "sort [vt_acqsig m, vt_relsig m] = [vt_relsig m, vt_acqsig m]" by (simp add: vt_acqsig_def vt_relsig_def)
  have r: "read_vt_signals m (pending_reads ns) [] = Inr (concat (map (\<lambda>n. case classify_vt_signal m n of Some sig \<Rightarrow> [sig] | None \<Rightarrow> []) ns))"
    if "set ns = {vt_acqsig m, vt_relsig m}" for ns
  proof -
    have "0 \<le> n \<and> n < 2 ^ 31" if "n \<in> set ns" for n
      using that \<open>set ns = _\<close> assms(5,6) by (auto simp: vt_acqsig_def vt_relsig_def)
    from read_pending [OF this] show ?thesis by simp
  qed
  have "read_vt_signals m (pending_reads [vt_relsig m, vt_acqsig m]) [] = Inr [VtRelease, VtAcquire]"
    "read_vt_signals m (pending_reads [vt_acqsig m, vt_relsig m]) [] = Inr [VtAcquire, VtRelease]"
    by (subst r; force simp: c)+
  then show ?thesis unfolding Let_def s
    using signals_fold [OF assms(1-4), of "[VtRelease, VtAcquire]"] signals_fold [OF assms(1-4), of "[VtAcquire, VtRelease]"]
    by (simp add: vt_source_ready_def signal_calls_def)
qed

text \<open>
  a failed activation leaves the terminal in the hands of nobody.  When the setup of the home terminal fails only
  at its last call, the terminal has been put under the control of the compositor, which keeps no descriptor
  of it: it then ignores every release signal, so that the kernel waits for its answer to each switch.
\<close>

theorem failed_activation_keeps_control:
  assumes "home_vt_from_env v = Some vt" and "setup_home_vt_controller H = (Inr (), cs)" and "hs_open H = Inr f" and "hs_activate H = Inl e"
  shows "let t = setup_home_vt H v s in
    (\<exists>r a. SetModeProcess r a \<in> set (vt_calls t)) \<and> fold (handle_vt_signal K) sigs t = t"
proof -
  let ?t = "setup_home_vt H v s"
  have t: "?t = s\<lparr>vt_fd := None, vt_calls := vt_calls s @ cs @ [Activate vt]\<rparr>"
    using assms by (simp add: setup_home_vt_def open_home_vt_def)
  have "\<exists>r a. SetModeProcess r a \<in> set cs"
    using assms(2) by (auto simp: setup_home_vt_controller_def vt_setmode_process_def Let_def split: if_splits sum.splits option.splits prod.splits)
  moreover have "handle_vt_signal K sig ?t = ?t" for sig
    by (cases sig) (simp_all add: handle_vt_signal_def handle_vt_relsig_def handle_vt_acqsig_def t)
  then have "fold (handle_vt_signal K) sigs ?t = ?t" by (induction sigs) auto
  ultimately show ?thesis by (auto simp: Let_def t)
qed

definition demo_vt :: vt_state where
  "demo_vt = \<lparr>vt_fd = Some 9, vt_outputs = Some 1, vt_master = False, vt_calls = [], diag_overlay_open = False, overlay_journal = [],
     backend_overlay_visible = False, backend_overlay_text = [], journal_fetches = 0, forwarded_keys = 0\<rparr>"

definition demo_vt_sys :: vt_sys where
  "demo_vt_sys = \<lparr>vs_drop_master = Inr (), vs_set_master = Inr ()\<rparr>"

definition demo_home :: home_sys where
  "demo_home = \<lparr>hs_open = Inr 9, hs_has_tty = False, hs_setsid = Inl EPERM, hs_setctty = Inr (), hs_setmode = Inr (),
     hs_activate = Inl 6, hs_sigrtmin = 34\<rparr>"

theorem overlay_matches_chords_witness:
  "backend_overlay_visible (fold overlay_step [KeyEvent \<lparr>ke_pressed = True, ke_keysym = XK_ESCAPE, ke_ctrl = True, ke_alt = True, ke_shift = True\<rparr>
     \<lparr>oi_phase = ''ready'', oi_broker = ''connected'', oi_windows = []\<rparr> True] demo_vt)"
proof -
  let ?es = "[KeyEvent \<lparr>ke_pressed = True, ke_keysym = XK_ESCAPE, ke_ctrl = True, ke_alt = True, ke_shift = True\<rparr>
     \<lparr>oi_phase = ''ready'', oi_broker = ''connected'', oi_windows = []\<rparr> True]"
  have "diag_overlay_open (fold overlay_step ?es demo_vt)"
    by (simp add: dispatch_key_def chord_filter_def detect_vt_chord_def XF86_SWITCH_VT_1_def XF86_SWITCH_VT_12_def XK_ESCAPE_def
        detect_overlay_chord_def handle_chord_action_def apply_overlay_state_def set_overlay_def set_overlay_visible_def demo_vt_def Let_def)
  then show ?thesis using overlay_matches_chords [of demo_vt ?es] by (simp add: demo_vt_def Let_def)
qed

theorem vt_signals_in_order_witness:
  "vt_calls (snd (vt_source_ready demo_vt_sys 34 [Inr (Some 38), Inl EAGAIN] demo_vt)) = [DropMaster, RelDisp 1]"
proof -
  have "read_vt_signals 34 [Inr (Some 38), Inl EAGAIN] [] = Inr [VtRelease]"
    by (simp add: classify_vt_signal_def vt_relsig_def)
  from vt_signals_in_order [OF _ _ _ _ this, of demo_vt 0 demo_vt_sys] show ?thesis
    by (simp add: demo_vt_def demo_vt_sys_def signal_calls_def Let_def)
qed

theorem late_release_is_overtaken_witness:
  "vt_master (snd (vt_source_ready demo_vt_sys 34 (pending_reads [38, 39]) demo_vt))"
  using late_release_is_overtaken [of demo_vt 0 demo_vt_sys 34] by (simp add: demo_vt_def demo_vt_sys_def Let_def vt_acqsig_def vt_relsig_def)

theorem failed_activation_keeps_control_witness:
  "handle_vt_signal demo_vt_sys VtRelease (setup_home_vt demo_home (Some ''7'') demo_vt) = setup_home_vt demo_home (Some ''7'') demo_vt"
proof -
  have v: "home_vt_from_env (Some ''7'') = Some 7"
    by (simp add: home_vt_from_env_def parse_u32_def is_digit_def digits_value_def)
  obtain cs where cs: "setup_home_vt_controller demo_home = (Inr (), cs)"
    by (simp add: setup_home_vt_controller_def demo_home_def vt_setmode_process_def u16_try_from_def vt_relsig_def vt_acqsig_def)
  from failed_activation_keeps_control [OF v cs, of 9 6 demo_vt demo_vt_sys "[VtRelease]"] show ?thesis
    by (simp add: demo_home_def Let_def)
qed

end
