(* ===== verification/Decoder_Sandbox.thy ===== *)
theory Decoder_Sandbox
  imports Rust_Text
begin

text \<open>
  The sandbox the media decoder enters before it reads anything,
  \<open>crates/halmasuit-decoder/src/sandbox.rs\<close>: its steps in order with what the kernel answers as arguments, and the
  decisions of the system call filter.
\<close>

unbundle bit_operations_syntax

section \<open>The steps\<close>

datatype sandbox_error =
    NoNewPrivs errno
  | OpenProcFd errno
  | Unshare string errno
  | WriteIdMap string errno
  | Rlimit string errno
  | SeccompCompile errno
  | SeccompLoad errno

datatype sandbox_call =
    SetNoNewPrivs
  | CloseFd int
  | UnshareNs string
  | WriteFile string string
  | SetRlimit string u64 u64
  | LoadFilter

text \<open>
  The answers: the descriptor of the opened \<open>/proc/self/fd\<close> with its entries (those that cannot be read are left
  out), the results of the calls by their arguments, and whether the filter library compiles the rules
  (\<open>sb_compile\<close> stands for its four checks, which fail alike).
\<close>

record sandbox_sys =
  sb_no_new_privs :: "errno + unit"
  sb_proc_fd :: "errno + int \<times> string list"
  sb_unshare :: "string \<Rightarrow> errno + unit"
  sb_write :: "string \<Rightarrow> errno + unit"
  sb_setrlimit :: "string \<Rightarrow> errno + unit"
  sb_compile :: "errno + unit"
  sb_load :: "errno + unit"
  sb_euid :: u32
  sb_egid :: u32

definition RLIMIT_AS_BYTES :: u64 where "RLIMIT_AS_BYTES = 512 * 1024 * 1024"
definition RLIMIT_NOFILE_COUNT :: u64 where "RLIMIT_NOFILE_COUNT = 32"

type_synonym sandbox_step = "(sandbox_error + unit) \<times> sandbox_call list"

text \<open>The \<open>?\<close> operator between two steps.\<close>

definition and_then :: "sandbox_step \<Rightarrow> sandbox_step \<Rightarrow> sandbox_step" where
  "and_then a b = (case fst a of Inl e \<Rightarrow> a | Inr _ \<Rightarrow> (fst b, snd a @ snd b))"

definition set_no_new_privs :: "sandbox_sys \<Rightarrow> sandbox_step" where
  "set_no_new_privs S = (map_err NoNewPrivs (sb_no_new_privs S), [SetNoNewPrivs])"

definition fds_to_close :: "int list \<Rightarrow> int \<Rightarrow> string list \<Rightarrow> int list" where
  "fds_to_close keep_fds dirfd entries =
     concat (map (\<lambda>name. case parse_i32 name of
        None \<Rightarrow> []
      | Some fd \<Rightarrow> if fd \<in> set keep_fds \<or> fd = dirfd then [] else [fd]) entries)"

text \<open>The descriptor of the directory is closed when the directory is dropped, before the loop.\<close>

definition close_fds_except :: "sandbox_sys \<Rightarrow> int list \<Rightarrow> sandbox_step" where
  "close_fds_except S keep_fds = (case sb_proc_fd S of
     Inl e \<Rightarrow> (Inl (OpenProcFd e), [])
   | Inr (dirfd, entries) \<Rightarrow> (Inr (), CloseFd dirfd # map CloseFd (fds_to_close keep_fds dirfd entries)))"

definition write_file :: "sandbox_sys \<Rightarrow> string \<Rightarrow> string \<Rightarrow> sandbox_step" where
  "write_file S path content = (map_err (WriteIdMap path) (sb_write S path), [WriteFile path content])"

definition id_line :: "u32 \<Rightarrow> string" where
  "id_line n = show_nat (unat n) @ '' '' @ show_nat (unat n) @ '' 1'' @ [CHR 0x0A]"

definition write_id_map_files :: "sandbox_sys \<Rightarrow> u32 \<Rightarrow> u32 \<Rightarrow> sandbox_step" where
  "write_id_map_files S outer_uid outer_gid =
     and_then (write_file S ''/proc/self/setgroups'' ''deny'')
       (and_then (write_file S ''/proc/self/uid_map'' (id_line outer_uid))
          (write_file S ''/proc/self/gid_map'' (id_line outer_gid)))"

definition unshare_ns :: "sandbox_sys \<Rightarrow> string \<Rightarrow> sandbox_step" where
  "unshare_ns S flag = (map_err (Unshare flag) (sb_unshare S flag), [UnshareNs flag])"

definition unshare_namespaces :: "sandbox_sys \<Rightarrow> sandbox_step" where
  "unshare_namespaces S = (case sb_unshare S ''CLONE_NEWUSER'' of
     Inl e \<Rightarrow> (Inr (), [UnshareNs ''CLONE_NEWUSER''])
   | Inr _ \<Rightarrow> and_then (Inr (), [UnshareNs ''CLONE_NEWUSER''])
       (and_then (write_id_map_files S (sb_euid S) (sb_egid S))
          (and_then (unshare_ns S ''CLONE_NEWNET'') (unshare_ns S ''CLONE_NEWNS''))))"

definition rlimit_pairs :: "(string \<times> u64) list" where
  "rlimit_pairs = [(''RLIMIT_NPROC'', 0), (''RLIMIT_AS'', RLIMIT_AS_BYTES), (''RLIMIT_NOFILE'', RLIMIT_NOFILE_COUNT), (''RLIMIT_CORE'', 0)]"

fun set_rlimits_loop :: "sandbox_sys \<Rightarrow> (string \<times> u64) list \<Rightarrow> sandbox_step" where
  "set_rlimits_loop S [] = (Inr (), [])"
| "set_rlimits_loop S ((name, bound) # ps) =
     and_then (map_err (Rlimit name) (sb_setrlimit S name), [SetRlimit name bound bound]) (set_rlimits_loop S ps)"

definition set_rlimits :: "sandbox_sys \<Rightarrow> sandbox_step" where
  "set_rlimits S = set_rlimits_loop S rlimit_pairs"

definition install_seccomp_filter :: "sandbox_sys \<Rightarrow> sandbox_step" where
  "install_seccomp_filter S = (case sb_compile S of
     Inl e \<Rightarrow> (Inl (SeccompCompile e), [])
   | Inr _ \<Rightarrow> (map_err SeccompLoad (sb_load S), [LoadFilter]))"

definition enter_sandbox :: "sandbox_sys \<Rightarrow> int list \<Rightarrow> sandbox_step" where
  "enter_sandbox S keep_fds =
     and_then (set_no_new_privs S) (and_then (close_fds_except S keep_fds) (and_then (unshare_namespaces S)
       (and_then (set_rlimits S) (install_seccomp_filter S))))"

section \<open>The filter\<close>

text \<open>Of the names of \<open>ALLOWED_SYSCALLS\<close>, every number stands for itself.\<close>

definition ALLOWED_SYSCALLS :: "string list" where
  "ALLOWED_SYSCALLS =
     [''read'', ''write'', ''mmap'', ''munmap'', ''mremap'', ''futex'', ''clock_gettime'', ''exit'', ''exit_group'',
      ''rt_sigreturn'', ''brk'', ''restart_syscall'', ''madvise'', ''sendmsg'', ''recvmsg'', ''sendto'', ''recvfrom'',
      ''ppoll'', ''poll'', ''nanosleep'', ''clock_nanosleep'', ''mprotect'', ''rt_sigaction'', ''rt_sigprocmask'',
      ''sigaltstack'', ''getpid'', ''close'', ''getrandom'', ''writev'', ''readv'', ''fcntl'', ''dup'', ''openat'',
      ''newfstatat'', ''fstat'', ''statx'', ''ioctl'', ''pread64'', ''lseek'', ''set_robust_list'', ''rseq'', ''membarrier'']"

definition O_ACCMODE :: u32 where "O_ACCMODE = 3"
definition O_RDONLY :: u32 where "O_RDONLY = 0"
definition O_WRONLY :: u32 where "O_WRONLY = 1"
definition O_RDWR :: u32 where "O_RDWR = 2"
definition O_CREAT :: u32 where "O_CREAT = 0x40"
definition O_TRUNC :: u32 where "O_TRUNC = 0x200"
definition O_TMPFILE :: u32 where "O_TMPFILE = 0x410000"

text \<open>A condition: the index of an argument, of which the low 32 bits are compared under a mask.\<close>

record seccomp_condition =
  sc_arg :: nat
  sc_mask :: u64
  sc_value :: u64

definition condition_holds :: "u64 list \<Rightarrow> seccomp_condition \<Rightarrow> bool" where
  "condition_holds args c = ((take_bit 32 (args ! sc_arg c)) AND sc_mask c = sc_value c)"

definition openat_readonly :: "seccomp_condition list" where
  "openat_readonly =
     [\<lparr>sc_arg = 2, sc_mask = ucast O_ACCMODE, sc_value = ucast O_RDONLY\<rparr>,
      \<lparr>sc_arg = 2, sc_mask = ucast (O_CREAT OR O_TMPFILE), sc_value = 0\<rparr>]"

text \<open>The map of rules: a call with no rule of its own is allowed as such.\<close>

definition filter_rules :: "string \<Rightarrow> seccomp_condition list list option" where
  "filter_rules nr = (if nr \<in> set ALLOWED_SYSCALLS then Some (if nr = ''openat'' then [openat_readonly] else []) else None)"

datatype seccomp_action = SeccompAllow | SeccompKillProcess

definition seccomp_decide :: "string \<Rightarrow> u64 list \<Rightarrow> seccomp_action" where
  "seccomp_decide nr args = (case filter_rules nr of
     None \<Rightarrow> SeccompKillProcess
   | Some rules \<Rightarrow>
       if rules = [] \<or> list_ex (list_all (condition_holds args)) rules then SeccompAllow else SeccompKillProcess)"

section \<open>What holds inside\<close>

lemma and_then_Inr: "and_then a b = (Inr (), cs) \<longleftrightarrow> (\<exists>as bs. a = (Inr (), as) \<and> b = (Inr (), bs) \<and> cs = as @ bs)"
  by (cases a; cases b) (auto simp: and_then_def split: sum.splits)

lemma enter_sandbox_Inr:
  assumes "enter_sandbox S keep = (Inr (), calls)"
  shows "\<exists>dirfd entries ns. sb_proc_fd S = Inr (dirfd, entries) \<and> unshare_namespaces S = (Inr (), ns) \<and>
    calls = SetNoNewPrivs # CloseFd dirfd # map CloseFd (fds_to_close keep dirfd entries) @ ns @
      [SetRlimit ''RLIMIT_NPROC'' 0 0, SetRlimit ''RLIMIT_AS'' RLIMIT_AS_BYTES RLIMIT_AS_BYTES,
       SetRlimit ''RLIMIT_NOFILE'' RLIMIT_NOFILE_COUNT RLIMIT_NOFILE_COUNT, SetRlimit ''RLIMIT_CORE'' 0 0, LoadFilter]"
  using assms
  by (auto simp: enter_sandbox_def and_then_Inr set_no_new_privs_def close_fds_except_def set_rlimits_def rlimit_pairs_def
      install_seccomp_filter_def split: sum.splits)

text \<open>The descriptors that stay open: \<open>opened\<close> without the closed ones.\<close>

definition fds_after :: "sandbox_call list \<Rightarrow> int set \<Rightarrow> int set" where
  "fds_after calls opened = {fd \<in> opened. CloseFd fd \<notin> set calls}"

lemma fds_to_close_set: "set (fds_to_close keep dirfd entries) = {fd. Some fd \<in> parse_i32 ` set entries} - set keep - {dirfd}"
  by (auto simp: fds_to_close_def image_iff split: option.splits if_splits)

lemma namespaces_no_close: "unshare_namespaces S = (Inr (), ns) \<Longrightarrow> CloseFd fd \<notin> set ns"
  by (auto simp: unshare_namespaces_def and_then_Inr write_id_map_files_def write_file_def unshare_ns_def split: sum.splits)

text \<open>
  C13: what the sandbox leaves to the decoder.  When \<open>enter_sandbox\<close> returns \<open>Ok\<close>, the process first gave up gaining
  privileges and last loaded the filter; in between it limited itself to no new process, 512 MiB of address
  space, 32 descriptors and no core dump, and closed every descriptor open at the start but those it was
  told to keep, provided procfs listed them all.
\<close>

theorem sandbox_is_complete:
  assumes "enter_sandbox S keep = (Inr (), calls)" and "sb_proc_fd S = Inr (dirfd, entries)" and "dirfd \<notin> set keep"
    and "\<And>fd. fd \<in> opened \<Longrightarrow> \<exists>e \<in> set entries. parse_i32 e = Some fd"
  shows "fds_after calls opened = opened \<inter> set keep \<and> hd calls = SetNoNewPrivs \<and> last calls = LoadFilter \<and>
    {SetRlimit ''RLIMIT_NPROC'' 0 0, SetRlimit ''RLIMIT_AS'' (512 * 1024 * 1024) (512 * 1024 * 1024),
     SetRlimit ''RLIMIT_NOFILE'' 32 32, SetRlimit ''RLIMIT_CORE'' 0 0} \<subseteq> set calls"
proof -
  obtain ns where c: "unshare_namespaces S = (Inr (), ns)"
    "calls = SetNoNewPrivs # CloseFd dirfd # map CloseFd (fds_to_close keep dirfd entries) @ ns @
      [SetRlimit ''RLIMIT_NPROC'' 0 0, SetRlimit ''RLIMIT_AS'' RLIMIT_AS_BYTES RLIMIT_AS_BYTES,
       SetRlimit ''RLIMIT_NOFILE'' RLIMIT_NOFILE_COUNT RLIMIT_NOFILE_COUNT, SetRlimit ''RLIMIT_CORE'' 0 0, LoadFilter]"
    using enter_sandbox_Inr [OF assms(1)] assms(2) by auto
  have "CloseFd fd \<in> set calls \<longleftrightarrow> fd = dirfd \<or> fd \<in> set (fds_to_close keep dirfd entries)" for fd
    using namespaces_no_close [OF c(1)] by (auto simp: c(2))
  then have "fds_after calls opened = opened \<inter> set keep"
    using assms(3,4) by (fastforce simp: fds_after_def fds_to_close_set image_iff)
  then show ?thesis by (auto simp: c(2) RLIMIT_AS_BYTES_def RLIMIT_NOFILE_COUNT_def)
qed

lemma ucast_mask_eq: "(take_bit 32 (ucast (flags :: u32) :: u64)) AND ucast m = ucast v \<longleftrightarrow> flags AND m = v"
proof -
  have "take_bit 32 (ucast flags :: u64) = ucast flags"
    by (rule bit_word_eqI) (auto simp: bit_simps dest: bit_imp_le_length)
  moreover have "(ucast flags :: u64) AND ucast m = ucast (flags AND m)" by (rule bit_word_eqI) (auto simp: bit_simps)
  moreover have "(ucast a :: u64) = ucast b \<longleftrightarrow> a = b" for a b :: u32
    by (auto simp: bit_eq_iff bit_simps) (use bit_imp_le_length in fastforce)+
  ultimately show ?thesis by simp
qed

lemma openat_decision:
  "seccomp_decide ''openat'' [dir, path, ucast flags, mode] = SeccompAllow \<longleftrightarrow>
     flags AND O_ACCMODE = O_RDONLY \<and> flags AND (O_CREAT OR O_TMPFILE) = 0"
proof -
  have r: "filter_rules ''openat'' = Some [openat_readonly]" by (simp add: filter_rules_def ALLOWED_SYSCALLS_def)
  have "seccomp_decide ''openat'' [dir, path, ucast flags, mode] = SeccompAllow \<longleftrightarrow>
      (take_bit 32 (ucast flags :: u64)) AND ucast O_ACCMODE = ucast O_RDONLY \<and>
      (take_bit 32 (ucast flags :: u64)) AND ucast (O_CREAT OR O_TMPFILE) = ucast (0 :: u32)"
    by (simp add: seccomp_decide_def r openat_readonly_def condition_holds_def numeral_2_eq_2)
  then show ?thesis unfolding ucast_mask_eq .
qed

text \<open>
  the filter stops writing opens but not a truncating one.  Any call outside the list kills the decoder, starting
  a program, a process or a connection among them, and an \<open>openat\<close> passes only with read access and
  without creating; but its mask leaves out \<open>O_TRUNC\<close>, and Linux truncates the file on \<open>O_RDONLY | O_TRUNC\<close>
  where the process may write to it.  The comment promises that every write path is denied.
\<close>

theorem truncating_open_passes_filter:
  "(\<forall>nr args. nr \<notin> set ALLOWED_SYSCALLS \<longrightarrow> seccomp_decide nr args = SeccompKillProcess) \<and>
   list_all (\<lambda>nr. nr \<notin> set ALLOWED_SYSCALLS) [''execve'', ''clone'', ''fork'', ''socket'', ''connect'', ''unlinkat'', ''ptrace''] \<and>
   (\<forall>dir path flags mode. seccomp_decide ''openat'' [dir, path, ucast (flags :: u32), mode] = SeccompAllow \<longrightarrow>
      flags AND O_ACCMODE = O_RDONLY \<and> flags AND O_CREAT = 0) \<and>
   seccomp_decide ''openat'' [dir, path, ucast (O_RDONLY OR O_TRUNC), mode] = SeccompAllow"
proof -
  have "flags AND O_CREAT = 0" if "flags AND (O_CREAT OR O_TMPFILE) = 0" for flags
  proof -
    have "flags AND O_CREAT = (flags AND (O_CREAT OR O_TMPFILE)) AND O_CREAT" by (rule bit_word_eqI) (auto simp: bit_simps)
    then show ?thesis unfolding that by simp
  qed
  moreover have "(O_RDONLY OR O_TRUNC) AND O_ACCMODE = O_RDONLY" "(O_RDONLY OR O_TRUNC) AND (O_CREAT OR O_TMPFILE) = 0"
    by (simp_all add: O_RDONLY_def O_TRUNC_def O_ACCMODE_def O_CREAT_def O_TMPFILE_def)
  moreover have "list_all (\<lambda>nr. nr \<notin> set ALLOWED_SYSCALLS) [''execve'', ''clone'', ''fork'', ''socket'', ''connect'', ''unlinkat'', ''ptrace'']"
    by (simp add: ALLOWED_SYSCALLS_def)
  ultimately show ?thesis unfolding openat_decision by (auto simp: seccomp_decide_def filter_rules_def)
qed

definition demo_sandbox :: sandbox_sys where
  "demo_sandbox = \<lparr>sb_no_new_privs = Inr (), sb_proc_fd = Inr (4, [''0'', ''1'', ''2'', ''3'', ''4'', ''9'']), sb_unshare = (\<lambda>_. Inr ()),
     sb_write = (\<lambda>_. Inr ()), sb_setrlimit = (\<lambda>_. Inr ()), sb_compile = Inr (), sb_load = Inr (), sb_euid = 998, sb_egid = 998\<rparr>"

theorem sandbox_is_complete_witness: "fds_after (snd (enter_sandbox demo_sandbox [3, 2])) {0, 2, 3, 9} = {2, 3}"
proof -
  have p: "parse_i32 ''0'' = Some 0" "parse_i32 ''1'' = Some 1" "parse_i32 ''2'' = Some 2" "parse_i32 ''3'' = Some 3"
    "parse_i32 ''4'' = Some 4" "parse_i32 ''9'' = Some 9"
    by (simp_all add: parse_i32_def is_digit_def digits_value_def)
  obtain calls where c: "enter_sandbox demo_sandbox [3, 2] = (Inr (), calls)"
    by (simp add: enter_sandbox_def set_no_new_privs_def close_fds_except_def unshare_namespaces_def write_id_map_files_def write_file_def
        unshare_ns_def set_rlimits_def rlimit_pairs_def install_seccomp_filter_def and_then_def demo_sandbox_def)
  have "\<exists>e \<in> set [''0'', ''1'', ''2'', ''3'', ''4'', ''9'']. parse_i32 e = Some fd" if "fd \<in> {0, 2, 3, 9}" for fd using that p by auto
  then have "fds_after calls {0, 2, 3, 9} = {0, 2, 3, 9} \<inter> set [3, 2]"
    using sandbox_is_complete [OF c, of 4 "[''0'', ''1'', ''2'', ''3'', ''4'', ''9'']" "{0, 2, 3, 9}"] by (simp only: demo_sandbox_def) simp
  then show ?thesis by (auto simp: c)
qed

theorem truncating_open_passes_filter_witness:
  "seccomp_decide ''execve'' [] = SeccompKillProcess \<and> seccomp_decide ''openat'' [0, 0, ucast (O_RDONLY OR O_TRUNC), 0] = SeccompAllow"
  using truncating_open_passes_filter [of 0 0 0] by simp

end
