(* ===== verification/Media_Decode.thy ===== *)
theory Media_Decode
  imports Decoder_Ipc
begin

text \<open>
  The decoding of the wallpaper, \<open>crates/halmasuit-decoder/src/decode.rs\<close>: the callbacks that read the mapped file,
  the loop that feeds packets to the codec and takes frames out, the conversion to pixels and the time
  arithmetic.  The demultiplexer, the codec and the scaler are libraries: the packets of the stream are a
  list, the codec is a pair of functions on its state and the scaler a function.  The caches of scaler and
  target frame only save work and are left out.
\<close>

unbundle bit_operations_syntax

section \<open>The mapped file\<close>

definition MAX_WALLPAPER_BYTES :: u64 where "MAX_WALLPAPER_BYTES = 256 * 1024 * 1024"

record avio =
  av_data :: "byte list"
  av_cursor :: nat

definition build_avio :: "byte list \<Rightarrow> avio" where
  "build_avio wallpaper = \<lparr>av_data = wallpaper, av_cursor = 0\<rparr>"

text \<open>
  The read callback for a buffer of \<open>buf_len\<close> bytes: \<open>None\<close> is \<open>AVERROR_EOF\<close>.  FFmpeg gives the buffer's size as a
  C \<open>int\<close>, so the number of bytes read always fits the \<open>i32\<close> returned and the clamp on it has no effect.
\<close>

definition read_cb :: "nat \<Rightarrow> avio \<Rightarrow> byte list option \<times> avio" where
  "read_cb buf_len a =
     (let avail = length (av_data a) - av_cursor a in
      if avail = 0 then (None, a)
      else let n = min avail buf_len in
        (Some (take n (drop (av_cursor a) (av_data a))), a\<lparr>av_cursor := av_cursor a + n\<rparr>))"

definition AVSEEK_SIZE :: u32 where "AVSEEK_SIZE = 0x10000"
definition AVSEEK_FORCE :: u32 where "AVSEEK_FORCE = 0x20000"
definition SEEK_SET :: u32 where "SEEK_SET = 0"
definition SEEK_CUR :: u32 where "SEEK_CUR = 1"
definition SEEK_END :: u32 where "SEEK_END = 2"

text \<open>\<open>i64::checked_add\<close>\<close>

definition checked_add_i64 :: "int \<Rightarrow> int \<Rightarrow> int option" where
  "checked_add_i64 a b = (if - (2 ^ 63) \<le> a + b \<and> a + b < 2 ^ 63 then Some (a + b) else None)"

definition seek_cb :: "int \<Rightarrow> u32 \<Rightarrow> avio \<Rightarrow> int \<times> avio" where
  "seek_cb offset whence a =
     (let total = int (length (av_data a)) in
      if whence = AVSEEK_SIZE then (total, a)
      else
        let w = whence AND NOT AVSEEK_FORCE;
            base = (if w = SEEK_SET then Some 0 else if w = SEEK_CUR then Some (int (av_cursor a))
                    else if w = SEEK_END then Some total else None) in
        case base of
          None \<Rightarrow> (- 1, a)
        | Some b \<Rightarrow> (case checked_add_i64 b offset of
            None \<Rightarrow> (- 1, a)
          | Some new_pos \<Rightarrow>
              if new_pos < 0 \<or> new_pos > total then (- 1, a) else (new_pos, a\<lparr>av_cursor := nat new_pos\<rparr>)))"

section \<open>Frames\<close>

datatype rs_error = DecoderDrainError | DecoderFlushedError | RsError nat

datatype decode_error =
    InvalidFd int
  | MediaOpenFailed rs_error
  | NoVideoStream
  | MediaUnsupported nat
  | MediaCodec rs_error
  | SwsAllocFailed
  | SwsScale rs_error
  | FrameTooLarge u32 u32 u64
  | WallpaperTooLarge u64 u64
  | MmapFailed errno

definition to_wire_code :: "decode_error \<Rightarrow> decoder_error_code" where
  "to_wire_code e = (case e of
     InvalidFd _ \<Rightarrow> Internal
   | MediaOpenFailed _ \<Rightarrow> OpenFailed
   | NoVideoStream \<Rightarrow> OpenFailed
   | MediaUnsupported _ \<Rightarrow> UnsupportedCodec
   | MediaCodec _ \<Rightarrow> DecParseError
   | SwsScale _ \<Rightarrow> DecParseError
   | _ \<Rightarrow> AllocationFailed)"

text \<open>A frame of the codec: 32-bit dimensions, the pixel format and the presentation time, if it has one.\<close>

record av_frame =
  fr_width :: int
  fr_height :: int
  fr_format :: nat
  fr_pts :: "int option"

record rgba_frame =
  rg_width :: u32
  rg_height :: u32
  rg_pts_us :: int
  rg_bytes :: "byte list"

definition u32_or_zero :: "int \<Rightarrow> u32" where
  "u32_or_zero i = (if 0 \<le> i \<and> i < 2 ^ 32 then of_int i else 0)"

definition i64_or_zero :: "int \<Rightarrow> int" where
  "i64_or_zero i = (if - (2 ^ 63) \<le> i \<and> i < 2 ^ 63 then i else 0)"

text \<open>Division of \<open>i128\<close> truncates.\<close>

definition quot :: "int \<Rightarrow> int \<Rightarrow> int" where
  "quot a b = (if (a < 0) = (b < 0) then \<bar>a\<bar> div \<bar>b\<bar> else - (\<bar>a\<bar> div \<bar>b\<bar>))"

definition pts_to_us :: "int \<times> int \<Rightarrow> int option \<Rightarrow> int" where
  "pts_to_us time_base pts = (case pts of
     None \<Rightarrow> 0
   | Some p \<Rightarrow> i64_or_zero (quot (p * fst time_base * 1000000) (max (snd time_base) 1)))"

definition us_to_pts :: "int \<times> int \<Rightarrow> int \<Rightarrow> int" where
  "us_to_pts time_base pts_us =
     i64_or_zero (quot (pts_us * max (snd time_base) 1) (max (fst time_base) 1 * 1000000))"

text \<open>The copy out of the scaler's buffer, row by row.\<close>

definition copy_rows :: "nat \<Rightarrow> nat \<Rightarrow> nat \<Rightarrow> byte list \<Rightarrow> byte list" where
  "copy_rows height tight_row row_stride buf = concat (map (\<lambda>row. take tight_row (drop (row * row_stride) buf)) [0..<height])"

text \<open>The scaler gives the line size of its buffer and the buffer, or fails to be set up or to run.\<close>

definition convert_frame_to_rgba :: "(av_frame \<Rightarrow> decode_error + nat \<times> byte list) \<Rightarrow> int \<times> int \<Rightarrow> av_frame \<Rightarrow> decode_error + rgba_frame" where
  "convert_frame_to_rgba scale time_base f =
     (let width = u32_or_zero (fr_width f); height = u32_or_zero (fr_height f) in
      case Option.bind (checked_mul (ucast width) (ucast height)) (\<lambda>wh. checked_mul wh 4) of
        None \<Rightarrow> Inl (FrameTooLarge width height (- 1))
      | Some expected_bytes \<Rightarrow>
          if expected_bytes > ucast MAX_FRAME_BYTES then Inl (FrameTooLarge width height expected_bytes)
          else rbind (scale f) (\<lambda>(linesize, buf).
            Inr \<lparr>rg_width = width, rg_height = height, rg_pts_us = pts_to_us time_base (fr_pts f),
                 rg_bytes = copy_rows (nat (fr_height f)) (unat (width * 4)) linesize buf\<rparr>))"

section \<open>The decoding loop\<close>

record packet =
  pk_stream :: nat
  pk_data :: "byte list"

record 'c codec =
  cd_send :: "packet option \<Rightarrow> 'c \<Rightarrow> (rs_error + unit) \<times> 'c"
  cd_receive :: "'c \<Rightarrow> (rs_error + av_frame) \<times> 'c"

record 'c decoder_state =
  ds_wallpaper :: "byte list"
  ds_packets :: "(rs_error + packet) list"
  ds_codec :: 'c
  ds_stream_idx :: nat
  ds_time_base :: "int \<times> int"

definition drain_one_frame :: "'c codec \<Rightarrow> 'c \<Rightarrow> (decode_error + av_frame option) \<times> 'c" where
  "drain_one_frame C c = (case cd_receive C c of
     (Inr f, c') \<Rightarrow> (Inr (Some f), c')
   | (Inl e, c') \<Rightarrow> (if e = DecoderFlushedError then Inr None else Inl (MediaCodec e), c'))"

fun packet_loop :: "'c codec \<Rightarrow> nat \<Rightarrow> (rs_error + packet) list \<Rightarrow> 'c \<Rightarrow> (decode_error + av_frame option) \<times> (rs_error + packet) list \<times> 'c" where
  "packet_loop C idx [] c = (case cd_send C None c of
     (Inl e, c') \<Rightarrow> (Inl (MediaCodec e), [], c')
   | (Inr _, c') \<Rightarrow> let (r, c'') = drain_one_frame C c' in (r, [], c''))"
| "packet_loop C idx (Inl e # ps) c = (Inl (MediaCodec e), ps, c)"
| "packet_loop C idx (Inr p # ps) c =
     (if pk_stream p \<noteq> idx then packet_loop C idx ps c
      else case cd_send C (Some p) c of
        (Inl e, c') \<Rightarrow> (Inl (MediaCodec e), ps, c')
      | (Inr _, c') \<Rightarrow> (case cd_receive C c' of
          (Inr f, c'') \<Rightarrow> (Inr (Some f), ps, c'')
        | (Inl e, c'') \<Rightarrow> if e = DecoderDrainError then packet_loop C idx ps c'' else (Inl (MediaCodec e), ps, c'')))"

definition decode_next_frame ::
    "'c codec \<Rightarrow> (av_frame \<Rightarrow> decode_error + nat \<times> byte list) \<Rightarrow> 'c decoder_state \<Rightarrow> (decode_error + rgba_frame option) \<times> 'c decoder_state" where
  "decode_next_frame C scale s =
     (let (r, ps, c) = packet_loop C (ds_stream_idx s) (ds_packets s) (ds_codec s); s' = s\<lparr>ds_packets := ps, ds_codec := c\<rparr> in
      (case r of
        Inl e \<Rightarrow> Inl e
      | Inr None \<Rightarrow> Inr None
      | Inr (Some f) \<Rightarrow> rbind (convert_frame_to_rgba scale (ds_time_base s) f) (\<lambda>x. Inr (Some x)), s'))"

section \<open>Opening, rewinding and seeking\<close>

text \<open>
  What libavformat and libavcodec answer: opening an input over the callbacks, its best video stream with the id of its
  codec, its packets, a codec opened for the stream, the time base, the packets after a seek, and the codec
  after its buffers are flushed.
\<close>

record ('i, 'c) libav =
  la_open :: "avio \<Rightarrow> rs_error + 'i"
  la_best_stream :: "'i \<Rightarrow> rs_error + (nat \<times> nat) option"
  la_packets :: "'i \<Rightarrow> (rs_error + packet) list"
  la_codec :: "'i \<Rightarrow> nat \<Rightarrow> rs_error + 'c"
  la_time_base :: "'i \<Rightarrow> nat \<Rightarrow> int \<times> int"
  la_seek :: "byte list \<Rightarrow> int \<Rightarrow> int \<Rightarrow> rs_error + (rs_error + packet) list"
  la_flush_buffers :: "'c \<Rightarrow> 'c"

definition AV_CODEC_ID_H264 :: nat where "AV_CODEC_ID_H264 = 27"
definition AV_CODEC_ID_AV1 :: nat where "AV_CODEC_ID_AV1 = 225"

definition build_state :: "('i, 'c) libav \<Rightarrow> byte list \<Rightarrow> decode_error + 'c decoder_state" where
  "build_state L wallpaper =
     rbind (map_err MediaOpenFailed (la_open L (build_avio wallpaper))) (\<lambda>ictx.
     rbind (map_err MediaCodec (la_best_stream L ictx)) (\<lambda>best.
     case best of
       None \<Rightarrow> Inl NoVideoStream
     | Some (stream_idx, codec_id) \<Rightarrow>
         if codec_id \<noteq> AV_CODEC_ID_H264 \<and> codec_id \<noteq> AV_CODEC_ID_AV1 then Inl (MediaUnsupported codec_id)
         else rbind (map_err MediaCodec (la_codec L ictx stream_idx)) (\<lambda>dec.
           Inr \<lparr>ds_wallpaper = wallpaper, ds_packets = la_packets L ictx, ds_codec = dec, ds_stream_idx = stream_idx,
                ds_time_base = la_time_base L ictx stream_idx\<rparr>)))"

text \<open>The answers to \<open>dup\<close>, \<open>fstat\<close> (the size) and \<open>mmap\<close> (the bytes) for the descriptor.\<close>

record file_sys =
  fs_dup :: bool
  fs_size :: "errno + u64"
  fs_mmap :: "errno + byte list"

definition open_video_input :: "('i, 'c) libav \<Rightarrow> (fd \<Rightarrow> file_sys) \<Rightarrow> fd \<Rightarrow> decode_error + 'c decoder_state" where
  "open_video_input L files f =
     (if \<not> fs_dup (files f) then Inl (InvalidFd (int f))
      else rbind (map_err MmapFailed (fs_size (files f))) (\<lambda>bytes.
        if bytes > MAX_WALLPAPER_BYTES then Inl (WallpaperTooLarge bytes MAX_WALLPAPER_BYTES)
        else rbind (map_err MmapFailed (fs_mmap (files f))) (build_state L)))"

definition rewind :: "('i, 'c) libav \<Rightarrow> 'c decoder_state \<Rightarrow> decode_error + 'c decoder_state" where
  "rewind L s = build_state L (ds_wallpaper s)"

definition seek_to_pts :: "('i, 'c) libav \<Rightarrow> int \<Rightarrow> 'c decoder_state \<Rightarrow> decode_error + 'c decoder_state" where
  "seek_to_pts L pts_us s =
     (let pts_units = us_to_pts (ds_time_base s) pts_us;
          stream_idx_i32 = (if ds_stream_idx s < 2 ^ 31 then int (ds_stream_idx s) else - 1) in
      rbind (map_err MediaCodec (la_seek L (ds_wallpaper s) stream_idx_i32 pts_units)) (\<lambda>packets.
        Inr (s\<lparr>ds_packets := packets, ds_codec := la_flush_buffers L (ds_codec s)\<rparr>)))"

section \<open>Reading the file\<close>

text \<open>A run of reads with the given buffer sizes.\<close>

fun read_all :: "nat list \<Rightarrow> avio \<Rightarrow> byte list \<times> avio" where
  "read_all [] a = ([], a)"
| "read_all (n # ns) a = (case read_cb n a of
     (None, a') \<Rightarrow> ([], a')
   | (Some bs, a') \<Rightarrow> let (rest, a'') = read_all ns a' in (bs @ rest, a''))"

definition avio_ok :: "avio \<Rightarrow> bool" where
  "avio_ok a \<longleftrightarrow> av_cursor a \<le> length (av_data a)"

lemma read_cb_ok:
  "read_cb n a = (r, a') \<Longrightarrow> avio_ok a \<Longrightarrow> avio_ok a' \<and> av_data a' = av_data a \<and>
     (case r of None \<Rightarrow> a' = a \<and> av_cursor a = length (av_data a)
      | Some bs \<Rightarrow> drop (av_cursor a) (av_data a) = bs @ drop (av_cursor a') (av_data a) \<and> length bs \<le> n \<and> (0 < n \<longrightarrow> bs \<noteq> []))"
  by (auto simp: read_cb_def avio_ok_def Let_def min_def split: if_splits) (metis append_take_drop_id drop_drop add.commute)+

lemma seek_cb_ok: "seek_cb off whence a = (r, a') \<Longrightarrow> avio_ok a \<Longrightarrow> avio_ok a' \<and> av_data a' = av_data a \<and> (r = - 1 \<longrightarrow> a' = a)"
  by (auto simp: seek_cb_def avio_ok_def Let_def nat_le_iff split: if_splits option.splits)

lemma read_all_ok:
  "avio_ok a \<Longrightarrow> read_all ns a = (bs, a') \<Longrightarrow> avio_ok a' \<and> av_data a' = av_data a \<and> drop (av_cursor a) (av_data a) = bs @ drop (av_cursor a') (av_data a)"
proof (induction ns arbitrary: a bs)
  case (Cons n ns)
  obtain r b where rb: "read_cb n a = (r, b)" by (cases "read_cb n a")
  note ok = read_cb_ok [OF rb Cons.prems(1)]
  show ?case
  proof (cases r)
    case (Some xs)
    then obtain ys where ys: "read_all ns b = (ys, a')" "bs = xs @ ys" using Cons.prems(2) by (auto simp: rb split: prod.splits)
    show ?thesis using Cons.IH [OF _ ys(1)] ok by (simp add: Some ys(2))
  qed (use ok Cons.prems in \<open>simp add: rb\<close>)
qed simp

lemma read_all_exhausts:
  "avio_ok a \<Longrightarrow> list_all (\<lambda>n. 0 < n) ns \<Longrightarrow> length (av_data a) - av_cursor a \<le> length ns \<Longrightarrow>
   fst (read_all ns a) = drop (av_cursor a) (av_data a)"
proof (induction ns arbitrary: a)
  case Nil
  then show ?case by simp
next
  case (Cons n ns)
  obtain r b where rb: "read_cb n a = (r, b)" by (cases "read_cb n a")
  note ok = read_cb_ok [OF rb Cons.prems(1)]
  show ?case
  proof (cases r)
    case None
    then show ?thesis using ok by (simp add: rb)
  next
    case (Some xs)
    then have x: "drop (av_cursor a) (av_data a) = xs @ drop (av_cursor b) (av_data a)" "xs \<noteq> []"
      using ok Cons.prems(2) by auto
    then have "length (av_data a) - av_cursor a = length xs + (length (av_data a) - av_cursor b)"
      by (metis length_append length_drop)
    then have "length (av_data b) - av_cursor b \<le> length ns" using Cons.prems(3) x(2) ok by (cases xs) auto
    then have "fst (read_all ns b) = drop (av_cursor b) (av_data b)" using Cons.IH Cons.prems(2) ok by simp
    then show ?thesis using x(1) ok by (simp add: rb Some split_beta)
  qed
qed

datatype avio_op = AvioRead nat | AvioSeek int u32

definition avio_do :: "avio_op \<Rightarrow> avio \<Rightarrow> avio" where
  "avio_do op a = (case op of AvioRead n \<Rightarrow> snd (read_cb n a) | AvioSeek off w \<Rightarrow> snd (seek_cb off w a))"

lemma avio_do_ok:
  assumes "avio_ok a"
  shows "avio_ok (avio_do op a) \<and> av_data (avio_do op a) = av_data a"
proof (cases op)
  case (AvioRead n)
  obtain r b where "read_cb n a = (r, b)" by (cases "read_cb n a")
  then show ?thesis using read_cb_ok [OF _ assms] by (fastforce simp: avio_do_def AvioRead)
next
  case (AvioSeek off w)
  obtain r b where "seek_cb off w a = (r, b)" by (cases "seek_cb off w a")
  then show ?thesis using seek_cb_ok [OF _ assms] by (simp add: avio_do_def AvioSeek)
qed

text \<open>
  C38: the callbacks serve the file.  Whatever reads and seeks went before, seeking to a position of the file succeeds
  and reading from there with buffers of any positive sizes until the end gives exactly the rest of the file.
\<close>

theorem mapped_file_reads_back:
  assumes "p \<le> length wallpaper" and "length wallpaper < 2 ^ 63" and "list_all (\<lambda>n. 0 < n) ns" and "length wallpaper - p \<le> length ns"
  shows "let a = fold avio_do ops (build_avio wallpaper); (r, b) = seek_cb (int p) SEEK_SET a in
    r = int p \<and> fst (read_all ns b) = drop p wallpaper"
proof -
  have "avio_ok a \<Longrightarrow> avio_ok (fold avio_do ops a) \<and> av_data (fold avio_do ops a) = av_data a" for a
    by (induction ops arbitrary: a) (auto simp: avio_do_ok)
  note ops_ok = this
  define a where "a = fold avio_do ops (build_avio wallpaper)"
  have "avio_ok a" "av_data a = wallpaper"
    using ops_ok [of "build_avio wallpaper"] by (auto simp: a_def avio_ok_def build_avio_def)
  note a = a_def this
  have "SEEK_SET AND NOT AVSEEK_FORCE = SEEK_SET" "SEEK_SET \<noteq> AVSEEK_SIZE" by (simp_all add: SEEK_SET_def AVSEEK_SIZE_def)
  moreover have "checked_add_i64 0 (int p) = Some (int p)" using assms(1,2) by (simp add: checked_add_i64_def)
  ultimately have s: "seek_cb (int p) SEEK_SET a = (int p, a\<lparr>av_cursor := p\<rparr>)" using a assms(1) by (simp add: seek_cb_def)
  have "fst (read_all ns (a\<lparr>av_cursor := p\<rparr>)) = drop p wallpaper"
    using read_all_exhausts [of "a\<lparr>av_cursor := p\<rparr>" ns] a assms by (simp add: avio_ok_def)
  then show ?thesis by (simp add: s flip: a(1))
qed

section \<open>Frames the compositor accepts\<close>

lemma copy_rows_length:
  assumes "tight \<le> stride" and "height * stride \<le> length buf"
  shows "length (copy_rows height tight stride buf) = height * tight"
proof -
  have "length (take tight (drop (row * stride) buf)) = tight" if "row < height" for row
  proof -
    have "Suc row * stride \<le> height * stride" using that by (intro mult_right_mono) simp_all
    then have "row * stride + stride \<le> length buf" using assms(2) by simp
    then show ?thesis using assms(1) by simp
  qed
  then have "map length (map (\<lambda>row. take tight (drop (row * stride) buf)) [0..<height]) = replicate height tight"
    by (auto simp: list_eq_iff_nth_eq)
  then show ?thesis by (simp add: copy_rows_def length_concat sum_list_replicate del: map_map)
qed

lemma u32_dims: "0 < i \<Longrightarrow> i < 2 ^ 31 \<Longrightarrow> unat (u32_or_zero i) = nat i"
  by (simp add: u32_or_zero_def unsigned_of_int take_bit_int_eq_self)

text \<open>
  Every frame the decoder converts passes the compositor's check.  For a frame of positive dimensions and a scaler
  that keeps its contract (lines of at least four bytes for each pixel, a buffer that holds them), a
  successful conversion gives exactly width times height times four bytes, at most 16 MiB, and
  \<open>validate_frame_header\<close> accepts the header.
\<close>

lemma frames_validate:
  assumes "convert_frame_to_rgba scale time_base f = Inr r" and "scale f = Inr (linesize, buf)"
    and "0 < fr_width f" and "fr_width f < 2 ^ 31" and "0 < fr_height f" and "fr_height f < 2 ^ 31"
    and "4 * nat (fr_width f) \<le> linesize" and "nat (fr_height f) * linesize \<le> length buf"
  shows "length (rg_bytes r) = nat (fr_width f) * nat (fr_height f) * 4 \<and>
    validate_frame_header (rg_width r) (rg_height r) Rgba8 (of_nat (length (rg_bytes r))) = Inr ()"
proof -
  define w h where wh: "w = u32_or_zero (fr_width f)" "h = u32_or_zero (fr_height f)"
  have u: "unat w = nat (fr_width f)" "unat h = nat (fr_height f)" using assms(3-6) by (simp_all add: wh u32_dims)
  obtain e where e: "Option.bind (checked_mul (ucast w) (ucast h)) (\<lambda>wh. checked_mul wh 4) = Some e" "\<not> e > ucast MAX_FRAME_BYTES"
    and r: "r = \<lparr>rg_width = w, rg_height = h, rg_pts_us = pts_to_us time_base (fr_pts f),
      rg_bytes = copy_rows (nat (fr_height f)) (unat (w * 4)) linesize buf\<rparr>"
    using assms(1) by (auto simp: convert_frame_to_rgba_def assms(2) wh [symmetric] Let_def split: option.splits if_splits)
  have uc: "unat (ucast x :: u64) = unat x" for x :: u32
  proof -
    have "unat x < 2 ^ 32" using unsigned_less [of x, where 'a = nat] by simp
    then show ?thesis by (simp add: unsigned_ucast_eq take_bit_nat_def)
  qed
  have m: "checked_mul a b = Some c \<Longrightarrow> unat c = unat a * unat b" for a b c
    by (auto simp: checked_mul_def unat_word_ariths(2) split: if_splits)
  obtain x where x: "checked_mul (ucast w) (ucast h) = Some x" "checked_mul x 4 = Some e" using e(1) by (auto simp: bind_eq_Some_conv)
  have b: "unat w * unat h * 4 \<le> 16777216"
    using m [OF x(1)] m [OF x(2)] e(2) by (simp add: uc not_less word_le_nat_alt)
  have h1: "1 \<le> unat h" "1 \<le> unat w" using assms(3,5) by (simp_all add: u)
  have "unat w * 1 * 4 \<le> unat w * unat h * 4" using h1(1) by (intro mult_right_mono mult_left_mono) simp_all
  then have "unat w * 1 * 4 \<le> 16777216" using b by (rule le_trans)
  then have w4: "unat w * 4 \<le> 16777216" by (simp only: mult_1_right)
  have "unat (w * 4) = unat w * 4" using w4 by (simp add: unat_word_ariths(2))
  then have l: "length (rg_bytes r) = unat w * unat h * 4"
    using copy_rows_length [of "unat w * 4" linesize "unat h" buf] assms(7,8) by (simp add: r u mult.commute)
  have small: "unat (of_nat n :: u32) = n" if "n \<le> 16777216" for n using that by (simp add: unat_of_nat take_bit_nat_def)
  have "length (rg_bytes r) \<le> 16777216" unfolding l by (rule b)
  note s = small [OF this]
  have "validate_frame_header w h Rgba8 (of_nat (length (rg_bytes r))) = Inr ()"
    unfolding validate_frame_header_Inr s using b h1 by (simp only: l) auto
  then show ?thesis using l by (simp add: r u)
qed

section \<open>The end of the stream\<close>

text \<open>
  What the documentation of FFmpeg says of \<open>avcodec_send_packet\<close> and \<open>avcodec_receive_frame\<close>: the first flush packet
  starts the draining, a second one is refused as flushed, and taking frames out does not end the draining.
\<close>

definition codec_flushes_once :: "'c codec \<Rightarrow> ('c \<Rightarrow> bool) \<Rightarrow> bool" where
  "codec_flushes_once C draining \<longleftrightarrow>
     (\<forall>c. \<not> draining c \<longrightarrow> fst (cd_send C None c) = Inr () \<and> draining (snd (cd_send C None c))) \<and>
     (\<forall>c. draining c \<longrightarrow> fst (cd_send C None c) = Inl DecoderFlushedError) \<and>
     (\<forall>c. draining c \<longrightarrow> draining (snd (cd_receive C c)))"

text \<open>
  A stream with delayed frames ends in an error.  With a codec that flushes as documented, at the end of the packets
  the first call drains one delayed frame; the next call sends a second flush packet, which the codec
  refuses, and fails, although the end of the stream would have been reported by \<open>receive_frame\<close> (after the
  other delayed frames).
\<close>

lemma delayed_frame_fails:
  assumes "codec_flushes_once C draining" and "ds_packets s = []" and "\<not> draining (ds_codec s)"
    and "cd_receive C (snd (cd_send C None (ds_codec s))) = (Inr f, c)" and "convert_frame_to_rgba scale (ds_time_base s) f = Inr r"
  shows "let (first, s') = decode_next_frame C scale s in first = Inr (Some r) \<and>
    fst (decode_next_frame C scale s') = Inl (MediaCodec DecoderFlushedError)"
proof -
  obtain c0 where c0: "cd_send C None (ds_codec s) = (Inr (), c0)" "draining c0"
    using assms(1,3) by (cases "cd_send C None (ds_codec s)") (auto simp: codec_flushes_once_def dest: spec [of _ "ds_codec s"])
  have rc: "cd_receive C c0 = (Inr f, c)" using assms(4) by (simp add: c0(1))
  then have "draining c" using assms(1) c0(2) unfolding codec_flushes_once_def by (metis snd_conv)
  then obtain c1 where c1: "cd_send C None c = (Inl DecoderFlushedError, c1)"
    using assms(1) by (cases "cd_send C None c") (auto simp: codec_flushes_once_def dest: spec [of _ c])
  have "decode_next_frame C scale s = (Inr (Some r), s\<lparr>ds_packets := [], ds_codec := c\<rparr>)"
    by (simp add: decode_next_frame_def assms(2,5) c0(1) drain_one_frame_def rc)
  then show ?thesis by (simp add: decode_next_frame_def c1)
qed


text \<open>A codec that holds back one frame, as one that reorders frames does, and a scaler for frames of one pixel.\<close>

definition demo_frame :: av_frame where
  "demo_frame = \<lparr>fr_width = 1, fr_height = 1, fr_format = 0, fr_pts = Some 3\<rparr>"

definition demo_scale :: "av_frame \<Rightarrow> decode_error + nat \<times> byte list" where
  "demo_scale f = (if f = demo_frame then Inr (4, [1, 2, 3, 255]) else Inl SwsAllocFailed)"

definition demo_codec :: "(nat \<times> bool) codec" where
  "demo_codec = \<lparr>
     cd_send = (\<lambda>p (held, draining). if draining then (Inl DecoderFlushedError, (held, True))
       else case p of None \<Rightarrow> (Inr (), (held, True)) | Some _ \<Rightarrow> (Inr (), (held + 1, False))),
     cd_receive = (\<lambda>(held, draining).
       if held > 1 \<or> held = 1 \<and> draining then (Inr demo_frame, (held - 1, draining))
       else (Inl (if draining then DecoderFlushedError else DecoderDrainError), (held, draining)))\<rparr>"

section \<open>Looping\<close>

text \<open>What the loop does with an open file between two rewinds: decoding and seeking.\<close>

datatype media_op = MediaDecode | MediaSeek int

definition media_do ::
    "'c codec \<Rightarrow> (av_frame \<Rightarrow> decode_error + nat \<times> byte list) \<Rightarrow> ('i, 'c) libav \<Rightarrow> media_op \<Rightarrow> 'c decoder_state \<Rightarrow> 'c decoder_state" where
  "media_do C scale L op s = (case op of
     MediaDecode \<Rightarrow> snd (decode_next_frame C scale s)
   | MediaSeek pts_us \<Rightarrow> (case seek_to_pts L pts_us s of Inr s' \<Rightarrow> s' | Inl _ \<Rightarrow> s))"

lemma media_do_keeps: "ds_wallpaper (media_do C scale L op s) = ds_wallpaper s"
  by (auto simp: media_do_def decode_next_frame_def seek_to_pts_def Let_def rbind_eq_Inr split_beta split: media_op.splits sum.splits)

lemma build_state_Inr:
  assumes "build_state L w = Inr s"
  shows "\<exists>ictx idx codec_id. la_open L (build_avio w) = Inr ictx \<and> la_best_stream L ictx = Inr (Some (idx, codec_id)) \<and> codec_id \<in> {27, 225} \<and>
    ds_wallpaper s = w \<and> ds_stream_idx s = idx"
proof -
  obtain ictx best where o: "la_open L (build_avio w) = Inr ictx" "la_best_stream L ictx = Inr best"
    using assms by (auto simp: build_state_def rbind_eq_Inr)
  obtain idx codec_id where b: "best = Some (idx, codec_id)" using assms by (cases best) (auto simp: build_state_def o)
  have "codec_id \<in> {27, 225}"
    using assms by (auto simp: build_state_def o b AV_CODEC_ID_H264_def AV_CODEC_ID_AV1_def split: if_splits)
  then show ?thesis using assms o b by (auto simp: build_state_def rbind_eq_Inr split: if_splits)
qed

lemma build_state_keeps: "build_state L w = Inr s \<Longrightarrow> ds_wallpaper s = w"
  by (auto dest!: build_state_Inr)

lemma open_keeps: "open_video_input L files f = Inr s \<Longrightarrow> build_state L (ds_wallpaper s) = Inr s"
  by (auto simp: open_video_input_def rbind_eq_Inr split: if_splits dest: build_state_keeps)

text \<open>
  Rewinding starts the file again.  After any number of decoded frames and seeks, whatever the codec did, rewinding
  gives exactly the decoder that opening the file gave, without touching the descriptor; and an opened file
  is h264 or AV1 and at most 256 MiB long.
\<close>

theorem rewind_restarts_the_file:
  assumes "open_video_input L files f = Inr s"
  shows "rewind L (fold (media_do C scale L) ops s) = Inr s \<and>
    (\<exists>bytes. fs_size (files f) = Inr bytes \<and> unat bytes \<le> 256 * 1024 * 1024) \<and>
    (\<exists>ictx idx codec_id. la_open L (build_avio (ds_wallpaper s)) = Inr ictx \<and> la_best_stream L ictx = Inr (Some (idx, codec_id)) \<and>
       codec_id \<in> {27, 225} \<and> ds_stream_idx s = idx)"
proof -
  have "ds_wallpaper (fold (media_do C scale L) ops d) = ds_wallpaper d" for d
    by (induction ops arbitrary: d) (simp_all add: media_do_keeps)
  then have "rewind L (fold (media_do C scale L) ops s) = Inr s" using open_keeps [OF assms] by (simp add: rewind_def)
  moreover have "\<exists>bytes. fs_size (files f) = Inr bytes \<and> unat bytes \<le> 256 * 1024 * 1024"
    using assms by (auto simp: open_video_input_def rbind_eq_Inr MAX_WALLPAPER_BYTES_def not_less word_le_nat_alt split: if_splits)
  moreover have "\<exists>ictx idx codec_id. la_open L (build_avio (ds_wallpaper s)) = Inr ictx \<and> la_best_stream L ictx = Inr (Some (idx, codec_id)) \<and>
       codec_id \<in> {27, 225} \<and> ds_stream_idx s = idx"
    using build_state_Inr [OF open_keeps [OF assms]] by auto
  ultimately show ?thesis by blast
qed

definition demo_libav :: "(nat, nat \<times> bool) libav" where
  "demo_libav = \<lparr>la_open = (\<lambda>a. Inr (length (av_data a))), la_best_stream = (\<lambda>_. Inr (Some (0, 27))),
     la_packets = (\<lambda>n. replicate n (Inr \<lparr>pk_stream = 0, pk_data = []\<rparr>)), la_codec = (\<lambda>_ _. Inr (0, False)),
     la_time_base = (\<lambda>_ _. (1, 25)), la_seek = (\<lambda>_ _ _. Inr []), la_flush_buffers = (\<lambda>c. c)\<rparr>"

definition demo_media :: "(nat \<times> bool) decoder_state" where
  "demo_media = \<lparr>ds_wallpaper = [7], ds_packets = [Inr \<lparr>pk_stream = 0, pk_data = []\<rparr>], ds_codec = (0, False), ds_stream_idx = 0,
     ds_time_base = (1, 25)\<rparr>"

definition demo_files :: "fd \<Rightarrow> file_sys" where
  "demo_files f = \<lparr>fs_dup = True, fs_size = Inr 1, fs_mmap = Inr [7]\<rparr>"

lemma demo_open: "open_video_input demo_libav demo_files f = Inr demo_media"
  by (simp add: open_video_input_def demo_files_def MAX_WALLPAPER_BYTES_def build_state_def demo_libav_def build_avio_def demo_media_def
      AV_CODEC_ID_H264_def AV_CODEC_ID_AV1_def)

theorem rewind_restarts_the_file_witness:
  "rewind demo_libav (fold (media_do demo_codec demo_scale demo_libav) [MediaDecode, MediaSeek 5, MediaDecode] demo_media) = Inr demo_media"
  using rewind_restarts_the_file [OF demo_open, of demo_codec demo_scale "[MediaDecode, MediaSeek 5, MediaDecode]"] by blast

theorem mapped_file_reads_back_witness:
  "let (r, b) = seek_cb 1 SEEK_SET (fold avio_do [AvioRead 2, AvioSeek (- 1) SEEK_END] (build_avio [7, 8, 9])) in
     r = 1 \<and> fst (read_all [1, 4] b) = [8, 9]"
  using mapped_file_reads_back [of 1 "[7, 8, 9]" "[1, 4]" "[AvioRead 2, AvioSeek (- 1) SEEK_END]"] by simp

lemma demo_converted: "convert_frame_to_rgba demo_scale (1, 25) demo_frame =
    Inr \<lparr>rg_width = 1, rg_height = 1, rg_pts_us = 120000, rg_bytes = [1, 2, 3, 255]\<rparr>"
  by (simp add: convert_frame_to_rgba_def demo_frame_def demo_scale_def u32_or_zero_def checked_mul_def MAX_FRAME_BYTES_def
      pts_to_us_def i64_or_zero_def quot_def copy_rows_def)

end
