(* ===== verification/Decoder_Process.thy ===== *)
theory Decoder_Process
  imports Media_Decode Sliding_Window
begin

text \<open>
  The loop of the media decoder, \<open>crates/halmasuit-decoder/src/main.rs\<close>: its lifecycle, the control messages, the
  pacing of frames by their presentation time and what it sends.  Opening, decoding, rewinding and seeking
  come in through a record of operations, which \<open>media_ops\<close> fills with the functions of \<open>decode.rs\<close>; the
  answers of the kernel for one pass of the loop are a record.  Calls interrupted by a signal are repeated
  by the code and appear with their final answer.
\<close>

section \<open>State\<close>

datatype decoder_error =
    DecRecv errno
  | DecSend errno
  | DecCodec dec_codec_error
  | PeerHangup
  | LoadFileMissingFd
  | DecDecode decode_error
  | ShutdownRequested

record pts_anchor =
  anchor_pts_us :: int
  anchor_wall :: instant

datatype 'd lifecycle_state =
    LcIdle
  | LcDecoding 'd bool u64 "pts_anchor option"
  | LcPaused 'd bool u64
  | LcEofWaiting

record 'd decoder_ops =
  op_open :: "fd \<Rightarrow> decode_error + 'd"
  op_decode :: "'d \<Rightarrow> (decode_error + rgba_frame option) \<times> 'd"
  op_rewind :: "'d \<Rightarrow> decode_error + 'd"
  op_seek :: "int \<Rightarrow> 'd \<Rightarrow> decode_error + 'd"

record decoder_codec =
  dc_le :: bool
  dc_to_vec :: "decoder_to_compositor \<Rightarrow> json_error + byte list"
  dc_from_slice :: "byte list \<Rightarrow> json_error + compositor_to_decoder"

text \<open>What the decoder puts on its socket: a message, or a frame behind its header.\<close>

datatype wire_out = WireMsg decoder_to_compositor | WireFrame decoder_to_compositor "byte list"

section \<open>Sending and receiving\<close>

type_synonym send_result = "(decoder_error + unit) \<times> wire_out list"

text \<open>\<open>encode_control\<close> and \<open>send_all\<close>: every error is fatal, a full queue included.\<close>

definition dec_send_control :: "decoder_codec \<Rightarrow> errno + unit \<Rightarrow> decoder_to_compositor \<Rightarrow> send_result" where
  "dec_send_control D answer msg = (case encode_control (dc_le D) (dc_to_vec D) msg of
     Inl e \<Rightarrow> (Inl (DecCodec e), [])
   | Inr bytes \<Rightarrow> (case answer of Inl e \<Rightarrow> (Inl (DecSend e), []) | Inr _ \<Rightarrow> (Inr (), [WireMsg msg])))"

definition send_ready :: "decoder_codec \<Rightarrow> errno + unit \<Rightarrow> send_result" where
  "send_ready D answer = dec_send_control D answer (DecReady WIRE_VERSION)"

definition send_end_of_file :: "decoder_codec \<Rightarrow> errno + unit \<Rightarrow> send_result" where
  "send_end_of_file D answer = dec_send_control D answer EndOfFile"

definition send_decoder_error :: "decoder_codec \<Rightarrow> errno + unit \<Rightarrow> decode_error \<Rightarrow> string \<Rightarrow> send_result" where
  "send_decoder_error D answer e message = dec_send_control D answer (DecoderError (to_wire_code e) message)"

definition frame_header :: "rgba_frame \<Rightarrow> u64 \<Rightarrow> u32 \<Rightarrow> decoder_to_compositor" where
  "frame_header f frame_idx bytes_len = FrameHeader frame_idx (of_int (rg_pts_us f)) (rg_width f) (rg_height f) Rgba8 bytes_len"

text \<open>\<open>send_frame\<close>: a full queue drops the frame.\<close>

definition send_frame :: "decoder_codec \<Rightarrow> errno + unit \<Rightarrow> rgba_frame \<Rightarrow> u64 \<Rightarrow> send_result" where
  "send_frame D answer f frame_idx =
     (if length (rg_bytes f) \<ge> 2 ^ 32 then (Inl (DecCodec (OversizedFrame (- 1) MAX_FRAME_BYTES)), [])
      else
        let bytes_len = of_nat (length (rg_bytes f)) in
        if bytes_len > MAX_FRAME_BYTES then (Inl (DecCodec (OversizedFrame bytes_len MAX_FRAME_BYTES)), [])
        else
          let header = frame_header f frame_idx bytes_len in
          case encode_control (dc_le D) (dc_to_vec D) header of
            Inl e \<Rightarrow> (Inl (DecCodec e), [])
          | Inr header_bytes \<Rightarrow> (case answer of
              Inr _ \<Rightarrow> (Inr (), [WireFrame header (rg_bytes f)])
            | Inl e \<Rightarrow> if e = EAGAIN then (Inr (), []) else (Inl (DecSend e), [])))"

text \<open>\<open>recvmsg\<close>: an error, or whether the control data was truncated, the bytes and the descriptors.\<close>

type_synonym recvmsg_answer = "errno + bool \<times> byte list \<times> (errno + fd list)"

definition recv_control :: "decoder_codec \<Rightarrow> recvmsg_answer \<Rightarrow> decoder_error + compositor_to_decoder \<times> fd list" where
  "recv_control D received = (case received of
     Inl e \<Rightarrow> Inl (DecRecv e)
   | Inr (ctrunc, bytes, cmsgs) \<Rightarrow>
       if ctrunc then Inl (DecRecv EMSGSIZE)
       else (case cmsgs of
         Inl e \<Rightarrow> Inl (DecRecv e)
       | Inr fds \<Rightarrow>
           let buf = take (unat MAX_CONTROL_MSG_BYTES + 4) bytes in
           if buf = [] then Inl PeerHangup
           else
             let declared = (if length buf \<ge> 4 then from_ne_bytes (dc_le D) (take 4 buf) else 0) in
             (case try_decode_control (dc_le D) (dc_from_slice D) buf of
               Inl e \<Rightarrow> Inl (DecCodec e)
             | Inr None \<Rightarrow> Inl (DecCodec (TruncatedControl declared (of_nat (length buf))))
             | Inr (Some (msg, _)) \<Rightarrow> Inr (msg, fds))))"

definition recv_one_nonblocking :: "decoder_codec \<Rightarrow> recvmsg_answer \<Rightarrow> decoder_error + (compositor_to_decoder \<times> fd list) option" where
  "recv_one_nonblocking D received = (case recv_control D received of
     Inr pair \<Rightarrow> Inr (Some pair)
   | Inl e \<Rightarrow> if e = DecRecv EAGAIN then Inr None else Inl e)"

text \<open>\<open>recv_one_blocking\<close>: the answers to \<open>poll\<close> and \<open>recvmsg\<close> in turn; \<open>None\<close> while it blocks.\<close>

fun recv_one_blocking ::
    "decoder_codec \<Rightarrow> (errno + recvmsg_answer) list \<Rightarrow> (decoder_error + compositor_to_decoder \<times> fd list) option" where
  "recv_one_blocking D [] = None"
| "recv_one_blocking D (Inl e # rs) = Some (Inl (DecRecv e))"
| "recv_one_blocking D (Inr received # rs) = (case recv_one_nonblocking D received of
     Inl e \<Rightarrow> Some (Inl e)
   | Inr (Some pair) \<Rightarrow> Some (Inr pair)
   | Inr None \<Rightarrow> recv_one_blocking D rs)"

text \<open>\<open>ppoll\<close>: an error, a timeout, or whether the descriptor can be read.\<close>

datatype ppoll_answer = PollFailed errno | PollTimeout | PollReady bool

fun wait_until_due_or_control :: "instant \<Rightarrow> (instant \<times> ppoll_answer) list \<Rightarrow> (decoder_error + bool) option" where
  "wait_until_due_or_control due [] = None"
| "wait_until_due_or_control due ((now, answer) # rest) =
     (if now \<ge> due then Some (Inr False)
      else case answer of
          PollTimeout \<Rightarrow> Some (Inr False)
        | PollReady readable \<Rightarrow> if readable then Some (Inr True) else wait_until_due_or_control due rest
        | PollFailed e \<Rightarrow> Some (Inl (DecRecv e)))"

section \<open>Control messages\<close>

text \<open>The state after a message, or the error with which the decoder stops; and what it sent on the way.\<close>

definition with_error_report ::
    "decoder_codec \<Rightarrow> errno + unit \<Rightarrow> string \<Rightarrow> decode_error + 'a \<Rightarrow> (decoder_error + 'a) \<times> wire_out list" where
  "with_error_report D answer message r = (case r of
     Inr x \<Rightarrow> (Inr x, [])
   | Inl e \<Rightarrow> (Inl (DecDecode e), snd (send_decoder_error D answer e message)))"

definition apply_control ::
    "decoder_codec \<Rightarrow> 'd decoder_ops \<Rightarrow> errno + unit \<Rightarrow> string \<Rightarrow> 'd lifecycle_state \<Rightarrow> compositor_to_decoder \<Rightarrow> fd list \<Rightarrow>
     (decoder_error + 'd lifecycle_state) \<times> wire_out list" where
  "apply_control D M answer message current msg fds = (case msg of
     Shutdown \<Rightarrow> (Inl ShutdownRequested, [])
   | LoadFile loop_playback \<Rightarrow> (case fds of
       [] \<Rightarrow> (Inl LoadFileMissingFd, [])
     | f # _ \<Rightarrow> (let (r, out) = with_error_report D answer message (op_open M f) in
         (rbind r (\<lambda>d. Inr (LcDecoding d loop_playback 0 None)), out)))
   | Pause \<Rightarrow> (case current of
       LcDecoding d lp idx _ \<Rightarrow> (Inr (LcPaused d lp idx), [])
     | other \<Rightarrow> (Inr other, []))
   | Resume \<Rightarrow> (case current of
       LcPaused d lp idx \<Rightarrow> (Inr (LcDecoding d lp idx None), [])
     | other \<Rightarrow> (Inr other, []))
   | Seek pts_us \<Rightarrow> (
       let go = (\<lambda>d lp. let (r, out) = with_error_report D answer message (op_seek M (sint pts_us) d) in
              (rbind r (\<lambda>d'. Inr (LcDecoding d' lp 0 None)), out)) in
       case current of
         LcDecoding d lp _ _ \<Rightarrow> go d lp
       | LcPaused d lp _ \<Rightarrow> go d lp
       | other \<Rightarrow> (Inr other, [])))"

section \<open>The loop\<close>

definition saturating_sub_i64 :: "int \<Rightarrow> int \<Rightarrow> int" where
  "saturating_sub_i64 a b = max (- (2 ^ 63)) (min (2 ^ 63 - 1) (a - b))"

definition INSTANT_MAX :: instant where "INSTANT_MAX = (2 ^ 63 - 1) * 1000000000 + 999999999"

text \<open>The answers for one pass: the receives, the waits, the sends, the clock and the text of a decode error.\<close>

record pass_input =
  pi_blocking :: "(errno + recvmsg_answer) list"
  pi_polled :: recvmsg_answer
  pi_waits :: "(instant \<times> ppoll_answer) list"
  pi_send :: "errno + unit"
  pi_now :: instant
  pi_message :: string

definition deliver_frame ::
    "decoder_codec \<Rightarrow> pass_input \<Rightarrow> rgba_frame \<Rightarrow> 'd \<Rightarrow> bool \<Rightarrow> u64 \<Rightarrow> pts_anchor option \<Rightarrow> (decoder_error + 'd lifecycle_state) \<times> wire_out list" where
  "deliver_frame D I f d loop_playback idx pacing =
     (let (r, out) = send_frame D (pi_send I) f idx in (rbind r (\<lambda>_. Inr (LcDecoding d loop_playback (idx + 1) pacing)), out))"

text \<open>
  A decoded frame, held until it is due; \<open>None\<close>: the wait blocks.  A control message that arrives during the wait
  makes the frame stale.
\<close>

definition frame_pass ::
    "decoder_codec \<Rightarrow> pass_input \<Rightarrow> rgba_frame \<Rightarrow> 'd \<Rightarrow> bool \<Rightarrow> u64 \<Rightarrow> pts_anchor option \<Rightarrow>
     ((decoder_error + 'd lifecycle_state) \<times> wire_out list) option" where
  "frame_pass D I f d loop_playback idx pacing = (case pacing of
     None \<Rightarrow> Some (deliver_frame D I f d loop_playback idx (Some \<lparr>anchor_pts_us = rg_pts_us f, anchor_wall = pi_now I\<rparr>))
   | Some anchor \<Rightarrow>
       let delta = saturating_sub_i64 (rg_pts_us f) (anchor_pts_us anchor); due = anchor_wall anchor + nat delta * 1000 in
       if delta > 0 \<and> due \<le> INSTANT_MAX then
         (case wait_until_due_or_control due (pi_waits I) of
           None \<Rightarrow> None
         | Some (Inl e) \<Rightarrow> Some (Inl e, [])
         | Some (Inr control) \<Rightarrow>
             if control then Some (Inr (LcDecoding d loop_playback idx pacing), [])
             else Some (deliver_frame D I f d loop_playback idx pacing))
       else Some (deliver_frame D I f d loop_playback idx pacing))"

definition decoding_pass ::
    "decoder_codec \<Rightarrow> 'd decoder_ops \<Rightarrow> pass_input \<Rightarrow> 'd \<Rightarrow> bool \<Rightarrow> u64 \<Rightarrow> pts_anchor option \<Rightarrow>
     ((decoder_error + 'd lifecycle_state) \<times> wire_out list) option" where
  "decoding_pass D M I d loop_playback idx pacing = (case op_decode M d of
     (Inl e, d') \<Rightarrow> Some (Inl (DecDecode e), snd (send_decoder_error D (pi_send I) e (pi_message I)))
   | (Inr None, d') \<Rightarrow>
       if loop_playback then
         let (r, out) = with_error_report D (pi_send I) (pi_message I) (op_rewind M d') in
         Some (rbind r (\<lambda>d''. Inr (LcDecoding d'' loop_playback 0 None)), out)
       else
         let (r, out) = send_end_of_file D (pi_send I) in Some (rbind r (\<lambda>_. Inr LcEofWaiting), out)
   | (Inr (Some f), d') \<Rightarrow> frame_pass D I f d' loop_playback idx pacing)"

text \<open>One pass of the loop; \<open>None\<close>: it blocks.  The second component is what was sent.\<close>

definition decoder_pass ::
    "decoder_codec \<Rightarrow> 'd decoder_ops \<Rightarrow> pass_input \<Rightarrow> 'd lifecycle_state \<Rightarrow> ((decoder_error + 'd lifecycle_state) \<times> wire_out list) option" where
  "decoder_pass D M I s = (case s of
     LcDecoding d loop_playback idx pacing \<Rightarrow> (case recv_one_nonblocking D (pi_polled I) of
       Inl e \<Rightarrow> Some (Inl e, [])
     | Inr (Some (msg, fds)) \<Rightarrow> Some (apply_control D M (pi_send I) (pi_message I) s msg fds)
     | Inr None \<Rightarrow> decoding_pass D M I d loop_playback idx pacing)
   | _ \<Rightarrow> (case recv_one_blocking D (pi_blocking I) of
       None \<Rightarrow> None
     | Some (Inl e) \<Rightarrow> Some (Inl e, [])
     | Some (Inr (msg, fds)) \<Rightarrow> Some (apply_control D M (pi_send I) (pi_message I) s msg fds)))"

text \<open>Passes until the inputs are used up, a pass blocks, or the decoder stops.\<close>

fun decoder_run :: "decoder_codec \<Rightarrow> 'd decoder_ops \<Rightarrow> pass_input list \<Rightarrow> 'd lifecycle_state \<Rightarrow> (decoder_error + 'd lifecycle_state) \<times> wire_out list" where
  "decoder_run D M [] s = (Inr s, [])"
| "decoder_run D M (I # Is) s = (case decoder_pass D M I s of
     None \<Rightarrow> (Inr s, [])
   | Some (Inl e, out) \<Rightarrow> (Inl e, out)
   | Some (Inr s', out) \<Rightarrow> let (r, rest) = decoder_run D M Is s' in (r, out @ rest))"

text \<open>\<open>main\<close> and \<open>run\<close>: the answers to the sandbox, the \<open>Ready\<close> message and \<open>fcntl\<close>, then the loop.  The exit code.\<close>

definition decoder_main ::
    "decoder_codec \<Rightarrow> 'd decoder_ops \<Rightarrow> bool \<Rightarrow> errno + unit \<Rightarrow> errno + unit \<Rightarrow> pass_input list \<Rightarrow> nat option \<times> wire_out list" where
  "decoder_main D M sandboxed ready_answer nonblock_answer Is =
     (if \<not> sandboxed then (Some 1, [])
      else let (r, out) = send_ready D ready_answer in
        case r of
          Inl e \<Rightarrow> (Some 1, out)
        | Inr _ \<Rightarrow> (case nonblock_answer of
            Inl e \<Rightarrow> (Some 1, out)
          | Inr _ \<Rightarrow> (let (r', rest) = decoder_run D M Is LcIdle in
              (case r' of Inl e \<Rightarrow> Some (if e = ShutdownRequested then 0 else 1) | Inr _ \<Rightarrow> None, out @ rest))))"

text \<open>The operations of \<open>decode.rs\<close>.\<close>

definition media_ops ::
    "'c codec \<Rightarrow> (av_frame \<Rightarrow> decode_error + nat \<times> byte list) \<Rightarrow> ('i, 'c) libav \<Rightarrow> (fd \<Rightarrow> file_sys) \<Rightarrow> ('c decoder_state) decoder_ops" where
  "media_ops C scale L files = \<lparr>op_open = open_video_input L files, op_decode = decode_next_frame C scale,
     op_rewind = rewind L, op_seek = seek_to_pts L\<rparr>"

section \<open>Frames\<close>

lemma dec_send_control_frames: "WireFrame h b \<notin> set (snd (dec_send_control D answer m))"
  by (auto simp: dec_send_control_def split: sum.splits)

lemma report_frames: "WireFrame h b \<notin> set (snd (with_error_report D answer message r))"
  by (auto simp: with_error_report_def send_decoder_error_def dec_send_control_frames split: sum.splits)

lemma control_frames: "WireFrame h b \<notin> set (snd (apply_control D M answer message s msg fds))"
  by (auto simp: apply_control_def report_frames split_beta Let_def split: compositor_to_decoder.splits list.splits lifecycle_state.splits)

lemma apply_control_out: "apply_control D M answer message s msg fds = (r, out) \<Longrightarrow> WireFrame h b \<in> set out \<Longrightarrow> False"
  using control_frames by (metis snd_conv)

lemma send_frame_out:
  "WireFrame h b \<in> set (snd (send_frame D answer f idx)) \<Longrightarrow>
     b = rg_bytes f \<and> h = frame_header f idx (of_nat (length b)) \<and> length b \<le> unat MAX_FRAME_BYTES"
proof -
  assume a: "WireFrame h b \<in> set (snd (send_frame D answer f idx))"
  have u: "unat (of_nat n :: u32) = n" if "n < 2 ^ 32" for n using that by (simp add: unat_of_nat take_bit_nat_def)
  show ?thesis using a u [of "length (rg_bytes f)"]
    by (auto simp: send_frame_def Let_def word_less_nat_alt split: if_splits sum.splits)
qed

lemma frame_pass_out: "frame_pass D I f d lp idx pacing = Some (r, out) \<Longrightarrow> out = [] \<or> out = snd (send_frame D (pi_send I) f idx)"
proof -
  have d: "snd (deliver_frame D I f d lp idx p) = snd (send_frame D (pi_send I) f idx)" for p by (simp add: deliver_frame_def split_beta)
  assume "frame_pass D I f d lp idx pacing = Some (r, out)"
  then show ?thesis
    by (auto simp: frame_pass_def Let_def split: option.splits sum.splits if_splits) (metis d snd_conv)+
qed

text \<open>A frame leaves the decoder only in a pass that found it decoding and no control message pending.\<close>

lemma frame_needs_decoding:
  assumes "decoder_pass D M I s = Some (r, out)" and "WireFrame h b \<in> set out"
  shows "\<exists>d lp idx pacing f d'. s = LcDecoding d lp idx pacing \<and> recv_one_nonblocking D (pi_polled I) = Inr None \<and>
    op_decode M d = (Inr (Some f), d') \<and> b = rg_bytes f \<and> h = frame_header f idx (of_nat (length b)) \<and> length b \<le> unat MAX_FRAME_BYTES"
proof (cases s)
  case (LcDecoding d lp idx pacing)
  show ?thesis
  proof (cases "recv_one_nonblocking D (pi_polled I)")
    case (Inr m)
    show ?thesis
    proof (cases m)
      case None
      then have p: "decoding_pass D M I d lp idx pacing = Some (r, out)" using assms(1) by (simp add: decoder_pass_def LcDecoding Inr)
      obtain x d' where x: "op_decode M d = (x, d')" by (cases "op_decode M d")
      have "\<exists>f. x = Inr (Some f) \<and> out = snd (send_frame D (pi_send I) f idx)"
      proof (cases x)
        case (Inl e)
        then show ?thesis using p assms(2) by (auto simp: decoding_pass_def x send_decoder_error_def dec_send_control_frames)
      next
        case (Inr y)
        show ?thesis
        proof (cases y)
          case None
          then show ?thesis using p assms(2) Inr
            by (cases lp) (auto simp: decoding_pass_def x send_end_of_file_def dec_send_control_frames report_frames split_beta)
        next
          case (Some f)
          then have "frame_pass D I f d' lp idx pacing = Some (r, out)" using p Inr by (simp add: decoding_pass_def x)
          from frame_pass_out [OF this] show ?thesis using assms(2) Inr Some by auto
        qed
      qed
      then obtain f where f: "x = Inr (Some f)" "out = snd (send_frame D (pi_send I) f idx)" by blast
      have "b = rg_bytes f \<and> h = frame_header f idx (of_nat (length b)) \<and> length b \<le> unat MAX_FRAME_BYTES"
        using send_frame_out assms(2) unfolding f(2) by blast
      then show ?thesis using LcDecoding Inr None x f(1) by auto
    next
      case (Some pair)
      then have "out = snd (apply_control D M (pi_send I) (pi_message I) s (fst pair) (snd pair))"
        using assms(1) by (cases pair) (auto simp: decoder_pass_def LcDecoding Inr)
      then show ?thesis using assms(2) control_frames by blast
    qed
  qed (use assms in \<open>auto simp: decoder_pass_def LcDecoding\<close>)
qed (use assms in \<open>auto simp: decoder_pass_def split: option.splits sum.splits dest: apply_control_out\<close>)

lemma run_frame:
  "WireFrame h b \<in> set (snd (decoder_run D M Is s)) \<Longrightarrow>
     \<exists>I \<in> set Is. \<exists>s' r out. decoder_pass D M I s' = Some (r, out) \<and> WireFrame h b \<in> set out"
proof (induction Is arbitrary: s)
  case (Cons I Is)
  show ?case
  proof (cases "decoder_pass D M I s")
    case (Some p)
    obtain r out where p: "p = (r, out)" by (cases p)
    show ?thesis
    proof (cases "WireFrame h b \<in> set out")
      case True
      then show ?thesis using Some p by auto
    next
      case False
      then obtain s' where "WireFrame h b \<in> set (snd (decoder_run D M Is s'))"
        using Cons.prems by (cases r) (auto simp: Some p split_beta)
      from Cons.IH [OF this] show ?thesis by auto
    qed
  qed (use Cons.prems in simp)
qed simp

lemma packet_loop_frame: "packet_loop C idx ps c = (Inr (Some f), ps', c') \<Longrightarrow> \<exists>c0 c1. cd_receive C c0 = (Inr f, c1)"
proof (induction C idx ps c arbitrary: ps' c' rule: packet_loop.induct)
  case (1 C idx c)
  then show ?case by (auto simp: drain_one_frame_def split: sum.splits prod.splits if_splits)
next
  case (3 C idx p ps c)
  show ?case
  proof (cases "pk_stream p \<noteq> idx")
    case True
    then show ?thesis using 3 by simp
  next
    case False
    then show ?thesis using 3 by (fastforce split: prod.splits sum.splits if_splits)
  qed
qed simp

text \<open>
  C18: the compositor accepts every frame the decoder sends.  With a codec whose frames have positive dimensions and a
  scaler that keeps its contract, each frame the decoder puts on its socket in any run has a header with the
  length of its pixels that passes \<open>validate_frame_header\<close>.
\<close>

theorem sent_frames_are_accepted:
  assumes "\<And>c f c'. cd_receive C c = (Inr f, c') \<Longrightarrow> 0 < fr_width f \<and> fr_width f < 2 ^ 31 \<and> 0 < fr_height f \<and> fr_height f < 2 ^ 31"
    and "\<And>f linesize buf. scale f = Inr (linesize, buf) \<Longrightarrow> 4 * nat (fr_width f) \<le> linesize \<and> nat (fr_height f) * linesize \<le> length buf"
    and "WireFrame h bytes \<in> set (snd (decoder_run D (media_ops C scale L files) Is LcIdle))"
  shows "\<exists>idx pts w ht len. h = FrameHeader idx pts w ht Rgba8 len \<and> unat len = length bytes \<and> validate_frame_header w ht Rgba8 len = Inr ()"
proof -
  let ?M = "media_ops C scale L files"
  obtain I s r out where p: "decoder_pass D ?M I s = Some (r, out)" "WireFrame h bytes \<in> set out" using run_frame [OF assms(3)] by blast
  obtain d f d' idx where f: "op_decode ?M d = (Inr (Some f), d')" "bytes = rg_bytes f" "h = frame_header f idx (of_nat (length bytes))"
    "length bytes \<le> 16777216" using frame_needs_decoding [OF p] by auto
  obtain av ps c where av: "packet_loop C (ds_stream_idx d) (ds_packets d) (ds_codec d) = (Inr (Some av), ps, c)"
    "convert_frame_to_rgba scale (ds_time_base d) av = Inr f"
    using f(1) by (auto simp: media_ops_def decode_next_frame_def Let_def rbind_eq_Inr split: prod.splits sum.splits option.splits)
  obtain linesize buf where sc: "scale av = Inr (linesize, buf)"
    using av(2) by (auto simp: convert_frame_to_rgba_def Let_def rbind_eq_Inr split: option.splits if_splits)
  obtain c0 c1 where "cd_receive C c0 = (Inr av, c1)" using packet_loop_frame [OF av(1)] by blast
  note dims = assms(1) [OF this] and lines = assms(2) [OF sc]
  have "validate_frame_header (rg_width f) (rg_height f) Rgba8 (of_nat (length bytes)) = Inr ()"
    unfolding f(2) using frames_validate [OF av(2) sc] dims lines by blast
  moreover have "unat (of_nat (length bytes) :: u32) = length bytes" using f(4) by (simp add: unat_of_nat take_bit_nat_def)
  ultimately show ?thesis by (simp add: f(3) frame_header_def)
qed

section \<open>Control\<close>

text \<open>The message a pass takes, if it takes one.\<close>

definition taken_message :: "decoder_codec \<Rightarrow> pass_input \<Rightarrow> 'd lifecycle_state \<Rightarrow> compositor_to_decoder option" where
  "taken_message D I s = (case s of
     LcDecoding _ _ _ _ \<Rightarrow> (case recv_one_nonblocking D (pi_polled I) of Inr (Some (msg, _)) \<Rightarrow> Some msg | _ \<Rightarrow> None)
   | _ \<Rightarrow> (case recv_one_blocking D (pi_blocking I) of Some (Inr (msg, _)) \<Rightarrow> Some msg | _ \<Rightarrow> None))"

lemma paused_pass:
  assumes "decoder_pass D M I (LcPaused d lp idx) = Some (Inr s', out)" and "taken_message D I (LcPaused d lp idx) \<in> {None, Some Pause}"
  shows "s' = LcPaused d lp idx \<and> out = []"
  using assms by (auto simp: decoder_pass_def taken_message_def apply_control_def split: option.splits sum.splits)

text \<open>
  a paused decoder sends nothing.  From the paused state, for as long as only further pause messages arrive, the
  decoder stays paused with its position and index kept and puts nothing on its socket; and a shutdown
  message ends it cleanly from every state.
\<close>

theorem paused_decoder_is_silent:
  assumes "\<forall>I \<in> set Is. taken_message D I (LcPaused d lp idx) \<in> {None, Some Pause}"
    and "fst (decoder_run D M Is (LcPaused d lp idx)) = Inr s'"
  shows "s' = LcPaused d lp idx \<and> snd (decoder_run D M Is (LcPaused d lp idx)) = [] \<and>
    (\<forall>I s. taken_message D I s = Some Shutdown \<longrightarrow> decoder_pass D M I s = Some (Inl ShutdownRequested, []))"
proof -
  have "s' = LcPaused d lp idx \<and> snd (decoder_run D M Is (LcPaused d lp idx)) = []"
    using assms
  proof (induction Is)
    case (Cons I Is)
    show ?case
    proof (cases "decoder_pass D M I (LcPaused d lp idx)")
      case None
      then show ?thesis using Cons.prems by simp
    next
      case (Some p)
      then obtain s1 out where p: "p = (Inr s1, out)" using Cons.prems(2) by (cases p; cases "fst p") auto
      then have "s1 = LcPaused d lp idx" "out = []" using paused_pass Some Cons.prems(1) by (metis list.set_intros(1))+
      then show ?thesis using Cons Some p by (simp add: split_beta)
    qed
  qed simp
  moreover have "decoder_pass D M I s = Some (Inl ShutdownRequested, [])" if "taken_message D I s = Some Shutdown" for I s
    using that by (cases s) (auto simp: taken_message_def decoder_pass_def apply_control_def split: option.splits sum.splits)
  ultimately show ?thesis by blast
qed

text \<open>
  a full queue is fatal at the end of the file.  While frames are sent, a full queue only drops them; but when the
  stream ends without looping and the queue is still full, the decoder fails with the error of the send and
  exits with code 1 instead of reporting the end of the file, although the comment at \<open>send_all\<close> has the queue
  always take a control message.
\<close>

theorem full_queue_at_end_is_fatal:
  assumes "recv_one_nonblocking D (pi_polled I) = Inr None" and "op_decode M d = (Inr None, d')" and "pi_send I = Inl EAGAIN"
    and "encode_control (dc_le D) (dc_to_vec D) EndOfFile = Inr eof"
  shows "decoder_run D M (I # Is) (LcDecoding d False idx pacing) = (Inl (DecSend EAGAIN), []) \<and>
    (\<forall>f n hb. length (rg_bytes f) \<le> unat MAX_FRAME_BYTES \<longrightarrow>
       encode_control (dc_le D) (dc_to_vec D) (frame_header f n (of_nat (length (rg_bytes f)))) = Inr hb \<longrightarrow>
       send_frame D (pi_send I) f n = (Inr (), []))"
proof -
  have "decoder_run D M (I # Is) (LcDecoding d False idx pacing) = (Inl (DecSend EAGAIN), [])"
    by (simp add: decoder_pass_def assms(1) decoding_pass_def assms(2) send_end_of_file_def dec_send_control_def assms(3,4))
  moreover have "send_frame D (pi_send I) f n = (Inr (), [])"
    if "length (rg_bytes f) \<le> unat MAX_FRAME_BYTES"
      "encode_control (dc_le D) (dc_to_vec D) (frame_header f n (of_nat (length (rg_bytes f)))) = Inr hb" for f n hb
    using that by (auto simp: send_frame_def Let_def assms(3) word_less_nat_alt unat_of_nat take_bit_nat_def)
  ultimately show ?thesis by blast
qed

text \<open>
  a looping video with delayed frames stops the decoder.  With a codec that flushes as FFmpeg documents and holds
  back at least one frame at the end of the packets, as any codec that reorders frames does, the decoder
  sends that frame and then fails on the second flush, so that it exits with an error instead of starting
  the video again.
\<close>

theorem delayed_frames_stop_the_decoder:
  assumes "codec_flushes_once C draining" and "ds_packets d = []" and "\<not> draining (ds_codec d)"
    and "cd_receive C (snd (cd_send C None (ds_codec d))) = (Inr av, c)" and "convert_frame_to_rgba scale (ds_time_base d) av = Inr f"
    and "fst (send_frame D (pi_send I1) f idx) = Inr ()"
    and "recv_one_nonblocking D (pi_polled I1) = Inr None" and "recv_one_nonblocking D (pi_polled I2) = Inr None"
  shows "fst (decoder_run D (media_ops C scale L files) (I1 # I2 # Is) (LcDecoding d True idx None)) =
    Inl (DecDecode (MediaCodec DecoderFlushedError))"
proof -
  let ?M = "media_ops C scale L files"
  obtain d' where d': "op_decode ?M d = (Inr (Some f), d')" "fst (op_decode ?M d') = Inl (MediaCodec DecoderFlushedError)"
    using delayed_frame_fails [OF assms(1-5)] by (cases "decode_next_frame C scale d") (auto simp: media_ops_def)
  obtain p out where "decoder_pass D ?M I1 (LcDecoding d True idx None) = Some (Inr (LcDecoding d' True (idx + 1) p), out)"
    using assms(6) by (cases "send_frame D (pi_send I1) f idx")
      (simp add: decoder_pass_def assms(7) decoding_pass_def d'(1) frame_pass_def deliver_frame_def)
  moreover have "fst (the (decoder_pass D ?M I2 (LcDecoding d' True (idx + 1) p))) = Inl (DecDecode (MediaCodec DecoderFlushedError))"
    "decoder_pass D ?M I2 (LcDecoding d' True (idx + 1) p) \<noteq> None"
    using d'(2) by (cases "op_decode ?M d'"; simp add: decoder_pass_def assms(8) decoding_pass_def)+
  ultimately show ?thesis by (auto split: prod.splits)
qed

section \<open>A run\<close>

text \<open>A file of one packet, a codec that holds back one frame, and a socket whose messages are one byte long.\<close>

definition demo_wire :: decoder_codec where
  "demo_wire = \<lparr>dc_le = True, dc_to_vec = (\<lambda>_. Inr [9]),
     dc_from_slice = (\<lambda>bs. Inr (if bs = [0] then LoadFile True else if bs = [1] then Pause else Shutdown))\<rparr>"

definition demo_message :: "byte \<Rightarrow> recvmsg_answer" where
  "demo_message b = Inr (False, [1, 0, 0, 0, b], Inr [7])"

definition demo_pass :: "byte \<Rightarrow> errno + unit \<Rightarrow> pass_input" where
  "demo_pass b answer = \<lparr>pi_blocking = [Inr (demo_message b)], pi_polled = Inl EAGAIN, pi_waits = [], pi_send = answer, pi_now = 5, pi_message = ''decode''\<rparr>"

definition demo_ops :: "((nat \<times> bool) decoder_state) decoder_ops" where
  "demo_ops = media_ops demo_codec demo_scale demo_libav demo_files"

lemma demo_pass_send: "pi_send (demo_pass b answer) = answer"
  by (simp add: demo_pass_def)

lemma demo_recv:
  "recv_one_nonblocking demo_wire (pi_polled (demo_pass b answer)) = Inr None"
  "recv_one_blocking demo_wire (pi_blocking (demo_pass b answer)) =
     Some (Inr (if b = 0 then LoadFile True else if b = 1 then Pause else Shutdown, [7]))"
  by (simp_all add: demo_pass_def demo_message_def demo_wire_def recv_one_nonblocking_def recv_control_def try_decode_control_def
      DEC_LENGTH_PREFIX_SIZE_def from_ne_bytes_def from_le_bytes_def MAX_CONTROL_MSG_BYTES_def Let_def)

lemma demo_encode: "encode_control (dc_le demo_wire) (dc_to_vec demo_wire) m = Inr (to_ne_bytes True 1 @ [9])"
  by (simp add: demo_wire_def encode_control_def MAX_CONTROL_MSG_BYTES_def)

lemma demo_flushes: "codec_flushes_once demo_codec snd"
  by (auto simp: codec_flushes_once_def demo_codec_def)

lemma demo_frame_sent:
  "send_frame demo_wire (Inr ()) \<lparr>rg_width = 1, rg_height = 1, rg_pts_us = 120000, rg_bytes = [1, 2, 3, 255]\<rparr> 0 =
     (Inr (), [WireFrame (FrameHeader 0 120000 1 1 Rgba8 4) [1, 2, 3, 255]])"
  by (simp add: send_frame_def demo_encode frame_header_def MAX_FRAME_BYTES_def)

lemma demo_decode: "\<exists>d. decode_next_frame demo_codec demo_scale demo_media =
    (Inr (Some \<lparr>rg_width = 1, rg_height = 1, rg_pts_us = 120000, rg_bytes = [1, 2, 3, 255]\<rparr>), d)"
  using demo_converted by (simp add: decode_next_frame_def demo_media_def demo_codec_def drain_one_frame_def)

lemma demo_run: "WireFrame (FrameHeader 0 120000 1 1 Rgba8 4) [1, 2, 3, 255] \<in>
    set (snd (decoder_run demo_wire demo_ops [demo_pass 0 (Inr ()), demo_pass 0 (Inr ())] LcIdle))"
  using demo_decode
  by (auto simp: decoder_pass_def demo_recv demo_open apply_control_def with_error_report_def demo_ops_def media_ops_def decoding_pass_def
      frame_pass_def deliver_frame_def demo_pass_send demo_frame_sent)

theorem sent_frames_are_accepted_witness:
  "\<exists>idx pts w ht len. FrameHeader 0 120000 1 1 Rgba8 4 = FrameHeader idx pts w ht Rgba8 len \<and> unat len = length [1 :: byte, 2, 3, 255] \<and>
     validate_frame_header w ht Rgba8 len = Inr ()"
  by (rule sent_frames_are_accepted [where C = demo_codec and scale = demo_scale, OF _ _ demo_run [unfolded demo_ops_def]])
    (auto simp: demo_codec_def demo_frame_def demo_scale_def split: if_splits)

theorem paused_decoder_is_silent_witness:
  "decoder_run demo_wire demo_ops [demo_pass 1 (Inr ()), demo_pass 1 (Inr ())] (LcPaused demo_media True 4) =
     (Inr (LcPaused demo_media True 4), [])"
proof -
  let ?r = "decoder_run demo_wire demo_ops [demo_pass 1 (Inr ()), demo_pass 1 (Inr ())] (LcPaused demo_media True 4)"
  have "fst ?r = Inr (LcPaused demo_media True 4)" by (simp add: decoder_pass_def demo_recv apply_control_def)
  moreover have "snd ?r = []"
    using paused_decoder_is_silent [of "[demo_pass 1 (Inr ()), demo_pass 1 (Inr ())]" demo_wire demo_media True 4 demo_ops] calculation
    by (simp add: taken_message_def demo_recv)
  ultimately show ?thesis by (simp add: prod_eq_iff)
qed

theorem full_queue_at_end_is_fatal_witness:
  "decoder_run demo_wire (demo_ops\<lparr>op_decode := \<lambda>d. (Inr None, d)\<rparr>) [demo_pass 0 (Inl EAGAIN)] (LcDecoding demo_media False 3 None) =
     (Inl (DecSend EAGAIN), [])"
  using full_queue_at_end_is_fatal [of demo_wire "demo_pass 0 (Inl EAGAIN)" "demo_ops\<lparr>op_decode := \<lambda>d. (Inr None, d)\<rparr>" demo_media demo_media
      "to_ne_bytes True 1 @ [9]" "[]" 3 None] by (simp add: demo_recv demo_encode demo_pass_send)

theorem delayed_frames_stop_the_decoder_witness:
  "fst (decoder_run demo_wire demo_ops [demo_pass 0 (Inr ()), demo_pass 0 (Inr ())]
       (LcDecoding (demo_media\<lparr>ds_packets := [], ds_codec := (1, False)\<rparr>) True 0 None)) =
     Inl (DecDecode (MediaCodec DecoderFlushedError))"
  unfolding demo_ops_def
  by (rule delayed_frames_stop_the_decoder [OF demo_flushes, where av = demo_frame and c = "(0, True)"
        and f = "\<lparr>rg_width = 1, rg_height = 1, rg_pts_us = 120000, rg_bytes = [1, 2, 3, 255]\<rparr>"])
    (simp_all add: demo_media_def demo_codec_def demo_converted demo_recv demo_frame_sent demo_pass_send)

end
