(* ===== verification/Lifecycle_Events.thy ===== *)
theory Lifecycle_Events
  imports Compositor
begin

text \<open>
  The lifecycle events of the compositor (\<open>halmasuit-introspect\<close>), the registry of in-process
  listeners with \<open>emit\<close>, and the projection of the events to the names a wallpaper binds against
  (\<open>halmasuit-events\<close>).

  A 32-bit float is its bit pattern.  The JSON serializer is the argument \<open>to_string\<close>.  A listener
  acts on a state of its own; one that panics unwinds out of \<open>emit\<close>, which is the outcome \<open>False\<close>.
\<close>

type_synonym f32 = u32

section \<open>The vocabulary\<close>

datatype lifecycle_phase =
  Init | WaylandReady | GreetdReady | Deprivileged | DrmMasterAcquired | ScanoutActive | InitramfsInit | RootfsReady

fun phase_as_u32 :: "lifecycle_phase \<Rightarrow> u32" where
  "phase_as_u32 Init = 0"
| "phase_as_u32 WaylandReady = 1"
| "phase_as_u32 GreetdReady = 2"
| "phase_as_u32 Deprivileged = 3"
| "phase_as_u32 DrmMasterAcquired = 4"
| "phase_as_u32 ScanoutActive = 5"
| "phase_as_u32 InitramfsInit = 6"
| "phase_as_u32 RootfsReady = 7"

definition phase_from_u32 :: "u32 \<Rightarrow> lifecycle_phase option" where
  "phase_from_u32 v =
     (if v = 0 then Some Init
      else if v = 1 then Some WaylandReady
      else if v = 2 then Some GreetdReady
      else if v = 3 then Some Deprivileged
      else if v = 4 then Some DrmMasterAcquired
      else if v = 5 then Some ScanoutActive
      else if v = 6 then Some InitramfsInit
      else if v = 7 then Some RootfsReady
      else None)"

fun phase_label :: "lifecycle_phase \<Rightarrow> string" where
  "phase_label Init = ''init''"
| "phase_label WaylandReady = ''wayland_ready''"
| "phase_label GreetdReady = ''greetd_ready''"
| "phase_label Deprivileged = ''deprivileged''"
| "phase_label DrmMasterAcquired = ''drm_master_acquired''"
| "phase_label ScanoutActive = ''scanout_active''"
| "phase_label InitramfsInit = ''initramfs_init''"
| "phase_label RootfsReady = ''rootfs_ready''"

datatype session_exit = LeaderExited i32 | LeaderSignaled i32

datatype event_role = WallpaperRole | BackgroundRole | BottomRole | TopRole | OverlayRole

record frame_facts =
  ff_frame_id :: u64
  ff_pixel_count :: u64
  ff_clear_pixel_count :: u64
  ff_black_pixel_count :: u64
  ff_degenerate :: bool
  ff_phash :: u64

datatype lifecycle_event =
    Started u32 string
  | PhaseEntered lifecycle_phase
  | ShutdownBegun shutdown_reason
  | Fatal string
  | SessionRequested u32 u32
  | EventGreeterSpawned u32
  | GreeterTerminated u32
  | GreeterKillFailed u32 string
  | GreeterLostPreAuth u32
  | FrameRendered frame_facts
  | ClientFirstFrame event_role
  | ForegroundChanged foreground
  | SessionKeyOpened
  | SessionClientFirstFrame
  | SessionLeaderEnded session_exit
  | SessionLeaderPidfdArmed
  | SessionLeaderExitedViaPidfd
  | LuksPromptShown
  | WallpaperUniformApplied string string

section \<open>The wallpaper's names\<close>

fun phase_name :: "lifecycle_phase \<Rightarrow> string" where
  "phase_name Init = ''halmasuit.phase.init''"
| "phase_name WaylandReady = ''halmasuit.phase.wayland_ready''"
| "phase_name GreetdReady = ''halmasuit.phase.greetd_ready''"
| "phase_name Deprivileged = ''halmasuit.phase.deprivileged''"
| "phase_name DrmMasterAcquired = ''halmasuit.phase.drm_master_acquired''"
| "phase_name ScanoutActive = ''halmasuit.phase.scanout_active''"
| "phase_name InitramfsInit = ''halmasuit.phase.initramfs_init''"
| "phase_name RootfsReady = ''halmasuit.phase.rootfs_ready''"

fun layer_role_name :: "event_role \<Rightarrow> string" where
  "layer_role_name WallpaperRole = ''halmasuit.client_first_frame.wallpaper''"
| "layer_role_name BackgroundRole = ''halmasuit.client_first_frame.background''"
| "layer_role_name BottomRole = ''halmasuit.client_first_frame.bottom''"
| "layer_role_name TopRole = ''halmasuit.client_first_frame.top''"
| "layer_role_name OverlayRole = ''halmasuit.client_first_frame.overlay''"

fun canonical_name :: "lifecycle_event \<Rightarrow> string option" where
  "canonical_name (Started p v) = Some ''halmasuit.started''"
| "canonical_name (PhaseEntered p) = Some (phase_name p)"
| "canonical_name (ShutdownBegun r) = Some ''halmasuit.shutdown''"
| "canonical_name (SessionRequested u g) = Some ''halmasuit.session.requested''"
| "canonical_name (EventGreeterSpawned p) = Some ''halmasuit.greeter.spawned''"
| "canonical_name (GreeterTerminated p) = Some ''halmasuit.greeter.terminated''"
| "canonical_name (ClientFirstFrame r) = Some (layer_role_name r)"
| "canonical_name (ForegroundChanged FgGreeter) = Some ''halmasuit.foreground.greeter''"
| "canonical_name (ForegroundChanged FgSession) = Some ''halmasuit.foreground.session''"
| "canonical_name SessionKeyOpened = Some ''halmasuit.session.opened''"
| "canonical_name SessionClientFirstFrame = Some ''halmasuit.session.client_first_frame''"
| "canonical_name (SessionLeaderEnded x) = Some ''halmasuit.session.ended''"
| "canonical_name LuksPromptShown = Some ''halmasuit.luks.prompt''"
| "canonical_name (FrameRendered f) = None"
| "canonical_name (Fatal m) = None"
| "canonical_name (GreeterKillFailed p e) = None"
| "canonical_name (GreeterLostPreAuth p) = None"
| "canonical_name SessionLeaderPidfdArmed = None"
| "canonical_name SessionLeaderExitedViaPidfd = None"
| "canonical_name (WallpaperUniformApplied n u) = None"

definition f32_zero :: f32 where "f32_zero = 0x00000000"
definition f32_one :: f32 where "f32_one = 0x3F800000"
definition f32_minus_one :: f32 where "f32_minus_one = 0xBF800000"

definition event_value :: "lifecycle_event \<Rightarrow> f32" where
  "event_value ev = (if canonical_name ev \<noteq> None then f32_one else f32_zero)"

section \<open>The registry\<close>

type_synonym 's listener = "lifecycle_event \<Rightarrow> 's \<Rightarrow> bool \<times> 's"

datatype log_line = EventLine string | SerializeFailed string

definition register_listener :: "'s listener \<Rightarrow> 's listener list \<Rightarrow> 's listener list" where
  "register_listener l ls = ls @ [l]"

fun fan_out :: "'s listener list \<Rightarrow> lifecycle_event \<Rightarrow> 's \<Rightarrow> bool \<times> 's" where
  "fan_out [] ev s = (True, s)"
| "fan_out (l # ls) ev s = (case l ev s of (True, s') \<Rightarrow> fan_out ls ev s' | (False, s') \<Rightarrow> (False, s'))"

definition introspect_emit ::
    "(lifecycle_event \<Rightarrow> string + string) \<Rightarrow> 's listener list \<Rightarrow> lifecycle_event \<Rightarrow> log_line list \<times> 's \<Rightarrow>
     bool \<times> log_line list \<times> 's" where
  "introspect_emit to_string listeners ev st =
     (let (journal, s) = st;
          journal' = journal @ [case to_string ev of Inr json \<Rightarrow> EventLine json | Inl err \<Rightarrow> SerializeFailed err];
          (returned, s') = fan_out listeners ev s in
      (returned, journal', s'))"

section \<open>Theorems\<close>

lemma phase_from_as_u32: "phase_from_u32 (phase_as_u32 p) = Some p"
  by (cases p) (simp_all add: phase_from_u32_def)

lemma phase_as_from_u32: "phase_from_u32 v = Some p \<Longrightarrow> phase_as_u32 p = v"
  by (auto simp: phase_from_u32_def split: if_splits)

lemma phase_from_u32_iff: "phase_from_u32 v = Some p \<longleftrightarrow> v = phase_as_u32 p"
  using phase_from_as_u32 phase_as_from_u32 by auto

lemma phase_as_u32_le: "phase_as_u32 p \<le> 7"
  by (cases p) simp_all

lemma unknown_phase_code: "7 < v \<Longrightarrow> phase_from_u32 v = None"
  using phase_as_u32_le by (cases "phase_from_u32 v") (auto simp: phase_from_u32_iff not_le [symmetric])

lemma phase_name_label: "phase_name p = ''halmasuit.phase.'' @ phase_label p"
  by (cases p) simp_all

lemma inj_phase_name: "phase_name p = phase_name q \<longleftrightarrow> p = q"
  by (cases p; cases q) simp_all

lemma inj_layer_role_name: "layer_role_name p = layer_role_name q \<longleftrightarrow> p = q"
  by (cases p; cases q) simp_all

text \<open>
  What a wallpaper can tell apart: two bindable events have the same name exactly when they are
  the same kind of event and, for phases, layer roles and the foreground, carry the same payload.
\<close>

fun visual_state :: "lifecycle_event \<Rightarrow> lifecycle_event" where
  "visual_state (Started p v) = Started 0 []"
| "visual_state (ShutdownBegun r) = ShutdownBegun ReasonInternal"
| "visual_state (SessionRequested u g) = SessionRequested 0 0"
| "visual_state (EventGreeterSpawned p) = EventGreeterSpawned 0"
| "visual_state (GreeterTerminated p) = GreeterTerminated 0"
| "visual_state (SessionLeaderEnded x) = SessionLeaderEnded (LeaderExited 0)"
| "visual_state ev = ev"

lemma canonical_name_cases:
  "canonical_name ev = Some n \<longleftrightarrow>
     (\<exists>p. ev = PhaseEntered p \<and> n = phase_name p) \<or>
     (\<exists>r. ev = ClientFirstFrame r \<and> n = layer_role_name r) \<or>
     (visual_state ev, n) \<in> {(Started 0 [], ''halmasuit.started''),
       (ShutdownBegun ReasonInternal, ''halmasuit.shutdown''),
       (SessionRequested 0 0, ''halmasuit.session.requested''),
       (EventGreeterSpawned 0, ''halmasuit.greeter.spawned''),
       (GreeterTerminated 0, ''halmasuit.greeter.terminated''),
       (ForegroundChanged FgGreeter, ''halmasuit.foreground.greeter''),
       (ForegroundChanged FgSession, ''halmasuit.foreground.session''),
       (SessionKeyOpened, ''halmasuit.session.opened''),
       (SessionClientFirstFrame, ''halmasuit.session.client_first_frame''),
       (SessionLeaderEnded (LeaderExited 0), ''halmasuit.session.ended''),
       (LuksPromptShown, ''halmasuit.luks.prompt'')}"
  by (cases ev rule: canonical_name.cases) auto

lemma phase_name_shape: "take 14 (phase_name p) = ''halmasuit.phas''"
  by (cases p) simp_all

lemma layer_role_name_shape: "take 14 (layer_role_name r) = ''halmasuit.clie''"
  by (cases r) simp_all

lemma phase_name_neq:
  "take 14 n \<noteq> ''halmasuit.phas'' \<Longrightarrow> phase_name p \<noteq> n" "take 14 n \<noteq> ''halmasuit.clie'' \<Longrightarrow> layer_role_name r \<noteq> n"
  using phase_name_shape [of p] layer_role_name_shape [of r] by auto

lemma canonical_names_separate:
  assumes "canonical_name e1 = Some n" and "canonical_name e2 = Some n"
  shows "visual_state e1 = visual_state e2"
proof -
  have neq: "phase_name p \<noteq> layer_role_name r" for p r
    by (rule phase_name_neq) (simp add: layer_role_name_shape)
  show ?thesis
    using assms unfolding canonical_name_cases
    by (elim disjE exE conjE)
      (auto simp: inj_phase_name inj_layer_role_name neq neq [symmetric] phase_name_neq phase_name_neq [symmetric])
qed

lemma canonical_name_visual_state: "canonical_name (visual_state ev) = canonical_name ev"
  by (cases ev rule: visual_state.cases) simp_all

text \<open>
  Every event is journalled exactly once, before and regardless of what the listeners do.
\<close>

lemma emit_journals_first:
  "fst (snd (introspect_emit to_string ls ev (journal, s))) =
     journal @ [case to_string ev of Inr json \<Rightarrow> EventLine json | Inl err \<Rightarrow> SerializeFailed err]"
  by (simp add: introspect_emit_def split_beta)

text \<open>The production listener: a non-blocking send, dropped when the channel is closed.\<close>

definition wallpaper_listener :: "(lifecycle_event list option) listener" where
  "wallpaper_listener ev ch = (True, map_option (\<lambda>q. q @ [ev]) ch)"

lemma emit_to_wallpaper_listener:
  "introspect_emit to_string (register_listener wallpaper_listener []) ev (journal, Some q) =
     (True, journal @ [case to_string ev of Inr json \<Rightarrow> EventLine json | Inl err \<Rightarrow> SerializeFailed err], Some (q @ [ev]))"
  by (simp add: introspect_emit_def register_listener_def wallpaper_listener_def)

end
