(* ===== verification/Wallpaper.thy ===== *)
theory Wallpaper
  imports Lifecycle_Events Drm_Device Decoder_Relay
    "HOL-Library.List_Lexorder" "HOL-Library.Char_ord"
begin

text \<open>
  The wallpaper engine (\<open>halmasuit/src/wallpaper/\<close>): the configuration, the three back ends
  (image, shader, video), the engine that owns one of them, and the consumer that turns
  lifecycle events into shader uniforms.

  A \<open>HashMap\<close> that is iterated is the list of its entries in iteration order, with distinct keys.
  The GPU (\<open>smithay\<close>), the image decoder, the files and the JSON parser are the fields of
  \<open>wp_env\<close>: a texture is the bytes and the size it was uploaded with, \<open>wp_import\<close> says whether the
  upload works.
\<close>

section \<open>Configuration\<close>

datatype static_value =
    StFloat f32
  | StVec2 f32 f32
  | StVec3 f32 f32 f32
  | StVec4 f32 f32 f32 f32
  | StInt i32
  | StBool bool

datatype uniform_binding =
    AutoTime | AutoResolution | AutoFrame | AutoDelta | AutoMouse
  | StaticBinding static_value
  | EventTime string
  | EventValue string

type_synonym bindings = "(string \<times> uniform_binding) list"

datatype wallpaper_config =
    ImageConfig string
  | ShaderConfig string bindings
  | VideoConfig string bool "string option"

fun needs_tick :: "wallpaper_config \<Rightarrow> bool" where
  "needs_tick (ImageConfig source) = False"
| "needs_tick (ShaderConfig source uniforms) = True"
| "needs_tick (VideoConfig source loop_playback fallback) = True"

definition default_shadertoy_bindings :: bindings where
  "default_shadertoy_bindings =
     [(''iResolution'', AutoResolution), (''iTime'', AutoTime), (''iTimeDelta'', AutoDelta),
      (''iFrame'', AutoFrame), (''iMouse'', AutoMouse)]"

text \<open>\<open>Path::extension\<close>: what follows the last dot of the file name, if something stands before it.\<close>

definition path_extension :: "string \<Rightarrow> string option" where
  "path_extension p = (case file_name p of
     None \<Rightarrow> None
   | Some n \<Rightarrow> (case rsplit_once CHR ''.'' n of
       None \<Rightarrow> None
     | Some (before, after) \<Rightarrow> if before = [] then None else Some after))"

text \<open>An extension that is not UTF-8 equals none of the names below, so \<open>to_str\<close> changes nothing.\<close>

definition infer_from_path :: "string \<Rightarrow> wallpaper_config" where
  "infer_from_path path =
     (let ext = map_option to_ascii_lowercase (path_extension path) in
      if ext = Some ''frag'' \<or> ext = Some ''glsl'' then ShaderConfig path default_shadertoy_bindings
      else if ext = Some ''mp4'' \<or> ext = Some ''webm'' \<or> ext = Some ''mkv'' then VideoConfig path True None
      else ImageConfig path)"

datatype wallpaper_error =
    WpReadFailed string os_error
  | ParseFailed string
  | DecodeFailed string
  | WidthTooLarge u32
  | HeightTooLarge u32
  | TextureImportFailed
  | CompileFailed string

datatype uniform_type = Ty1f | Ty2f | Ty3f | Ty4f | Ty1i

record wp_env =
  wp_read :: "string \<Rightarrow> os_error + byte list"
  wp_read_to_string :: "string \<Rightarrow> os_error + string"
  wp_from_slice :: "byte list \<Rightarrow> wallpaper_config option"
  wp_load_image :: "byte list \<Rightarrow> (byte list \<times> u32 \<times> u32) option"
  wp_import :: "byte list \<Rightarrow> int \<times> int \<Rightarrow> bool"
  wp_compile :: "string \<Rightarrow> (string \<times> uniform_type) list \<Rightarrow> nat option"
  wp_secs_f32 :: "duration \<Rightarrow> f32"

definition from_json_file :: "wp_env \<Rightarrow> string \<Rightarrow> wallpaper_error + wallpaper_config" where
  "from_json_file W path =
     rbind (map_err (WpReadFailed path) (wp_read W path)) (\<lambda>bytes. ok_or (ParseFailed path) (wp_from_slice W bytes))"

definition wallpaper_from_env ::
    "wp_env \<Rightarrow> (string \<Rightarrow> string option) \<Rightarrow> wallpaper_error + wallpaper_config option" where
  "wallpaper_from_env W var = (case var ''HALMASUIT_WALLPAPER_CONFIG'' of
     Some raw \<Rightarrow> rbind (from_json_file W raw) (\<lambda>c. Inr (Some c))
   | None \<Rightarrow> (case var ''HALMASUIT_WALLPAPER_PATH'' of
       Some raw \<Rightarrow> Inr (Some (infer_from_path raw))
     | None \<Rightarrow> Inr None))"

section \<open>Shader source\<close>

definition eol :: string where "eol = [CHR 0x0A]"

definition SHADERTOY_PREAMBLE :: string where
  "SHADERTOY_PREAMBLE = eol @
     ''precision mediump float;'' @ eol @
     ''uniform vec3 iResolution;'' @ eol @
     ''uniform float iTime;'' @ eol @
     ''uniform float iTimeDelta;'' @ eol @
     ''uniform int iFrame;'' @ eol @
     ''uniform vec4 iMouse;'' @ eol"

definition SHADERTOY_WRAPPER :: string where
  "SHADERTOY_WRAPPER = eol @
     ''void main() {'' @ eol @
     ''    vec4 color;'' @ eol @
     ''    mainImage(color, gl_FragCoord.xy);'' @ eol @
     ''    gl_FragColor = color;'' @ eol @
     ''}'' @ eol"

definition DERIVATIVES_EXTENSION :: string where
  "DERIVATIVES_EXTENSION = ''#extension GL_OES_standard_derivatives : enable''"

text \<open>\<open>str::contains\<close>.\<close>

fun str_contains :: "string \<Rightarrow> string \<Rightarrow> bool" where
  "str_contains pat [] = (pat = [])"
| "str_contains pat (c # s) = (take (length pat) (c # s) = pat \<or> str_contains pat s)"

definition is_shadertoy_shape :: "string \<Rightarrow> bool" where
  "is_shadertoy_shape src = str_contains ''mainImage('' src"

definition uses_derivatives :: "string \<Rightarrow> bool" where
  "uses_derivatives src = (str_contains ''fwidth'' src \<or> str_contains ''dFdx'' src \<or> str_contains ''dFdy'' src)"

definition assemble_source :: "string \<Rightarrow> string" where
  "assemble_source user_src =
     (let body = (if is_shadertoy_shape user_src
                  then SHADERTOY_PREAMBLE @ eol @ user_src @ eol @ SHADERTOY_WRAPPER
                  else user_src) in
      if uses_derivatives body \<and> \<not> str_contains DERIVATIVES_EXTENSION body
      then DERIVATIVES_EXTENSION @ eol @ body
      else body)"

section \<open>Uniforms\<close>

datatype uniform_value =
    Val1f f32 | Val2f f32 f32 | Val3f f32 f32 f32 | Val4f f32 f32 f32 f32 | Val1i i32

fun uniform_type_for :: "uniform_binding \<Rightarrow> uniform_type" where
  "uniform_type_for AutoTime = Ty1f"
| "uniform_type_for AutoDelta = Ty1f"
| "uniform_type_for (EventTime event) = Ty1f"
| "uniform_type_for (EventValue event) = Ty1f"
| "uniform_type_for AutoResolution = Ty3f"
| "uniform_type_for AutoFrame = Ty1i"
| "uniform_type_for AutoMouse = Ty4f"
| "uniform_type_for (StaticBinding (StFloat a)) = Ty1f"
| "uniform_type_for (StaticBinding (StVec2 a b)) = Ty2f"
| "uniform_type_for (StaticBinding (StVec3 a b c)) = Ty3f"
| "uniform_type_for (StaticBinding (StVec4 a b c d)) = Ty4f"
| "uniform_type_for (StaticBinding (StInt i)) = Ty1i"
| "uniform_type_for (StaticBinding (StBool b)) = Ty1i"

fun static_to_uniform_value :: "static_value \<Rightarrow> uniform_value" where
  "static_to_uniform_value (StFloat a) = Val1f a"
| "static_to_uniform_value (StVec2 a b) = Val2f a b"
| "static_to_uniform_value (StVec3 a b c) = Val3f a b c"
| "static_to_uniform_value (StVec4 a b c d) = Val4f a b c d"
| "static_to_uniform_value (StInt i) = Val1i i"
| "static_to_uniform_value (StBool b) = Val1i (if b then 1 else 0)"

definition EVENT_TIME_UNSET :: f32 where "EVENT_TIME_UNSET = f32_minus_one"

definition EVENT_VALUE_UNSET :: f32 where "EVENT_VALUE_UNSET = f32_zero"

definition resolve_event_time :: "(string \<rightharpoonup> f32) \<Rightarrow> string \<Rightarrow> f32" where
  "resolve_event_time event_times event = (case event_times event of Some t \<Rightarrow> t | None \<Rightarrow> EVENT_TIME_UNSET)"

definition resolve_event_value :: "(string \<rightharpoonup> f32) \<Rightarrow> string \<Rightarrow> f32" where
  "resolve_event_value event_values event = (case event_values event of Some v \<Rightarrow> v | None \<Rightarrow> EVENT_VALUE_UNSET)"

fun apply_event ::
    "bindings \<Rightarrow> string \<Rightarrow> f32 \<Rightarrow> f32 \<Rightarrow> (string \<rightharpoonup> f32) \<times> (string \<rightharpoonup> f32) \<Rightarrow> string list \<times> (string \<rightharpoonup> f32) \<times> (string \<rightharpoonup> f32)" where
  "apply_event [] event_name time_secs value st = ([], st)"
| "apply_event ((uniform, binding) # bs) event_name time_secs value (ts, vs) = (case binding of
     EventTime event \<Rightarrow>
       if event = event_name
       then (let (written, st) = apply_event bs event_name time_secs value (ts(event \<mapsto> time_secs), vs) in
             (uniform # written, st))
       else apply_event bs event_name time_secs value (ts, vs)
   | EventValue event \<Rightarrow>
       if event = event_name
       then (let (written, st) = apply_event bs event_name time_secs value (ts, vs(event \<mapsto> value)) in
             (uniform # written, st))
       else apply_event bs event_name time_secs value (ts, vs)
   | _ \<Rightarrow> apply_event bs event_name time_secs value (ts, vs))"

text \<open>
  \<open>i32 as f32\<close>: the nearest float, ties to even.  The significand with its leading bit is added to
  the exponent one too low, so that a carry out of the rounding moves into the exponent.
\<close>

fun ilog2 :: "nat \<Rightarrow> nat" where
  "ilog2 n = (if n < 2 then 0 else Suc (ilog2 (n div 2)))"

definition i32_as_f32 :: "int \<Rightarrow> f32" where
  "i32_as_f32 n =
     (if n = 0 then 0
      else let m = nat \<bar>n\<bar>; e = ilog2 m;
               q = (if e \<le> 23 then m * 2 ^ (23 - e)
                    else let d = 2 ^ (e - 23); q0 = m div d; r = m mod d in
                         if d < 2 * r \<or> d = 2 * r \<and> odd q0 then q0 + 1 else q0) in
           (if n < 0 then 0x80000000 else 0) + of_nat ((e + 126) * 2 ^ 23 + q))"

section \<open>The shader back end\<close>

record shader_backend =
  sh_program :: nat
  sh_bindings :: bindings
  sh_frame_start :: instant
  sh_last_frame :: instant
  sh_frame_counter :: u64
  sh_last_output_size :: "int \<times> int"
  sh_event_times :: "string \<rightharpoonup> f32"
  sh_event_values :: "string \<rightharpoonup> f32"

text \<open>\<open>entry(k).or_insert(v)\<close> on the entries of a map.\<close>

definition entry_or_insert :: "string \<times> uniform_binding \<Rightarrow> bindings \<Rightarrow> bindings" where
  "entry_or_insert kv m = (if fst kv \<in> fst ` set m then m else m @ [kv])"

definition resolve_bindings :: "bool \<Rightarrow> bindings \<Rightarrow> bindings" where
  "resolve_bindings shadertoy uniforms =
     (let merged = (if shadertoy then fold entry_or_insert default_shadertoy_bindings uniforms else uniforms) in
      sort_key fst merged)"

definition uniform_names :: "bindings \<Rightarrow> (string \<times> uniform_type) list" where
  "uniform_names bs = map (\<lambda>(name, binding). (name, uniform_type_for binding)) bs"

definition shader_backend_new ::
    "wp_env \<Rightarrow> instant \<Rightarrow> string \<Rightarrow> bindings \<Rightarrow> wallpaper_error + shader_backend" where
  "shader_backend_new W now source uniforms =
     rbind (map_err (WpReadFailed source) (wp_read_to_string W source)) (\<lambda>raw.
     let final_src = assemble_source raw; bs = resolve_bindings (is_shadertoy_shape raw) uniforms in
     rbind (ok_or (CompileFailed source) (wp_compile W final_src (uniform_names bs))) (\<lambda>program.
     Inr \<lparr>sh_program = program, sh_bindings = bs, sh_frame_start = now, sh_last_frame = now, sh_frame_counter = 0,
          sh_last_output_size = (0, 0), sh_event_times = Map.empty, sh_event_values = Map.empty\<rparr>))"

fun current_value :: "shader_backend \<Rightarrow> f32 \<Rightarrow> f32 \<Rightarrow> i32 \<Rightarrow> f32 \<times> f32 \<Rightarrow> uniform_binding \<Rightarrow> uniform_value" where
  "current_value s time_secs delta_secs frame_id resolution AutoTime = Val1f time_secs"
| "current_value s time_secs delta_secs frame_id resolution AutoResolution = Val3f (fst resolution) (snd resolution) f32_one"
| "current_value s time_secs delta_secs frame_id resolution AutoFrame = Val1i frame_id"
| "current_value s time_secs delta_secs frame_id resolution AutoDelta = Val1f delta_secs"
| "current_value s time_secs delta_secs frame_id resolution AutoMouse = Val4f f32_zero f32_zero f32_zero f32_zero"
| "current_value s time_secs delta_secs frame_id resolution (StaticBinding v) = static_to_uniform_value v"
| "current_value s time_secs delta_secs frame_id resolution (EventTime event) =
     Val1f (resolve_event_time (sh_event_times s) event)"
| "current_value s time_secs delta_secs frame_id resolution (EventValue event) =
     Val1f (resolve_event_value (sh_event_values s) event)"

definition current_uniforms ::
    "shader_backend \<Rightarrow> f32 \<Rightarrow> f32 \<Rightarrow> i32 \<Rightarrow> f32 \<times> f32 \<Rightarrow> (string \<times> uniform_value) list" where
  "current_uniforms s time_secs delta_secs frame_id resolution =
     map (\<lambda>(name, binding). (name, current_value s time_secs delta_secs frame_id resolution binding)) (sh_bindings s)"

definition shader_notify_event ::
    "wp_env \<Rightarrow> instant \<Rightarrow> string \<Rightarrow> f32 \<Rightarrow> shader_backend \<Rightarrow> string list \<times> shader_backend" where
  "shader_notify_event W now event_name value s =
     (let time_secs = wp_secs_f32 W (now - sh_frame_start s);
          (written, ts, vs) =
            apply_event (sh_bindings s) event_name time_secs value (sh_event_times s, sh_event_values s) in
      (written, s\<lparr>sh_event_times := ts, sh_event_values := vs\<rparr>))"

text \<open>What is handed to the renderer: a texture with its source and destination sizes, or a shader pass.\<close>

record texture =
  tx_bytes :: "byte list"
  tx_size :: "int \<times> int"

datatype wallpaper_element =
    WallpaperTexture texture "int \<times> int" "int \<times> int"
  | WallpaperShader nat "int \<times> int" "(string \<times> uniform_value) list"

definition shader_render_element ::
    "wp_env \<Rightarrow> instant \<Rightarrow> int \<times> int \<Rightarrow> shader_backend \<Rightarrow> wallpaper_element \<times> shader_backend" where
  "shader_render_element W now output_size s =
     (let time_secs = wp_secs_f32 W (now - sh_frame_start s);
          delta_secs = wp_secs_f32 W (now - sh_last_frame s);
          frame_id = (if unat (sh_frame_counter s) < 2 ^ 31 then ucast (sh_frame_counter s) else 0x7FFFFFFF);
          resolution = (i32_as_f32 (fst output_size), i32_as_f32 (snd output_size));
          uniforms = current_uniforms s time_secs delta_secs frame_id resolution in
      (WallpaperShader (sh_program s) output_size uniforms,
       s\<lparr>sh_last_frame := now,
         sh_frame_counter := (if sh_frame_counter s = - 1 then - 1 else sh_frame_counter s + 1),
         sh_last_output_size := output_size\<rparr>))"

section \<open>The image back end\<close>

record image_backend =
  ib_texture :: texture
  ib_size :: "int \<times> int"

definition image_decode :: "wp_env \<Rightarrow> string \<Rightarrow> wallpaper_error + byte list \<times> int \<times> int" where
  "image_decode W path =
     rbind (map_err (WpReadFailed path) (wp_read W path)) (\<lambda>bytes.
     rbind (ok_or (DecodeFailed path) (wp_load_image W bytes)) (\<lambda>(raw, w, h).
     if 2 ^ 31 \<le> unat w then Inl (WidthTooLarge w)
     else if 2 ^ 31 \<le> unat h then Inl (HeightTooLarge h)
     else Inr (raw, uint w, uint h)))"

definition from_memory :: "wp_env \<Rightarrow> byte list \<Rightarrow> int \<times> int \<Rightarrow> wallpaper_error + texture" where
  "from_memory W bytes sz = (if wp_import W bytes sz then Inr \<lparr>tx_bytes = bytes, tx_size = sz\<rparr> else Inl TextureImportFailed)"

definition image_backend_new :: "wp_env \<Rightarrow> string \<Rightarrow> wallpaper_error + image_backend" where
  "image_backend_new W path =
     rbind (image_decode W path) (\<lambda>(rgba, w, h).
     rbind (from_memory W rgba (w, h)) (\<lambda>buffer. Inr \<lparr>ib_texture = buffer, ib_size = (w, h)\<rparr>))"

definition image_render_element :: "int \<times> int \<Rightarrow> image_backend \<Rightarrow> wallpaper_element" where
  "image_render_element output_size b = WallpaperTexture (ib_texture b) (ib_size b) output_size"

section \<open>The video back end\<close>

record video_backend =
  vb_source :: string
  vb_relay :: "decoder_relay option"
  vb_spawn_attempted :: bool
  vb_fallback :: "string option"
  vb_texture :: texture
  vb_size :: "int \<times> int"
  vb_last_uploaded_idx :: "u64 option"

definition video_backend_new ::
    "wp_env \<Rightarrow> string \<Rightarrow> bool \<Rightarrow> string option \<Rightarrow> wallpaper_error + video_backend" where
  "video_backend_new W source loop_playback fallback =
     rbind (from_memory W [0, 0, 0, 255] (1, 1)) (\<lambda>buffer.
     Inr \<lparr>vb_source = source, vb_relay = None, vb_spawn_attempted = False, vb_fallback = fallback,
          vb_texture = buffer, vb_size = (1, 1), vb_last_uploaded_idx = None\<rparr>)"

definition ensure_relay_spawned :: "decoder_env \<Rightarrow> spawn_sys \<Rightarrow> video_backend \<Rightarrow> video_backend" where
  "ensure_relay_spawned E K v =
     (if vb_spawn_attempted v then v
      else case decoder_relay_spawn E K (vb_source v) of
          Inr relay \<Rightarrow> v\<lparr>vb_spawn_attempted := True, vb_relay := Some relay\<rparr>
        | Inl err \<Rightarrow> v\<lparr>vb_spawn_attempted := True\<rparr>)"

datatype fallback_kind = FallbackImage string

definition video_requested_fallback :: "video_backend \<Rightarrow> fallback_kind option" where
  "video_requested_fallback v =
     (let relay_dead = (case vb_relay v of Some r \<Rightarrow> is_dead r | None \<Rightarrow> False) in
      if relay_dead then map_option FallbackImage (vb_fallback v) else None)"

text \<open>Draining the relay, unless it is dead; the arguments are the clock, the kernel and the datagrams of the poll.\<close>

definition drain_relay :: "decoder_env \<Rightarrow> poll_event \<Rightarrow> video_backend \<Rightarrow> video_backend" where
  "drain_relay E pe v = (case vb_relay v of
     Some r \<Rightarrow> if is_dead r then v
               else (let (now, K, queue) = pe in v\<lparr>vb_relay := Some (snd (poll_frames E K now queue r))\<rparr>)
   | None \<Rightarrow> v)"

definition video_poll_pending :: "decoder_env \<Rightarrow> poll_event \<Rightarrow> video_backend \<Rightarrow> video_backend" where
  "video_poll_pending E pe v = drain_relay E pe (ensure_relay_spawned E (fst (snd pe)) v)"

definition video_upload :: "wp_env \<Rightarrow> video_backend \<Rightarrow> (u64 \<times> (int \<times> int) \<times> texture) option" where
  "video_upload W v = (case vb_relay v of
     None \<Rightarrow> None
   | Some r \<Rightarrow> (case relay_latest_frame r of
       None \<Rightarrow> None
     | Some frame \<Rightarrow>
         if Some (lf_frame_idx frame) = vb_last_uploaded_idx v then None
         else if 2 ^ 31 \<le> unat (lf_width frame) then None
         else if 2 ^ 31 \<le> unat (lf_height frame) then None
         else let sz = (uint (lf_width frame), uint (lf_height frame)) in
           (case from_memory W (lf_bytes frame) sz of
             Inr buffer \<Rightarrow> Some (lf_frame_idx frame, sz, buffer)
           | Inl err \<Rightarrow> None)))"

definition video_render_element ::
    "wp_env \<Rightarrow> decoder_env \<Rightarrow> poll_event \<Rightarrow> int \<times> int \<Rightarrow> video_backend \<Rightarrow> wallpaper_element \<times> video_backend" where
  "video_render_element W E pe output_size v =
     (let v1 = drain_relay E pe v;
          v2 = (case video_upload W v1 of
                  Some (idx, sz, buffer) \<Rightarrow> v1\<lparr>vb_texture := buffer, vb_size := sz, vb_last_uploaded_idx := Some idx\<rparr>
                | None \<Rightarrow> v1) in
      (WallpaperTexture (vb_texture v2) (vb_size v2) output_size, v2))"

section \<open>The engine\<close>

datatype backend = ImageBackend image_backend | ShaderBackend shader_backend | VideoBackend video_backend

record wallpaper_engine =
  en_backend :: "backend option"

text \<open>The trait's methods, with the defaults of \<open>backend.rs\<close> where a back end does not override them.\<close>

fun backend_poll_pending :: "decoder_env \<Rightarrow> poll_event \<Rightarrow> backend \<Rightarrow> backend" where
  "backend_poll_pending E pe (VideoBackend v) = VideoBackend (video_poll_pending E pe v)"
| "backend_poll_pending E pe (ImageBackend b) = ImageBackend b"
| "backend_poll_pending E pe (ShaderBackend s) = ShaderBackend s"

fun backend_requested_fallback :: "backend \<Rightarrow> fallback_kind option" where
  "backend_requested_fallback (VideoBackend v) = video_requested_fallback v"
| "backend_requested_fallback (ImageBackend b) = None"
| "backend_requested_fallback (ShaderBackend s) = None"

fun backend_wants_continuous :: "backend \<Rightarrow> bool" where
  "backend_wants_continuous (VideoBackend v) = True"
| "backend_wants_continuous (ShaderBackend s) = True"
| "backend_wants_continuous (ImageBackend b) = False"

fun backend_notify_event :: "wp_env \<Rightarrow> instant \<Rightarrow> string \<Rightarrow> f32 \<Rightarrow> backend \<Rightarrow> string list \<times> backend" where
  "backend_notify_event W now event_name value (ShaderBackend s) =
     (let (written, s') = shader_notify_event W now event_name value s in (written, ShaderBackend s'))"
| "backend_notify_event W now event_name value (ImageBackend b) = ([], ImageBackend b)"
| "backend_notify_event W now event_name value (VideoBackend v) = ([], VideoBackend v)"

fun backend_render_element ::
    "wp_env \<Rightarrow> decoder_env \<Rightarrow> poll_event \<Rightarrow> int \<times> int \<Rightarrow> backend \<Rightarrow> wallpaper_element \<times> backend" where
  "backend_render_element W E pe output_size (ImageBackend b) = (image_render_element output_size b, ImageBackend b)"
| "backend_render_element W E pe output_size (ShaderBackend s) =
     (let (el, s') = shader_render_element W (fst pe) output_size s in (el, ShaderBackend s'))"
| "backend_render_element W E pe output_size (VideoBackend v) =
     (let (el, v') = video_render_element W E pe output_size v in (el, VideoBackend v'))"

definition engine_empty :: wallpaper_engine where
  "engine_empty = \<lparr>en_backend = None\<rparr>"

definition with_backend :: "backend \<Rightarrow> wallpaper_engine" where
  "with_backend b = \<lparr>en_backend = Some b\<rparr>"

definition engine_notify_event ::
    "wp_env \<Rightarrow> instant \<Rightarrow> string \<Rightarrow> f32 \<Rightarrow> wallpaper_engine \<Rightarrow> string list \<times> wallpaper_engine" where
  "engine_notify_event W now event_name value en = (case en_backend en of
     Some b \<Rightarrow> (let (written, b') = backend_notify_event W now event_name value b in (written, en\<lparr>en_backend := Some b'\<rparr>))
   | None \<Rightarrow> ([], en))"

definition has_backend :: "wallpaper_engine \<Rightarrow> bool" where
  "has_backend en = (en_backend en \<noteq> None)"

definition maybe_swap_fallback :: "wp_env \<Rightarrow> wallpaper_engine \<Rightarrow> bool \<times> wallpaper_engine" where
  "maybe_swap_fallback W en = (case Option.bind (en_backend en) backend_requested_fallback of
     None \<Rightarrow> (False, en)
   | Some (FallbackImage path) \<Rightarrow> (case image_backend_new W path of
       Inr img \<Rightarrow> (True, en\<lparr>en_backend := Some (ImageBackend img)\<rparr>)
     | Inl err \<Rightarrow> (False, en)))"

definition engine_render_element ::
    "wp_env \<Rightarrow> decoder_env \<Rightarrow> poll_event \<Rightarrow> int \<times> int \<Rightarrow> wallpaper_engine \<Rightarrow> wallpaper_element option \<times> wallpaper_engine" where
  "engine_render_element W E pe output_size en =
     (let (_, en1) = maybe_swap_fallback W en in
      case en_backend en1 of
        None \<Rightarrow> (None, en1)
      | Some b \<Rightarrow> (let (el, b') = backend_render_element W E pe output_size b in (Some el, en1\<lparr>en_backend := Some b'\<rparr>)))"

definition engine_tick :: "wp_env \<Rightarrow> decoder_env \<Rightarrow> poll_event \<Rightarrow> wallpaper_engine \<Rightarrow> bool \<times> wallpaper_engine" where
  "engine_tick W E pe en =
     maybe_swap_fallback W (en\<lparr>en_backend := map_option (backend_poll_pending E pe) (en_backend en)\<rparr>)"

definition engine_wants_continuous :: "wallpaper_engine \<Rightarrow> bool" where
  "engine_wants_continuous en = (case en_backend en of Some b \<Rightarrow> backend_wants_continuous b | None \<Rightarrow> False)"

definition engine_swap :: "backend \<Rightarrow> wallpaper_engine \<Rightarrow> backend option \<times> wallpaper_engine" where
  "engine_swap new_backend en = (en_backend en, en\<lparr>en_backend := Some new_backend\<rparr>)"

definition wallpaper_slot :: "nat \<Rightarrow> bool \<Rightarrow> nat option" where
  "wallpaper_slot n_surfaces has = (if has then Some n_surfaces else None)"

text \<open>The back end built for the configuration when the DRM pipeline is set up.\<close>

definition build_engine ::
    "wp_env \<Rightarrow> instant \<Rightarrow> wallpaper_config option \<Rightarrow> wallpaper_error + wallpaper_engine" where
  "build_engine W now cfg = (case cfg of
     None \<Rightarrow> Inr engine_empty
   | Some (ImageConfig source) \<Rightarrow> rbind (image_backend_new W source) (\<lambda>b. Inr (with_backend (ImageBackend b)))
   | Some (ShaderConfig source uniforms) \<Rightarrow>
       rbind (shader_backend_new W now source uniforms) (\<lambda>b. Inr (with_backend (ShaderBackend b)))
   | Some (VideoConfig source loop_playback fallback) \<Rightarrow>
       rbind (video_backend_new W source loop_playback fallback) (\<lambda>b. Inr (with_backend (VideoBackend b))))"

declare ilog2.simps [simp del]

section \<open>Shader source and bindings\<close>

lemma str_contains_iff: "str_contains pat s \<longleftrightarrow> (\<exists>a b. s = a @ pat @ b)"
proof (induction s)
  case (Cons c s)
  have "(\<exists>a b. c # s = a @ pat @ b) \<longleftrightarrow> (\<exists>b. c # s = pat @ b) \<or> (\<exists>a b. s = a @ pat @ b)" (is "?L \<longleftrightarrow> ?R")
  proof
    assume ?L
    then obtain a b where "c # s = a @ pat @ b" by blast
    then show ?R by (cases a) auto
  next
    assume ?R
    then show ?L by (metis append_Cons append_Nil)
  qed
  moreover have "(\<exists>b. c # s = pat @ b) \<longleftrightarrow> take (length pat) (c # s) = pat"
    by (metis append_eq_conv_conj append_take_drop_id)
  ultimately show ?case using Cons.IH by simp
qed simp

lemma str_contains_Nil [simp]: "str_contains [] s"
  by (cases s) simp_all

lemma str_contains_newline:
  assumes "CHR 0x0A \<notin> set pat"
  shows "str_contains pat (s @ eol @ t) \<longleftrightarrow> str_contains pat s \<or> str_contains pat t"
proof
  assume "str_contains pat (s @ eol @ t)"
  then obtain a b where e: "s @ [CHR 0x0A] @ t = a @ pat @ b"
    unfolding str_contains_iff eol_def by blast
  from e consider us where "s = a @ us" "us @ CHR 0x0A # t = pat @ b" | us where "s @ us = a" "CHR 0x0A # t = us @ pat @ b"
    by (auto simp: append_eq_append_conv2)
  then show "str_contains pat s \<or> str_contains pat t"
  proof cases
    case 1
    then obtain c where "us = pat @ c \<or> us @ c = pat \<and> CHR 0x0A # t = c @ b" by (auto simp: append_eq_append_conv2)
    moreover from this assms have "us @ c = pat \<Longrightarrow> c = [] \<or> us = pat @ c" by (cases c) auto
    ultimately have "\<exists>c. us = pat @ c" by auto
    then show ?thesis using 1(1) unfolding str_contains_iff by auto
  next
    case 2
    then show ?thesis using assms unfolding str_contains_iff by (cases us; cases pat) auto
  qed
next
  assume "str_contains pat s \<or> str_contains pat t"
  then show "str_contains pat (s @ eol @ t)"
    unfolding str_contains_iff by (metis append.assoc)
qed

lemma apply_event_eq:
  "apply_event bs n t v (ts, vs) =
     (map fst (filter (\<lambda>(u, b). b = EventTime n \<or> b = EventValue n) bs),
      if EventTime n \<in> snd ` set bs then ts(n \<mapsto> t) else ts,
      if EventValue n \<in> snd ` set bs then vs(n \<mapsto> v) else vs)"
  by (induction bs n t v "(ts, vs)" arbitrary: ts vs rule: apply_event.induct)
    (auto split: uniform_binding.splits prod.splits)

text \<open>What the preamble and the wrapper contribute to the searches.\<close>

lemma preamble_plain [simp]:
  "\<not> str_contains ''fwidth'' SHADERTOY_PREAMBLE" "\<not> str_contains ''dFdx'' SHADERTOY_PREAMBLE"
  "\<not> str_contains ''dFdy'' SHADERTOY_PREAMBLE" "\<not> str_contains DERIVATIVES_EXTENSION SHADERTOY_PREAMBLE"
  "\<not> str_contains ''fwidth'' SHADERTOY_WRAPPER" "\<not> str_contains ''dFdx'' SHADERTOY_WRAPPER"
  "\<not> str_contains ''dFdy'' SHADERTOY_WRAPPER" "\<not> str_contains DERIVATIVES_EXTENSION SHADERTOY_WRAPPER"
  by (simp_all add: SHADERTOY_PREAMBLE_def SHADERTOY_WRAPPER_def DERIVATIVES_EXTENSION_def eol_def)

definition shader_body :: "string \<Rightarrow> string" where
  "shader_body user_src = (if is_shadertoy_shape user_src
     then SHADERTOY_PREAMBLE @ eol @ user_src @ eol @ SHADERTOY_WRAPPER else user_src)"

lemma shader_body_search:
  "uses_derivatives (shader_body src) = uses_derivatives src"
  "str_contains DERIVATIVES_EXTENSION (shader_body src) = str_contains DERIVATIVES_EXTENSION src"
proof -
  have "CHR 0x0A \<notin> set DERIVATIVES_EXTENSION" by (simp add: DERIVATIVES_EXTENSION_def)
  then show "str_contains DERIVATIVES_EXTENSION (shader_body src) = str_contains DERIVATIVES_EXTENSION src"
    by (simp add: shader_body_def str_contains_newline)
qed (simp add: shader_body_def uses_derivatives_def str_contains_newline)

lemma assemble_source_eq:
  "assemble_source src = (if uses_derivatives src \<and> \<not> str_contains DERIVATIVES_EXTENSION src
     then DERIVATIVES_EXTENSION @ eol @ shader_body src else shader_body src)"
  using shader_body_search [of src] by (simp add: assemble_source_def Let_def shader_body_def)

lemma derivatives_are_enabled:
  assumes "uses_derivatives src"
  shows "str_contains DERIVATIVES_EXTENSION (assemble_source src)"
    and "\<not> str_contains DERIVATIVES_EXTENSION src \<Longrightarrow>
      assemble_source src = DERIVATIVES_EXTENSION @ eol @ shader_body src"
proof -
  show "str_contains DERIVATIVES_EXTENSION (assemble_source src)"
  proof (cases "str_contains DERIVATIVES_EXTENSION src")
    case True
    then show ?thesis using assms by (simp add: assemble_source_eq shader_body_search)
  next
    case False
    then have "assemble_source src = [] @ DERIVATIVES_EXTENSION @ (eol @ shader_body src)"
      using assms by (simp add: assemble_source_eq)
    then show ?thesis unfolding str_contains_iff by blast
  qed
qed (use assms in \<open>simp add: assemble_source_eq\<close>)

text \<open>
  A Shadertoy source that declares the directive itself is not given another one, and its own
  stands behind the preamble's \<open>precision\<close> statement, where the language does not allow it.
\<close>

lemma declared_directive_follows_preamble:
  assumes "is_shadertoy_shape src" and "str_contains DERIVATIVES_EXTENSION src"
  shows "assemble_source src = SHADERTOY_PREAMBLE @ eol @ src @ eol @ SHADERTOY_WRAPPER"
  using assms by (simp add: assemble_source_eq shader_body_def)

text \<open>
  The bindings: a user's entry wins over the default, and the list the shader is compiled with
  does not depend on the iteration order of the map.
\<close>

lemma fold_entry_or_insert:
  assumes "distinct (map fst ds)"
  shows "fold entry_or_insert ds us = us @ filter (\<lambda>kv. fst kv \<notin> fst ` set us) ds"
  using assms
proof (induction ds arbitrary: us)
  case (Cons d ds)
  have "filter (\<lambda>kv. fst kv \<noteq> fst d \<and> fst kv \<notin> fst ` set us) ds = filter (\<lambda>kv. fst kv \<notin> fst ` set us) ds"
    using Cons.prems by (intro filter_cong) (auto simp: rev_image_eqI)
  then show ?case using Cons by (simp add: entry_or_insert_def)
qed simp

lemma distinct_default_bindings: "distinct (map fst default_shadertoy_bindings)"
  by (simp add: default_shadertoy_bindings_def)

definition merged_bindings :: "bool \<Rightarrow> bindings \<Rightarrow> bindings" where
  "merged_bindings shadertoy us = us @ (if shadertoy then filter (\<lambda>kv. fst kv \<notin> fst ` set us) default_shadertoy_bindings else [])"

lemma resolve_bindings_eq: "resolve_bindings b us = sort_key fst (merged_bindings b us)"
  by (simp add: resolve_bindings_def merged_bindings_def fold_entry_or_insert [OF distinct_default_bindings])

lemma distinct_merged_bindings:
  assumes "distinct (map fst us)"
  shows "distinct (map fst (merged_bindings b us))"
proof -
  have "distinct (map fst (filter (\<lambda>kv. fst kv \<notin> fst ` set us) default_shadertoy_bindings))"
    by (rule distinct_map_filter [OF distinct_default_bindings])
  then show ?thesis using assms by (force simp: merged_bindings_def)
qed

lemma resolve_bindings_props:
  "set (resolve_bindings b us) = set (merged_bindings b us)" "sorted (map fst (resolve_bindings b us))"
  "distinct (map fst us) \<Longrightarrow> distinct (map fst (resolve_bindings b us))"
proof -
  show "set (resolve_bindings b us) = set (merged_bindings b us)" "sorted (map fst (resolve_bindings b us))"
    by (simp_all add: resolve_bindings_eq)
  assume "distinct (map fst us)"
  then have "distinct (merged_bindings b us)" "inj_on fst (set (merged_bindings b us))"
    using distinct_merged_bindings [of us b] by (simp_all add: distinct_map)
  then show "distinct (map fst (resolve_bindings b us))"
    by (simp add: resolve_bindings_eq distinct_map)
qed

lemma merged_bindings_set: "set us = set us' \<Longrightarrow> set (merged_bindings b us) = set (merged_bindings b us')"
  by (simp add: merged_bindings_def)

lemma resolve_bindings_order_free:
  assumes "set us = set us'" and "distinct (map fst us)" and "distinct (map fst us')"
  shows "resolve_bindings b us = resolve_bindings b us'"
proof (rule map_sorted_distinct_set_unique [of fst])
  show "inj_on fst (set (resolve_bindings b us) \<union> set (resolve_bindings b us'))"
    using distinct_merged_bindings [OF assms(2)] merged_bindings_set [OF assms(1)]
    by (simp add: resolve_bindings_props(1) distinct_map)
  show "set (resolve_bindings b us) = set (resolve_bindings b us')"
    using merged_bindings_set [OF assms(1)] by (simp add: resolve_bindings_props(1))
qed (use assms resolve_bindings_props(2,3) in \<open>blast+\<close>)

lemma map_of_filter_fst: "P k \<Longrightarrow> map_of (filter (\<lambda>kv. P (fst kv)) xs) k = map_of xs k"
  by (induction xs) auto

lemma user_binding_wins:
  assumes "distinct (map fst us)"
  shows "map_of (resolve_bindings True us) k = (case map_of us k of Some b \<Rightarrow> Some b | None \<Rightarrow> map_of default_shadertoy_bindings k)"
proof -
  have "map_of (resolve_bindings True us) = map_of (merged_bindings True us)"
    using resolve_bindings_props(1) [of True us] resolve_bindings_props(3) [OF assms, of True] distinct_merged_bindings [OF assms] assms
    by (simp add: map_of_inject_set)
  moreover have "map_of (filter (\<lambda>kv. fst kv \<notin> fst ` set us) default_shadertoy_bindings) k =
      map_of default_shadertoy_bindings k" if "map_of us k = None"
    using that map_of_filter_fst [of "\<lambda>n. n \<notin> fst ` set us"] by (simp add: map_of_eq_None_iff)
  ultimately show ?thesis by (simp add: merged_bindings_def map_add_def option.case_eq_if)
qed

section \<open>Uniforms over a run of the shader\<close>

fun value_type :: "uniform_value \<Rightarrow> uniform_type" where
  "value_type (Val1f a) = Ty1f"
| "value_type (Val2f a b) = Ty2f"
| "value_type (Val3f a b c) = Ty3f"
| "value_type (Val4f a b c d) = Ty4f"
| "value_type (Val1i i) = Ty1i"

lemma current_value_type: "value_type (current_value s t d f r b) = uniform_type_for b"
  by (cases b rule: uniform_type_for.cases) simp_all

lemma current_uniforms_typed:
  "map (\<lambda>(name, v). (name, value_type v)) (current_uniforms s t d f r) = uniform_names (sh_bindings s)"
  by (simp add: current_uniforms_def uniform_names_def split_beta comp_def current_value_type)

text \<open>What happens to a shader back end: an event of the bus is fired, or a frame is rendered.\<close>

datatype shader_event = EventFired instant string f32 | FrameDrawn instant "int \<times> int"

fun shader_step :: "wp_env \<Rightarrow> shader_backend \<Rightarrow> shader_event \<Rightarrow> shader_backend \<times> wallpaper_element option" where
  "shader_step W s (EventFired now name value) = (snd (shader_notify_event W now name value s), None)"
| "shader_step W s (FrameDrawn now sz) = (let (el, s') = shader_render_element W now sz s in (s', Some el))"

lemma shader_new_Inr:
  assumes "shader_backend_new W now source us = Inr s"
  obtains raw where "wp_read_to_string W source = Inr raw"
    "wp_compile W (assemble_source raw) (uniform_names (sh_bindings s)) = Some (sh_program s)"
    "sh_bindings s = resolve_bindings (is_shadertoy_shape raw) us" "sh_frame_start s = now"
    "sh_event_times s = Map.empty" "sh_event_values s = Map.empty" "sh_frame_counter s = 0"
  using assms
  by (auto simp: shader_backend_new_def rbind_def map_err_def ok_or_def Let_def split: sum.splits option.splits)

lemma shader_step_keeps [simp]:
  "sh_program (fst (shader_step W s ev)) = sh_program s"
  "sh_bindings (fst (shader_step W s ev)) = sh_bindings s"
  "sh_frame_start (fst (shader_step W s ev)) = sh_frame_start s"
  by (cases ev; simp add: shader_notify_event_def shader_render_element_def Let_def split_beta)+

lemma shader_run_keeps [simp]:
  "sh_program (final (shader_step W) s evs) = sh_program s"
  "sh_bindings (final (shader_step W) s evs) = sh_bindings s"
  "sh_frame_start (final (shader_step W) s evs) = sh_frame_start s"
  by (induction evs arbitrary: s) simp_all

text \<open>The last time an event fired, and with which value.\<close>

fun last_fired :: "string \<Rightarrow> shader_event list \<Rightarrow> (instant \<times> f32) option" where
  "last_fired n [] = None"
| "last_fired n (ev # evs) = (case last_fired n evs of
     Some x \<Rightarrow> Some x
   | None \<Rightarrow> (case ev of EventFired now m v \<Rightarrow> if m = n then Some (now, v) else None | FrameDrawn now sz \<Rightarrow> None))"

lemma shader_step_maps:
  "sh_event_times (fst (shader_step W s ev)) = (case ev of
     EventFired now n v \<Rightarrow> if EventTime n \<in> snd ` set (sh_bindings s)
       then (sh_event_times s)(n \<mapsto> wp_secs_f32 W (now - sh_frame_start s)) else sh_event_times s
   | FrameDrawn now sz \<Rightarrow> sh_event_times s)"
  "sh_event_values (fst (shader_step W s ev)) = (case ev of
     EventFired now n v \<Rightarrow> if EventValue n \<in> snd ` set (sh_bindings s) then (sh_event_values s)(n \<mapsto> v) else sh_event_values s
   | FrameDrawn now sz \<Rightarrow> sh_event_values s)"
  by (cases ev; simp add: shader_notify_event_def shader_render_element_def Let_def split_beta apply_event_eq)+

lemma shader_run_maps:
  "EventTime n \<in> snd ` set (sh_bindings s) \<Longrightarrow> sh_event_times (final (shader_step W) s evs) n =
     (case last_fired n evs of Some (now, v) \<Rightarrow> Some (wp_secs_f32 W (now - sh_frame_start s)) | None \<Rightarrow> sh_event_times s n)"
  "EventValue n \<in> snd ` set (sh_bindings s) \<Longrightarrow> sh_event_values (final (shader_step W) s evs) n =
     (case last_fired n evs of Some (now, v) \<Rightarrow> Some v | None \<Rightarrow> sh_event_values s n)"
  by (induction evs arbitrary: s; simp add: shader_step_maps split: option.split shader_event.split)+

lemma binding_uniform:
  "(u, b) \<in> set (sh_bindings s) \<Longrightarrow> (u, current_value s t d f r b) \<in> set (current_uniforms s t d f r)"
  by (force simp: current_uniforms_def)

lemma shader_run_uniforms:
  assumes "shader_backend_new W t0 source us = Inr s0"
  shows "map (\<lambda>(name, v). (name, value_type v)) (current_uniforms (final (shader_step W) s0 evs) t d f r) =
      uniform_names (sh_bindings s0)"
    and "(u, EventTime n) \<in> set (sh_bindings s0) \<Longrightarrow>
      (u, Val1f (case last_fired n evs of None \<Rightarrow> f32_minus_one | Some (now, v) \<Rightarrow> wp_secs_f32 W (now - t0)))
        \<in> set (current_uniforms (final (shader_step W) s0 evs) t d f r)"
    and "(u, EventValue n) \<in> set (sh_bindings s0) \<Longrightarrow>
      (u, Val1f (case last_fired n evs of None \<Rightarrow> f32_zero | Some (now, v) \<Rightarrow> v))
        \<in> set (current_uniforms (final (shader_step W) s0 evs) t d f r)"
proof -
  let ?s = "final (shader_step W) s0 evs"
  obtain t0: "sh_frame_start s0 = t0" "sh_event_times s0 = Map.empty" "sh_event_values s0 = Map.empty"
    using assms by (rule shader_new_Inr) blast
  show "map (\<lambda>(name, v). (name, value_type v)) (current_uniforms ?s t d f r) = uniform_names (sh_bindings s0)"
    by (simp add: current_uniforms_typed)
  assume b: "(u, EventTime n) \<in> set (sh_bindings s0)"
  then have "EventTime n \<in> snd ` set (sh_bindings s0)" by force
  then have "resolve_event_time (sh_event_times ?s) n =
      (case last_fired n evs of None \<Rightarrow> f32_minus_one | Some (now, v) \<Rightarrow> wp_secs_f32 W (now - t0))"
    by (simp add: resolve_event_time_def shader_run_maps t0 EVENT_TIME_UNSET_def split: option.split)
  then show "(u, Val1f (case last_fired n evs of None \<Rightarrow> f32_minus_one | Some (now, v) \<Rightarrow> wp_secs_f32 W (now - t0)))
      \<in> set (current_uniforms ?s t d f r)"
    using binding_uniform [of u "EventTime n" ?s t d f r] b by simp
next
  let ?s = "final (shader_step W) s0 evs"
  obtain t0: "sh_frame_start s0 = t0" "sh_event_times s0 = Map.empty" "sh_event_values s0 = Map.empty"
    using assms by (rule shader_new_Inr) blast
  assume b: "(u, EventValue n) \<in> set (sh_bindings s0)"
  then have "EventValue n \<in> snd ` set (sh_bindings s0)" by force
  then have "resolve_event_value (sh_event_values ?s) n = (case last_fired n evs of None \<Rightarrow> f32_zero | Some (now, v) \<Rightarrow> v)"
    by (simp add: resolve_event_value_def shader_run_maps t0 EVENT_VALUE_UNSET_def split: option.split)
  then show "(u, Val1f (case last_fired n evs of None \<Rightarrow> f32_zero | Some (now, v) \<Rightarrow> v)) \<in> set (current_uniforms ?s t d f r)"
    using binding_uniform [of u "EventValue n" ?s t d f r] b by simp
qed

text \<open>
  C20: every frame a shader wallpaper draws hands the GPU program exactly the uniforms it was
  compiled with, each of its declared type; a uniform bound to an event's time holds the time of
  the last firing on the shader's own clock, or -1.0 before the first, and one bound to an event's
  value holds the last value, or 0.0.
\<close>

theorem event_uniforms_track_the_bus:
  assumes "shader_backend_new W t0 source us = Inr s0"
    and "fst (shader_render_element W now sz (final (shader_step W) s0 evs)) = WallpaperShader p area uniforms"
  shows "(\<exists>src. wp_compile W src (map (\<lambda>(name, v). (name, value_type v)) uniforms) = Some p) \<and>
    (\<forall>u n. (u, EventTime n) \<in> set (sh_bindings s0) \<longrightarrow>
      (u, Val1f (case last_fired n evs of None \<Rightarrow> 0xBF800000 | Some (at, v) \<Rightarrow> wp_secs_f32 W (at - t0))) \<in> set uniforms) \<and>
    (\<forall>u n. (u, EventValue n) \<in> set (sh_bindings s0) \<longrightarrow>
      (u, Val1f (case last_fired n evs of None \<Rightarrow> 0 | Some (at, v) \<Rightarrow> v)) \<in> set uniforms)"
proof -
  obtain t d f r where u: "uniforms = current_uniforms (final (shader_step W) s0 evs) t d f r" and p: "p = sh_program s0"
    using assms(2) by (auto simp: shader_render_element_def Let_def)
  obtain src where "wp_compile W src (uniform_names (sh_bindings s0)) = Some p"
    using assms(1) unfolding p by (rule shader_new_Inr) blast
  then show ?thesis
    using shader_run_uniforms [OF assms(1), where evs = evs and t = t and d = d and f = f and r = r]
    unfolding u f32_minus_one_def f32_zero_def by auto
qed

definition demo_wp :: wp_env where
  "demo_wp = \<lparr>wp_read = (\<lambda>p. Inr []), wp_read_to_string = (\<lambda>p. Inr ''void main(){}''), wp_from_slice = (\<lambda>b. None),
     wp_load_image = (\<lambda>b. Some ([1, 2, 3, 4], 1, 1)), wp_import = (\<lambda>b s. True), wp_compile = (\<lambda>s us. Some (length us)),
     wp_secs_f32 = of_nat\<rparr>"

theorem event_uniforms_track_the_bus_witness:
  "(''u_login'', Val1f 3) \<in> set (case fst (shader_render_element demo_wp 9 (4, 2)
     (final (shader_step demo_wp) (projr (shader_backend_new demo_wp 2 ''w.frag'' [(''u_login'', EventTime ''e'')]))
       [FrameDrawn 3 (4, 2), EventFired 5 ''e'' f32_one])) of WallpaperShader p area us \<Rightarrow> us | _ \<Rightarrow> [])"
proof -
  let ?s0 = "projr (shader_backend_new demo_wp 2 ''w.frag'' [(''u_login'', EventTime ''e'')])"
  let ?evs = "[FrameDrawn 3 (4, 2), EventFired 5 ''e'' f32_one]"
  have n: "\<not> is_shadertoy_shape ''void main(){}''" by (simp add: is_shadertoy_shape_def)
  have new: "shader_backend_new demo_wp 2 ''w.frag'' [(''u_login'', EventTime ''e'')] = Inr ?s0"
    and b: "sh_bindings ?s0 = [(''u_login'', EventTime ''e'')]"
    by (simp_all add: shader_backend_new_def demo_wp_def n rbind_def map_err_def ok_or_def Let_def resolve_bindings_def)
  obtain p area us where el: "fst (shader_render_element demo_wp 9 (4, 2) (final (shader_step demo_wp) ?s0 ?evs)) = WallpaperShader p area us"
    by (simp add: shader_render_element_def Let_def)
  have "wp_secs_f32 demo_wp (5 - 2) = 3" by (simp add: demo_wp_def)
  then have "(''u_login'', Val1f 3) \<in> set us"
    using event_uniforms_track_the_bus [OF new el] by (simp add: b)
  then show ?thesis unfolding el by simp
qed

section \<open>The engine over a run\<close>

datatype engine_event =
    Ticked poll_event
  | Drawn poll_event "int \<times> int"
  | Notified instant string f32

text \<open>A step gives the fallback swap it made, if any, and the element it rendered, if any.\<close>

fun engine_step ::
    "wp_env \<Rightarrow> decoder_env \<Rightarrow> wallpaper_engine \<Rightarrow> engine_event \<Rightarrow> wallpaper_engine \<times> bool \<times> wallpaper_element option" where
  "engine_step W E en (Ticked pe) = (let (swapped, en') = engine_tick W E pe en in (en', swapped, None))"
| "engine_step W E en (Drawn pe sz) =
     (let (el, en') = engine_render_element W E pe sz en in (en', fst (maybe_swap_fallback W en), el))"
| "engine_step W E en (Notified now n v) = (snd (engine_notify_event W now n v en), False, None)"

text \<open>Once the engine shows an image it shows that image for good, and swaps no more.\<close>

lemma image_engine_step:
  assumes "en_backend en = Some (ImageBackend b)"
  shows "en_backend (fst (engine_step W E en ev)) = Some (ImageBackend b)" "\<not> fst (snd (engine_step W E en ev))"
  using assms
  by (cases ev; simp add: engine_tick_def engine_render_element_def engine_notify_event_def maybe_swap_fallback_def)+

lemma image_engine_run:
  "en_backend en = Some (ImageBackend b) \<Longrightarrow>
     en_backend (final (engine_step W E) en evs) = Some (ImageBackend b) \<and> filter fst (outputs (engine_step W E) en evs) = []"
  by (induction evs arbitrary: en) (simp_all add: image_engine_step)

lemma maybe_swap_True:
  assumes "fst (maybe_swap_fallback W en)"
  obtains b where "en_backend (snd (maybe_swap_fallback W en)) = Some (ImageBackend b)"
  using assms by (auto simp: maybe_swap_fallback_def split: option.splits fallback_kind.splits sum.splits)

lemma swapping_step:
  assumes "fst (snd (engine_step W E en ev))"
  obtains b where "en_backend (fst (engine_step W E en ev)) = Some (ImageBackend b)"
proof (cases ev)
  case (Ticked pe)
  then have "fst (engine_tick W E pe en)" using assms by (simp add: split_beta)
  then obtain b where "en_backend (snd (engine_tick W E pe en)) = Some (ImageBackend b)"
    unfolding engine_tick_def by (rule maybe_swap_True)
  then show ?thesis using that [of b] Ticked by (simp add: split_beta)
next
  case (Drawn pe sz)
  then have "fst (maybe_swap_fallback W en)" using assms by (simp add: split_beta)
  then obtain b where "en_backend (snd (maybe_swap_fallback W en)) = Some (ImageBackend b)" by (rule maybe_swap_True)
  then show ?thesis using that [of b] Drawn by (simp add: engine_render_element_def split_beta)
next
  case (Notified now n v)
  then show ?thesis using assms by simp
qed

lemma at_most_one_swap: "length (filter fst (outputs (engine_step W E) en evs)) \<le> 1"
proof (induction evs arbitrary: en)
  case (Cons ev evs)
  show ?case
  proof (cases "fst (snd (engine_step W E en ev))")
    case True
    then obtain b where "en_backend (fst (engine_step W E en ev)) = Some (ImageBackend b)" by (rule swapping_step)
    then show ?thesis using True image_engine_run by simp
  next
    case False
    then show ?thesis using Cons.IH by simp
  qed
qed simp




text \<open>The timer's registration at configuration time agrees with the back end that gets built.\<close>

lemma needs_tick_agrees:
  assumes "build_engine W now (Some cfg) = Inr en"
  shows "engine_wants_continuous en = needs_tick cfg"
  using assms
  by (cases cfg) (auto simp: build_engine_def rbind_def with_backend_def engine_wants_continuous_def split: sum.splits)

section \<open>Textures\<close>

text \<open>
  A texture holds four bytes per pixel of its extent, and is sampled over exactly that extent.
  The image decoder's contract, that an RGBA image has four bytes per pixel, is a hypothesis.
\<close>

definition tight :: "texture \<Rightarrow> bool" where
  "tight tx \<longleftrightarrow> 0 \<le> fst (tx_size tx) \<and> 0 \<le> snd (tx_size tx) \<and> int (length (tx_bytes tx)) = 4 * fst (tx_size tx) * snd (tx_size tx)"

fun sound_backend :: "backend \<Rightarrow> bool" where
  "sound_backend (ImageBackend b) = (tight (ib_texture b) \<and> ib_size b = tx_size (ib_texture b))"
| "sound_backend (ShaderBackend s) = True"
| "sound_backend (VideoBackend v) = (tight (vb_texture v) \<and> vb_size v = tx_size (vb_texture v) \<and>
     (\<forall>r f. vb_relay v = Some r \<longrightarrow> dr_latest r = Some f \<longrightarrow> frame_fits (lf_width f) (lf_height f) (lf_bytes f)))"

definition sound_engine :: "wallpaper_engine \<Rightarrow> bool" where
  "sound_engine en \<longleftrightarrow> (\<forall>b. en_backend en = Some b \<longrightarrow> sound_backend b)"

definition rgba_contract :: "wp_env \<Rightarrow> bool" where
  "rgba_contract W \<longleftrightarrow> (\<forall>bytes raw w h. wp_load_image W bytes = Some (raw, w, h) \<longrightarrow> length raw = 4 * unat w * unat h)"

lemma image_new_sound:
  assumes "rgba_contract W" and "image_backend_new W path = Inr b"
  shows "sound_backend (ImageBackend b)"
proof -
  obtain bytes raw w h where "wp_load_image W bytes = Some (raw, w, h)" "b = \<lparr>ib_texture = \<lparr>tx_bytes = raw, tx_size = (uint w, uint h)\<rparr>, ib_size = (uint w, uint h)\<rparr>"
    using assms(2) by (auto simp: image_backend_new_def image_decode_def from_memory_def rbind_def map_err_def ok_or_def
        split: sum.splits option.splits prod.splits if_splits)
  moreover from this have "length raw = 4 * unat w * unat h" using assms(1) unfolding rgba_contract_def by blast
  ultimately show ?thesis by (simp add: tight_def)
qed

lemma poll_frames_fits:
  assumes "\<forall>f. dr_latest r = Some f \<longrightarrow> frame_fits (lf_width f) (lf_height f) (lf_bytes f)"
  shows "\<forall>f. dr_latest (snd (poll_frames E K now queue r)) = Some f \<longrightarrow> frame_fits (lf_width f) (lf_height f) (lf_bytes f)"
  using assms by (induction rule: poll_frames_induct) (simp_all add: take_frame_def Let_def)

lemma drain_relay_sound:
  assumes "sound_backend (VideoBackend v)"
  shows "sound_backend (VideoBackend (drain_relay E pe v))"
proof (cases "vb_relay v")
  case (Some r)
  obtain now K queue where pe: "pe = (now, K, queue)" by (cases pe)
  have "\<forall>f. dr_latest (snd (poll_frames E K now queue r)) = Some f \<longrightarrow> frame_fits (lf_width f) (lf_height f) (lf_bytes f)"
    using assms Some by (intro poll_frames_fits) simp
  then show ?thesis using assms Some pe by (simp add: drain_relay_def)
qed (use assms in \<open>simp add: drain_relay_def\<close>)

lemma ensure_relay_spawned_sound:
  assumes "sound_backend (VideoBackend v)"
  shows "sound_backend (VideoBackend (ensure_relay_spawned E K v))"
proof -
  have "dr_latest r = None" if "decoder_relay_spawn E K p = Inr r" for p r
    using that by (auto simp: decoder_relay_spawn_def split: prod.splits sum.splits)
  then show ?thesis using assms by (auto simp: ensure_relay_spawned_def split: sum.split)
qed

lemma video_upload_sound:
  assumes "sound_backend (VideoBackend v)" and "video_upload W v = Some (idx, sz, buffer)"
  shows "tight buffer" "sz = tx_size buffer"
proof -
  obtain r f where rf: "vb_relay v = Some r" "dr_latest r = Some f" "sz = (uint (lf_width f), uint (lf_height f))"
    "buffer = \<lparr>tx_bytes = lf_bytes f, tx_size = sz\<rparr>"
    using assms(2) by (auto simp: video_upload_def relay_latest_frame_def from_memory_def Let_def
        split: option.splits if_splits sum.splits)
  moreover from this have "frame_fits (lf_width f) (lf_height f) (lf_bytes f)" using assms(1) by simp
  ultimately show "tight buffer" "sz = tx_size buffer" by (simp_all add: tight_def frame_fits_def)
qed

lemma video_render_sound:
  assumes "sound_backend (VideoBackend v)"
  shows "sound_backend (VideoBackend (snd (video_render_element W E pe sz v)))"
proof -
  note d = drain_relay_sound [OF assms, of E pe]
  show ?thesis
    using d video_upload_sound [OF d, of W] by (auto simp: video_render_element_def Let_def split: option.split)
qed

lemma maybe_swap_sound: "rgba_contract W \<Longrightarrow> sound_engine en \<Longrightarrow> sound_engine (snd (maybe_swap_fallback W en))"
  using image_new_sound
  by (auto simp: sound_engine_def maybe_swap_fallback_def split: option.split fallback_kind.split sum.split)

lemma backend_render_sound: "sound_backend b \<Longrightarrow> sound_backend (snd (backend_render_element W E pe sz b))"
  using video_render_sound by (cases b) (simp_all add: split_beta)

lemma backend_poll_sound: "sound_backend b \<Longrightarrow> sound_backend (backend_poll_pending E pe b)"
  by (cases b) (simp_all only: backend_poll_pending.simps video_poll_pending_def drain_relay_sound ensure_relay_spawned_sound)

lemma backend_notify_sound: "sound_backend b \<Longrightarrow> sound_backend (snd (backend_notify_event W now n v b))"
  by (cases b) (simp_all add: split_beta)

lemma engine_step_sound:
  assumes "rgba_contract W" and "sound_engine en"
  shows "sound_engine (fst (engine_step W E en ev))"
proof (cases ev)
  case (Ticked pe)
  have "sound_engine (en\<lparr>en_backend := map_option (backend_poll_pending E pe) (en_backend en)\<rparr>)"
    using assms(2) by (auto simp: sound_engine_def backend_poll_sound)
  then show ?thesis using maybe_swap_sound [OF assms(1)] Ticked by (simp add: engine_tick_def split_beta)
next
  case (Drawn pe sz)
  then show ?thesis using maybe_swap_sound [OF assms] backend_render_sound
    by (auto simp: engine_render_element_def sound_engine_def split_beta split: option.split)
next
  case (Notified now n v)
  then show ?thesis using assms(2) backend_notify_sound
    by (auto simp: engine_notify_event_def sound_engine_def split_beta split: option.split)
qed

fun sound_element :: "wallpaper_element \<Rightarrow> int \<times> int \<Rightarrow> bool" where
  "sound_element (WallpaperTexture tx src dst) sz \<longleftrightarrow> tight tx \<and> src = tx_size tx \<and> dst = sz"
| "sound_element (WallpaperShader p area us) sz \<longleftrightarrow> area = sz"

lemma backend_render_element_sound: "sound_backend b \<Longrightarrow> sound_element (fst (backend_render_element W E pe sz b)) sz"
proof (cases b)
  case (VideoBackend v)
  assume "sound_backend b"
  then show ?thesis using video_render_sound [of v W E pe sz] VideoBackend
    by (simp add: video_render_element_def Let_def split_beta)
qed (simp_all add: image_render_element_def shader_render_element_def Let_def)

lemma video_new_sound: "video_backend_new W source l fb = Inr v \<Longrightarrow> sound_backend (VideoBackend v)"
  by (auto simp: video_backend_new_def from_memory_def rbind_def tight_def split: if_splits)

lemma build_engine_sound:
  assumes "rgba_contract W" and "build_engine W t0 cfg = Inr en"
  shows "sound_engine en"
proof (cases cfg)
  case None
  then show ?thesis using assms(2) by (auto simp: build_engine_def engine_empty_def sound_engine_def)
next
  case (Some c)
  then show ?thesis using assms image_new_sound [OF assms(1)] video_new_sound
    by (cases c) (auto simp: build_engine_def rbind_def with_backend_def sound_engine_def split: sum.splits)
qed

interpretation engine_sound: invariant_machine "engine_step W E" en0
  "\<lambda>en. rgba_contract W \<and> sound_engine en0 \<longrightarrow> sound_engine en" for W E en0
  by unfold_locales (simp_all add: engine_step_sound)

lemma rendered_element_sound:
  assumes "rgba_contract W" and "sound_engine en" and "snd (snd (engine_step W E en ev)) = Some el"
  obtains pe sz where "ev = Drawn pe sz" "sound_element el sz"
proof (cases ev)
  case (Drawn pe sz)
  let ?en1 = "snd (maybe_swap_fallback W en)"
  have s: "sound_engine ?en1" by (rule maybe_swap_sound [OF assms(1,2)])
  obtain b where b: "en_backend ?en1 = Some b" "el = fst (backend_render_element W E pe sz b)"
    using assms(3) Drawn by (auto simp: engine_render_element_def split_beta split: option.splits)
  then have "sound_element el sz" using s backend_render_element_sound by (simp add: sound_engine_def)
  then show ?thesis by (rule that [OF Drawn])
qed (use assms(3) in \<open>simp_all add: split_beta\<close>)

text \<open>
  C19: whatever is configured and whatever the decoder, the ticks and the events do, every
  textured wallpaper element the engine renders covers the whole output, is sampled over exactly
  the extent of its texture, and that texture holds four bytes for each of its pixels; the engine
  swaps to the fallback image at most once.
\<close>

theorem wallpaper_elements_are_sound:
  assumes "rgba_contract W" and "build_engine W t0 cfg = Inr en0"
    and "engine_step W E (final (engine_step W E) en0 evs) ev = (en, swapped, Some el)"
  shows "(\<exists>pe sz. ev = Drawn pe sz \<and> (case el of
      WallpaperTexture tx src dst \<Rightarrow> dst = sz \<and> src = tx_size tx \<and> 0 \<le> fst src \<and> 0 \<le> snd src \<and>
        int (length (tx_bytes tx)) = 4 * fst src * snd src
    | WallpaperShader p area us \<Rightarrow> area = sz)) \<and>
    length (filter fst (outputs (engine_step W E) en0 (evs @ [ev]))) \<le> 1"
proof -
  have "sound_engine (final (engine_step W E) en0 evs)"
    using engine_sound.inv_run [of W en0 E evs] assms(1) build_engine_sound [OF assms(1,2)] by simp
  moreover have "snd (snd (engine_step W E (final (engine_step W E) en0 evs) ev)) = Some el" using assms(3) by simp
  ultimately obtain pe sz where "ev = Drawn pe sz" "sound_element el sz" by (rule rendered_element_sound [OF assms(1)])
  then show ?thesis
    by (intro conjI exI [of _ pe] exI [of _ sz] at_most_one_swap) (cases el; simp add: tight_def)+
qed

theorem wallpaper_elements_are_sound_witness:
  "\<forall>E pe. \<exists>el. snd (snd (engine_step demo_wp E (projr (build_engine demo_wp 0 (Some (ImageConfig ''w.png'')))) (Drawn pe (8, 6)))) = Some el \<and>
     sound_element el (8, 6)"
proof (intro allI)
  fix E pe
  let ?en = "projr (build_engine demo_wp 0 (Some (ImageConfig ''w.png'')))"
  have c: "rgba_contract demo_wp" by (simp add: rgba_contract_def demo_wp_def)
  have b: "build_engine demo_wp 0 (Some (ImageConfig ''w.png'')) = Inr ?en"
    and k: "en_backend ?en = Some (ImageBackend \<lparr>ib_texture = \<lparr>tx_bytes = [1, 2, 3, 4], tx_size = (1, 1)\<rparr>, ib_size = (1, 1)\<rparr>)"
    by (simp_all add: build_engine_def image_backend_new_def image_decode_def from_memory_def demo_wp_def rbind_def
        map_err_def ok_or_def with_backend_def)
  obtain en s el where el: "engine_step demo_wp E (final (engine_step demo_wp E) ?en []) (Drawn pe (8, 6)) = (en, s, Some el)"
    using k by (auto simp: engine_render_element_def maybe_swap_fallback_def split_beta)
  have "sound_element el (8, 6)"
    using wallpaper_elements_are_sound [OF c b el] by (cases el) (auto simp: tight_def)
  then show "\<exists>el. snd (snd (engine_step demo_wp E ?en (Drawn pe (8, 6)))) = Some el \<and> sound_element el (8, 6)"
    using el by (intro exI [of _ el]) simp
qed

section \<open>The event consumer\<close>

text \<open>
  \<open>spawn_wallpaper_event_consumer\<close>: the handler of one message of the channel gives the markers it
  emits.  \<open>None\<close> is a compositor without a DRM back end.
\<close>

definition wallpaper_consumer ::
    "wp_env \<Rightarrow> instant \<Rightarrow> lifecycle_event \<Rightarrow> wallpaper_engine option \<Rightarrow> lifecycle_event list \<times> wallpaper_engine option" where
  "wallpaper_consumer W now ev drm = (case canonical_name ev of
     None \<Rightarrow> ([], drm)
   | Some event_name \<Rightarrow> (case drm of
       None \<Rightarrow> ([], None)
     | Some en \<Rightarrow>
         (let (written, en') = engine_notify_event W now event_name (event_value ev) en in
          (map (WallpaperUniformApplied event_name) written, Some en'))))"

text \<open>Emitting appends to the journal and, through the registered listener, to the channel.\<close>

definition emit_all ::
    "(lifecycle_event \<Rightarrow> string + string) \<Rightarrow> lifecycle_event list \<Rightarrow> log_line list \<times> lifecycle_event list option \<Rightarrow>
     log_line list \<times> lifecycle_event list option" where
  "emit_all to_string evs st =
     fold (\<lambda>ev st. snd (introspect_emit to_string (register_listener wallpaper_listener []) ev st)) evs st"

definition line_of :: "(lifecycle_event \<Rightarrow> string + string) \<Rightarrow> lifecycle_event \<Rightarrow> log_line" where
  "line_of to_string ev = (case to_string ev of Inr json \<Rightarrow> EventLine json | Inl err \<Rightarrow> SerializeFailed err)"

lemma emit_all_eq: "emit_all to_string evs (journal, Some q) = (journal @ map (line_of to_string) evs, Some (q @ evs))"
  by (induction evs arbitrary: journal q) (simp_all add: emit_all_def emit_to_wallpaper_listener line_of_def)

definition engine_bindings :: "wallpaper_engine option \<Rightarrow> bindings" where
  "engine_bindings drm = (case drm of Some en \<Rightarrow> (case en_backend en of Some (ShaderBackend s) \<Rightarrow> sh_bindings s | _ \<Rightarrow> []) | None \<Rightarrow> [])"

definition markers :: "bindings \<Rightarrow> lifecycle_event \<Rightarrow> lifecycle_event list" where
  "markers bs ev = (case canonical_name ev of
     None \<Rightarrow> []
   | Some n \<Rightarrow> map (\<lambda>(u, b). WallpaperUniformApplied n u) (filter (\<lambda>(u, b). b = EventTime n \<or> b = EventValue n) bs))"

lemma wallpaper_consumer_eq:
  "fst (wallpaper_consumer W now ev drm) = markers (engine_bindings drm) ev"
  "engine_bindings (snd (wallpaper_consumer W now ev drm)) = engine_bindings drm"
  by (simp_all add: wallpaper_consumer_def markers_def engine_bindings_def engine_notify_event_def shader_notify_event_def
      Let_def apply_event_eq split_beta comp_def split: option.split backend.split)

lemma length_markers: "length (markers bs ev) \<le> (if canonical_name ev = None then 0 else length bs)"
  by (auto simp: markers_def split: option.split)

lemma markers_of_markers: "m \<in> set (markers bs ev) \<Longrightarrow> canonical_name m = None"
  by (auto simp: markers_def split: option.splits)

text \<open>The loop dispatches the channel until it is empty; each handled message reads the clock.\<close>

function (sequential) drain_channel ::
    "wp_env \<Rightarrow> (lifecycle_event \<Rightarrow> string + string) \<Rightarrow> (nat \<Rightarrow> instant) \<Rightarrow> nat \<Rightarrow> log_line list \<Rightarrow> lifecycle_event list \<Rightarrow>
     wallpaper_engine option \<Rightarrow> nat \<times> log_line list \<times> wallpaper_engine option" where
  "drain_channel W to_string clock k journal [] drm = (k, journal, drm)"
| "drain_channel W to_string clock k journal (ev # q) drm =
     (let (ms, drm') = wallpaper_consumer W (clock k) ev drm;
          st = emit_all to_string ms (journal, Some q) in
      drain_channel W to_string clock (Suc k) (fst st) (the (snd st)) drm')"
  by pat_completeness auto

definition event_weight :: "nat \<Rightarrow> lifecycle_event \<Rightarrow> nat" where
  "event_weight n ev = (if canonical_name ev = None then 1 else Suc n)"

lemma markers_weight: "sum_list (map (event_weight n) (markers bs ev)) = length (markers bs ev)"
proof -
  have "map (event_weight n) (markers bs ev) = map (\<lambda>_. 1) (markers bs ev)"
    by (rule map_cong) (simp_all add: event_weight_def markers_of_markers)
  then show ?thesis by (simp only: sum_list_triv) simp
qed

termination drain_channel
proof (relation "measure (\<lambda>(W, ts, clock, k, journal, q, drm).
    sum_list (map (event_weight (length (engine_bindings drm))) q))")
  fix W ts journal ev q drm x ms drm' st and clock :: "nat \<Rightarrow> instant" and k :: nat
  assume x: "x = wallpaper_consumer W (clock k) ev drm" "(ms, drm') = x" and st: "st = emit_all ts ms (journal, Some q)"
  have m: "ms = markers (engine_bindings drm) ev" "engine_bindings drm' = engine_bindings drm"
    using wallpaper_consumer_eq [of W "clock k" ev drm] x by (simp_all add: prod_eq_iff)
  have "length ms < event_weight (length (engine_bindings drm)) ev"
    using length_markers [of "engine_bindings drm" ev] by (auto simp: m(1) event_weight_def split: if_splits)
  then show "((W, ts, clock, Suc k, fst st, the (snd st), drm'), W, ts, clock, k, journal, ev # q, drm) \<in>
      measure (\<lambda>(W, ts, clock, k, journal, q, drm). sum_list (map (event_weight (length (engine_bindings drm))) q))"
    by (simp add: st emit_all_eq m(2) m(1) [symmetric] markers_weight [of _ "engine_bindings drm" ev, folded m(1)])
qed simp

lemma drain_channel_eq:
  "\<exists>drm'. drain_channel W to_string clock k journal q drm =
     (k + length q + length (concat (map (markers (engine_bindings drm)) q)),
      journal @ map (line_of to_string) (concat (map (markers (engine_bindings drm)) q)), drm') \<and>
     engine_bindings drm' = engine_bindings drm"
proof (induction W to_string clock k journal q drm rule: drain_channel.induct)
  case (2 W to_string clock k journal ev q drm)
  obtain ms drm' where c: "wallpaper_consumer W (clock k) ev drm = (ms, drm')" by force
  have m: "ms = markers (engine_bindings drm) ev" "engine_bindings drm' = engine_bindings drm"
    using wallpaper_consumer_eq [of W "clock k" ev drm] c by simp_all
  have none: "concat (map (markers (engine_bindings drm)) ms) = []"
    using markers_of_markers unfolding m(1) concat_eq_Nil_conv by (fastforce simp: markers_def split: option.split)
  show ?case
    using "2.IH" [OF c [symmetric] refl refl] none by (auto simp: c Let_def emit_all_eq m)
qed simp

text \<open>
  C28: draining the wallpaper's event channel ends.  Every bound uniform gets exactly one marker in
  the journal per event that drives it, in the order of the events and of the bindings, and the
  markers themselves, which travel over the same channel, drive nothing: the number of handled
  messages is that of the events and their markers.
\<close>

theorem wallpaper_events_do_not_feed_back:
  "fst (drain_channel W to_string clock 0 journal q drm) =
     length q + length (concat (map (markers (engine_bindings drm)) q)) \<and>
   fst (snd (drain_channel W to_string clock 0 journal q drm)) =
     journal @ map (line_of to_string) (concat (map (markers (engine_bindings drm)) q))"
  using drain_channel_eq [of W to_string clock 0 journal q drm] by auto





end
