(* ===== verification/Console_Font.thy ===== *)
theory Console_Font
  imports Prelude
begin

text \<open>
  The bitmap console font of the diagnostic overlay (\<open>console_font.rs\<close>, \<open>console_font_data.rs\<close>):
  the glyph table and the blitter, with the theorem that says which pixels of the buffer it paints.

  A text is the list of its code points.  The pen position is an \<open>i32\<close> that wraps around, as in
  a release build.
\<close>

unbundle bit_operations_syntax

section \<open>Glyphs\<close>

definition FONT8X8_BASIC :: "byte list list" where
  "FONT8X8_BASIC =
    [
     [0, 0, 0, 0, 0, 0, 0, 0], [0, 0, 0, 0, 0, 0, 0, 0], [0, 0, 0, 0, 0, 0, 0, 0], [0, 0, 0, 0, 0, 0, 0, 0],
     [0, 0, 0, 0, 0, 0, 0, 0], [0, 0, 0, 0, 0, 0, 0, 0], [0, 0, 0, 0, 0, 0, 0, 0], [0, 0, 0, 0, 0, 0, 0, 0],
     [0, 0, 0, 0, 0, 0, 0, 0], [0, 0, 0, 0, 0, 0, 0, 0], [0, 0, 0, 0, 0, 0, 0, 0], [0, 0, 0, 0, 0, 0, 0, 0],
     [0, 0, 0, 0, 0, 0, 0, 0], [0, 0, 0, 0, 0, 0, 0, 0], [0, 0, 0, 0, 0, 0, 0, 0], [0, 0, 0, 0, 0, 0, 0, 0],
     [0, 0, 0, 0, 0, 0, 0, 0], [0, 0, 0, 0, 0, 0, 0, 0], [0, 0, 0, 0, 0, 0, 0, 0], [0, 0, 0, 0, 0, 0, 0, 0],
     [0, 0, 0, 0, 0, 0, 0, 0], [0, 0, 0, 0, 0, 0, 0, 0], [0, 0, 0, 0, 0, 0, 0, 0], [0, 0, 0, 0, 0, 0, 0, 0],
     [0, 0, 0, 0, 0, 0, 0, 0], [0, 0, 0, 0, 0, 0, 0, 0], [0, 0, 0, 0, 0, 0, 0, 0], [0, 0, 0, 0, 0, 0, 0, 0],
     [0, 0, 0, 0, 0, 0, 0, 0], [0, 0, 0, 0, 0, 0, 0, 0], [0, 0, 0, 0, 0, 0, 0, 0], [0, 0, 0, 0, 0, 0, 0, 0],
     [0, 0, 0, 0, 0, 0, 0, 0], [24, 60, 60, 24, 24, 0, 24, 0], [54, 54, 0, 0, 0, 0, 0, 0], [54, 54, 127, 54, 127, 54, 54, 0],
     [12, 62, 3, 30, 48, 31, 12, 0], [0, 99, 51, 24, 12, 102, 99, 0], [28, 54, 28, 110, 59, 51, 110, 0], [6, 6, 3, 0, 0, 0, 0, 0],
     [24, 12, 6, 6, 6, 12, 24, 0], [6, 12, 24, 24, 24, 12, 6, 0], [0, 102, 60, 255, 60, 102, 0, 0], [0, 12, 12, 63, 12, 12, 0, 0],
     [0, 0, 0, 0, 0, 12, 12, 6], [0, 0, 0, 63, 0, 0, 0, 0], [0, 0, 0, 0, 0, 12, 12, 0], [96, 48, 24, 12, 6, 3, 1, 0],
     [62, 99, 115, 123, 111, 103, 62, 0], [12, 14, 12, 12, 12, 12, 63, 0], [30, 51, 48, 28, 6, 51, 63, 0], [30, 51, 48, 28, 48, 51, 30, 0],
     [56, 60, 54, 51, 127, 48, 120, 0], [63, 3, 31, 48, 48, 51, 30, 0], [28, 6, 3, 31, 51, 51, 30, 0], [63, 51, 48, 24, 12, 12, 12, 0],
     [30, 51, 51, 30, 51, 51, 30, 0], [30, 51, 51, 62, 48, 24, 14, 0], [0, 12, 12, 0, 0, 12, 12, 0], [0, 12, 12, 0, 0, 12, 12, 6],
     [24, 12, 6, 3, 6, 12, 24, 0], [0, 0, 63, 0, 0, 63, 0, 0], [6, 12, 24, 48, 24, 12, 6, 0], [30, 51, 48, 24, 12, 0, 12, 0],
     [62, 99, 123, 123, 123, 3, 30, 0], [12, 30, 51, 51, 63, 51, 51, 0], [63, 102, 102, 62, 102, 102, 63, 0], [60, 102, 3, 3, 3, 102, 60, 0],
     [31, 54, 102, 102, 102, 54, 31, 0], [127, 70, 22, 30, 22, 70, 127, 0], [127, 70, 22, 30, 22, 6, 15, 0], [60, 102, 3, 3, 115, 102, 124, 0],
     [51, 51, 51, 63, 51, 51, 51, 0], [30, 12, 12, 12, 12, 12, 30, 0], [120, 48, 48, 48, 51, 51, 30, 0], [103, 102, 54, 30, 54, 102, 103, 0],
     [15, 6, 6, 6, 70, 102, 127, 0], [99, 119, 127, 127, 107, 99, 99, 0], [99, 103, 111, 123, 115, 99, 99, 0], [28, 54, 99, 99, 99, 54, 28, 0],
     [63, 102, 102, 62, 6, 6, 15, 0], [30, 51, 51, 51, 59, 30, 56, 0], [63, 102, 102, 62, 54, 102, 103, 0], [30, 51, 7, 14, 56, 51, 30, 0],
     [63, 45, 12, 12, 12, 12, 30, 0], [51, 51, 51, 51, 51, 51, 63, 0], [51, 51, 51, 51, 51, 30, 12, 0], [99, 99, 99, 107, 127, 119, 99, 0],
     [99, 99, 54, 28, 28, 54, 99, 0], [51, 51, 51, 30, 12, 12, 30, 0], [127, 99, 49, 24, 76, 102, 127, 0], [30, 6, 6, 6, 6, 6, 30, 0],
     [3, 6, 12, 24, 48, 96, 64, 0], [30, 24, 24, 24, 24, 24, 30, 0], [8, 28, 54, 99, 0, 0, 0, 0], [0, 0, 0, 0, 0, 0, 0, 255],
     [12, 12, 24, 0, 0, 0, 0, 0], [0, 0, 30, 48, 62, 51, 110, 0], [7, 6, 6, 62, 102, 102, 59, 0], [0, 0, 30, 51, 3, 51, 30, 0],
     [56, 48, 48, 62, 51, 51, 110, 0], [0, 0, 30, 51, 63, 3, 30, 0], [28, 54, 6, 15, 6, 6, 15, 0], [0, 0, 110, 51, 51, 62, 48, 31],
     [7, 6, 54, 110, 102, 102, 103, 0], [12, 0, 14, 12, 12, 12, 30, 0], [48, 0, 48, 48, 48, 51, 51, 30], [7, 6, 102, 54, 30, 54, 103, 0],
     [14, 12, 12, 12, 12, 12, 30, 0], [0, 0, 51, 127, 127, 107, 99, 0], [0, 0, 31, 51, 51, 51, 51, 0], [0, 0, 30, 51, 51, 51, 30, 0],
     [0, 0, 59, 102, 102, 62, 6, 15], [0, 0, 110, 51, 51, 62, 48, 120], [0, 0, 59, 110, 102, 6, 15, 0], [0, 0, 62, 3, 30, 48, 31, 0],
     [8, 12, 62, 12, 12, 44, 24, 0], [0, 0, 51, 51, 51, 51, 110, 0], [0, 0, 51, 51, 51, 30, 12, 0], [0, 0, 99, 107, 127, 127, 54, 0],
     [0, 0, 99, 54, 28, 54, 99, 0], [0, 0, 51, 51, 51, 62, 48, 31], [0, 0, 63, 25, 12, 38, 63, 0], [56, 12, 12, 7, 12, 12, 56, 0],
     [24, 24, 24, 0, 24, 24, 24, 0], [7, 12, 12, 56, 12, 12, 7, 0], [110, 59, 0, 0, 0, 0, 0, 0], [0, 0, 0, 0, 0, 0, 0, 0]]"

definition glyph :: "nat \<Rightarrow> byte list" where
  "glyph ch = (if ch < 128 then FONT8X8_BASIC ! ch else FONT8X8_BASIC ! 63)"

lemma font_shape: "length FONT8X8_BASIC = 128" "list_all (\<lambda>g. length g = 8) FONT8X8_BASIC"
  by (simp_all add: FONT8X8_BASIC_def)

lemma length_glyph [simp]: "length (glyph ch) = 8"
  using font_shape by (simp add: glyph_def list_all_length)

section \<open>The blitter\<close>

definition i32_add :: "int \<Rightarrow> int \<Rightarrow> int" where
  "i32_add a b = (a + b + 2 ^ 31) mod 2 ^ 32 - 2 ^ 31"

definition GLYPH_W :: int where "GLYPH_W = 8"

definition GLYPH_H :: int where "GLYPH_H = 8"

text \<open>\<open>get_mut(idx..idx + 4)\<close> and the copy.\<close>

definition set_pixel :: "byte list \<Rightarrow> nat \<Rightarrow> byte list \<Rightarrow> byte list" where
  "set_pixel rgba idx buf = (if idx + 4 \<le> length buf then take idx buf @ rgba @ drop (idx + 4) buf else buf)"

definition blit_pixel :: "nat \<Rightarrow> byte list \<Rightarrow> int \<Rightarrow> nat \<Rightarrow> byte \<Rightarrow> nat \<Rightarrow> byte list \<Rightarrow> byte list" where
  "blit_pixel stride_px rgba cx py bits col buf =
     (if bits AND push_bit col 1 = 0 then buf
      else let x = i32_add cx (int col) in
        if x < 0 then buf
        else let px = nat x in
          if stride_px \<le> px then buf
          else set_pixel rgba ((py * stride_px + px) * 4) buf)"

definition blit_row ::
    "nat \<Rightarrow> nat \<Rightarrow> byte list \<Rightarrow> int \<Rightarrow> int \<Rightarrow> nat \<times> byte \<Rightarrow> byte list \<Rightarrow> byte list" where
  "blit_row stride_px height_px rgba cx cy rb buf =
     (let (row, bits) = rb; y = i32_add cy (int row) in
      if y < 0 then buf
      else let py = nat y in
        if height_px \<le> py then buf
        else fold (blit_pixel stride_px rgba cx py bits) [0..<8] buf)"

fun blit_from ::
    "nat \<Rightarrow> nat \<Rightarrow> byte list \<Rightarrow> int \<Rightarrow> int \<Rightarrow> int \<Rightarrow> nat list \<Rightarrow> byte list \<Rightarrow> byte list" where
  "blit_from stride_px height_px rgba start_x cx cy [] buf = buf"
| "blit_from stride_px height_px rgba start_x cx cy (ch # text_rest) buf =
     (if ch = 10 then blit_from stride_px height_px rgba start_x start_x (i32_add cy GLYPH_H) text_rest buf
      else blit_from stride_px height_px rgba start_x (i32_add cx GLYPH_W) cy text_rest
             (fold (blit_row stride_px height_px rgba cx cy) (enumerate 0 (glyph ch)) buf))"

definition blit_str ::
    "byte list \<Rightarrow> nat \<Rightarrow> nat \<Rightarrow> int \<Rightarrow> int \<Rightarrow> nat list \<Rightarrow> byte list \<Rightarrow> byte list" where
  "blit_str buf stride_px height_px x y content rgba = blit_from stride_px height_px rgba x x y content buf"

section \<open>What is painted\<close>

definition pixel :: "nat \<Rightarrow> byte list \<Rightarrow> byte list" where
  "pixel k buf = take 4 (drop (4 * k) buf)"

text \<open>
  An operation paints a set of pixels when it sets those and leaves the others; painting composes.
\<close>

definition paints :: "nat \<Rightarrow> byte list \<Rightarrow> nat set \<Rightarrow> (byte list \<Rightarrow> byte list) \<Rightarrow> bool" where
  "paints n rgba S f \<longleftrightarrow> (\<forall>buf. length buf = 4 * n \<longrightarrow> length (f buf) = 4 * n \<and>
     (\<forall>k < n. pixel k (f buf) = (if k \<in> S then rgba else pixel k buf)))"

lemma paints_id: "paints n rgba {} (\<lambda>buf. buf)"
  by (simp add: paints_def)

lemma paints_id': "paints n rgba {} id"
  by (simp add: paints_def)

lemma paints_comp: "paints n rgba S f \<Longrightarrow> paints n rgba T g \<Longrightarrow> paints n rgba (S \<union> T) (\<lambda>buf. g (f buf))"
  by (simp add: paints_def)

lemma paints_fold:
  "(\<And>x. x \<in> set xs \<Longrightarrow> paints n rgba (S x) (f x)) \<Longrightarrow> paints n rgba (\<Union>x \<in> set xs. S x) (fold f xs)"
proof (induction xs)
  case (Cons x xs)
  have "paints n rgba (S x \<union> (\<Union>x \<in> set xs. S x)) (\<lambda>buf. fold f xs (f x buf))"
    by (rule paints_comp) (use Cons in simp_all)
  then show ?case by (simp add: comp_def)
qed (simp add: paints_id')

lemma paints_cong: "paints n rgba S f \<Longrightarrow> (\<And>k. k < n \<Longrightarrow> k \<in> S \<longleftrightarrow> k \<in> T) \<Longrightarrow> paints n rgba T f"
  by (simp add: paints_def)

lemma pixel_nth:
  assumes "length a = length b"
  shows "pixel k a = pixel k b \<longleftrightarrow> (\<forall>i < 4. 4 * k + i < length b \<longrightarrow> a ! (4 * k + i) = b ! (4 * k + i))"
  using assms by (auto simp: pixel_def list_eq_iff_nth_eq)

lemma paints_set_pixel:
  assumes "length rgba = 4"
  shows "paints n rgba {j} (set_pixel rgba (4 * j))"
  unfolding paints_def
proof (intro allI impI conjI)
  fix buf :: "byte list" and k
  assume l: "length buf = 4 * n"
  then show len: "length (set_pixel rgba (4 * j) buf) = 4 * n" using assms by (auto simp: set_pixel_def)
  assume k: "k < n"
  show "pixel k (set_pixel rgba (4 * j) buf) = (if k \<in> {j} then rgba else pixel k buf)"
  proof (cases "k = j")
    case True
    then have "4 * j + 4 \<le> length buf" using k l by simp
    then show ?thesis using True assms by (simp add: set_pixel_def pixel_def)
  next
    case False
    have "set_pixel rgba (4 * j) buf ! (4 * k + i) = buf ! (4 * k + i)" if "i < 4" "4 * k + i < 4 * n" for i
    proof (cases "k < j")
      case True
      then show ?thesis using that l assms by (auto simp: set_pixel_def nth_append)
    next
      case False
      with \<open>k \<noteq> j\<close> have "4 * j + 4 \<le> 4 * k" by simp
      then show ?thesis using that l assms by (auto simp: set_pixel_def nth_append)
    qed
    then have "pixel k (set_pixel rgba (4 * j) buf) = pixel k buf" using len l by (simp add: pixel_nth)
    then show ?thesis using False by simp
  qed
qed

text \<open>The pixels of a buffer of rows of \<open>stride\<close> pixels that stand at column \<open>x\<close> of row \<open>y\<close>.\<close>

definition cell :: "nat \<Rightarrow> int \<Rightarrow> int \<Rightarrow> nat set" where
  "cell stride x y = {k. int (k mod stride) = x \<and> int (k div stride) = y}"

lemma cell_eq: "0 \<le> x \<Longrightarrow> nat x < stride \<Longrightarrow> 0 \<le> y \<Longrightarrow> cell stride x y = {nat y * stride + nat x}"
  by (auto simp: cell_def)

lemma cell_empty: "x < 0 \<or> int stride \<le> x \<Longrightarrow> 0 < stride \<Longrightarrow> cell stride x y = {}"
  by (auto simp: cell_def) (metis mod_less_divisor not_less of_nat_le_iff)

lemma bit_test: "bits AND 2 ^ col = 0 \<longleftrightarrow> \<not> bit bits col" if "col < 8" for bits :: byte
proof -
  have "bits AND push_bit col 1 = (if bit bits col then push_bit col 1 else 0)"
    by (rule bit_word_eqI) (auto simp: bit_simps that)
  moreover have "push_bit col (1 :: byte) \<noteq> 0"
    using that by (simp add: push_bit_eq_mult exp_eq_zero_iff)
  ultimately show ?thesis by simp
qed

lemma paints_blit_pixel:
  assumes "length rgba = 4" and "0 < stride" and "col < 8" and "0 \<le> y"
  shows "paints n rgba (if bit bits col then cell stride (i32_add cx (int col)) y else {})
    (blit_pixel stride rgba cx (nat y) bits col)"
proof -
  let ?x = "i32_add cx (int col)"
  consider "\<not> bit bits col" | "bit bits col" "?x < 0" | "bit bits col" "0 \<le> ?x" "stride \<le> nat ?x"
    | "bit bits col" "0 \<le> ?x" "nat ?x < stride" by linarith
  then show ?thesis
  proof cases
    case 4
    have "blit_pixel stride rgba cx (nat y) bits col = set_pixel rgba (4 * (nat y * stride + nat ?x))"
      using 4 assms(3) by (intro ext) (simp add: blit_pixel_def bit_test Let_def mult.commute)
    then show ?thesis
      using 4 paints_set_pixel [OF assms(1), of n "nat y * stride + nat ?x"] assms(4) by (simp only: cell_eq if_True)
  qed (use assms in \<open>simp_all add: blit_pixel_def [abs_def] bit_test paints_id cell_empty Let_def\<close>)
qed

definition glyph_row :: "nat \<Rightarrow> int \<Rightarrow> int \<Rightarrow> nat \<times> byte \<Rightarrow> nat set" where
  "glyph_row stride cx cy rb = (\<Union>col \<in> set [0..<8]. if bit (snd rb) col
     then cell stride (i32_add cx (int col)) (i32_add cy (int (fst rb))) else {})"

lemma cell_above: "y < 0 \<Longrightarrow> cell stride x y = {}"
  by (auto simp: cell_def)

lemma cell_below: "int height \<le> y \<Longrightarrow> k < stride * height \<Longrightarrow> k \<notin> cell stride x y"
  using less_mult_imp_div_less [of k height stride] by (auto simp: cell_def mult.commute)

lemma paints_blit_row:
  assumes "length rgba = 4" and "0 < stride"
  shows "paints (stride * height) rgba (glyph_row stride cx cy rb) (blit_row stride height rgba cx cy rb)"
proof -
  obtain row bits where rb: "rb = (row, bits)" by force
  let ?y = "i32_add cy (int row)"
  consider "?y < 0" | "0 \<le> ?y" "height \<le> nat ?y" | "0 \<le> ?y" "nat ?y < height" by linarith
  then show ?thesis
  proof cases
    case 1
    then show ?thesis by (simp add: rb blit_row_def [abs_def] glyph_row_def cell_above paints_id Let_def)
  next
    case 2
    have "paints (stride * height) rgba {} (\<lambda>buf. buf)" by (rule paints_id)
    then have "paints (stride * height) rgba (glyph_row stride cx cy rb) (\<lambda>buf. buf)"
      by (rule paints_cong) (use 2 cell_below [of height ?y _ stride] in \<open>auto simp: rb glyph_row_def le_nat_iff\<close>)
    then show ?thesis using 2 by (simp add: rb blit_row_def [abs_def] Let_def)
  next
    case 3
    have "paints (stride * height) rgba (glyph_row stride cx cy rb) (fold (blit_pixel stride rgba cx (nat ?y) bits) [0..<8])"
      unfolding glyph_row_def rb fst_conv snd_conv
      by (rule paints_fold, rule paints_blit_pixel) (use 3 assms in simp_all)
    then show ?thesis using 3 by (simp add: rb blit_row_def [abs_def] Let_def)
  qed
qed

text \<open>The reference: a point is lit when a glyph of the text placed by the pen has its bit set there.\<close>

fun lit :: "int \<Rightarrow> int \<Rightarrow> int \<Rightarrow> nat list \<Rightarrow> int \<Rightarrow> int \<Rightarrow> bool" where
  "lit start_x cx cy [] x y = False"
| "lit start_x cx cy (ch # rest) x y =
     (if ch = 10 then lit start_x start_x (i32_add cy 8) rest x y
      else (\<exists>row < 8. \<exists>col < 8. x = i32_add cx (int col) \<and> y = i32_add cy (int row) \<and> bit (glyph ch ! row) col) \<or>
           lit start_x (i32_add cx 8) cy rest x y)"

lemma in_glyph_rows:
  "k \<in> (\<Union>rb \<in> set (enumerate 0 (glyph ch)). glyph_row stride cx cy rb) \<longleftrightarrow>
     (\<exists>row < 8. \<exists>col < 8. int (k mod stride) = i32_add cx (int col) \<and> int (k div stride) = i32_add cy (int row) \<and>
       bit (glyph ch ! row) col)"
  by (auto simp: glyph_row_def cell_def in_set_enumerate_eq Bex_def split: if_splits)

lemma paints_blit_from:
  assumes "length rgba = 4" and "0 < stride"
  shows "paints (stride * height) rgba {k. lit sx cx cy content (int (k mod stride)) (int (k div stride))}
    (blit_from stride height rgba sx cx cy content)"
proof (induction content arbitrary: cx cy)
  case Nil
  then show ?case by (simp add: paints_def)
next
  case (Cons ch rest)
  show ?case
  proof (cases "ch = 10")
    case True
    then show ?thesis using Cons.IH [of sx "i32_add cy 8"] by (simp add: paints_def GLYPH_H_def)
  next
    case False
    have "paints (stride * height) rgba (\<Union>rb \<in> set (enumerate 0 (glyph ch)). glyph_row stride cx cy rb)
        (fold (blit_row stride height rgba cx cy) (enumerate 0 (glyph ch)))"
      by (rule paints_fold) (rule paints_blit_row [OF assms])
    from paints_comp [OF this Cons.IH [of "i32_add cx 8" cy]] have
      "paints (stride * height) rgba {k. lit sx cx cy (ch # rest) (int (k mod stride)) (int (k div stride))}
        (\<lambda>buf. blit_from stride height rgba sx (i32_add cx 8) cy rest
          (fold (blit_row stride height rgba cx cy) (enumerate 0 (glyph ch)) buf))"
      by (rule paints_cong) (simp only: Un_iff in_glyph_rows mem_Collect_eq lit.simps False if_False)
    then show ?thesis using False by (simp add: GLYPH_W_def paints_def)
  qed
qed

text \<open>
  C24: for every text and every pen position, inside or outside the buffer, the blitter keeps the
  buffer's length and paints exactly the pixels the glyphs light: a pixel in a glyph's set bit gets
  the colour, every other pixel keeps its bytes.
\<close>

theorem blit_str_paints_the_glyphs:
  assumes "length buf = stride * height * 4" and "length rgba = 4" and "px < stride" and "py < height"
  shows "length (blit_str buf stride height x y content rgba) = stride * height * 4 \<and>
    pixel (py * stride + px) (blit_str buf stride height x y content rgba) =
      (if lit x x y content (int px) (int py) then rgba else pixel (py * stride + px) buf)"
proof -
  have "py * stride + px < Suc py * stride" using assms(3) by simp
  also have "\<dots> \<le> height * stride" using assms(4) by (intro mult_le_mono1) simp
  finally have k: "py * stride + px < stride * height" by (simp add: mult.commute)
  have "paints (stride * height) rgba {k. lit x x y content (int (k mod stride)) (int (k div stride))}
      (blit_from stride height rgba x x y content)"
    using assms(2,3) by (intro paints_blit_from) auto
  then show ?thesis using assms k by (simp add: paints_def blit_str_def mult.commute)
qed

theorem blit_str_paints_the_glyphs_witness:
  "pixel 0 (blit_str (replicate 16 0) 2 2 0 0 [76] [9, 9, 9, 9]) = [9, 9, 9, 9]"
proof -
  have "lit 0 0 0 [76] 0 0"
    by (simp, intro exI [of _ 0] conjI) (simp_all add: i32_add_def glyph_def FONT8X8_BASIC_def)
  then show ?thesis
    using blit_str_paints_the_glyphs [of "replicate 16 0" 2 2 "[9, 9, 9, 9]" 0 0 0 0 "[76]"] by simp
qed

end
