(* ===== verification/Cursor_Theme.thy ===== *)
theory Cursor_Theme
  imports Rust_Text Sliding_Window
begin

text \<open>
  The cursor theme (\<open>cursor.rs\<close>): loading named icons with the procedural fallback, and the choice of
  the animation frame.  The \<open>xcursor\<close> library (the theme search path and the file parser) is the
  argument \<open>X\<close>.  \<open>None\<close> of \<open>current_frame\<close> is a panic.
\<close>

record cursor_image =
  ci_size :: u32
  ci_width :: u32
  ci_height :: u32
  ci_xhot :: u32
  ci_yhot :: u32
  ci_delay :: u32
  ci_pixels_rgba :: "byte list"

record cursor_icons =
  cu_icons :: "cursor_image list"
  cu_nominal_size :: u32

record xcursor_lib =
  xc_load_icon :: "string \<Rightarrow> string \<Rightarrow> string option"
  xc_read :: "string \<Rightarrow> byte list option"
  xc_parse :: "byte list \<Rightarrow> cursor_image list option"

definition from_theme :: "xcursor_lib \<Rightarrow> string \<Rightarrow> string \<Rightarrow> u32 \<Rightarrow> cursor_icons option" where
  "from_theme X theme name sz =
     Option.bind (xc_load_icon X theme name) (\<lambda>path.
     Option.bind (xc_read X path) (\<lambda>bytes.
     Option.bind (xc_parse X bytes) (\<lambda>icons.
     if icons = [] then None else Some \<lparr>cu_icons = icons, cu_nominal_size = sz\<rparr>)))"

text \<open>\<open>Iterator::min_by_key\<close>: the first of the least elements.\<close>

fun min_by_key :: "('a \<Rightarrow> int) \<Rightarrow> 'a list \<Rightarrow> 'a option" where
  "min_by_key f [] = None"
| "min_by_key f (x # xs) = (case min_by_key f xs of
     None \<Rightarrow> Some x | Some y \<Rightarrow> if f y < f x then Some y else Some x)"

fun frame_at :: "u32 \<Rightarrow> cursor_image list \<Rightarrow> cursor_image option" where
  "frame_at millis [] = None"
| "frame_at millis (img # imgs) = (if millis < ci_delay img then Some img else frame_at (millis - ci_delay img) imgs)"

definition variants_of :: "cursor_icons \<Rightarrow> cursor_image \<Rightarrow> cursor_image list" where
  "variants_of c nearest = filter (\<lambda>img. ci_width img = ci_width nearest \<and> ci_height img = ci_height nearest) (cu_icons c)"

definition current_frame :: "nat \<Rightarrow> cursor_icons \<Rightarrow> cursor_image option" where
  "current_frame time_millis c =
     Option.bind (min_by_key (\<lambda>img. \<bar>uint (ci_size img) - uint (cu_nominal_size c)\<bar>) (cu_icons c)) (\<lambda>nearest.
     let variants = variants_of c nearest; total = sum_list (map ci_delay variants) in
     if total = 0 then (case variants of img # _ \<Rightarrow> Some img | [] \<Rightarrow> None)
     else frame_at (of_nat time_millis mod total) variants)"

record cursor_theming =
  ct_theme :: string
  ct_size :: u32
  ct_default :: cursor_icons

definition fallback_pixels :: "nat \<Rightarrow> byte list" where
  "fallback_pixels s = concat (map (\<lambda>y. concat (map (\<lambda>x.
     if x \<le> y \<and> x + y \<le> s then [0xFF, 0xFF, 0xFF, 0xFF] else [0, 0, 0, 0]) [0..<s])) [0..<s])"

definition procedural_fallback :: "u32 \<Rightarrow> cursor_icons" where
  "procedural_fallback sz =
     (let s = unat (max sz 8); dim = (of_nat s :: 16 word) in
      \<lparr>cu_icons = [\<lparr>ci_size = sz, ci_width = ucast dim, ci_height = ucast dim, ci_xhot = 0, ci_yhot = 0, ci_delay = 0,
         ci_pixels_rgba = fallback_pixels s\<rparr>],
       cu_nominal_size = sz\<rparr>)"

definition cursor_theming_load :: "xcursor_lib \<Rightarrow> (string \<Rightarrow> string option) \<Rightarrow> cursor_theming" where
  "cursor_theming_load X var =
     (let name = (case var ''XCURSOR_THEME'' of Some n \<Rightarrow> n | None \<Rightarrow> ''default'');
          sz = (case Option.bind (var ''XCURSOR_SIZE'') parse_u32 of Some n \<Rightarrow> n | None \<Rightarrow> 24);
          dflt = (case from_theme X name ''default'' sz of
                    Some c \<Rightarrow> c
                  | None \<Rightarrow> (case from_theme X name ''left_ptr'' sz of
                      Some c \<Rightarrow> c
                    | None \<Rightarrow> procedural_fallback sz)) in
      \<lparr>ct_theme = name, ct_size = sz, ct_default = dflt\<rparr>)"

definition load_named :: "xcursor_lib \<Rightarrow> cursor_theming \<Rightarrow> string \<Rightarrow> cursor_icons" where
  "load_named X t name = (case from_theme X (ct_theme t) name (ct_size t) of Some c \<Rightarrow> c | None \<Rightarrow> ct_default t)"

section \<open>A frame is always found\<close>

lemma min_by_key_Some: "xs \<noteq> [] \<Longrightarrow> \<exists>x \<in> set xs. min_by_key f xs = Some x"
  by (induction xs rule: min_by_key.induct) (auto split: option.splits, fastforce+)

lemma min_by_key_None: "min_by_key f xs = None \<longleftrightarrow> xs = []"
  using min_by_key_Some [of xs f] by (cases "xs = []") auto

lemma min_by_key_least: "min_by_key f xs = Some x \<Longrightarrow> y \<in> set xs \<Longrightarrow> f x \<le> f y"
proof (induction xs arbitrary: x)
  case (Cons a xs)
  show ?case
  proof (cases "min_by_key f xs")
    case None
    then show ?thesis using Cons.prems by (simp add: min_by_key_None)
  next
    case (Some z)
    then have "y \<in> set xs \<Longrightarrow> f z \<le> f y" by (rule Cons.IH)
    then show ?thesis using Some Cons.prems by (auto split: if_splits)
  qed
qed simp

text \<open>
  The walk ends inside the list when the time is below the sum of the delays, where the sum is the
  exact one.
\<close>

definition delay_sum :: "cursor_image list \<Rightarrow> nat" where
  "delay_sum imgs = sum_list (map (\<lambda>img. unat (ci_delay img)) imgs)"

lemma frame_at_Some:
  "unat millis < delay_sum imgs \<Longrightarrow>
     \<exists>pre img post. imgs = pre @ img # post \<and> frame_at millis imgs = Some img \<and>
       delay_sum pre \<le> unat millis \<and> unat millis < delay_sum pre + unat (ci_delay img)"
proof (induction imgs arbitrary: millis)
  case (Cons i imgs)
  show ?case
  proof (cases "millis < ci_delay i")
    case True
    then show ?thesis by (intro exI [of _ "[]"] exI [of _ i] exI [of _ imgs]) (auto simp: delay_sum_def word_less_nat_alt)
  next
    case False
    then have le: "ci_delay i \<le> millis" by simp
    then have u: "unat (millis - ci_delay i) = unat millis - unat (ci_delay i)" by (rule unat_sub)
    have "unat (ci_delay i) \<le> unat millis" using le by (simp add: word_le_nat_alt)
    moreover from this have "unat (millis - ci_delay i) < delay_sum imgs" using Cons.prems unfolding u by (simp add: delay_sum_def)
    ultimately obtain pre img post where "imgs = pre @ img # post" "frame_at (millis - ci_delay i) imgs = Some img"
      "delay_sum pre \<le> unat millis - unat (ci_delay i)" "unat millis - unat (ci_delay i) < delay_sum pre + unat (ci_delay img)"
      using Cons.IH u by metis
    with False \<open>unat (ci_delay i) \<le> unat millis\<close> show ?thesis
      by (intro exI [of _ "i # pre"] exI [of _ img] exI [of _ post]) (auto simp: delay_sum_def)
  qed
qed (simp add: delay_sum_def)

text \<open>The 32-bit total wraps around, so it is at most the exact sum.\<close>

lemma wrapped_total: "unat (sum_list (map ci_delay imgs)) = delay_sum imgs mod 2 ^ 32"
  by (induction imgs) (simp_all add: delay_sum_def unat_word_ariths mod_simps)

lemma wrapped_total_le: "unat (sum_list (map ci_delay imgs)) \<le> delay_sum imgs"
  by (simp add: wrapped_total)

lemma current_frame_Some:
  assumes "cu_icons c \<noteq> []"
  shows "\<exists>img \<in> set (cu_icons c). current_frame t c = Some img"
proof -
  obtain nearest where n: "nearest \<in> set (cu_icons c)"
    "min_by_key (\<lambda>img. \<bar>uint (ci_size img) - uint (cu_nominal_size c)\<bar>) (cu_icons c) = Some nearest"
    using min_by_key_Some [OF assms] by blast
  let ?vs = "variants_of c nearest" and ?total = "sum_list (map ci_delay (variants_of c nearest))"
  have vs: "set ?vs \<subseteq> set (cu_icons c)" "nearest \<in> set ?vs" using n(1) by (auto simp: variants_of_def)
  show ?thesis
  proof (cases "?total = 0")
    case True
    then show ?thesis using n(2) vs by (cases ?vs) (auto simp: current_frame_def Let_def)
  next
    case False
    have "unat (of_nat t mod ?total) < unat ?total"
      using False by (metis mod_less_divisor unat_eq_zero unat_mod neq0_conv)
    then obtain img where "img \<in> set ?vs" "frame_at (of_nat t mod ?total) ?vs = Some img"
      using frame_at_Some [of "of_nat t mod ?total" ?vs] wrapped_total_le [of ?vs] by fastforce
    then show ?thesis using n(2) vs False by (auto simp: current_frame_def Let_def)
  qed
qed

lemma from_theme_nonempty: "from_theme X theme name sz = Some c \<Longrightarrow> cu_icons c \<noteq> []"
  by (auto simp: from_theme_def bind_eq_Some_conv split: if_splits)

lemma load_named_nonempty: "cu_icons (load_named X (cursor_theming_load X var) name) \<noteq> []"
proof -
  have "cu_icons (procedural_fallback sz) \<noteq> []" for sz by (simp add: procedural_fallback_def Let_def)
  then have "cu_icons (ct_default (cursor_theming_load X var)) \<noteq> []"
    using from_theme_nonempty by (simp add: cursor_theming_load_def Let_def split: option.split)
  then show ?thesis using from_theme_nonempty by (simp add: load_named_def split: option.split)
qed

text \<open>
  whatever the theme holds, whatever delays its animations declare, even when their sum wraps
  around, and at every time, asking for a named cursor yields one of the images of the icon loaded for it:
  the branch the code declares unreachable is.
\<close>

theorem cursor_frame_always_found:
  "\<exists>img \<in> set (cu_icons (load_named X (cursor_theming_load X var) name)).
     current_frame t (load_named X (cursor_theming_load X var) name) = Some img"
  by (rule current_frame_Some) (rule load_named_nonempty)

text \<open>
  The fallback's buffer matches its declared dimensions as long as they fit 16 bits.  Beyond,
  the dimensions are truncated and the buffer is larger.
\<close>

lemma length_fallback_pixels: "length (fallback_pixels s) = s * s * 4"
proof -
  have "length (concat (map (\<lambda>x. if x \<le> y \<and> x + y \<le> s then [0xFF, 0xFF, 0xFF, 0xFF] else [0, 0, 0, 0 :: byte]) [0..<n])) = n * 4" for y n
    by (induction n) simp_all
  then have "length (concat (map (\<lambda>y. concat (map (\<lambda>x.
     if x \<le> y \<and> x + y \<le> s then [0xFF, 0xFF, 0xFF, 0xFF] else [0, 0, 0, 0 :: byte]) [0..<s])) [0..<n])) = n * (s * 4)" for n
    by (induction n) simp_all
  then show ?thesis by (simp add: fallback_pixels_def)
qed

lemma fallback_dimensions:
  "let img = hd (cu_icons (procedural_fallback sz)) in
     unat (ci_width img) = max (unat sz) 8 mod 65536 \<and> ci_height img = ci_width img \<and>
     length (ci_pixels_rgba img) = max (unat sz) 8 * max (unat sz) 8 * 4"
proof -
  have m: "unat (max sz 8) = max (unat sz) 8" by (simp add: max_def word_le_nat_alt)
  have "unat (ucast (of_nat n :: 16 word) :: u32) = n mod 65536" for n
    by (simp add: unsigned_ucast_eq unsigned_of_nat take_bit_nat_def)
  then show ?thesis by (simp add: procedural_fallback_def Let_def m length_fallback_pixels)
qed

lemma fallback_well_formed:
  "unat sz < 65536 \<Longrightarrow> (let img = hd (cu_icons (procedural_fallback sz)) in
     length (ci_pixels_rgba img) = unat (ci_width img) * unat (ci_height img) * 4)"
  using fallback_dimensions [of sz] by (simp add: Let_def)

lemma fallback_truncates:
  "let img = hd (cu_icons (procedural_fallback 65536)) in ci_width img = 0 \<and> length (ci_pixels_rgba img) = 65536 * 65536 * 4"
proof -
  have "unat (65536 :: u32) = 65536" by simp
  then show ?thesis using fallback_dimensions [of 65536] by (simp add: Let_def unat_eq_0)
qed

end
