(* ===== verification/Scene_Render.thy ===== *)
theory Scene_Render
  imports Complex_Main Wallpaper Console_Font Cursor_Theme
begin

text \<open>
  Rendering (\<open>drm.rs\<close>): the front-to-back element list of a frame, compositing and queueing it on
  every output, and the two drivers of the render loop in \<open>main.rs\<close>, the vblank handler and the
  wallpaper tick.

  The compositor of an output (\<open>smithay\<close>'s \<open>DrmCompositor\<close>) is an abstract state with the
  operations of \<open>dc_ops\<close>; what the surfaces of the clients contribute is \<open>world\<close>.  All three
  wallpaper back ends return \<open>Ok\<close> from \<open>render_element\<close>, so building a scene does not fail.
  Pointer coordinates (\<open>f64\<close>) are rationals.
\<close>

section \<open>State\<close>

datatype wlr_layer = LayerBackground | LayerBottom | LayerTop | LayerOverlay

datatype scene_element =
    SurfaceElement nat nat "int \<times> int"
  | WallpaperElement wallpaper_element
  | MemoryElement texture "int \<times> int" bool

datatype cursor_status = CursorHidden | CursorNamed string | CursorSurface nat

record cached_named =
  cn_name :: string
  cn_hotspot :: "int \<times> int"
  cn_buffer :: texture

record cursor_render_state =
  cr_theming :: cursor_theming
  cr_status :: cursor_status
  cr_pointer_loc :: "int \<times> int"
  cr_has_moved :: bool
  cr_cached :: "cached_named option"
  cr_started_at :: instant

record 'c output_surface =
  os_output :: nat
  os_crtc :: nat
  os_compositor :: 'c

record 'c drm_backend =
  db_outputs :: "'c output_surface list"
  db_wallpaper :: wallpaper_engine
  db_cursor :: cursor_render_state
  db_frame_counter :: u64
  db_last_vblank :: "instant option"
  db_overlay_visible :: bool
  db_overlay_text :: "nat list"
  db_overlay_buffer :: "texture option"
  db_in_initramfs :: bool

text \<open>
  The clients' surfaces: the mode of an output, the layer surfaces mapped on it with their
  locations, the render elements of a surface tree, the sizes and cursor hotspots of surfaces, and
  whether the lock of a hotspot is poisoned (a panic left it locked); whether a memory buffer can be
  turned into an element.
\<close>

record world =
  sw_mode :: "nat \<Rightarrow> (int \<times> int) option"
  sw_layers :: "nat \<Rightarrow> nat list"
  sw_layers_on :: "nat \<Rightarrow> wlr_layer \<Rightarrow> (nat \<times> (int \<times> int) option) list"
  sw_tree :: "nat \<Rightarrow> nat list"
  sw_surface_size :: "nat \<Rightarrow> (int \<times> int) option"
  sw_hotspot :: "nat \<Rightarrow> (int \<times> int) option"
  sw_hotspot_poisoned :: "nat \<Rightarrow> bool"
  sw_from_buffer :: "texture \<Rightarrow> bool"

text \<open>What a render consults: the environments of the components it calls and one reading of the clock and the decoder.\<close>

record render_env =
  re_world :: world
  re_wp :: wp_env
  re_decoder :: decoder_env
  re_xcursor :: xcursor_lib
  re_poll :: poll_event

abbreviation re_now :: "render_env \<Rightarrow> instant" where
  "re_now R \<equiv> fst (re_poll R)"

section \<open>Setters\<close>

text \<open>Subtraction of \<open>i32\<close>, which wraps in a release build.\<close>

definition i32_sub :: "int \<Rightarrow> int \<Rightarrow> int" where
  "i32_sub a b = i32_add a (- b)"

definition point_sub :: "int \<times> int \<Rightarrow> int \<times> int \<Rightarrow> int \<times> int" where
  "point_sub a b = (i32_sub (fst a) (fst b), i32_sub (snd a) (snd b))"

definition centered_origin :: "int \<times> int \<Rightarrow> int \<times> int \<Rightarrow> int \<times> int" where
  "centered_origin out surf =
     (let halve = (\<lambda>d. sgn d * (\<bar>d\<bar> div 2)) in
      (max (halve (i32_sub (fst out) (fst surf))) 0, max (halve (i32_sub (snd out) (snd surf))) 0))"

definition db_set_overlay_visible :: "bool \<Rightarrow> 'c drm_backend \<Rightarrow> 'c drm_backend" where
  "db_set_overlay_visible shown b = b\<lparr>db_overlay_visible := shown\<rparr>"

definition set_overlay_text :: "nat list \<Rightarrow> 'c drm_backend \<Rightarrow> 'c drm_backend" where
  "set_overlay_text content b =
     (if db_overlay_text b \<noteq> content then b\<lparr>db_overlay_text := content, db_overlay_buffer := None\<rparr> else b)"

definition set_cursor_status :: "cursor_status \<Rightarrow> 'c drm_backend \<Rightarrow> 'c drm_backend" where
  "set_cursor_status status b =
     (let c = db_cursor b;
          name_changed = (case (cr_status c, status) of (CursorNamed a, CursorNamed n) \<Rightarrow> a \<noteq> n | _ \<Rightarrow> True) in
      b\<lparr>db_cursor := c\<lparr>cr_cached := (if name_changed then None else cr_cached c), cr_status := status\<rparr>\<rparr>)"

text \<open>\<open>f64::round\<close>, half away from zero, and the saturating \<open>as i32\<close>.\<close>

definition round_as_i32 :: "rat \<Rightarrow> int" where
  "round_as_i32 x =
     (let r = (if 0 \<le> x then \<lfloor>x + 1 / 2\<rfloor> else - \<lfloor>- x + 1 / 2\<rfloor>) in max (- (2 ^ 31)) (min (2 ^ 31 - 1) r))"

definition set_pointer_location :: "rat \<times> rat \<Rightarrow> 'c drm_backend \<Rightarrow> 'c drm_backend" where
  "set_pointer_location loc b =
     b\<lparr>db_cursor := (db_cursor b)\<lparr>cr_pointer_loc := (round_as_i32 (fst loc), round_as_i32 (snd loc)), cr_has_moved := True\<rparr>\<rparr>"

definition set_in_initramfs :: "bool \<Rightarrow> 'c drm_backend \<Rightarrow> 'c drm_backend" where
  "set_in_initramfs v b = b\<lparr>db_in_initramfs := v\<rparr>"

definition set_frame_counter :: "u64 \<Rightarrow> 'c drm_backend \<Rightarrow> 'c drm_backend" where
  "set_frame_counter shared b = b\<lparr>db_frame_counter := shared\<rparr>"

section \<open>The scene\<close>

definition surface_elements :: "world \<Rightarrow> nat \<Rightarrow> int \<times> int \<Rightarrow> scene_element list" where
  "surface_elements w surf loc = map (\<lambda>e. SurfaceElement surf e loc) (sw_tree w surf)"

definition bake_cursor :: "render_env \<Rightarrow> string \<Rightarrow> cursor_render_state \<Rightarrow> cached_named option" where
  "bake_cursor R name c =
     map_option (\<lambda>frame. \<lparr>cn_name = name, cn_hotspot = (sint (ci_xhot frame), sint (ci_yhot frame)),
        cn_buffer = \<lparr>tx_bytes = ci_pixels_rgba frame, tx_size = (sint (ci_width frame), sint (ci_height frame))\<rparr>\<rparr>)
       (current_frame ((re_now R - cr_started_at c) div 1000000) (load_named (re_xcursor R) (cr_theming c) name))"

text \<open>\<open>None\<close> is a panic: that of \<open>current_frame\<close>, or of \<open>lock().unwrap()\<close> on a client's hotspot.\<close>

definition cursor_elements :: "render_env \<Rightarrow> cursor_render_state \<Rightarrow> (scene_element list \<times> cursor_render_state) option" where
  "cursor_elements R c =
     (let w = re_world R in
      if \<not> cr_has_moved c \<and> \<not> (case cr_status c of CursorSurface s \<Rightarrow> True | _ \<Rightarrow> False) then Some ([], c)
      else case cr_status c of
          CursorHidden \<Rightarrow> Some ([], c)
        | CursorNamed name \<Rightarrow>
            (let needs_bake = (case cr_cached c of None \<Rightarrow> True | Some k \<Rightarrow> cn_name k \<noteq> name) in
             Option.bind (if needs_bake then bake_cursor R name c else cr_cached c) (\<lambda>cached.
               let loc = point_sub (cr_pointer_loc c) (cn_hotspot cached) in
               Some (if sw_from_buffer w (cn_buffer cached) then [MemoryElement (cn_buffer cached) loc True] else [],
                     c\<lparr>cr_cached := Some cached\<rparr>)))
        | CursorSurface s \<Rightarrow>
            Option.bind (case sw_hotspot w s of
                None \<Rightarrow> Some (0, 0)
              | Some h \<Rightarrow> if sw_hotspot_poisoned w s then None else Some h) (\<lambda>hotspot.
              Some (surface_elements w s (point_sub (cr_pointer_loc c) hotspot), c)))"

definition OVERLAY_BG :: "byte list" where "OVERLAY_BG = [0, 0, 0, 153]"

definition OVERLAY_FG :: "byte list" where "OVERLAY_FG = [220, 220, 220, 255]"

definition output_size :: "world \<Rightarrow> nat \<Rightarrow> int \<times> int" where
  "output_size w out = (case sw_mode w out of Some m \<Rightarrow> m | None \<Rightarrow> (0, 0))"

definition rasterize_overlay :: "world \<Rightarrow> nat \<Rightarrow> nat list \<Rightarrow> texture" where
  "rasterize_overlay w out content =
     (let sz = output_size w out; wd = max (fst sz) 1; h = max (snd sz) 1;
          px = concat (replicate (nat wd * nat h) OVERLAY_BG) in
      \<lparr>tx_bytes = blit_str px (nat wd) (nat h) 8 8 content OVERLAY_FG, tx_size = (wd, h)\<rparr>)"

definition build_overlay_element :: "world \<Rightarrow> nat \<Rightarrow> 'c drm_backend \<Rightarrow> texture option \<times> 'c drm_backend" where
  "build_overlay_element w out b =
     (let buf = (case db_overlay_buffer b of Some t \<Rightarrow> t | None \<Rightarrow> rasterize_overlay w out (db_overlay_text b)) in
      (if sw_from_buffer w buf then Some buf else None, b\<lparr>db_overlay_buffer := Some buf\<rparr>))"

definition layer_elements :: "world \<Rightarrow> nat \<Rightarrow> wlr_layer \<Rightarrow> scene_element list" where
  "layer_elements w out l =
     concat (map (\<lambda>(surf, geo). surface_elements w surf (case geo of Some loc \<Rightarrow> loc | None \<Rightarrow> (0, 0))) (sw_layers_on w out l))"

definition foreground_elements :: "world \<Rightarrow> nat \<Rightarrow> bool \<Rightarrow> nat option \<Rightarrow> scene_element list" where
  "foreground_elements w out in_initramfs fg = (case fg of
     None \<Rightarrow> []
   | Some win \<Rightarrow>
       (let loc = (if in_initramfs
                   then centered_origin (output_size w out) (case sw_surface_size w win of Some s \<Rightarrow> s | None \<Rightarrow> (0, 0))
                   else (0, 0)) in
        surface_elements w win loc))"

definition scene_elements ::
    "render_env \<Rightarrow> nat \<Rightarrow> nat option \<Rightarrow> 'c drm_backend \<Rightarrow> (scene_element list \<times> 'c drm_backend) option" where
  "scene_elements R out fg b =
     Option.bind (cursor_elements R (db_cursor b)) (\<lambda>(cursor, c).
     let w = re_world R; b1 = b\<lparr>db_cursor := c\<rparr>;
         surfaces = layer_elements w out LayerOverlay @ layer_elements w out LayerTop @
           foreground_elements w out (db_in_initramfs b) fg @
           layer_elements w out LayerBottom @ layer_elements w out LayerBackground;
         (elements, b2) = (case wallpaper_slot (length surfaces) (has_backend (db_wallpaper b1)) of
             None \<Rightarrow> (surfaces, b1)
           | Some slot \<Rightarrow>
               (let (el, en) = engine_render_element (re_wp R) (re_decoder R) (re_poll R) (output_size w out) (db_wallpaper b1) in
                (surfaces @ (case el of Some e \<Rightarrow> [WallpaperElement e] | None \<Rightarrow> []), b1\<lparr>db_wallpaper := en\<rparr>)));
         (with_overlay, b3) = (if db_overlay_visible b2
             then (let (ov, b') = build_overlay_element w out b2 in
                   ((case ov of Some t \<Rightarrow> [MemoryElement t (0, 0) False] | None \<Rightarrow> []) @ elements, b'))
             else (elements, b2)) in
     Some (cursor @ with_overlay, b3))"

section \<open>Frames\<close>

text \<open>
  The compositor of an output: \<open>render_frame\<close> says whether the frame is empty (no damage),
  \<open>queue_frame\<close> hands it over for scanout, \<open>frame_submitted\<close> acknowledges a completed flip.
\<close>

datatype frame_error = RenderFrameFailed | QueueFrameFailed | FrameSubmittedFailed | ScenePanic

record 'c dc_ops =
  dc_render_frame :: "scene_element list \<Rightarrow> 'c \<Rightarrow> (frame_error + bool) \<times> 'c"
  dc_queue_frame :: "'c \<Rightarrow> (frame_error + unit) \<times> 'c"
  dc_frame_submitted :: "'c \<Rightarrow> (frame_error + unit) \<times> 'c"

definition render_one_output :: "'c dc_ops \<Rightarrow> scene_element list \<Rightarrow> 'c \<Rightarrow> (frame_error + bool) \<times> 'c" where
  "render_one_output D elements dc = (case dc_render_frame D elements dc of
     (Inl e, dc1) \<Rightarrow> (Inl e, dc1)
   | (Inr is_empty, dc1) \<Rightarrow>
       if is_empty then (Inr False, dc1)
       else case dc_queue_frame D dc1 of
           (Inl e, dc2) \<Rightarrow> (Inl e, dc2)
         | (Inr _, dc2) \<Rightarrow> (Inr True, dc2))"

definition update_output :: "nat \<Rightarrow> ('c \<Rightarrow> 'c) \<Rightarrow> 'c drm_backend \<Rightarrow> 'c drm_backend" where
  "update_output i f b =
     b\<lparr>db_outputs := (db_outputs b)[i := (db_outputs b ! i)\<lparr>os_compositor := f (os_compositor (db_outputs b ! i))\<rparr>]\<rparr>"

text \<open>One output of the loop of \<open>render_all\<close>, also the body of \<open>render_output\<close>.\<close>

definition render_index ::
    "'c dc_ops \<Rightarrow> render_env \<Rightarrow> nat option \<Rightarrow> nat \<Rightarrow> 'c drm_backend \<Rightarrow> (frame_error + bool) \<times> 'c drm_backend" where
  "render_index D R fg i b = (case scene_elements R (os_output (db_outputs b ! i)) fg b of
     None \<Rightarrow> (Inl ScenePanic, b)
   | Some (elements, b1) \<Rightarrow>
       (let (res, dc) = render_one_output D elements (os_compositor (db_outputs b1 ! i)) in
        (res, update_output i (\<lambda>_. dc) b1)))"

fun render_indices ::
    "'c dc_ops \<Rightarrow> render_env \<Rightarrow> nat option \<Rightarrow> nat list \<Rightarrow> bool \<Rightarrow> 'c drm_backend \<Rightarrow> (frame_error + bool) \<times> 'c drm_backend" where
  "render_indices D R fg [] any b = (Inr any, b)"
| "render_indices D R fg (i # is) any b = (case render_index D R fg i b of
     (Inl e, b1) \<Rightarrow> (Inl e, b1)
   | (Inr queued, b1) \<Rightarrow> render_indices D R fg is (any \<or> queued) b1)"

definition bump_frame_counter :: "bool \<Rightarrow> 'c drm_backend \<Rightarrow> 'c drm_backend" where
  "bump_frame_counter any b = (if any then b\<lparr>db_frame_counter := db_frame_counter b + 1\<rparr> else b)"

definition render_all ::
    "'c dc_ops \<Rightarrow> render_env \<Rightarrow> nat option \<Rightarrow> 'c drm_backend \<Rightarrow> (frame_error + bool) \<times> 'c drm_backend" where
  "render_all D R fg b = (case render_indices D R fg [0..<length (db_outputs b)] False b of
     (Inl e, b1) \<Rightarrow> (Inl e, b1)
   | (Inr any, b1) \<Rightarrow> (Inr any, bump_frame_counter any b1))"

definition render_one_frame :: "'c dc_ops \<Rightarrow> render_env \<Rightarrow> 'c drm_backend \<Rightarrow> (frame_error + bool) \<times> 'c drm_backend" where
  "render_one_frame D R b = render_all D R None b"

definition render_layer_elements ::
    "'c dc_ops \<Rightarrow> render_env \<Rightarrow> nat option \<Rightarrow> 'c drm_backend \<Rightarrow> (frame_error + bool) \<times> 'c drm_backend" where
  "render_layer_elements D R fg b = render_all D R fg b"

fun output_position :: "('a \<Rightarrow> bool) \<Rightarrow> 'a list \<Rightarrow> nat option" where
  "output_position P [] = None"
| "output_position P (x # xs) = (if P x then Some 0 else map_option Suc (output_position P xs))"

definition render_output ::
    "'c dc_ops \<Rightarrow> render_env \<Rightarrow> nat \<Rightarrow> nat option \<Rightarrow> 'c drm_backend \<Rightarrow> (frame_error + bool) \<times> 'c drm_backend" where
  "render_output D R crtc fg b = (case output_position (\<lambda>surf. os_crtc surf = crtc) (db_outputs b) of
     None \<Rightarrow> (Inr False, b)
   | Some i \<Rightarrow> (case render_index D R fg i b of
       (Inl e, b1) \<Rightarrow> (Inl e, b1)
     | (Inr queued, b1) \<Rightarrow> (Inr queued, bump_frame_counter queued b1)))"

definition note_vblank :: "instant \<Rightarrow> 'c drm_backend \<Rightarrow> 'c drm_backend" where
  "note_vblank now b = b\<lparr>db_last_vblank := Some now\<rparr>"

definition vblank_stale :: "instant \<Rightarrow> duration \<Rightarrow> 'c drm_backend \<Rightarrow> bool" where
  "vblank_stale now threshold b = (case db_last_vblank b of None \<Rightarrow> True | Some t \<Rightarrow> threshold \<le> now - t)"

definition frame_submitted :: "'c dc_ops \<Rightarrow> nat \<Rightarrow> 'c drm_backend \<Rightarrow> (frame_error + nat option) \<times> 'c drm_backend" where
  "frame_submitted D crtc b = (case output_position (\<lambda>surf. os_crtc surf = crtc) (db_outputs b) of
     None \<Rightarrow> (Inr None, b)
   | Some i \<Rightarrow>
       (let (res, dc) = dc_frame_submitted D (os_compositor (db_outputs b ! i)); b1 = update_output i (\<lambda>_. dc) b in
        (case res of Inl e \<Rightarrow> (Inl e, b1) | Inr _ \<Rightarrow> (Inr (Some (os_output (db_outputs b ! i))), b1))))"

datatype wallpaper_tick_action = TickIdle | RenderContinuous | RenderAndSwapped

definition tick_wallpaper :: "render_env \<Rightarrow> 'c drm_backend \<Rightarrow> wallpaper_tick_action \<times> 'c drm_backend" where
  "tick_wallpaper R b =
     (let (fallback_swapped, en) = engine_tick (re_wp R) (re_decoder R) (re_poll R) (db_wallpaper b);
          wants_continuous = engine_wants_continuous en in
      (if fallback_swapped then RenderAndSwapped else if wants_continuous then RenderContinuous else TickIdle,
       b\<lparr>db_wallpaper := en\<rparr>))"

section \<open>The drivers\<close>

text \<open>
  The part of \<open>HalmasuitState\<close> the render loop uses, with a log of what is sent to the clients:
  frame callbacks and presentation feedback for the surfaces of the output that flipped.
\<close>

datatype client_note = FrameDone nat nat | Presented nat nat u64

record 'c render_loop =
  rl_backend :: "'c drm_backend option"
  rl_foreground :: "nat option"
  rl_shutting_down :: bool
  rl_presentation_seq :: u64
  rl_notes :: "client_note list"

definition visible_toplevel :: "'c render_loop \<Rightarrow> nat option" where
  "visible_toplevel s = (if rl_shutting_down s then None else rl_foreground s)"

definition repaint_scene :: "'c dc_ops \<Rightarrow> render_env \<Rightarrow> 'c render_loop \<Rightarrow> 'c render_loop" where
  "repaint_scene D R s = s\<lparr>rl_backend := map_option (\<lambda>b. snd (render_layer_elements D R (visible_toplevel s) b)) (rl_backend s)\<rparr>"

datatype drm_event = VBlank nat | DrmError

definition notify_flip :: "world \<Rightarrow> nat \<Rightarrow> 'c render_loop \<Rightarrow> 'c render_loop" where
  "notify_flip w out s =
     (let layers = sw_layers w out; tops = (case rl_foreground s of Some t \<Rightarrow> [t] | None \<Rightarrow> []);
          seq = rl_presentation_seq s + 1 in
      s\<lparr>rl_presentation_seq := seq,
        rl_notes := rl_notes s @ map (FrameDone out) (layers @ tops) @ map (\<lambda>f. Presented out f seq) (tops @ layers)\<rparr>)"

definition handle_drm_event :: "'c dc_ops \<Rightarrow> render_env \<Rightarrow> drm_event \<Rightarrow> 'c render_loop \<Rightarrow> 'c render_loop" where
  "handle_drm_event D R ev s =
     (if rl_shutting_down s then s
      else case ev of
          DrmError \<Rightarrow> s
        | VBlank crtc \<Rightarrow> (case rl_backend s of
            None \<Rightarrow> s
          | Some b \<Rightarrow> (case frame_submitted D crtc b of
              (Inl e, b1) \<Rightarrow> s\<lparr>rl_backend := Some b1\<rparr>
            | (Inr None, b1) \<Rightarrow> s\<lparr>rl_backend := Some b1\<rparr>
            | (Inr (Some out), b1) \<Rightarrow>
                (let s1 = notify_flip (re_world R) out (s\<lparr>rl_backend := Some b1\<rparr>);
                     wants_continuous = engine_wants_continuous (db_wallpaper b1);
                     b2 = note_vblank (re_now R) b1 in
                 s1\<lparr>rl_backend := Some (if wants_continuous then snd (render_output D R crtc (visible_toplevel s) b2) else b2)\<rparr>))))"

definition KEEPALIVE_STALL :: duration where "KEEPALIVE_STALL = 200 * 1000000"

definition wallpaper_tick :: "'c dc_ops \<Rightarrow> render_env \<Rightarrow> 'c render_loop \<Rightarrow> wallpaper_tick_action option \<times> 'c render_loop" where
  "wallpaper_tick D R s = (case rl_backend s of
     None \<Rightarrow> (None, s)
   | Some b \<Rightarrow>
       (let (action, b1) = tick_wallpaper R b;
            should_render = (case action of
                RenderAndSwapped \<Rightarrow> True
              | RenderContinuous \<Rightarrow> vblank_stale (re_now R) KEEPALIVE_STALL b1
              | TickIdle \<Rightarrow> False);
            b2 = (if should_render then snd (render_one_frame D R b1) else b1) in
        (Some action, s\<lparr>rl_backend := Some b2\<rparr>)))"

section \<open>The order of the scene\<close>

text \<open>
  What the cursor contributes: nothing when hidden, or when named and never moved; the image of its
  name, from the cache or baked now and then cached; the surface tree of a client's cursor.  Both
  stand at the pointer less the hotspot.
\<close>

definition cursor_shows :: "render_env \<Rightarrow> cursor_render_state \<Rightarrow> scene_element list \<Rightarrow> cursor_render_state \<Rightarrow> bool" where
  "cursor_shows R c els c' \<longleftrightarrow> (case cr_status c of
     CursorHidden \<Rightarrow> els = [] \<and> c' = c
   | CursorSurface s \<Rightarrow>
       els = surface_elements (re_world R) s (point_sub (cr_pointer_loc c) (case sw_hotspot (re_world R) s of Some h \<Rightarrow> h | None \<Rightarrow> (0, 0))) \<and> c' = c
   | CursorNamed name \<Rightarrow>
       if cr_has_moved c
       then \<exists>k. cr_cached c' = Some k \<and> cn_name k = name \<and> (cr_cached c = Some k \<or> bake_cursor R name c = Some k) \<and>
         els = (if sw_from_buffer (re_world R) (cn_buffer k)
                then [MemoryElement (cn_buffer k) (point_sub (cr_pointer_loc c) (cn_hotspot k)) True] else [])
       else els = [] \<and> c' = c)"

lemma cursor_elements_Some:
  assumes "cr_theming c = cursor_theming_load (re_xcursor R) var"
    and "\<forall>s. cr_status c = CursorSurface s \<longrightarrow> \<not> sw_hotspot_poisoned (re_world R) s"
  shows "\<exists>cursor c'. cursor_elements R c = Some (cursor, c') \<and> cursor_shows R c cursor c'"
proof (cases "cr_status c")
  case CursorHidden
  then show ?thesis by (simp add: cursor_elements_def cursor_shows_def Let_def)
next
  case (CursorNamed name)
  obtain k where k: "bake_cursor R name c = Some k" "cn_name k = name"
    using current_frame_Some [OF load_named_nonempty [of "re_xcursor R" var name], of "(re_now R - cr_started_at c) div 1000000"]
    by (auto simp: bake_cursor_def assms(1))
  show ?thesis
  proof (cases "\<exists>k0. cr_cached c = Some k0 \<and> cn_name k0 = name")
    case True
    then show ?thesis using CursorNamed by (auto simp: cursor_elements_def cursor_shows_def Let_def)
  next
    case False
    then show ?thesis using CursorNamed k by (cases "cr_cached c") (auto simp: cursor_elements_def cursor_shows_def Let_def)
  qed
next
  case (CursorSurface s)
  then have "\<not> sw_hotspot_poisoned (re_world R) s" using assms(2) by blast
  then show ?thesis using CursorSurface
    by (cases "sw_hotspot (re_world R) s") (simp_all add: cursor_elements_def cursor_shows_def Let_def)
qed

lemma cursor_shows_no_wallpaper: "cursor_shows R c els c' \<Longrightarrow> WallpaperElement w \<notin> set els"
  by (cases "cr_status c") (auto simp: cursor_shows_def surface_elements_def split: if_splits)

lemma engine_renders_iff: "(\<exists>el. fst (engine_render_element W E pe sz en) = Some el) \<longleftrightarrow> has_backend en"
proof (cases "en_backend en")
  case None
  then show ?thesis by (simp add: engine_render_element_def maybe_swap_fallback_def has_backend_def)
next
  case (Some b)
  then have "\<exists>b'. en_backend (snd (maybe_swap_fallback W en)) = Some b'"
    by (auto simp: maybe_swap_fallback_def split: option.split fallback_kind.split sum.split)
  then show ?thesis using Some by (auto simp: engine_render_element_def has_backend_def split_beta)
qed

definition surfaces_of :: "world \<Rightarrow> nat \<Rightarrow> bool \<Rightarrow> nat option \<Rightarrow> scene_element list" where
  "surfaces_of w out in_initramfs fg = layer_elements w out LayerOverlay @ layer_elements w out LayerTop @
     foreground_elements w out in_initramfs fg @ layer_elements w out LayerBottom @ layer_elements w out LayerBackground"

lemma scene_elements_eq:
  assumes "cursor_elements R (db_cursor b) = Some (cursor, c)"
  shows "\<exists>b'. scene_elements R out fg b = Some (cursor @
      (if db_overlay_visible b
       then (case fst (build_overlay_element (re_world R) out b) of Some t \<Rightarrow> [MemoryElement t (0, 0) False] | None \<Rightarrow> []) else []) @
      surfaces_of (re_world R) out (db_in_initramfs b) fg @
      (case fst (engine_render_element (re_wp R) (re_decoder R) (re_poll R) (output_size (re_world R) out) (db_wallpaper b)) of
         Some el \<Rightarrow> [WallpaperElement el] | None \<Rightarrow> []), b') \<and>
    db_outputs b' = db_outputs b \<and> db_frame_counter b' = db_frame_counter b \<and> db_last_vblank b' = db_last_vblank b \<and>
    db_cursor b' = c \<and> (db_overlay_visible b \<longrightarrow> db_overlay_buffer b' = db_overlay_buffer (snd (build_overlay_element (re_world R) out b)))"
proof (cases "has_backend (db_wallpaper b)")
  case True
  then show ?thesis
    by (simp add: scene_elements_def assms wallpaper_slot_def surfaces_of_def build_overlay_element_def Let_def split_beta
        cong: option.case_cong)
next
  case False
  then have "fst (engine_render_element (re_wp R) (re_decoder R) (re_poll R) (output_size (re_world R) out) (db_wallpaper b)) = None"
    using engine_renders_iff [of "re_wp R" "re_decoder R" "re_poll R" _ "db_wallpaper b"] by (meson not_None_eq)
  then show ?thesis using False
    by (simp add: scene_elements_def assms wallpaper_slot_def surfaces_of_def build_overlay_element_def Let_def split_beta
        cong: option.case_cong)
qed

lemma surfaces_no_wallpaper: "WallpaperElement w \<notin> set (surfaces_of v out i fg)"
  by (auto simp: surfaces_of_def layer_elements_def foreground_elements_def surface_elements_def Let_def split: option.splits)

definition overlay_list :: "bool \<Rightarrow> texture option \<Rightarrow> scene_element list" where
  "overlay_list shown x = (if shown then (case x of Some t \<Rightarrow> [MemoryElement t (0, 0) False] | None \<Rightarrow> []) else [])"

lemma overlay_list_no_wallpaper: "WallpaperElement w \<notin> set (overlay_list shown x)"
  by (cases x; cases shown) (simp_all add: overlay_list_def)

text \<open>The overlay when it is shown: the cached picture, or the text drawn for this output and then cached.\<close>

definition overlay_shows :: "world \<Rightarrow> nat \<Rightarrow> 'c drm_backend \<Rightarrow> scene_element list \<Rightarrow> 'c drm_backend \<Rightarrow> bool" where
  "overlay_shows w out b els b' \<longleftrightarrow>
     (if db_overlay_visible b
      then \<exists>t. db_overlay_buffer b' = Some t \<and>
        (db_overlay_buffer b = Some t \<or> db_overlay_buffer b = None \<and> t = rasterize_overlay w out (db_overlay_text b)) \<and>
        els = (if sw_from_buffer w t then [MemoryElement t (0, 0) False] else [])
      else els = [])"

lemma overlay_list_shows:
  assumes "db_overlay_visible b \<longrightarrow> db_overlay_buffer b' = db_overlay_buffer (snd (build_overlay_element w out b))"
  shows "overlay_shows w out b (overlay_list (db_overlay_visible b) (fst (build_overlay_element w out b))) b'"
  using assms by (cases "db_overlay_buffer b") (auto simp: overlay_shows_def overlay_list_def build_overlay_element_def Let_def)

text \<open>
  C21: what a frame consists of, from the top: the cursor, the diagnostic overlay, the layers overlay and top,
  the foreground window, the layers bottom and background, and, when a wallpaper is configured, the
  wallpaper's element, which occurs once and nowhere else.  The cursor and the overlay are there
  whenever they are to be shown and the renderer can import their pictures.  The frame is always built,
  provided the lock on the hotspot of a client's cursor is not poisoned.
\<close>

theorem wallpaper_is_bottom_most:
  assumes "cr_theming (db_cursor b) = cursor_theming_load (re_xcursor R) var"
    and "\<forall>s. cr_status (db_cursor b) = CursorSurface s \<longrightarrow> \<not> sw_hotspot_poisoned (re_world R) s"
  shows "\<exists>cursor overlay bottom b'. scene_elements R out fg b =
      Some (cursor @ overlay @ surfaces_of (re_world R) out (db_in_initramfs b) fg @ bottom, b') \<and>
    cursor_shows R (db_cursor b) cursor (db_cursor b') \<and> overlay_shows (re_world R) out b overlay b' \<and>
    (if has_backend (db_wallpaper b)
     then \<exists>el. fst (engine_render_element (re_wp R) (re_decoder R) (re_poll R) (output_size (re_world R) out) (db_wallpaper b)) = Some el \<and>
       bottom = [WallpaperElement el]
     else bottom = []) \<and>
    (\<forall>w. WallpaperElement w \<notin> set (cursor @ overlay @ surfaces_of (re_world R) out (db_in_initramfs b) fg))"
proof -
  obtain cursor c where c: "cursor_elements R (db_cursor b) = Some (cursor, c)" "cursor_shows R (db_cursor b) cursor c"
    using cursor_elements_Some [OF assms] by metis
  let ?ov = "overlay_list (db_overlay_visible b) (fst (build_overlay_element (re_world R) out b))"
  let ?el = "fst (engine_render_element (re_wp R) (re_decoder R) (re_poll R) (output_size (re_world R) out) (db_wallpaper b))"
  let ?bot = "case ?el of Some el \<Rightarrow> [WallpaperElement el] | None \<Rightarrow> []"
  obtain b' where s: "scene_elements R out fg b = Some (cursor @ ?ov @ surfaces_of (re_world R) out (db_in_initramfs b) fg @ ?bot, b')"
      "db_cursor b' = c" "db_overlay_visible b \<longrightarrow> db_overlay_buffer b' = db_overlay_buffer (snd (build_overlay_element (re_world R) out b))"
    using scene_elements_eq [OF c(1), of out fg] unfolding overlay_list_def by blast
  have "overlay_shows (re_world R) out b ?ov b'" using s(3) by (rule overlay_list_shows)
  moreover have "if has_backend (db_wallpaper b) then \<exists>el. ?el = Some el \<and> ?bot = [WallpaperElement el] else ?bot = []"
    using engine_renders_iff [of "re_wp R" "re_decoder R" "re_poll R" "output_size (re_world R) out" "db_wallpaper b"]
    by (auto split: option.split)
  moreover have "\<forall>w. WallpaperElement w \<notin> set (cursor @ ?ov @ surfaces_of (re_world R) out (db_in_initramfs b) fg)"
    using cursor_shows_no_wallpaper [OF c(2)] by (auto simp: overlay_list_no_wallpaper surfaces_no_wallpaper)
  ultimately show ?thesis using s(1) c(2) unfolding s(2) [symmetric] by (intro exI conjI)
qed

section \<open>Flips after shutdown\<close>

text \<open>
  The part of \<open>DrmCompositor\<close>'s contract used here: while a flip is pending, queueing another frame
  only stores it; it is submitted when the pending one is acknowledged.  \<open>flips\<close> counts the flips
  submitted to the kernel.
\<close>

definition flip_contract :: "'c dc_ops \<Rightarrow> ('c \<Rightarrow> bool) \<Rightarrow> ('c \<Rightarrow> nat) \<Rightarrow> bool" where
  "flip_contract D pending flips \<longleftrightarrow>
     (\<forall>els c. let c' = snd (dc_render_frame D els c) in pending c' = pending c \<and> flips c' = flips c) \<and>
     (\<forall>c. let c' = snd (dc_queue_frame D c) in
        if pending c then pending c' \<and> flips c' = flips c else flips c' = flips c \<or> pending c' \<and> flips c' = flips c + 1)"

definition flip_room :: "('c \<Rightarrow> bool) \<Rightarrow> ('c \<Rightarrow> nat) \<Rightarrow> 'c \<Rightarrow> nat" where
  "flip_room pending flips c = flips c + (if pending c then 0 else 1)"

lemma render_one_output_room:
  assumes "flip_contract D pending flips"
  shows "flip_room pending flips (snd (render_one_output D els c)) \<le> flip_room pending flips c"
proof -
  let ?r = "snd (dc_render_frame D els c)"
  have r: "pending ?r = pending c" "flips ?r = flips c" using assms by (simp_all add: flip_contract_def Let_def)
  have "if pending ?r then pending (snd (dc_queue_frame D ?r)) \<and> flips (snd (dc_queue_frame D ?r)) = flips ?r
      else flips (snd (dc_queue_frame D ?r)) = flips ?r \<or> pending (snd (dc_queue_frame D ?r)) \<and> flips (snd (dc_queue_frame D ?r)) = flips ?r + 1"
    using assms unfolding flip_contract_def Let_def by blast
  then have "flip_room pending flips (snd (dc_queue_frame D ?r)) \<le> flip_room pending flips c"
    using r by (auto simp: flip_room_def split: if_splits)
  moreover have "flip_room pending flips ?r = flip_room pending flips c" using r by (simp add: flip_room_def)
  moreover have "snd (render_one_output D els c) \<in> {?r, snd (dc_queue_frame D ?r)}"
    by (auto simp: render_one_output_def split: prod.split sum.split)
  ultimately show ?thesis by auto
qed

text \<open>Two backends agree on their outputs up to the compositors, whose room does not grow.\<close>

definition outputs_le :: "('c \<Rightarrow> nat) \<Rightarrow> 'c drm_backend \<Rightarrow> 'c drm_backend \<Rightarrow> bool" where
  "outputs_le m b' b \<longleftrightarrow> length (db_outputs b') = length (db_outputs b) \<and>
     (\<forall>i < length (db_outputs b). m (os_compositor (db_outputs b' ! i)) \<le> m (os_compositor (db_outputs b ! i)))"

lemma outputs_le_same: "db_outputs b' = db_outputs b \<Longrightarrow> outputs_le m b' b"
  by (simp add: outputs_le_def)

lemma outputs_le_refl: "outputs_le m b b"
  by (simp add: outputs_le_def)

lemma outputs_le_trans: "outputs_le m b2 b1 \<Longrightarrow> outputs_le m b1 b \<Longrightarrow> outputs_le m b2 b"
  by (fastforce simp: outputs_le_def)

lemma update_output_le:
  "m c \<le> m (os_compositor (db_outputs b ! i)) \<Longrightarrow> outputs_le m (update_output i (\<lambda>_. c) b) b"
  by (cases "i < length (db_outputs b)") (auto simp: outputs_le_def update_output_def nth_list_update)

lemma scene_elements_keeps: "scene_elements R out fg b = Some (els, b') \<Longrightarrow> db_outputs b' = db_outputs b"
  using scene_elements_eq [of R b _ _ out fg] by (auto simp: scene_elements_def [of R out fg b] bind_eq_Some_conv)

lemma render_index_le:
  assumes "\<And>els c. m (snd (render_one_output D els c)) \<le> m c"
  shows "outputs_le m (snd (render_index D R fg i b)) b"
proof (cases "scene_elements R (os_output (db_outputs b ! i)) fg b")
  case (Some p)
  obtain els b1 where p: "p = (els, b1)" by force
  have o: "db_outputs b1 = db_outputs b" using Some p scene_elements_keeps by blast
  let ?c = "snd (render_one_output D els (os_compositor (db_outputs b1 ! i)))"
  have "outputs_le m (update_output i (\<lambda>_. ?c) b1) b1" by (rule update_output_le) (rule assms)
  moreover have "outputs_le m b1 b" using o by (rule outputs_le_same)
  ultimately have "outputs_le m (update_output i (\<lambda>_. ?c) b1) b" by (rule outputs_le_trans)
  then show ?thesis using Some p by (simp add: render_index_def split_beta)
qed (simp add: render_index_def outputs_le_refl)

lemma render_indices_le:
  assumes "\<And>els c. m (snd (render_one_output D els c)) \<le> m c"
  shows "outputs_le m (snd (render_indices D R fg is any b)) b"
proof (induction "is" arbitrary: any b)
  case (Cons i "is")
  obtain res b1 where r: "render_index D R fg i b = (res, b1)" by force
  have b1: "outputs_le m b1 b" using render_index_le [OF assms, of R fg i b] by (simp add: r)
  show ?case
  proof (cases res)
    case (Inr queued)
    then show ?thesis using outputs_le_trans [OF Cons.IH [of "any \<or> queued" b1] b1] by (simp add: r)
  qed (use b1 in \<open>simp add: r\<close>)
qed (simp add: outputs_le_refl)

lemma render_all_le:
  assumes "\<And>els c. m (snd (render_one_output D els c)) \<le> m c"
  shows "outputs_le m (snd (render_all D R fg b)) b"
proof -
  obtain res b1 where r: "render_indices D R fg [0..<length (db_outputs b)] False b = (res, b1)" by force
  have b1: "outputs_le m b1 b" using render_indices_le [OF assms, of R fg _ False b] r by (metis snd_conv)
  have "outputs_le m (bump_frame_counter a b1) b1" for a by (rule outputs_le_same) (simp add: bump_frame_counter_def)
  from outputs_le_trans [OF this b1] show ?thesis using b1 by (cases res) (simp_all add: render_all_def r)
qed

text \<open>The events of the render loop.\<close>

datatype loop_event = DrmReady render_env drm_event | KeepaliveTick render_env | CommitDrained render_env

fun loop_step :: "'c dc_ops \<Rightarrow> 'c render_loop \<Rightarrow> loop_event \<Rightarrow> 'c render_loop \<times> unit" where
  "loop_step D s (DrmReady R ev) = (handle_drm_event D R ev s, ())"
| "loop_step D s (KeepaliveTick R) = (snd (wallpaper_tick D R s), ())"
| "loop_step D s (CommitDrained R) = (repaint_scene D R s, ())"

definition loop_le :: "('c \<Rightarrow> nat) \<Rightarrow> 'c drm_backend \<Rightarrow> 'c render_loop \<Rightarrow> bool" where
  "loop_le m b0 s \<longleftrightarrow> rl_shutting_down s \<and> (\<exists>b. rl_backend s = Some b \<and> outputs_le m b b0)"

lemma tick_wallpaper_outputs [simp]:
  "db_outputs (snd (tick_wallpaper R b)) = db_outputs b" "db_frame_counter (snd (tick_wallpaper R b)) = db_frame_counter b"
  "db_last_vblank (snd (tick_wallpaper R b)) = db_last_vblank b"
  by (simp_all add: tick_wallpaper_def split_beta Let_def)

lemma loop_le_step:
  assumes "\<And>els c. m (snd (render_one_output D els c)) \<le> m c" and "loop_le m b0 s"
  shows "loop_le m b0 (fst (loop_step D s ev))"
proof -
  obtain b where b: "rl_shutting_down s" "rl_backend s = Some b" "outputs_le m b b0" using assms(2) by (auto simp: loop_le_def)
  note le = render_all_le [OF assms(1)]
  show ?thesis
  proof (cases ev)
    case (DrmReady R e)
    then show ?thesis using assms(2) b by (simp add: handle_drm_event_def)
  next
    case (KeepaliveTick R)
    have "outputs_le m (snd (tick_wallpaper R b)) b0" using b(3) by (simp add: outputs_le_def)
    moreover from this have "outputs_le m (snd (render_one_frame D R (snd (tick_wallpaper R b)))) b0"
      unfolding render_one_frame_def by (rule outputs_le_trans [OF le])
    ultimately show ?thesis using KeepaliveTick b
      by (simp add: wallpaper_tick_def loop_le_def split_beta Let_def)
  next
    case (CommitDrained R)
    have "outputs_le m (snd (render_layer_elements D R fg b)) b0" for fg
      unfolding render_layer_elements_def using le b(3) by (rule outputs_le_trans)
    then show ?thesis using CommitDrained b by (simp add: repaint_scene_def loop_le_def)
  qed
qed

lemma loop_le_run:
  assumes "\<And>els c. m (snd (render_one_output D els c)) \<le> m c"
  shows "loop_le m b0 s \<Longrightarrow> loop_le m b0 (final (loop_step D) s evs)"
  by (induction evs arbitrary: s) (simp_all add: loop_le_step [OF assms])

text \<open>
  once the compositor shuts down, at most one more flip reaches each screen, however many
  vblanks, ticks and client commits follow and however many frames are rendered and counted: the
  vblank handler no longer acknowledges flips, so the first flip submitted stays pending and every
  later frame is only queued behind it.
\<close>

theorem at_most_one_flip_after_shutdown:
  assumes "flip_contract D pending flips" and "rl_shutting_down s" and "rl_backend s = Some b"
  shows "\<exists>b'. rl_backend (final (loop_step D) s evs) = Some b' \<and> length (db_outputs b') = length (db_outputs b) \<and>
    (\<forall>i < length (db_outputs b). flips (os_compositor (db_outputs b' ! i)) \<le>
       flips (os_compositor (db_outputs b ! i)) + (if pending (os_compositor (db_outputs b ! i)) then 0 else 1))"
proof -
  let ?m = "flip_room pending flips"
  have "loop_le ?m b s" using assms(2,3) by (simp add: loop_le_def outputs_le_refl)
  then have "loop_le ?m b (final (loop_step D) s evs)"
    by (rule loop_le_run [rotated]) (rule render_one_output_room [OF assms(1)])
  then obtain b' where b': "rl_backend (final (loop_step D) s evs) = Some b'" "outputs_le ?m b' b" by (auto simp: loop_le_def)
  have "flips (os_compositor (db_outputs b' ! i)) \<le>
       flips (os_compositor (db_outputs b ! i)) + (if pending (os_compositor (db_outputs b ! i)) then 0 else 1)"
    if "i < length (db_outputs b)" for i
  proof -
    have "?m (os_compositor (db_outputs b' ! i)) \<le> ?m (os_compositor (db_outputs b ! i))"
      using b'(2) that by (simp add: outputs_le_def)
    then show ?thesis by (simp add: flip_room_def split: if_splits)
  qed
  then show ?thesis using b' by (auto simp: outputs_le_def)
qed

text \<open>A compositor with the contract: whether a flip is pending, whether a frame is queued behind it, and the flips.\<close>

definition sim_ops :: "(bool \<times> bool \<times> nat) dc_ops" where
  "sim_ops = \<lparr>dc_render_frame = (\<lambda>els c. (Inr False, c)),
     dc_queue_frame = (\<lambda>(p, q, n). (Inr (), if p then (True, True, n) else (True, False, n + 1))),
     dc_frame_submitted = (\<lambda>(p, q, n). (Inr (), if p \<and> q then (True, False, n + 1) else (False, False, n)))\<rparr>"

lemma sim_contract: "flip_contract sim_ops fst (\<lambda>(p, q, n). n)"
  by (auto simp: flip_contract_def sim_ops_def Let_def)

definition demo_render_env :: "decoder_env \<Rightarrow> spawn_sys \<Rightarrow> instant \<Rightarrow> render_env" where
  "demo_render_env E K now = \<lparr>re_world = \<lparr>sw_mode = (\<lambda>_. Some (2, 2)), sw_layers = (\<lambda>_. []), sw_layers_on = (\<lambda>_ _. []),
       sw_tree = (\<lambda>s. [s, s + 1]), sw_surface_size = (\<lambda>_. None), sw_hotspot = (\<lambda>_. Some (3, 1)), sw_hotspot_poisoned = (\<lambda>_. False), sw_from_buffer = (\<lambda>_. True)\<rparr>,
     re_wp = demo_wp, re_decoder = E,
     re_xcursor = \<lparr>xc_load_icon = (\<lambda>_ _. None), xc_read = (\<lambda>_. None), xc_parse = (\<lambda>_. None)\<rparr>, re_poll = (now, K, [])\<rparr>"

definition demo_shader :: wallpaper_engine where
  "demo_shader = with_backend (ShaderBackend \<lparr>sh_program = 0, sh_bindings = [], sh_frame_start = 0, sh_last_frame = 0,
     sh_frame_counter = 0, sh_last_output_size = (0, 0), sh_event_times = Map.empty, sh_event_values = Map.empty\<rparr>)"

definition demo_backend :: "wallpaper_engine \<Rightarrow> (bool \<times> bool \<times> nat) drm_backend" where
  "demo_backend en = \<lparr>db_outputs = [\<lparr>os_output = 0, os_crtc = 7, os_compositor = (True, False, 5)\<rparr>],
     db_wallpaper = en,
     db_cursor = \<lparr>cr_theming = cursor_theming_load \<lparr>xc_load_icon = (\<lambda>_ _. None), xc_read = (\<lambda>_. None), xc_parse = (\<lambda>_. None)\<rparr> (\<lambda>_. None),
       cr_status = CursorNamed ''default'', cr_pointer_loc = (0, 0), cr_has_moved = False, cr_cached = None, cr_started_at = 0\<rparr>,
     db_frame_counter = 9, db_last_vblank = None, db_overlay_visible = False, db_overlay_text = [], db_overlay_buffer = None,
     db_in_initramfs = False\<rparr>"

definition demo_stopping :: "(bool \<times> bool \<times> nat) render_loop" where
  "demo_stopping = \<lparr>rl_backend = Some (demo_backend demo_shader), rl_foreground = None, rl_shutting_down = True, rl_presentation_seq = 0,
     rl_notes = []\<rparr>"

lemmas render_eval_simps = loop_step.simps handle_drm_event_def wallpaper_tick_def tick_wallpaper_def engine_tick_def
  maybe_swap_fallback_def engine_wants_continuous_def vblank_stale_def render_one_frame_def render_all_def render_index_def
  scene_elements_def cursor_elements_def demo_shader_def with_backend_def demo_backend_def demo_render_env_def has_backend_def
  wallpaper_slot_def engine_render_element_def shader_render_element_def layer_elements_def foreground_elements_def
  render_one_output_def sim_ops_def update_output_def bump_frame_counter_def

text \<open>The counter of frames keeps advancing while the number of flips stands still.\<close>

lemma counter_outruns_flips:
  "map_option (\<lambda>b. (db_frame_counter b, map os_compositor (db_outputs b)))
     (rl_backend (final (loop_step sim_ops) demo_stopping
       [KeepaliveTick (demo_render_env E K 1), DrmReady (demo_render_env E K 2) (VBlank 7), KeepaliveTick (demo_render_env E K 3)])) =
     Some (11, [(True, True, 5)])"
  by (simp add: demo_stopping_def render_eval_simps split_beta Let_def)

theorem at_most_one_flip_after_shutdown_witness:
  "\<forall>E K. \<exists>b'. rl_backend (final (loop_step sim_ops) demo_stopping
       [KeepaliveTick (demo_render_env E K 1), DrmReady (demo_render_env E K 2) (VBlank 7), KeepaliveTick (demo_render_env E K 3)]) = Some b' \<and>
     (\<lambda>(p, q, n). n) (os_compositor (db_outputs b' ! 0)) \<le> (5 :: nat)"
proof (intro allI)
  fix E K
  have "rl_shutting_down demo_stopping" "rl_backend demo_stopping = Some (demo_backend demo_shader)"
    by (simp_all add: demo_stopping_def)
  from at_most_one_flip_after_shutdown [OF sim_contract this] show
    "\<exists>b'. rl_backend (final (loop_step sim_ops) demo_stopping
       [KeepaliveTick (demo_render_env E K 1), DrmReady (demo_render_env E K 2) (VBlank 7), KeepaliveTick (demo_render_env E K 3)]) = Some b' \<and>
     (\<lambda>(p, q, n). n) (os_compositor (db_outputs b' ! 0)) \<le> (5 :: nat)"
    by (fastforce simp: demo_backend_def)
qed

text \<open>A client's cursor, the overlay, a window and the wallpaper.\<close>

definition demo_full_scene :: "(bool \<times> bool \<times> nat) drm_backend" where
  "demo_full_scene = (demo_backend demo_shader)\<lparr>db_overlay_visible := True, db_overlay_buffer := Some \<lparr>tx_bytes = [], tx_size = (1, 1)\<rparr>,
     db_cursor := (db_cursor (demo_backend demo_shader))\<lparr>cr_status := CursorSurface 20, cr_pointer_loc := (8, 8)\<rparr>\<rparr>"

theorem wallpaper_is_bottom_most_witness:
  "\<forall>E K. \<exists>el b'. scene_elements (demo_render_env E K 1) 0 (Some 30) demo_full_scene =
     Some ([SurfaceElement 20 20 (5, 7), SurfaceElement 20 21 (5, 7), MemoryElement \<lparr>tx_bytes = [], tx_size = (1, 1)\<rparr> (0, 0) False,
       SurfaceElement 30 30 (0, 0), SurfaceElement 30 31 (0, 0), WallpaperElement el], b')"
proof (intro allI)
  fix E K
  let ?R = "demo_render_env E K 1"
  have "cr_theming (db_cursor demo_full_scene) = cursor_theming_load (re_xcursor ?R) (\<lambda>_. None)"
    "\<forall>s. cr_status (db_cursor demo_full_scene) = CursorSurface s \<longrightarrow> \<not> sw_hotspot_poisoned (re_world ?R) s"
    by (simp_all add: demo_full_scene_def demo_backend_def demo_render_env_def)
  note frame = wallpaper_is_bottom_most [OF this, of 0 "Some 30"]
  have "has_backend (db_wallpaper demo_full_scene)" "surfaces_of (re_world ?R) 0 (db_in_initramfs demo_full_scene) (Some 30) =
      [SurfaceElement 30 30 (0, 0), SurfaceElement 30 31 (0, 0)]"
    by (simp_all add: demo_full_scene_def demo_backend_def demo_shader_def has_backend_def with_backend_def demo_render_env_def
        surfaces_of_def layer_elements_def foreground_elements_def surface_elements_def)
  moreover have "cursor_shows ?R (db_cursor demo_full_scene) cursor c' \<longleftrightarrow>
      cursor = [SurfaceElement 20 20 (5, 7), SurfaceElement 20 21 (5, 7)] \<and> c' = db_cursor demo_full_scene" for cursor c'
    by (simp add: cursor_shows_def demo_full_scene_def demo_render_env_def surface_elements_def point_sub_def i32_sub_def i32_add_def)
  moreover have "overlay_shows (re_world ?R) 0 demo_full_scene overlay b' \<Longrightarrow>
      overlay = [MemoryElement \<lparr>tx_bytes = [], tx_size = (1, 1)\<rparr> (0, 0) False]" for overlay b'
    by (auto simp: overlay_shows_def demo_full_scene_def demo_render_env_def)
  ultimately show "\<exists>el b'. scene_elements ?R 0 (Some 30) demo_full_scene =
     Some ([SurfaceElement 20 20 (5, 7), SurfaceElement 20 21 (5, 7), MemoryElement \<lparr>tx_bytes = [], tx_size = (1, 1)\<rparr> (0, 0) False,
       SurfaceElement 30 30 (0, 0), SurfaceElement 30 31 (0, 0), WallpaperElement el], b')"
    using frame by fastforce
qed

section \<open>The drivers of the loop\<close>

text \<open>
  With a healthy vblank loop the keepalive tick does not render: neither the outputs nor the frame
  counter change.
\<close>

lemma tick_is_idle_under_vblanks:
  assumes "rl_backend s = Some b" and "db_last_vblank b = Some t" and "re_now R - t < KEEPALIVE_STALL"
    and "wallpaper_tick D R s = (Some action, s')" and "action \<noteq> RenderAndSwapped"
  shows "\<exists>b'. rl_backend s' = Some b' \<and> db_outputs b' = db_outputs b \<and> db_frame_counter b' = db_frame_counter b"
proof -
  have a: "action = fst (tick_wallpaper R b)" using assms(1,4) by (auto simp: wallpaper_tick_def split_beta Let_def)
  have "\<not> vblank_stale (re_now R) KEEPALIVE_STALL (snd (tick_wallpaper R b))"
    using assms(2,3) by (simp add: vblank_stale_def)
  then have "s' = s\<lparr>rl_backend := Some (snd (tick_wallpaper R b))\<rparr>"
    using assms(1,4,5) a by (auto simp: wallpaper_tick_def split_beta Let_def split: wallpaper_tick_action.splits)
  then show ?thesis by simp
qed

text \<open>
  A fallback swap is drawn without the foreground window: the tick renders the scene for no
  toplevel, also while a session is visible.
\<close>

lemma swap_hides_the_session:
  assumes "rl_backend s = Some b" and "fst (tick_wallpaper R b) = RenderAndSwapped"
  shows "rl_backend (snd (wallpaper_tick D R s)) = Some (snd (render_all D R None (snd (tick_wallpaper R b))))"
  using assms by (simp add: wallpaper_tick_def split_beta Let_def render_one_frame_def)

text \<open>A static wallpaper is not rendered on a vblank, so the next frame comes only from a commit.\<close>

lemma static_wallpaper_vblank:
  assumes "rl_backend s = Some b" and "\<not> engine_wants_continuous (db_wallpaper b)"
  shows "\<exists>b'. rl_backend (handle_drm_event D R ev s) = Some b' \<and> db_frame_counter b' = db_frame_counter b"
  using assms
  by (auto simp: handle_drm_event_def frame_submitted_def update_output_def notify_flip_def note_vblank_def Let_def
      split: drm_event.split option.split prod.split sum.split)

section \<open>Caches\<close>

text \<open>
  The overlay is rasterized for the first output that draws it, at that output's size, and the
  same buffer is drawn on every other output.
\<close>

lemma overlay_keeps_first_size:
  assumes "db_overlay_buffer b = None"
  shows "db_overlay_buffer (snd (build_overlay_element w out2 (snd (build_overlay_element w out1 b)))) =
    Some (rasterize_overlay w out1 (db_overlay_text b))"
  using assms by (simp add: build_overlay_element_def Let_def)

text \<open>
  A named cursor is baked once: until its name changes, the frame drawn is the one baked first, at
  whatever time, so an animated cursor stands still.
\<close>

lemma named_cursor_stands_still:
  assumes "cr_status c = CursorNamed name" and "cr_cached c = Some k" and "cn_name k = name" and "cr_has_moved c"
  shows "cursor_elements R c = Some (if sw_from_buffer (re_world R) (cn_buffer k)
    then [MemoryElement (cn_buffer k) (point_sub (cr_pointer_loc c) (cn_hotspot k)) True]
    else [], c)"
  using assms by (simp add: cursor_elements_def Let_def)

text \<open>The overlay's buffer has four bytes per pixel whatever the text.\<close>

lemma rasterize_overlay_tight: "tight (rasterize_overlay w out content)"
proof -
  define wd where "wd = max (fst (output_size w out)) 1"
  define h where "h = max (snd (output_size w out)) 1"
  have pos: "0 < nat wd" "0 < nat h" by (simp_all add: wd_def h_def)
  have len: "length (concat (replicate (nat wd * nat h) OVERLAY_BG)) = nat wd * nat h * 4"
    by (simp add: length_concat sum_list_replicate OVERLAY_BG_def)
  have "paints (nat wd * nat h) OVERLAY_FG {k. lit 8 8 8 content (int (k mod nat wd)) (int (k div nat wd))}
      (blit_from (nat wd) (nat h) OVERLAY_FG 8 8 8 content)"
    using pos by (intro paints_blit_from) (simp_all add: OVERLAY_FG_def)
  then have "length (blit_str (concat (replicate (nat wd * nat h) OVERLAY_BG)) (nat wd) (nat h) 8 8 content OVERLAY_FG) = nat wd * nat h * 4"
    using len by (simp add: paints_def blit_str_def mult.commute)
  then show ?thesis by (simp add: tight_def rasterize_overlay_def Let_def flip: wd_def h_def) (simp add: wd_def h_def max_def)
qed

end
