(* ===== verification/Drm_Pipeline.thy ===== *)
theory Drm_Pipeline
  imports Scene_Render Drm_Device
begin

text \<open>
  Setting up the display (\<open>setup_drm_direct\<close> and \<open>build_drm_pipeline\<close> of \<open>drm.rs\<close>, the cached output
  constants of \<open>main.rs\<close>): the connectors and their names, the pinned primary output, a CRTC and a
  mode for each connector, the layout of the outputs, and the order in which the setup can fail.

  The kernel, GBM, EGL and smithay answer through \<open>drm_sys\<close>.  The compositor of an output is
  whatever \<open>dy_compositor_new\<close> returns; the outputs are numbered in the order they are made.
\<close>

section \<open>Connectors\<close>

datatype drm_interface =
    DisplayPort | HDMIA | HDMIB | DVII | DVID | DVIA | VGA | EmbeddedDisplayPort | CompositeVideo | SVideo | LVDS
  | ComponentVideo | NinePinDIN | DSI | DPI | Writeback | SPI | USB | TV | VirtualConnector | UnknownInterface

fun interface_prefix :: "drm_interface \<Rightarrow> string" where
  "interface_prefix DisplayPort = ''DP''"
| "interface_prefix HDMIA = ''HDMI-A''"
| "interface_prefix HDMIB = ''HDMI-B''"
| "interface_prefix DVII = ''DVI-I''"
| "interface_prefix DVID = ''DVI-D''"
| "interface_prefix DVIA = ''DVI-A''"
| "interface_prefix VGA = ''VGA''"
| "interface_prefix EmbeddedDisplayPort = ''eDP''"
| "interface_prefix CompositeVideo = ''Composite''"
| "interface_prefix SVideo = ''SVIDEO''"
| "interface_prefix LVDS = ''LVDS''"
| "interface_prefix ComponentVideo = ''Component''"
| "interface_prefix NinePinDIN = ''DIN''"
| "interface_prefix DSI = ''DSI''"
| "interface_prefix DPI = ''DPI''"
| "interface_prefix Writeback = ''Writeback''"
| "interface_prefix SPI = ''SPI''"
| "interface_prefix USB = ''USB''"
| "interface_prefix TV = ''TV''"
| "interface_prefix VirtualConnector = ''Virtual''"
| "interface_prefix UnknownInterface = ''Unknown''"

record drm_mode =
  dm_size :: "16 word \<times> 16 word"
  dm_vrefresh :: u32

record connector_info =
  ko_handle :: nat
  ko_interface :: drm_interface
  ko_interface_id :: u32
  ko_connected :: bool
  ko_modes :: "drm_mode list"
  ko_encoders :: "nat list"

definition connector_short_name :: "connector_info \<Rightarrow> string" where
  "connector_short_name info = interface_prefix (ko_interface info) @ ''-'' @ show_nat (unat (ko_interface_id info))"

section \<open>The render node of the device\<close>

datatype node_type = PrimaryNode | ControlNode | RenderNode

definition dmabuf_feedback_main_device :: "u64 \<Rightarrow> node_type \<Rightarrow> unit + u64 option \<Rightarrow> u64 option" where
  "dmabuf_feedback_main_device opened_dev opened_ty rnd =
     (if opened_ty = RenderNode then Some opened_dev else case rnd of Inl _ \<Rightarrow> None | Inr dev \<Rightarrow> dev)"

definition resolve_dmabuf_main_device :: "(u64 \<times> node_type \<times> (unit + u64 option)) option \<Rightarrow> u64 option" where
  "resolve_dmabuf_main_device node = (case node of
     None \<Rightarrow> None
   | Some (dev, ty, rnd) \<Rightarrow> dmabuf_feedback_main_device dev ty rnd)"

section \<open>Outputs\<close>

record drm_output =
  ou_name :: string
  ou_model :: string
  ou_mode :: "int \<times> int"
  ou_refresh :: int
  ou_position :: "int \<times> int"

datatype pipeline_error =
    DrmOpenFailed string | DrmDeviceFailed | SetMasterFailed | ResourceHandlesFailed | NoConnectedConnector
  | GbmFailed | EglDisplayFailed | EglContextFailed | GlesFailed | CompositorFailed string | NoOutputs
  | WallpaperFailed wallpaper_error | RegisterFailed

text \<open>
  What the device and the libraries answer.  \<open>dy_encoder_crtcs\<close> is \<open>get_encoder\<close> with \<open>filter_crtcs\<close> of its
  \<open>possible_crtcs\<close>; \<open>dy_create_surface\<close> may depend on the CRTCs already in use.
\<close>

record 'c drm_sys =
  dy_open :: "string \<Rightarrow> bool"
  dy_node :: "(u64 \<times> node_type \<times> (unit + u64 option)) option"
  dy_device_new :: bool
  dy_set_master :: bool
  dy_connectors :: "nat list option"
  dy_get_connector :: "nat \<Rightarrow> connector_info option"
  dy_encoder_crtcs :: "nat \<Rightarrow> nat list option"
  dy_gbm :: bool
  dy_egl_display :: bool
  dy_egl_context :: bool
  dy_gles :: bool
  dy_create_surface :: "nat list \<Rightarrow> nat \<Rightarrow> drm_mode \<Rightarrow> nat \<Rightarrow> bool"
  dy_compositor_new :: "string \<Rightarrow> nat \<Rightarrow> 'c option"
  dy_insert_source :: bool

definition connected_connectors :: "'c drm_sys \<Rightarrow> nat list \<Rightarrow> connector_info list" where
  "connected_connectors Y hs = filter ko_connected (List.map_filter (dy_get_connector Y) hs)"

text \<open>\<open>HALMASUIT_PRIMARY_OUTPUT\<close>: the named connector trades places with the first.\<close>

definition pin_primary :: "string option \<Rightarrow> connector_info list \<Rightarrow> connector_info list" where
  "pin_primary want infos = (case want of
     None \<Rightarrow> infos
   | Some w \<Rightarrow> (case output_position (\<lambda>info. connector_short_name info = w) infos of
       None \<Rightarrow> infos
     | Some idx \<Rightarrow> if idx \<noteq> 0 then infos[0 := infos ! idx, idx := infos ! 0] else infos))"

definition candidate_crtcs :: "'c drm_sys \<Rightarrow> connector_info \<Rightarrow> nat list" where
  "candidate_crtcs Y info = concat (List.map_filter (dy_encoder_crtcs Y) (ko_encoders info))"

definition i32_mul :: "int \<Rightarrow> int \<Rightarrow> int" where
  "i32_mul a b = (a * b + 2 ^ 31) mod 2 ^ 32 - 2 ^ 31"

definition output_refresh :: "drm_mode \<Rightarrow> int" where
  "output_refresh m =
     i32_mul (if unat (dm_vrefresh m) < 2 ^ 31 then int (unat (dm_vrefresh m)) else 60000) 1000"

definition make_output :: "connector_info \<Rightarrow> drm_mode \<Rightarrow> int \<Rightarrow> drm_output" where
  "make_output info m x =
     (let w = unat (fst (dm_size m)); h = unat (snd (dm_size m)) in
      \<lparr>ou_name = connector_short_name info, ou_model = ''drm-'' @ show_nat w @ ''x'' @ show_nat h,
       ou_mode = (int w, int h), ou_refresh = output_refresh m, ou_position = (x, 0)\<rparr>)"

record 'c pipeline_acc =
  pa_surfaces :: "'c output_surface list"
  pa_outputs :: "drm_output list"
  pa_used :: "nat list"
  pa_x :: int

fun build_outputs :: "'c drm_sys \<Rightarrow> connector_info list \<Rightarrow> 'c pipeline_acc \<Rightarrow> pipeline_error + 'c pipeline_acc" where
  "build_outputs Y [] a = Inr a"
| "build_outputs Y (info # infos) a = (case ko_modes info of
     [] \<Rightarrow> build_outputs Y infos a
   | m # _ \<Rightarrow> (case List.find (\<lambda>c. c \<notin> set (pa_used a)) (candidate_crtcs Y info) of
       None \<Rightarrow> build_outputs Y infos a
     | Some crtc \<Rightarrow>
         if \<not> dy_create_surface Y (pa_used a) crtc m (ko_handle info) then build_outputs Y infos a
         else (case dy_compositor_new Y (connector_short_name info) crtc of
             None \<Rightarrow> Inl (CompositorFailed (connector_short_name info))
           | Some c \<Rightarrow>
               build_outputs Y infos
                 \<lparr>pa_surfaces = pa_surfaces a @ [\<lparr>os_output = length (pa_outputs a), os_crtc = crtc, os_compositor = c\<rparr>],
                  pa_outputs = pa_outputs a @ [make_output info m (pa_x a)],
                  pa_used = pa_used a @ [crtc],
                  pa_x = i32_add (pa_x a) (int (unat (fst (dm_size m))))\<rparr>)))"

definition check_that :: "bool \<Rightarrow> pipeline_error \<Rightarrow> pipeline_error + unit" where
  "check_that ok e = (if ok then Inr () else Inl e)"

definition fresh_backend ::
    "xcursor_lib \<Rightarrow> (string \<Rightarrow> string option) \<Rightarrow> instant \<Rightarrow> wallpaper_engine \<Rightarrow> 'c output_surface list \<Rightarrow> 'c drm_backend" where
  "fresh_backend X var now wallpaper surfaces =
     \<lparr>db_outputs = surfaces, db_wallpaper = wallpaper,
      db_cursor = \<lparr>cr_theming = cursor_theming_load X var, cr_status = CursorNamed ''default'', cr_pointer_loc = (0, 0),
        cr_has_moved = False, cr_cached = None, cr_started_at = now\<rparr>,
      db_frame_counter = 0, db_last_vblank = None, db_overlay_visible = False, db_overlay_text = [],
      db_overlay_buffer = None, db_in_initramfs = False\<rparr>"

definition build_drm_pipeline ::
    "'c drm_sys \<Rightarrow> wp_env \<Rightarrow> xcursor_lib \<Rightarrow> (string \<Rightarrow> string option) \<Rightarrow> instant \<Rightarrow> wallpaper_config option \<Rightarrow>
     pipeline_error + 'c drm_backend \<times> u64 option \<times> drm_output list" where
  "build_drm_pipeline Y W X var now cfg =
     (let main_device = resolve_dmabuf_main_device (dy_node Y) in
      rbind (check_that (dy_device_new Y) DrmDeviceFailed) (\<lambda>_.
      rbind (check_that (dy_set_master Y) SetMasterFailed) (\<lambda>_.
      rbind (ok_or ResourceHandlesFailed (dy_connectors Y)) (\<lambda>hs.
      let connected = pin_primary (var ''HALMASUIT_PRIMARY_OUTPUT'') (connected_connectors Y hs) in
      rbind (check_that (connected \<noteq> []) NoConnectedConnector) (\<lambda>_.
      rbind (check_that (dy_gbm Y) GbmFailed) (\<lambda>_.
      rbind (check_that (dy_egl_display Y) EglDisplayFailed) (\<lambda>_.
      rbind (check_that (dy_egl_context Y) EglContextFailed) (\<lambda>_.
      rbind (check_that (dy_gles Y) GlesFailed) (\<lambda>_.
      rbind (build_outputs Y connected \<lparr>pa_surfaces = [], pa_outputs = [], pa_used = [], pa_x = 0\<rparr>) (\<lambda>a.
      rbind (check_that (pa_surfaces a \<noteq> []) NoOutputs) (\<lambda>_.
      rbind (map_err WallpaperFailed (build_engine W now cfg)) (\<lambda>wallpaper.
      rbind (check_that (dy_insert_source Y) RegisterFailed) (\<lambda>_.
      Inr (fresh_backend X var now wallpaper (pa_surfaces a), main_device, pa_outputs a))))))))))))))"

definition setup_drm_direct ::
    "'c drm_sys \<Rightarrow> wp_env \<Rightarrow> xcursor_lib \<Rightarrow> (string \<Rightarrow> string option) \<Rightarrow> instant \<Rightarrow> string \<Rightarrow> wallpaper_config option \<Rightarrow>
     pipeline_error + 'c drm_backend \<times> u64 option \<times> drm_output list" where
  "setup_drm_direct Y W X var now path cfg =
     rbind (check_that (dy_open Y path) (DrmOpenFailed path)) (\<lambda>_. build_drm_pipeline Y W X var now cfg)"

text \<open>The constants \<open>main\<close> caches from the first output; every output made here has a mode.\<close>

definition cached_output_size :: "drm_output list \<Rightarrow> int \<times> int" where
  "cached_output_size outs = ou_mode (hd outs)"

definition refresh_period :: "drm_output list \<Rightarrow> duration" where
  "refresh_period outs = 1000000000000 div nat (max (ou_refresh (hd outs)) 1)"

section \<open>The layout of the outputs\<close>

lemma i32_add_exact: "- (2 ^ 31) \<le> a + b \<Longrightarrow> a + b < 2 ^ 31 \<Longrightarrow> i32_add a b = a + b"
  by (simp add: i32_add_def)

abbreviation ou_width :: "drm_output \<Rightarrow> int" where
  "ou_width out \<equiv> fst (ou_mode out)"

definition total_width :: "drm_output list \<Rightarrow> int" where
  "total_width outs = (\<Sum>out\<leftarrow>outs. ou_width out)"

lemma total_width_simps [simp]:
  "total_width [] = 0"
  "total_width (out # outs) = ou_width out + total_width outs"
  "total_width (xs @ ys) = total_width xs + total_width ys"
  by (simp_all add: total_width_def)

lemma make_output_width: "0 \<le> ou_width (make_output info m x) \<and> ou_width (make_output info m x) \<le> 65535"
proof -
  have "uint (fst (dm_size m)) < 2 ^ LENGTH(16)" by (rule unsigned_less)
  then show ?thesis by (simp add: make_output_def Let_def)
qed

lemma make_output_fields [simp]:
  "ou_name (make_output info m x) = connector_short_name info"
  "ou_position (make_output info m x) = (x, 0)"
  "ou_mode (make_output info m x) = (int (unat (fst (dm_size m))), int (unat (snd (dm_size m))))"
  by (simp_all add: make_output_def Let_def)

lemma total_width_bounds:
  assumes "list_all (\<lambda>out. 0 \<le> ou_width out \<and> ou_width out \<le> 65535) outs"
  shows "0 \<le> total_width outs \<and> total_width outs \<le> 65535 * int (length outs)"
  using assms by (induction outs) auto

text \<open>A surface with its output: the connector they were made for, its first mode and a CRTC it can reach.\<close>

definition made_for :: "'c drm_sys \<Rightarrow> connector_info set \<Rightarrow> 'c output_surface \<Rightarrow> drm_output \<Rightarrow> bool" where
  "made_for Y C surf out \<longleftrightarrow> (\<exists>info \<in> C. \<exists>m ms x. ko_modes info = m # ms \<and> out = make_output info m x \<and>
     os_crtc surf \<in> set (candidate_crtcs Y info))"

definition layout_ok :: "'c drm_sys \<Rightarrow> connector_info set \<Rightarrow> 'c pipeline_acc \<Rightarrow> bool" where
  "layout_ok Y C a \<longleftrightarrow>
     map os_output (pa_surfaces a) = [0..<length (pa_outputs a)] \<and> pa_used a = map os_crtc (pa_surfaces a) \<and> distinct (pa_used a) \<and>
     list_all2 (made_for Y C) (pa_surfaces a) (pa_outputs a) \<and>
     (length (pa_outputs a) \<le> 32768 \<longrightarrow> pa_x a = total_width (pa_outputs a) \<and>
       (\<forall>i < length (pa_outputs a). ou_position (pa_outputs a ! i) = (total_width (take i (pa_outputs a)), 0)))"

lemma layout_widths: "layout_ok Y C a \<Longrightarrow> list_all (\<lambda>out. 0 \<le> ou_width out \<and> ou_width out \<le> 65535) (pa_outputs a)"
  using make_output_width
  by (fastforce simp: layout_ok_def list_all2_conv_all_nth list_all_length made_for_def)

lemma layout_push:
  assumes "layout_ok Y C a" and "info \<in> C" and "ko_modes info = m # ms"
    and "crtc \<in> set (candidate_crtcs Y info)" and "crtc \<notin> set (pa_used a)"
  shows "layout_ok Y C
    \<lparr>pa_surfaces = pa_surfaces a @ [\<lparr>os_output = length (pa_outputs a), os_crtc = crtc, os_compositor = c\<rparr>],
     pa_outputs = pa_outputs a @ [make_output info m (pa_x a)], pa_used = pa_used a @ [crtc],
     pa_x = i32_add (pa_x a) (int (unat (fst (dm_size m))))\<rparr>"
proof -
  let ?out = "make_output info m (pa_x a)"
  have made: "made_for Y C \<lparr>os_output = n, os_crtc = crtc, os_compositor = c\<rparr> ?out" for n
    using assms(2-4) by (auto simp: made_for_def)
  obtain w where w: "int (unat (fst (dm_size m))) = w" "0 \<le> w" "w \<le> 65535" using make_output_width [of info m 0] by simp
  have "i32_add (pa_x a) (int (unat (fst (dm_size m)))) = total_width (pa_outputs a @ [?out])"
    and "pa_x a = total_width (pa_outputs a)" if "length (pa_outputs a) < 32768"
  proof -
    show x: "pa_x a = total_width (pa_outputs a)" using assms(1) that by (simp add: layout_ok_def)
    show "i32_add (pa_x a) (int (unat (fst (dm_size m)))) = total_width (pa_outputs a @ [?out])"
      unfolding x using total_width_bounds [OF layout_widths [OF assms(1)]] that w by (subst i32_add_exact) simp_all
  qed
  then show ?thesis using assms(1,5) made
    by (auto simp: layout_ok_def list_all2_appendI nth_append less_Suc_eq)
qed

lemma build_outputs_layout:
  "build_outputs Y infos a = Inr a' \<Longrightarrow> set infos \<subseteq> C \<Longrightarrow> layout_ok Y C a \<Longrightarrow> layout_ok Y C a'"
proof (induction Y infos a rule: build_outputs.induct)
  case (2 Y info infos a)
  show ?case
  proof (cases "ko_modes info")
    case Nil
    then show ?thesis using 2 by simp
  next
    case (Cons m ms)
    show ?thesis
    proof (cases "List.find (\<lambda>c. c \<notin> set (pa_used a)) (candidate_crtcs Y info)")
      case None
      then show ?thesis using 2 Cons by simp
    next
      case (Some crtc)
      then have "crtc \<in> set (candidate_crtcs Y info)" "crtc \<notin> set (pa_used a)" by (auto simp: find_Some_iff)
      note push = layout_push [OF "2.prems"(3) _ Cons this]
      show ?thesis using 2 Cons Some push by (auto split: if_splits option.splits)
    qed
  qed
qed simp

lemma pipeline_Inr:
  assumes "build_drm_pipeline Y W X var now cfg = Inr (b, dev, outs)"
  obtains hs a where "dy_connectors Y = Some hs"
    and "build_outputs Y (pin_primary (var ''HALMASUIT_PRIMARY_OUTPUT'') (connected_connectors Y hs))
           \<lparr>pa_surfaces = [], pa_outputs = [], pa_used = [], pa_x = 0\<rparr> = Inr a"
    and "pa_surfaces a \<noteq> []" and "outs = pa_outputs a" and "db_outputs b = pa_surfaces a"
    and "cr_theming (db_cursor b) = cursor_theming_load X var"
  using assms by (auto simp: build_drm_pipeline_def Let_def rbind_eq_Inr check_that_def fresh_backend_def split: if_splits)

lemma output_position_Some: "output_position P xs = Some i \<longleftrightarrow> i < length xs \<and> P (xs ! i) \<and> (\<forall>j < i. \<not> P (xs ! j))"
proof (induction xs arbitrary: i)
  case (Cons x xs)
  show ?case by (cases i) (auto simp: Cons.IH less_Suc_eq_0_disj)
qed simp

lemma set_pin_primary: "set (pin_primary want infos) = set infos"
proof -
  have "set (infos[0 := infos ! i, i := infos ! 0]) = set infos" if "i < length infos" for i
    using that by (intro set_swap) auto
  then show ?thesis by (auto simp: pin_primary_def output_position_Some split: option.split)
qed

text \<open>
  C22: the outputs tile the desktop.  Whenever the display comes up, there is an output, every
  output has a CRTC of its own that its connector can reach, the size of that connector's first
  mode and the connector's name, the surface that renders it carries its number, and the outputs
  stand side by side from the origin in the order they are listed, without gap or overlap.
\<close>

theorem outputs_tile_the_desktop:
  assumes "build_drm_pipeline Y W X var now cfg = Inr (b, dev, outs)" and "length outs \<le> 32768"
  shows "outs \<noteq> [] \<and> map os_output (db_outputs b) = [0..<length outs] \<and> distinct (map os_crtc (db_outputs b)) \<and>
    (\<forall>i < length outs. ou_position (outs ! i) = (\<Sum>out\<leftarrow>take i outs. fst (ou_mode out), 0)) \<and>
    (\<exists>hs. dy_connectors Y = Some hs \<and> (\<forall>i < length outs. \<exists>info \<in> set (connected_connectors Y hs). \<exists>m ms.
      ko_modes info = m # ms \<and> os_crtc (db_outputs b ! i) \<in> set (candidate_crtcs Y info) \<and>
      ou_name (outs ! i) = connector_short_name info \<and> ou_mode (outs ! i) = (int (unat (fst (dm_size m))), int (unat (snd (dm_size m))))))"
proof -
  obtain hs a where h: "dy_connectors Y = Some hs"
      "build_outputs Y (pin_primary (var ''HALMASUIT_PRIMARY_OUTPUT'') (connected_connectors Y hs))
         \<lparr>pa_surfaces = [], pa_outputs = [], pa_used = [], pa_x = 0\<rparr> = Inr a"
      "pa_surfaces a \<noteq> []" "outs = pa_outputs a" "db_outputs b = pa_surfaces a"
    using pipeline_Inr [OF assms(1)] by metis
  have l: "layout_ok Y (set (connected_connectors Y hs)) a"
    by (rule build_outputs_layout [OF h(2)]) (simp_all add: set_pin_primary layout_ok_def)
  then have len: "length (pa_surfaces a) = length outs" unfolding layout_ok_def h(4) by (blast intro: list_all2_lengthD)
  then have "\<forall>i < length outs. made_for Y (set (connected_connectors Y hs)) (pa_surfaces a ! i) (outs ! i)"
    using l by (simp add: layout_ok_def h(4) list_all2_conv_all_nth)
  then have made: "\<forall>i < length outs. \<exists>info \<in> set (connected_connectors Y hs). \<exists>m ms. ko_modes info = m # ms \<and>
      os_crtc (db_outputs b ! i) \<in> set (candidate_crtcs Y info) \<and> ou_name (outs ! i) = connector_short_name info \<and>
      ou_mode (outs ! i) = (int (unat (fst (dm_size m))), int (unat (snd (dm_size m))))"
    unfolding made_for_def h(5) by (metis make_output_fields(1,3))
  show ?thesis using l h(1,3,4,5) len assms(2) made
    by (auto simp: layout_ok_def total_width_def)
qed

text \<open>Names identify connectors: interface and number can be read back from them.\<close>

lemma inj_interface_prefix: "interface_prefix a = interface_prefix b \<Longrightarrow> a = b"
  by (cases a; cases b) simp_all

lemma connector_names_identify:
  assumes "connector_short_name a = connector_short_name b"
  shows "ko_interface a = ko_interface b \<and> ko_interface_id a = ko_interface_id b"
proof -
  have r: "rsplit_once CHR ''-'' (connector_short_name c) =
      Some (interface_prefix (ko_interface c), show_nat (unat (ko_interface_id c)))" for c
    using show_nat_ok [of "unat (ko_interface_id c)"]
    by (auto simp: rsplit_once_Some connector_short_name_def list_all_iff is_digit_def)
  from r [of a] r [of b] assms have "interface_prefix (ko_interface a) = interface_prefix (ko_interface b)"
    and "show_nat (unat (ko_interface_id a)) = show_nat (unat (ko_interface_id b))" by simp_all
  moreover from this(2) have "ko_interface_id a = ko_interface_id b" by (metis option.inject parse_u32_show)
  ultimately show ?thesis using inj_interface_prefix by blast
qed

text \<open>
  The pinned connector comes first when it has a mode, a CRTC and a surface; then its output is the
  primary one, at the origin.
\<close>

lemma build_outputs_prefix:
  "build_outputs Y infos a = Inr a' \<Longrightarrow> \<exists>more. pa_outputs a' = pa_outputs a @ more"
proof (induction Y infos a rule: build_outputs.induct)
  case (2 Y info infos a)
  show ?case
  proof (cases "ko_modes info")
    case Nil
    then show ?thesis using 2 by simp
  next
    case (Cons m ms)
    show ?thesis
    proof (cases "List.find (\<lambda>c. c \<notin> set (pa_used a)) (candidate_crtcs Y info)")
      case None
      then show ?thesis using 2 Cons by simp
    next
      case (Some crtc)
      then show ?thesis using 2 Cons by (fastforce split: if_splits option.splits)
    qed
  qed
qed simp

lemma hd_pin_primary:
  assumes "info \<in> set infos" and "\<forall>c \<in> set infos. connector_short_name c = connector_short_name info \<longrightarrow> c = info"
  shows "\<exists>rest. pin_primary (Some (connector_short_name info)) infos = info # rest"
proof -
  obtain i where i: "output_position (\<lambda>c. connector_short_name c = connector_short_name info) infos = Some i"
  proof (cases "output_position (\<lambda>c. connector_short_name c = connector_short_name info) infos")
    case None
    then have "\<forall>c \<in> set infos. connector_short_name c \<noteq> connector_short_name info"
      by (induction infos) (auto split: if_splits)
    then show ?thesis using assms(1) by blast
  qed blast
  then have "infos ! i = info" "i < length infos" using assms(2) by (auto simp: output_position_Some)
  then show ?thesis using i by (cases infos; cases i) (auto simp: pin_primary_def)
qed

lemma pinned_output_is_primary:
  assumes "build_drm_pipeline Y W X var now cfg = Inr (b, dev, outs)"
    and "dy_connectors Y = Some hs" and "info \<in> set (connected_connectors Y hs)"
    and "\<forall>c \<in> set (connected_connectors Y hs). connector_short_name c = connector_short_name info \<longrightarrow> c = info"
    and "var ''HALMASUIT_PRIMARY_OUTPUT'' = Some (connector_short_name info)"
    and "ko_modes info = m # ms" and "candidate_crtcs Y info = crtc # crtcs" and "dy_create_surface Y [] crtc m (ko_handle info)"
  shows "ou_name (hd outs) = connector_short_name info \<and> ou_position (hd outs) = (0, 0) \<and> cached_output_size outs = ou_mode (hd outs)"
proof -
  obtain rest where p: "pin_primary (Some (connector_short_name info)) (connected_connectors Y hs) = info # rest"
    using hd_pin_primary [OF assms(3,4)] by blast
  obtain a where a: "build_outputs Y (info # rest) \<lparr>pa_surfaces = [], pa_outputs = [], pa_used = [], pa_x = 0\<rparr> = Inr a" "outs = pa_outputs a"
    using pipeline_Inr [OF assms(1)] assms(2,5) p by (metis option.inject)
  moreover from a(1) assms(6-8) obtain c where "dy_compositor_new Y (connector_short_name info) crtc = Some c"
    by (cases "dy_compositor_new Y (connector_short_name info) crtc") simp_all
  ultimately obtain more where "pa_outputs a = make_output info m 0 # more"
    using assms(6-8) build_outputs_prefix by fastforce
  then show ?thesis by (simp add: a(2) cached_output_size_def)
qed

text \<open>A page flip is acknowledged on the output whose CRTC flipped and leaves the others alone.\<close>

lemma flip_reaches_its_output:
  assumes "distinct (map os_crtc (db_outputs b))" and "i < length (db_outputs b)"
    and "dc_frame_submitted D (os_compositor (db_outputs b ! i)) = (Inr (), c)"
  shows "frame_submitted D (os_crtc (db_outputs b ! i)) b =
    (Inr (Some (os_output (db_outputs b ! i))), b\<lparr>db_outputs := (db_outputs b)[i := (db_outputs b ! i)\<lparr>os_compositor := c\<rparr>]\<rparr>)"
proof -
  have "\<forall>j < i. os_crtc (db_outputs b ! j) \<noteq> os_crtc (db_outputs b ! i)"
  proof (intro allI impI)
    fix j assume "j < i"
    then show "os_crtc (db_outputs b ! j) \<noteq> os_crtc (db_outputs b ! i)"
      using nth_eq_iff_index_eq [OF assms(1), of j i] assms(2) by simp
  qed
  then have "output_position (\<lambda>surf. os_crtc surf = os_crtc (db_outputs b ! i)) (db_outputs b) = Some i"
    using assms(2) by (simp add: output_position_Some)
  then show ?thesis by (simp add: frame_submitted_def assms(3) update_output_def)
qed

section \<open>Two monitors\<close>

definition demo_connector :: "nat \<Rightarrow> u32 \<Rightarrow> connector_info" where
  "demo_connector h n = \<lparr>ko_handle = h, ko_interface = DisplayPort, ko_interface_id = n, ko_connected = True,
     ko_modes = [\<lparr>dm_size = (1920, 1080), dm_vrefresh = 60\<rparr>], ko_encoders = [h]\<rparr>"

text \<open>The first connector can use both CRTCs, the second only the first one.\<close>

definition demo_pipeline :: "unit drm_sys" where
  "demo_pipeline = \<lparr>dy_open = (\<lambda>_. True), dy_node = Some (226, PrimaryNode, Inr (Some 354)), dy_device_new = True, dy_set_master = True,
     dy_connectors = Some [0, 1], dy_get_connector = (\<lambda>h. Some (demo_connector h (of_nat h + 1))),
     dy_encoder_crtcs = (\<lambda>h. Some (if h = 0 then [40, 41] else [40])), dy_gbm = True, dy_egl_display = True,
     dy_egl_context = True, dy_gles = True, dy_create_surface = (\<lambda>_ _ _ _. True), dy_compositor_new = (\<lambda>_ _. Some ()),
     dy_insert_source = True\<rparr>"

lemmas pipeline_eval = setup_drm_direct_def build_drm_pipeline_def check_that_def demo_pipeline_def demo_connector_def connected_connectors_def
  pin_primary_def candidate_crtcs_def map_filter_simps connector_short_name_def make_output_def
  build_engine_def resolve_dmabuf_main_device_def dmabuf_feedback_main_device_def fresh_backend_def i32_add_def Let_def

lemma demo_digits [simp]: "show_nat (Suc 0) = ''1''" "show_nat 2 = ''2''"
  by code_simp+

lemma demo_pinned:
  "\<exists>b. build_drm_pipeline demo_pipeline W X (\<lambda>_. Some ''DP-2'') 0 None = Inr (b, Some 354,
     [make_output (demo_connector 1 2) \<lparr>dm_size = (1920, 1080), dm_vrefresh = 60\<rparr> 0,
      make_output (demo_connector 0 1) \<lparr>dm_size = (1920, 1080), dm_vrefresh = 60\<rparr> 1920])"
  by (simp add: pipeline_eval)

theorem outputs_tile_the_desktop_witness:
  "\<forall>W X. \<exists>b dev outs. build_drm_pipeline demo_pipeline W X (\<lambda>_. Some ''DP-2'') 0 None = Inr (b, dev, outs) \<and>
     map ou_position outs = [(0, 0), (1920, 0)] \<and> map os_output (db_outputs b) = [0, 1] \<and> distinct (map os_crtc (db_outputs b))"
proof (intro allI)
  fix W X
  let ?outs = "[make_output (demo_connector 1 2) \<lparr>dm_size = (1920, 1080), dm_vrefresh = 60\<rparr> 0,
      make_output (demo_connector 0 1) \<lparr>dm_size = (1920, 1080), dm_vrefresh = 60\<rparr> 1920]"
  obtain b :: "unit drm_backend" where b: "build_drm_pipeline demo_pipeline W X (\<lambda>_. Some ''DP-2'') 0 None = Inr (b, Some 354, ?outs)"
    using demo_pinned by blast
  have "map os_output (db_outputs b) = [0..<length ?outs] \<and> distinct (map os_crtc (db_outputs b))"
    using outputs_tile_the_desktop [OF b] by simp
  then show "\<exists>b dev outs. build_drm_pipeline demo_pipeline W X (\<lambda>_. Some ''DP-2'') 0 None = Inr (b, dev, outs) \<and>
     map ou_position outs = [(0, 0), (1920, 0)] \<and> map os_output (db_outputs b) = [0, 1] \<and> distinct (map os_crtc (db_outputs b))"
    by (intro exI [of _ b] exI [of _ "Some 354"] exI [of _ ?outs]) (simp add: b)
qed

text \<open>
  CRTCs are handed out greedily in the order of the connectors.  Unpinned, the first connector of the
  same machine takes the only CRTC the second can use, and the second monitor stays dark.
\<close>

lemma greedy_crtc_starves:
  "\<exists>b dev out. build_drm_pipeline demo_pipeline W X (\<lambda>_. None) 0 None = Inr (b, dev, [out]) \<and> ou_name out = ''DP-1'' \<and>
     41 \<in> set (candidate_crtcs demo_pipeline (demo_connector 0 1)) \<and> 40 \<in> set (candidate_crtcs demo_pipeline (demo_connector 1 2))"
  by (simp add: pipeline_eval)

text \<open>The refresh rate of a mode, in mHz, for every rate a display has; beyond, the product wraps.\<close>

lemma output_refresh_exact: "uint (dm_vrefresh m) \<le> 2147483 \<Longrightarrow> output_refresh m = 1000 * uint (dm_vrefresh m)"
proof -
  assume r: "uint (dm_vrefresh m) \<le> 2147483"
  obtain v where v: "uint (dm_vrefresh m) = v" "0 \<le> v" by simp
  then have u: "unat (dm_vrefresh m) = nat v" by (simp add: unat_eq_nat_uint)
  show ?thesis using r v(2) unfolding output_refresh_def u v(1) by (simp add: i32_mul_def nat_less_iff)
qed

lemma refresh_period_60: "refresh_period [make_output info \<lparr>dm_size = s, dm_vrefresh = 60\<rparr> 0] = 16666666"
  by (simp add: refresh_period_def make_output_def output_refresh_def i32_mul_def Let_def)

end
