(* ===== verification/Frame_Audit.thy ===== *)
theory Frame_Audit
  imports Scene_Render
begin

text \<open>
  The frame audit of the debug build: \<open>frame_audit.rs\<close> (the analysis of a read-back frame),
  \<open>offscreen.rs\<close> (the checks of the read-back and the reference frame), the publication in \<open>drm.rs\<close>
  and the snapshots of \<open>dbus.rs\<close>.

  The floating-point operations of the perceptual hash are the argument \<open>F\<close>; the exact facts do not
  depend on them.  \<open>None\<close> is a panic.
\<close>

section \<open>Analysis\<close>

definition CLEAR_RGB :: "byte list" where "CLEAR_RGB = [0x0A, 0x00, 0x14]"

record 'f f64_ops =
  fo_lit :: "rat \<Rightarrow> 'f"
  fo_of_nat :: "nat \<Rightarrow> 'f"
  fo_add :: "'f \<Rightarrow> 'f \<Rightarrow> 'f"
  fo_mul :: "'f \<Rightarrow> 'f \<Rightarrow> 'f"
  fo_mul_add :: "'f \<Rightarrow> 'f \<Rightarrow> 'f \<Rightarrow> 'f"
  fo_div :: "'f \<Rightarrow> 'f \<Rightarrow> 'f"
  fo_gt :: "'f \<Rightarrow> 'f \<Rightarrow> bool"

definition luma :: "'f f64_ops \<Rightarrow> byte \<Rightarrow> byte \<Rightarrow> byte \<Rightarrow> 'f" where
  "luma F r g b =
     (let acc = fo_mul_add F (fo_lit F (722 / 10000)) (fo_of_nat F (unat b))
                  (fo_mul_add F (fo_lit F (2126 / 10000)) (fo_of_nat F (unat r))
                    (fo_mul F (fo_lit F (7152 / 10000)) (fo_of_nat F (unat g)))) in
      fo_div F acc (fo_lit F 255))"

record 'f audit_acc =
  aa_clear :: u64
  aa_black :: u64
  aa_sum :: "'f list"
  aa_cnt :: "u32 list"

definition rgb_at :: "byte list \<Rightarrow> nat \<Rightarrow> nat \<times> nat \<Rightarrow> byte list" where
  "rgb_at bytes width yx = (let i = (fst yx * width + snd yx) * 4 in [bytes ! i, bytes ! (i + 1), bytes ! (i + 2)])"

definition block_of :: "nat \<Rightarrow> nat \<Rightarrow> nat \<times> nat \<Rightarrow> nat" where
  "block_of width height yx = min (fst yx * 8 div height) 7 * 8 + min (snd yx * 8 div width) 7"

definition audit_pixel :: "'f f64_ops \<Rightarrow> byte list \<Rightarrow> nat \<Rightarrow> nat \<Rightarrow> nat \<times> nat \<Rightarrow> 'f audit_acc \<Rightarrow> 'f audit_acc" where
  "audit_pixel F bytes width height yx a =
     (let rgb = rgb_at bytes width yx; k = block_of width height yx in
      a\<lparr>aa_clear := (if rgb = CLEAR_RGB then aa_clear a + 1 else aa_clear a),
        aa_black := (if rgb = [0, 0, 0] then aa_black a + 1 else aa_black a),
        aa_sum := (aa_sum a)[k := fo_add F (aa_sum a ! k) (luma F (rgb ! 0) (rgb ! 1) (rgb ! 2))],
        aa_cnt := (aa_cnt a)[k := aa_cnt a ! k + 1]\<rparr>)"

definition coordinates :: "nat \<Rightarrow> nat \<Rightarrow> (nat \<times> nat) list" where
  "coordinates width height = List.product [0..<height] [0..<width]"

definition audit_scan :: "'f f64_ops \<Rightarrow> byte list \<Rightarrow> nat \<Rightarrow> nat \<Rightarrow> 'f audit_acc" where
  "audit_scan F bytes width height = fold (audit_pixel F bytes width height) (coordinates width height)
     \<lparr>aa_clear = 0, aa_black = 0, aa_sum = replicate 64 (fo_lit F 0), aa_cnt = replicate 64 0\<rparr>"

definition block_means :: "'f f64_ops \<Rightarrow> 'f audit_acc \<Rightarrow> 'f list" where
  "block_means F a = map (\<lambda>(s, cnt). if 0 < cnt then fo_div F s (fo_of_nat F (unat cnt)) else fo_lit F 0) (zip (aa_sum a) (aa_cnt a))"

definition hash_blocks :: "'f f64_ops \<Rightarrow> 'f list \<Rightarrow> u64" where
  "hash_blocks F blocks =
     (let mean = fo_div F (fold (\<lambda>s acc. fo_add F acc s) blocks (fo_lit F 0)) (fo_lit F 64) in
      fold (\<lambda>(i, bl) h. if fo_gt F bl mean then or h (push_bit i 1) else h) (enumerate 0 blocks) 0)"

definition analyze :: "'f f64_ops \<Rightarrow> byte list \<Rightarrow> nat \<Rightarrow> nat \<Rightarrow> frame_facts option" where
  "analyze F bytes width height =
     (if \<not> (0 < width \<and> 0 < height) then None
      else let px = width * height in
        if length bytes < px * 4 then None
        else let a = audit_scan F bytes width height; pixel_count = (of_nat px :: u64) in
          Some \<lparr>ff_frame_id = 0, ff_pixel_count = pixel_count, ff_clear_pixel_count = aa_clear a, ff_black_pixel_count = aa_black a,
            ff_degenerate = (pixel_count = 0 \<or> aa_clear a = pixel_count \<or> aa_black a = pixel_count),
            ff_phash = hash_blocks F (block_means F a)\<rparr>)"

section \<open>Reading back and publishing\<close>

datatype frame_audit_error =
    NoMode | NegativeWidth | NegativeHeight | ZeroMode | ReadbackFailed
  | UnknownScene string | NoFrame | DimensionsOverflow | TooFewBytes | WidthExceedsU32 | HeightExceedsU32 | PngFailed

text \<open>The offscreen render and its read-back (\<open>smithay\<close>) are the argument \<open>readback\<close>.\<close>

definition read_frame_rgba ::
    "(scene_element list \<Rightarrow> int \<times> int \<Rightarrow> byte list option) \<Rightarrow> (int \<times> int) option \<Rightarrow> scene_element list \<Rightarrow>
     frame_audit_error + byte list \<times> nat \<times> nat" where
  "read_frame_rgba readback mode elements = (case mode of
     None \<Rightarrow> Inl NoMode
   | Some (w, h) \<Rightarrow>
       if w < 0 then Inl NegativeWidth
       else if h < 0 then Inl NegativeHeight
       else if nat w = 0 \<or> nat h = 0 then Inl ZeroMode
       else case readback elements (w, h) of
           None \<Rightarrow> Inl ReadbackFailed
         | Some rgba \<Rightarrow> Inr (rgba, nat w, nat h))"

definition expected_solid_frame :: "nat \<Rightarrow> nat \<Rightarrow> byte list \<Rightarrow> byte list" where
  "expected_solid_frame width height rgb = concat (replicate (width * height) (rgb @ [0xFF]))"

definition frames_exactly_equal :: "byte list \<Rightarrow> byte list \<Rightarrow> nat \<Rightarrow> nat \<Rightarrow> bool" where
  "frames_exactly_equal a b width height =
     (let n = width * height * 4 in n \<le> length a \<and> n \<le> length b \<and> take n a = take n b)"

record frame_buf =
  fb_rgba :: "byte list"
  fb_width :: nat
  fb_height :: nat

record snapshot_slots =
  sn_current :: "frame_buf option"
  sn_wallpaper_only :: "frame_buf option"

text \<open>\<open>audit_wallpaper_only\<close>: only the last element, and only if it is the wallpaper.\<close>

definition audit_wallpaper_only ::
    "(scene_element list \<Rightarrow> frame_audit_error + byte list \<times> nat \<times> nat) \<Rightarrow> scene_element list \<Rightarrow> snapshot_slots \<Rightarrow>
     (frame_audit_error + unit) \<times> snapshot_slots" where
  "audit_wallpaper_only read elements sl =
     (if elements = [] then (Inr (), sl)
      else case last elements of
          WallpaperElement w \<Rightarrow> (case read [last elements] of
              Inl e \<Rightarrow> (Inl e, sl)
            | Inr (rgba, wu, hu) \<Rightarrow> (Inr (), sl\<lparr>sn_wallpaper_only := Some \<lparr>fb_rgba = rgba, fb_width = wu, fb_height = hu\<rparr>\<rparr>))
        | _ \<Rightarrow> (Inr (), sl))"

text \<open>
  \<open>audit_frame\<close> with the events it emits; an error of the wallpaper capture is only logged.
\<close>

definition audit_frame ::
    "'f f64_ops \<Rightarrow> (scene_element list \<Rightarrow> frame_audit_error + byte list \<times> nat \<times> nat) \<Rightarrow> u64 \<Rightarrow> scene_element list \<Rightarrow> snapshot_slots \<Rightarrow>
     ((frame_audit_error + lifecycle_event list) \<times> snapshot_slots) option" where
  "audit_frame F read frame_counter elements sl = (case read elements of
     Inl e \<Rightarrow> Some (Inl e, sl)
   | Inr (rgba, wu, hu) \<Rightarrow>
       map_option (\<lambda>stats.
         let sl1 = sl\<lparr>sn_current := Some \<lparr>fb_rgba = rgba, fb_width = wu, fb_height = hu\<rparr>\<rparr> in
         (Inr [FrameRendered (stats\<lparr>ff_frame_id := frame_counter - 1\<rparr>)], snd (audit_wallpaper_only read elements sl1)))
       (analyze F rgba wu hu))"

text \<open>\<open>write_png\<close> up to the encoder, which gets the header and the image data.\<close>

definition write_png :: "(string \<Rightarrow> u32 \<Rightarrow> u32 \<Rightarrow> byte list \<Rightarrow> bool) \<Rightarrow> frame_buf \<Rightarrow> string \<Rightarrow> frame_audit_error + unit" where
  "write_png png f path =
     (if 2 ^ 64 \<le> fb_width f * fb_height f \<or> 2 ^ 64 \<le> fb_width f * fb_height f * 4 then Inl DimensionsOverflow
      else let expected = fb_width f * fb_height f * 4 in
        if length (fb_rgba f) < expected then Inl TooFewBytes
        else if 2 ^ 32 \<le> fb_width f then Inl WidthExceedsU32
        else if 2 ^ 32 \<le> fb_height f then Inl HeightExceedsU32
        else if png path (of_nat (fb_width f)) (of_nat (fb_height f)) (take expected (fb_rgba f)) then Inr ()
        else Inl PngFailed)"

definition snapshot_impl ::
    "(string \<Rightarrow> u32 \<Rightarrow> u32 \<Rightarrow> byte list \<Rightarrow> bool) \<Rightarrow> snapshot_slots \<Rightarrow> string \<Rightarrow> string \<Rightarrow> frame_audit_error + unit" where
  "snapshot_impl png sl path scene =
     rbind (if scene = '''' \<or> scene = ''current'' then Inr (sn_current sl)
            else if scene = ''wallpaper-only'' then Inr (sn_wallpaper_only sl)
            else Inl (UnknownScene scene)) (\<lambda>slot.
     rbind (ok_or NoFrame slot) (\<lambda>f. write_png png f path))"

section \<open>Exactness\<close>

lemma audit_fold_counts:
  "aa_clear (fold (audit_pixel F bytes w h) ps a) = aa_clear a + of_nat (length (filter (\<lambda>p. rgb_at bytes w p = CLEAR_RGB) ps))"
  "aa_black (fold (audit_pixel F bytes w h) ps a) = aa_black a + of_nat (length (filter (\<lambda>p. rgb_at bytes w p = [0, 0, 0]) ps))"
  by (induction ps arbitrary: a; simp add: audit_pixel_def Let_def)+

lemma length_coordinates: "length (coordinates w h) = w * h"
  by (simp add: coordinates_def mult.commute)

lemma set_coordinates: "set (coordinates w h) = {(y, x). y < h \<and> x < w}"
  by (auto simp: coordinates_def)

lemma length_filter_all: "length (filter P xs) = length xs \<longleftrightarrow> (\<forall>x \<in> set xs. P x)"
proof
  assume l: "length (filter P xs) = length xs"
  show "\<forall>x \<in> set xs. P x" using l length_filter_less [of _ xs P] by (metis less_irrefl)
qed (simp add: filter_id_conv)

lemma of_nat_u64_eq:
  assumes "a < 2 ^ 64" and "b < 2 ^ 64"
  shows "(of_nat a :: u64) = of_nat b \<longleftrightarrow> a = b"
proof -
  have "unat (of_nat n :: u64) = n" if "n < 2 ^ 64" for n
    using that by (simp add: unsigned_of_nat take_bit_nat_eq_self)
  then show ?thesis using assms by metis
qed

lemma analyze_Some:
  assumes "0 < w" and "0 < h" and "w * h * 4 \<le> length bytes"
  shows "\<exists>st. analyze F bytes w h = Some st \<and> ff_pixel_count st = of_nat (w * h) \<and>
    ff_clear_pixel_count st = of_nat (length (filter (\<lambda>p. rgb_at bytes w p = CLEAR_RGB) (coordinates w h))) \<and>
    ff_black_pixel_count st = of_nat (length (filter (\<lambda>p. rgb_at bytes w p = [0, 0, 0]) (coordinates w h))) \<and>
    ff_degenerate st = (ff_pixel_count st = 0 \<or> ff_clear_pixel_count st = ff_pixel_count st \<or> ff_black_pixel_count st = ff_pixel_count st)"
  using assms by (simp add: analyze_def Let_def audit_scan_def audit_fold_counts)

text \<open>
  C23: the audit's verdict is exact.  For every frame with enough bytes it returns, counts exactly
  the pixels of the clear colour and the black ones, and calls the frame degenerate if and only if
  all its pixels have the clear colour or all are black; the floating-point arithmetic of the hash
  has no influence on this.
\<close>

theorem frame_audit_is_exact:
  assumes "0 < w" and "0 < h" and "w * h < 2 ^ 64" and "w * h * 4 \<le> length bytes"
  shows "\<exists>st. analyze F bytes w h = Some st \<and>
    unat (ff_clear_pixel_count st) = card {(y, x). y < h \<and> x < w \<and> rgb_at bytes w (y, x) = CLEAR_RGB} \<and>
    unat (ff_black_pixel_count st) = card {(y, x). y < h \<and> x < w \<and> rgb_at bytes w (y, x) = [0, 0, 0]} \<and>
    (ff_degenerate st \<longleftrightarrow> (\<forall>y < h. \<forall>x < w. rgb_at bytes w (y, x) = CLEAR_RGB) \<or> (\<forall>y < h. \<forall>x < w. rgb_at bytes w (y, x) = [0, 0, 0]))"
proof -
  let ?count = "\<lambda>c. length (filter (\<lambda>p. rgb_at bytes w p = c) (coordinates w h))"
  obtain st where st: "analyze F bytes w h = Some st" "ff_pixel_count st = of_nat (w * h)"
    "ff_clear_pixel_count st = of_nat (?count CLEAR_RGB)" "ff_black_pixel_count st = of_nat (?count [0, 0, 0])"
    "ff_degenerate st = (ff_pixel_count st = 0 \<or> ff_clear_pixel_count st = ff_pixel_count st \<or> ff_black_pixel_count st = ff_pixel_count st)"
    using analyze_Some [OF assms(1,2,4), of F] by blast
  have le: "?count c \<le> w * h" for c using length_filter_le [of _ "coordinates w h"] by (simp add: length_coordinates)
  then have lt: "?count c < 2 ^ 64" for c using assms(3) le_less_trans by blast
  have d: "distinct (coordinates w h)" by (simp add: coordinates_def distinct_product)
  have n: "?count c = card {(y, x). y < h \<and> x < w \<and> rgb_at bytes w (y, x) = c}" for c
  proof -
    have "?count c = card (set (filter (\<lambda>p. rgb_at bytes w p = c) (coordinates w h)))"
      using d by (intro distinct_card [symmetric] distinct_filter)
    also have "set (filter (\<lambda>p. rgb_at bytes w p = c) (coordinates w h)) = {(y, x). y < h \<and> x < w \<and> rgb_at bytes w (y, x) = c}"
      by (auto simp: set_coordinates)
    finally show ?thesis .
  qed
  have u: "unat (of_nat (?count c) :: u64) = ?count c" for c
    using lt [of c] by (simp add: unsigned_of_nat take_bit_nat_eq_self)
  have all: "(of_nat (?count c) :: u64) = of_nat (w * h) \<longleftrightarrow> (\<forall>y < h. \<forall>x < w. rgb_at bytes w (y, x) = c)" for c
  proof -
    have "(of_nat (?count c) :: u64) = of_nat (w * h) \<longleftrightarrow> ?count c = length (coordinates w h)"
      using of_nat_u64_eq [OF lt [of c] assms(3)] by (simp only: length_coordinates)
    then show ?thesis by (simp add: length_filter_all set_coordinates)
  qed
  have z: "(of_nat (w * h) :: u64) \<noteq> 0"
    using of_nat_u64_eq [OF assms(3), of 0] assms(1,2) by simp
  show ?thesis
    by (rule exI [of _ st]) (simp only: st(1,3,4,5) st(2) trans [OF u n] all z simp_thms)
qed

theorem frame_audit_is_exact_witness:
  "\<forall>F :: nat f64_ops. \<exists>st. analyze F [10, 0, 20, 255, 0, 0, 0, 255] 2 1 = Some st \<and> \<not> ff_degenerate st"
proof
  fix F :: "nat f64_ops"
  have "rgb_at [10, 0, 20, 255, 0, 0, 0, 255] 2 (0, 0) = CLEAR_RGB" "rgb_at [10, 0, 20, 255, 0, 0, 0, 255] 2 (0, 1) = [0, 0, 0]"
    by (simp_all add: rgb_at_def CLEAR_RGB_def)
  moreover have "CLEAR_RGB \<noteq> [0, 0, 0]" by (simp add: CLEAR_RGB_def)
  ultimately have "\<not> (\<forall>y < 1. \<forall>x < 2. rgb_at [10, 0, 20, 255, 0, 0, 0, 255] 2 (y, x) = CLEAR_RGB)"
    "\<not> (\<forall>y < 1. \<forall>x < 2. rgb_at [10, 0, 20, 255, 0, 0, 0, 255] 2 (y, x) = [0, 0, 0])"
    by (metis less_numeral_extra(1) one_less_numeral_iff semiring_norm(76) zero_less_numeral)+
  then show "\<exists>st. analyze F [10, 0, 20, 255, 0, 0, 0, 255] 2 1 = Some st \<and> \<not> ff_degenerate st"
    using frame_audit_is_exact [of 2 1 "[10, 0, 20, 255, 0, 0, 0, 255]" F] by auto
qed

section \<open>Blocks\<close>

text \<open>Every pixel falls into one of the 64 blocks, and from 8 by 8 pixels on every block has one.\<close>

lemma block_of_bound: "block_of w h yx < 64"
proof -
  have "min (fst yx * 8 div h) 7 \<le> 7" "min (snd yx * 8 div w) 7 \<le> 7" by simp_all
  then show ?thesis unfolding block_of_def by linarith
qed

lemma eighth_hit:
  fixes w k :: nat
  assumes "8 \<le> w" and "k < 8"
  obtains x where "x < w" "min (x * 8 div w) 7 = k"
proof
  let ?x = "(k * w + 7) div 8"
  have lo: "k * w \<le> ?x * 8" by linarith
  have hi: "?x * 8 \<le> k * w + 7" by linarith
  have "?x * 8 < (k + 1) * w" using hi assms(1) by (simp add: add_mult_distrib)
  then have "?x * 8 div w < k + 1" by (simp add: less_mult_imp_div_less)
  moreover have "k \<le> ?x * 8 div w" using lo assms(1) by (simp add: less_eq_div_iff_mult_less_eq)
  ultimately have e: "?x * 8 div w = k" by simp
  then show "min (?x * 8 div w) 7 = k" using assms(2) by simp
  have "(k + 1) * w \<le> 8 * w" using assms(2) by (intro mult_le_mono1) simp
  then show "?x < w" using \<open>?x * 8 < (k + 1) * w\<close> by linarith
qed

lemma every_block_sampled:
  assumes "8 \<le> w" and "8 \<le> h" and "k < 64"
  shows "\<exists>p \<in> set (coordinates w h). block_of w h p = k"
proof -
  have "k div 8 < 8" "k mod 8 < 8" using assms(3) by simp_all
  then obtain y x where "y < h" "min (y * 8 div h) 7 = k div 8" "x < w" "min (x * 8 div w) 7 = k mod 8"
    using eighth_hit assms(1,2) by metis
  then have "(y, x) \<in> set (coordinates w h)" "block_of w h (y, x) = k"
    by (simp_all add: set_coordinates block_of_def)
  then show ?thesis by blast
qed

section \<open>Solid frames\<close>

lemma nth_solid:
  assumes "length rgb = 3" and "k < w * h" and "i < 4"
  shows "expected_solid_frame w h rgb ! (4 * k + i) = (rgb @ [0xFF]) ! i"
proof -
  have l: "length (rgb @ [0xFF]) = 4" using assms(1) by simp
  have "concat (replicate n (rgb @ [0xFF])) ! (4 * k + i) = (rgb @ [0xFF]) ! i" if "k < n" for n k
    using that
  proof (induction n arbitrary: k)
    case (Suc n)
    show ?case
    proof (cases k)
      case 0
      then show ?thesis using assms(3) l by (simp add: nth_append del: append_assoc length_append)
    next
      case (Suc j)
      then have "concat (replicate n (rgb @ [0xFF])) ! (4 * j + i) = (rgb @ [0xFF]) ! i"
        using Suc.prems Suc.IH by simp
      moreover have "concat (replicate (Suc n) (rgb @ [0xFF])) ! (4 + (4 * j + i)) = concat (replicate n (rgb @ [0xFF])) ! (4 * j + i)"
        using nth_append_length_plus [of "rgb @ [0xFF]" _ "4 * j + i"] by (simp only: l replicate_Suc concat.simps)
      ultimately show ?thesis using Suc by (simp add: add.assoc)
    qed
  qed simp
  then show ?thesis using assms(2) by (simp add: expected_solid_frame_def)
qed

lemma length_solid: "length rgb = 3 \<Longrightarrow> length (expected_solid_frame w h rgb) = w * h * 4"
  by (simp add: expected_solid_frame_def length_concat sum_list_replicate)

lemma rgb_at_solid:
  assumes "length rgb = 3" and "y < h" and "x < w"
  shows "rgb_at (expected_solid_frame w h rgb) w (y, x) = rgb"
proof -
  have "y * w + x < Suc y * w" using assms(3) by simp
  also have "\<dots> \<le> h * w" using assms(2) by (intro mult_le_mono1) simp
  finally have k: "y * w + x < w * h" by (simp add: mult.commute)
  obtain r g b where rgb: "rgb = [r, g, b]" using assms(1) by (auto simp: length_Suc_conv numeral_3_eq_3)
  have "expected_solid_frame w h rgb ! ((y * w + x) * 4 + i) = (rgb @ [0xFF]) ! i" if "i < 4" for i
    using nth_solid [OF assms(1) k that] by (simp only: mult.commute)
  from this [of 0] this [of 1] this [of 2] show ?thesis
    unfolding rgb_at_def Let_def fst_conv snd_conv rgb by simp
qed

text \<open>
  A video wallpaper starts with a single black texel stretched over the output; a frame of it
  is what the audit calls degenerate.
\<close>

lemma video_starts_degenerate:
  assumes "video_backend_new W source l fb = Inr v" and "0 < w" and "0 < h"
  shows "tx_bytes (vb_texture v) = [0, 0, 0, 255]"
    and "\<exists>st. analyze F (expected_solid_frame w h (take 3 (tx_bytes (vb_texture v)))) w h = Some st \<and> ff_degenerate st"
proof -
  show t: "tx_bytes (vb_texture v) = [0, 0, 0, 255]"
    using assms(1) by (auto simp: video_backend_new_def from_memory_def rbind_def split: if_splits)
  let ?f = "expected_solid_frame w h [0, 0, 0]"
  obtain st where st: "analyze F ?f w h = Some st" "ff_pixel_count st = of_nat (w * h)"
    "ff_black_pixel_count st = of_nat (length (filter (\<lambda>p. rgb_at ?f w p = [0, 0, 0]) (coordinates w h)))"
    "ff_degenerate st = (ff_pixel_count st = 0 \<or> ff_clear_pixel_count st = ff_pixel_count st \<or> ff_black_pixel_count st = ff_pixel_count st)"
    using analyze_Some [OF assms(2,3), of ?f F] length_solid [of "[0, 0, 0]" w h] by fastforce
  have "filter (\<lambda>p. rgb_at ?f w p = [0, 0, 0]) (coordinates w h) = coordinates w h"
    by (auto simp: filter_id_conv set_coordinates rgb_at_solid)
  then have "ff_degenerate st" unfolding st(2-4) by (simp only: length_coordinates simp_thms)
  then show "\<exists>st. analyze F (expected_solid_frame w h (take 3 (tx_bytes (vb_texture v)))) w h = Some st \<and> ff_degenerate st"
    using st(1) by (simp add: t)
qed

section \<open>Snapshots\<close>

text \<open>A snapshot is written only of a published frame, with exactly four bytes per pixel of its dimensions.\<close>

lemma write_png_Inr:
  "write_png png f path = Inr () \<longleftrightarrow> fb_width f < 2 ^ 32 \<and> fb_height f < 2 ^ 32 \<and>
     fb_width f * fb_height f * 4 \<le> length (fb_rgba f) \<and> fb_width f * fb_height f * 4 < 2 ^ 64 \<and>
     png path (of_nat (fb_width f)) (of_nat (fb_height f)) (take (fb_width f * fb_height f * 4) (fb_rgba f))"
  by (auto simp: write_png_def Let_def mult.commute)

lemma snapshot_Inr:
  "snapshot_impl png sl path scene = Inr () \<longleftrightarrow> (\<exists>f. write_png png f path = Inr () \<and>
     (scene \<in> {'''', ''current''} \<and> sn_current sl = Some f \<or> scene = ''wallpaper-only'' \<and> sn_wallpaper_only sl = Some f))"
  by (auto simp: snapshot_impl_def rbind_def ok_or_def split: option.splits sum.splits)

text \<open>
  The auxiliary slot changes only when the scene's last element is the wallpaper; the composed
  frame is published in the other slot.
\<close>

lemma wallpaper_only_slot:
  "sn_current (snd (audit_wallpaper_only read elements sl)) = sn_current sl"
  "sn_wallpaper_only (snd (audit_wallpaper_only read elements sl)) \<noteq> sn_wallpaper_only sl \<Longrightarrow>
     elements \<noteq> [] \<and> (\<exists>e. last elements = WallpaperElement e)"
  by (auto simp: audit_wallpaper_only_def split: if_splits scene_element.splits sum.splits)

lemma audit_frame_slots:
  assumes "audit_frame F read n elements sl = Some (Inr evs, sl')"
  shows "\<exists>rgba w h. read elements = Inr (rgba, w, h) \<and> sn_current sl' = Some \<lparr>fb_rgba = rgba, fb_width = w, fb_height = h\<rparr> \<and>
    length evs = 1"
  using assms wallpaper_only_slot(1)
  by (auto simp: audit_frame_def Let_def split: sum.splits prod.splits)

end
