(* ===== verification/Observability.thy ===== *)
theory Observability
  imports Lifecycle_Events Rust_Text Broker_Episode Sliding_Window
begin

text \<open>
  What the system tells an operator: the \<open>org.halmasuit.Compositor1\<close> service
  (\<open>dbus_compositor1.rs\<close>) with the places that feed it, the command line client (\<open>halmasuit-cli\<close>),
  the broker's wire trace (\<open>wire_trace.rs\<close>), the watchdog and the shutdown watcher of \<open>main.rs\<close>.

  The system bus, \<open>journalctl\<close>, the sockets and the debug form of a string are arguments.
\<close>

section \<open>The Compositor1 service\<close>

datatype broker_connection_state = NotConnected | BrokerConnecting | BrokerConnected | BrokerFailed

fun broker_state_as_u8 :: "broker_connection_state \<Rightarrow> byte" where
  "broker_state_as_u8 NotConnected = 0"
| "broker_state_as_u8 BrokerConnecting = 1"
| "broker_state_as_u8 BrokerConnected = 2"
| "broker_state_as_u8 BrokerFailed = 3"

definition broker_state_from_u8 :: "byte \<Rightarrow> broker_connection_state option" where
  "broker_state_from_u8 v =
     (if v = 0 then Some NotConnected
      else if v = 1 then Some BrokerConnecting
      else if v = 2 then Some BrokerConnected
      else if v = 3 then Some BrokerFailed
      else None)"

fun broker_state_label :: "broker_connection_state \<Rightarrow> string" where
  "broker_state_label NotConnected = ''not_connected''"
| "broker_state_label BrokerConnecting = ''connecting''"
| "broker_state_label BrokerConnected = ''connected''"
| "broker_state_label BrokerFailed = ''failed''"

text \<open>The two process-wide stores and \<open>CompositorObservability\<close>.\<close>

record obs_store =
  ob_broker :: byte
  ob_phase :: u32
  ob_startup :: instant
  ob_frame_counter :: u64
  ob_windows :: "(u32 \<times> string \<times> string) list"

definition new_obs_store :: "instant \<Rightarrow> obs_store" where
  "new_obs_store now = \<lparr>ob_broker = 0, ob_phase = 0, ob_startup = now, ob_frame_counter = 0, ob_windows = []\<rparr>"

definition record_broker_state :: "broker_connection_state \<Rightarrow> obs_store \<Rightarrow> obs_store" where
  "record_broker_state st s = s\<lparr>ob_broker := broker_state_as_u8 st\<rparr>"

definition broker_state_name :: "obs_store \<Rightarrow> string" where
  "broker_state_name s = (case broker_state_from_u8 (ob_broker s) of Some st \<Rightarrow> broker_state_label st | None \<Rightarrow> ''unknown'')"

definition record_phase :: "lifecycle_phase \<Rightarrow> obs_store \<Rightarrow> obs_store" where
  "record_phase p s = s\<lparr>ob_phase := phase_as_u32 p\<rparr>"

definition current_phase_name :: "obs_store \<Rightarrow> string" where
  "current_phase_name s = (case phase_from_u32 (ob_phase s) of Some p \<Rightarrow> phase_label p | None \<Rightarrow> ''unknown'')"

definition get_phase :: "obs_store \<Rightarrow> string" where
  "get_phase s = current_phase_name s"

definition get_uptime :: "instant \<Rightarrow> obs_store \<Rightarrow> u64" where
  "get_uptime now s = of_nat ((now - ob_startup s) div 1000000000)"

definition get_frame_counter :: "obs_store \<Rightarrow> u64" where
  "get_frame_counter s = ob_frame_counter s"

definition list_windows :: "obs_store \<Rightarrow> (u32 \<times> string \<times> string) list" where
  "list_windows s = ob_windows s"

definition get_broker_status :: "obs_store \<Rightarrow> string" where
  "get_broker_status s = broker_state_name s"

text \<open>\<open>emit_phase\<close>: the store, then the event; the result is the store and the emitted events.\<close>

definition emit_phase :: "lifecycle_phase \<Rightarrow> obs_store \<times> lifecycle_event list \<Rightarrow> obs_store \<times> lifecycle_event list" where
  "emit_phase p st = (record_phase p (fst st), snd st @ [PhaseEntered p])"

text \<open>
  The windows: the toplevels with the application id and title they have set, then the layer
  surfaces of every output with their namespace; the pid is the one recorded when the client
  connected.
\<close>

record toplevel_data =
  td_app_id :: "string option"
  td_title :: "string option"

definition refresh_window_snapshot ::
    "(u32 option \<times> toplevel_data option) list \<Rightarrow> (u32 option \<times> string) list list \<Rightarrow> obs_store \<Rightarrow> obs_store" where
  "refresh_window_snapshot toplevels layer_maps s =
     (let pid_of = (\<lambda>p. case p of Some n \<Rightarrow> n | None \<Rightarrow> 0);
          str_of = (\<lambda>x. case x of Some t \<Rightarrow> t | None \<Rightarrow> []) in
      s\<lparr>ob_windows :=
        map (\<lambda>(p, d). (pid_of p, str_of (Option.bind d td_app_id), str_of (Option.bind d td_title))) toplevels @
        concat (map (map (\<lambda>(p, namespace). (pid_of p, namespace, []))) layer_maps)\<rparr>)"

section \<open>Connecting to the broker\<close>

datatype unix_addr = PathAddr string | AbstractAddr string

record connect_sys =
  cy_socket :: "errno + fd"
  cy_addr :: "unix_addr \<Rightarrow> errno + unit"
  cy_connect :: "fd \<Rightarrow> unix_addr \<Rightarrow> errno + unit"

definition broker_socket_path_from_env :: "(string \<Rightarrow> string option) \<Rightarrow> string" where
  "broker_socket_path_from_env var = (case var ''HALMASUIT_BROKER_SOCKET'' of Some p \<Rightarrow> p | None \<Rightarrow> ''/run/halmasuit-session.sock'')"

definition broker_addr :: "string \<Rightarrow> unix_addr" where
  "broker_addr path = (case strip_prefix ''@'' path of Some name \<Rightarrow> AbstractAddr name | None \<Rightarrow> PathAddr path)"

text \<open>The result and whether the socket was closed again: \<open>fd\<close> is owned, so every error closes it.\<close>

definition connect_broker_inner :: "connect_sys \<Rightarrow> string \<Rightarrow> (wire_error + fd) \<times> fd list" where
  "connect_broker_inner K path = (case cy_socket K of
     Inl e \<Rightarrow> (Inl (WireIo e), [])
   | Inr f \<Rightarrow> (case rbind (cy_addr K (broker_addr path)) (\<lambda>_. cy_connect K f (broker_addr path)) of
       Inl e \<Rightarrow> (Inl (WireIo e), [f])
     | Inr _ \<Rightarrow> (Inr f, [])))"

definition connect_broker :: "connect_sys \<Rightarrow> string \<Rightarrow> obs_store \<Rightarrow> (wire_error + fd) \<times> obs_store" where
  "connect_broker K path s =
     (let s1 = record_broker_state BrokerConnecting s; result = fst (connect_broker_inner K path) in
      (result, record_broker_state (if isl result then BrokerFailed else BrokerConnected) s1))"

section \<open>The command line client\<close>

definition tab :: string where "tab = [CHR 0x09]"

text \<open>The answers of the bus: \<open>None\<close> is a failed connection, proxy or call.\<close>

record bus_answers =
  ba_phase :: "string option"
  ba_uptime :: "u64 option"
  ba_frame_counter :: "u64 option"
  ba_broker_status :: "string option"
  ba_windows :: "(u32 \<times> string \<times> string) list option"

datatype cli_error = BusFailed string | UnknownSubcommand string | UnknownLogsFlag string | SpawnFailed | JournalctlFailed

definition cmd_status :: "bus_answers \<Rightarrow> cli_error + string list" where
  "cmd_status B =
     rbind (ok_or (BusFailed ''GetPhase'') (ba_phase B)) (\<lambda>phase.
     rbind (ok_or (BusFailed ''GetUptime'') (ba_uptime B)) (\<lambda>uptime.
     rbind (ok_or (BusFailed ''GetFrameCounter'') (ba_frame_counter B)) (\<lambda>frame_counter.
     rbind (ok_or (BusFailed ''GetBrokerStatus'') (ba_broker_status B)) (\<lambda>broker_status.
     Inr [''phase='' @ phase, ''uptime_secs='' @ show_nat (unat uptime), ''frame_counter='' @ show_nat (unat frame_counter),
          ''broker_status='' @ broker_status]))))"

definition cmd_windows :: "bus_answers \<Rightarrow> cli_error + string list" where
  "cmd_windows B =
     rbind (ok_or (BusFailed ''ListWindows'') (ba_windows B)) (\<lambda>windows.
     Inr (if windows = [] then [''(no windows)'']
          else map (\<lambda>(p, app_id, title). ''pid='' @ show_nat (unat p) @ tab @ ''app_id='' @ app_id @ tab @ ''title='' @ title) windows))"

definition journal_args :: "string list \<Rightarrow> string list" where
  "journal_args args =
     [''-u'', ''halmasuit'', ''--output=cat'', ''-n'', ''50''] @
     (if list_ex (\<lambda>a. a = ''-f'' \<or> a = ''--follow'') args then [''-f''] else [])"

text \<open>\<open>journalctl\<close> run with arguments: not spawned, or its exit status.\<close>

definition cmd_logs :: "(string list \<Rightarrow> bool option) \<Rightarrow> string list \<Rightarrow> cli_error + string list" where
  "cmd_logs journalctl args = (case find (\<lambda>a. \<not> (a = ''-f'' \<or> a = ''--follow'')) args of
     Some other \<Rightarrow> Inl (UnknownLogsFlag other)
   | None \<Rightarrow> (case journalctl (journal_args args) of
       None \<Rightarrow> Inl SpawnFailed
     | Some success \<Rightarrow> if success then Inr [] else Inl JournalctlFailed))"

definition cli_run ::
    "string list \<Rightarrow> bus_answers \<Rightarrow> (string list \<Rightarrow> bool option) \<Rightarrow> string list \<Rightarrow> cli_error + string list" where
  "cli_run help B journalctl argv = (case argv of
     [] \<Rightarrow> Inr help
   | c # args \<Rightarrow>
       if c = ''status'' then cmd_status B
       else if c = ''windows'' then cmd_windows B
       else if c = ''logs'' then cmd_logs journalctl args
       else if c = ''--help'' \<or> c = ''-h'' \<or> c = ''help'' then Inr help
       else Inl (UnknownSubcommand c))"

section \<open>The wire trace\<close>

datatype direction = DirSend | DirRecv

fun direction_str :: "direction \<Rightarrow> string" where
  "direction_str DirSend = ''send''"
| "direction_str DirRecv = ''recv''"

definition brackets :: "string \<Rightarrow> string list \<Rightarrow> string \<Rightarrow> string" where
  "brackets l xs r = l @ (case xs of [] \<Rightarrow> [] | y # ys \<Rightarrow> y @ concat (map (\<lambda>z. '', '' @ z) ys)) @ r"

text \<open>The derived \<open>Debug\<close> of the frames; \<open>q\<close> is the debug form of a string.\<close>

fun debug_c2b :: "(string \<Rightarrow> string) \<Rightarrow> compositor_to_broker \<Rightarrow> string" where
  "debug_c2b q (BeginAuth service username) = ''BeginAuth { service: '' @ q service @ '', username: '' @ q username @ '' }''"
| "debug_c2b q (ConvResponse response) = ''ConvResponse { response: '' @ debug_secret response @ '' }''"
| "debug_c2b q (StartSessionFrame cmd env) =
     ''StartSession { cmd: '' @ brackets ''['' (map q cmd) '']'' @
     '', env: '' @ brackets ''['' (map (\<lambda>(k, v). brackets ''('' [q k, q v] '')'') env) '']'' @ '' }''"
| "debug_c2b q Cancel = ''Cancel''"
| "debug_c2b q RequestRootFd = ''RequestRootFd''"
| "debug_c2b q SpawnGreeter = ''SpawnGreeter''"

definition format_line :: "direction \<Rightarrow> string \<Rightarrow> string" where
  "format_line d frame = ''wire_trace dir='' @ direction_str d @ '' frame='' @ frame"

definition maybe_format :: "bool \<Rightarrow> direction \<Rightarrow> string \<Rightarrow> string option" where
  "maybe_format enabled d frame = (if enabled then Some (format_line d frame) else None)"

definition trace_enabled_from :: "(string \<Rightarrow> string option) \<Rightarrow> bool" where
  "trace_enabled_from lookup = (lookup ''HALMASUIT_BROKER_TRACE_FRAMES'' = Some ''1'')"

definition wire_trace_emit :: "bool \<Rightarrow> direction \<Rightarrow> string \<Rightarrow> string list" where
  "wire_trace_emit enabled d frame = (case maybe_format enabled d frame of
     Some line \<Rightarrow> [''halmasuit-session: '' @ line] | None \<Rightarrow> [])"

section \<open>Watchdog and shutdown watcher\<close>

definition parse_u64 :: "string \<Rightarrow> u64 option" where
  "parse_u64 s = (let t = (case s of CHR ''+'' # rest \<Rightarrow> rest | _ \<Rightarrow> s) in
     if t \<noteq> [] \<and> list_all is_digit t \<and> digits_value t < 2 ^ 64 then Some (of_nat (digits_value t)) else None)"

text \<open>In nanoseconds.\<close>

definition watchdog_interval :: "(string \<Rightarrow> string option) \<Rightarrow> duration option" where
  "watchdog_interval var =
     Option.bind (var ''WATCHDOG_USEC'') (\<lambda>v. Option.bind (parse_u64 v) (\<lambda>usec.
     if 0 < usec then Some (unat (usec div 2) * 1000) else None))"

record notify_sys =
  ny_unbound :: bool
  ny_connect :: "unix_addr \<Rightarrow> bool"

text \<open>The datagrams sent.\<close>

definition notify_systemd_watchdog :: "notify_sys \<Rightarrow> (string \<Rightarrow> string option) \<Rightarrow> (unix_addr \<times> string) list" where
  "notify_systemd_watchdog K var = (case var ''NOTIFY_SOCKET'' of
     None \<Rightarrow> []
   | Some sock \<Rightarrow>
       if \<not> ny_unbound K then []
       else if ny_connect K (broker_addr sock) then [(broker_addr sock, ''WATCHDOG=1'')] else [])"

text \<open>
  The \<open>login1\<close> thread: each signal carries a flag or a body that does not decode; it ends when the
  channel is closed.  The result is what was sent.
\<close>

fun prepare_for_shutdown_loop :: "bool option list \<Rightarrow> (nat \<Rightarrow> bool) \<Rightarrow> nat \<Rightarrow> bool list" where
  "prepare_for_shutdown_loop [] open_at n = []"
| "prepare_for_shutdown_loop (None # msgs) open_at n = prepare_for_shutdown_loop msgs open_at n"
| "prepare_for_shutdown_loop (Some arming # msgs) open_at n =
     (if open_at n then arming # prepare_for_shutdown_loop msgs open_at (Suc n) else [])"

definition prepare_for_shutdown_handler :: "swap_sys \<Rightarrow> bool \<Rightarrow> compositor \<Rightarrow> compositor" where
  "prepare_for_shutdown_handler K arming s =
     (if \<not> arming then s
      else if cp_shutting_down s then s
      else graceful_shutdown K PrepareForShutdown s)"

definition is_initramfs :: "(string \<Rightarrow> bool) \<Rightarrow> bool" where
  "is_initramfs exists = exists ''/etc/initrd-release''"

section \<open>The status is true\<close>

lemma broker_state_from_as_u8: "broker_state_from_u8 (broker_state_as_u8 st) = Some st"
  by (cases st) (simp_all add: broker_state_from_u8_def)

text \<open>What happens to the stores: a phase is entered, the broker is connected to, frames are counted, the windows change.\<close>

datatype obs_op =
    EnterPhase lifecycle_phase
  | ConnectTo connect_sys string
  | CountFrame
  | WindowsChanged "(u32 option \<times> toplevel_data option) list" "(u32 option \<times> string) list list"

fun obs_step :: "obs_store \<times> lifecycle_event list \<Rightarrow> obs_op \<Rightarrow> (obs_store \<times> lifecycle_event list) \<times> unit" where
  "obs_step st (EnterPhase p) = (emit_phase p st, ())"
| "obs_step st (ConnectTo K path) = ((snd (connect_broker K path (fst st)), snd st), ())"
| "obs_step st CountFrame = (((fst st)\<lparr>ob_frame_counter := ob_frame_counter (fst st) + 1\<rparr>, snd st), ())"
| "obs_step st (WindowsChanged tops layers) = ((refresh_window_snapshot tops layers (fst st), snd st), ())"

fun phase_events :: "obs_op list \<Rightarrow> lifecycle_phase list" where
  "phase_events [] = []"
| "phase_events (EnterPhase p # ops) = p # phase_events ops"
| "phase_events (_ # ops) = phase_events ops"

fun connect_results :: "obs_op list \<Rightarrow> broker_connection_state list" where
  "connect_results [] = []"
| "connect_results (ConnectTo K path # ops) =
     (if isl (fst (connect_broker_inner K path)) then BrokerFailed else BrokerConnected) # connect_results ops"
| "connect_results (_ # ops) = connect_results ops"

lemma obs_run:
  "ob_phase (fst (final obs_step st ops)) = last (ob_phase (fst st) # map phase_as_u32 (phase_events ops)) \<and>
   ob_broker (fst (final obs_step st ops)) = last (ob_broker (fst st) # map broker_state_as_u8 (connect_results ops)) \<and>
   snd (final obs_step st ops) = snd st @ map PhaseEntered (phase_events ops) \<and>
   ob_startup (fst (final obs_step st ops)) = ob_startup (fst st) \<and>
   ob_frame_counter (fst (final obs_step st ops)) = ob_frame_counter (fst st) + of_nat (length (filter (\<lambda>x. x = CountFrame) ops))"
proof (induction ops arbitrary: st)
  case (Cons op ops)
  show ?case using Cons.IH [of "fst (obs_step st op)"]
    by (cases op) (simp_all add: emit_phase_def record_phase_def connect_broker_def record_broker_state_def
        refresh_window_snapshot_def Let_def)
qed simp

text \<open>The answers of the service for a store.\<close>

definition served :: "instant \<Rightarrow> obs_store \<Rightarrow> bus_answers" where
  "served now s = \<lparr>ba_phase = Some (get_phase s), ba_uptime = Some (get_uptime now s), ba_frame_counter = Some (get_frame_counter s),
     ba_broker_status = Some (get_broker_status s), ba_windows = Some (list_windows s)\<rparr>"

lemma last_code: "last (f x # map f xs) = f (last (x # xs))"
  by (induction xs arbitrary: x) simp_all

text \<open>
  C26: what \<open>halmasuit status\<close> prints is what happened.  After any sequence of phase changes,
  broker connections, frames and window changes, the phase printed is the last one announced in
  the journal, or \<open>init\<close> before the first, the broker status is the outcome of the last connection
  attempt, or \<open>not_connected\<close>, and the counter is the number of frames.
\<close>

theorem status_is_truthful:
  fixes t0 now ops
  defines "st \<equiv> final obs_step (new_obs_store t0, []) ops"
  shows "snd st = map PhaseEntered (phase_events ops) \<and>
    cmd_status (served now (fst st)) = Inr
      [''phase='' @ phase_label (last (Init # phase_events ops)),
       ''uptime_secs='' @ show_nat (unat (of_nat ((now - t0) div 1000000000) :: u64)),
       ''frame_counter='' @ show_nat (unat (of_nat (length (filter (\<lambda>x. x = CountFrame) ops)) :: u64)),
       ''broker_status='' @ broker_state_label (last (NotConnected # connect_results ops))]"
proof -
  note r = obs_run [of "(new_obs_store t0, [])" ops, folded st_def]
  have "ob_phase (fst st) = phase_as_u32 (last (Init # phase_events ops))"
    using r last_code [of phase_as_u32 Init "phase_events ops"] by (simp add: new_obs_store_def)
  moreover have "ob_broker (fst st) = broker_state_as_u8 (last (NotConnected # connect_results ops))"
    using r last_code [of broker_state_as_u8 NotConnected "connect_results ops"] by (simp add: new_obs_store_def)
  ultimately show ?thesis using r
    by (simp add: cmd_status_def served_def rbind_def ok_or_def get_phase_def current_phase_name_def get_uptime_def
        get_frame_counter_def get_broker_status_def broker_state_name_def phase_from_as_u32 broker_state_from_as_u8 new_obs_store_def)
qed

text \<open>A failed connection attempt leaves no socket behind.\<close>

lemma connect_broker_no_leak:
  "cy_socket K = Inr f \<Longrightarrow> (case connect_broker_inner K path of (Inl e, shut) \<Rightarrow> shut = [f] | (Inr g, shut) \<Rightarrow> g = f \<and> shut = [])"
  by (auto simp: connect_broker_inner_def split: sum.split)

text \<open>Only the two fixed argument lists ever reach \<open>journalctl\<close>.\<close>

lemma journalctl_args_fixed:
  "journal_args args \<in> {[''-u'', ''halmasuit'', ''--output=cat'', ''-n'', ''50''], [''-u'', ''halmasuit'', ''--output=cat'', ''-n'', ''50'', ''-f'']}"
  by (simp add: journal_args_def)

section \<open>The trace does not depend on secrets\<close>

text \<open>Two frames that differ only in the answer to a prompt.\<close>

fun same_public :: "compositor_to_broker \<Rightarrow> compositor_to_broker \<Rightarrow> bool" where
  "same_public (ConvResponse r1) (ConvResponse r2) = True"
| "same_public f1 f2 = (f1 = f2)"

definition trace_session :: "(string \<Rightarrow> string) \<Rightarrow> (string \<Rightarrow> string option) \<Rightarrow> compositor_to_broker list \<Rightarrow> string list" where
  "trace_session q lookup frames = concat (map (\<lambda>f. wire_trace_emit (trace_enabled_from lookup) DirRecv (debug_c2b q f)) frames)"

lemma debug_c2b_public: "same_public f1 f2 \<Longrightarrow> debug_c2b q f1 = debug_c2b q f2"
  by (cases f1; cases f2) (simp_all add: debug_secret_def)

text \<open>
  C27: the trace of the frames the broker receives says nothing about the answers: two sequences of
  frames that differ only in the secrets answered produce the same lines, and without the
  variable set to \<open>1\<close> there are none.
\<close>

theorem wire_trace_hides_secrets:
  assumes "list_all2 same_public frames1 frames2"
  shows "trace_session q lookup frames1 = trace_session q lookup frames2 \<and>
    (lookup ''HALMASUIT_BROKER_TRACE_FRAMES'' \<noteq> Some ''1'' \<longrightarrow> trace_session q lookup frames1 = [])"
proof
  show "trace_session q lookup frames1 = trace_session q lookup frames2"
    using assms by (induction rule: list_all2_induct) (simp_all add: trace_session_def debug_c2b_public)
  show "lookup ''HALMASUIT_BROKER_TRACE_FRAMES'' \<noteq> Some ''1'' \<longrightarrow> trace_session q lookup frames1 = []"
    by (simp add: trace_session_def trace_enabled_from_def wire_trace_emit_def maybe_format_def)
qed

theorem wire_trace_hides_secrets_witness:
  "trace_session (\<lambda>s. s) (\<lambda>_. Some ''1'') [ConvResponse (MkSecret ''hunter2''), Cancel] =
   trace_session (\<lambda>s. s) (\<lambda>_. Some ''1'') [ConvResponse (MkSecret ''swordfish''), Cancel]"
  using wire_trace_hides_secrets [of "[ConvResponse (MkSecret ''hunter2''), Cancel]" "[ConvResponse (MkSecret ''swordfish''), Cancel]"]
  by simp

section \<open>Watchdog and shutdown\<close>

text \<open>The ping comes at least twice in a watchdog period.\<close>

lemma watchdog_pings_twice:
  assumes "var ''WATCHDOG_USEC'' = Some v" and "parse_u64 v = Some usec" and "watchdog_interval var = Some d"
  shows "2 * d \<le> unat usec * 1000"
proof -
  have "d = unat (usec div 2) * 1000" using assms by (simp add: watchdog_interval_def split: if_splits)
  then show ?thesis by (simp add: unat_div)
qed

text \<open>A period of one microsecond makes the timer's interval zero.\<close>

lemma watchdog_interval_can_be_zero: "watchdog_interval (\<lambda>_. Some ''1'') = Some 0"
  by (simp add: watchdog_interval_def parse_u64_def is_digit_def digits_value_def)

lemma shutdown_handler_latches:
  "cp_shutting_down s \<Longrightarrow> prepare_for_shutdown_handler K arming s = s"
  "\<not> arming \<Longrightarrow> prepare_for_shutdown_handler K arming s = s"
  "arming \<Longrightarrow> cp_shutting_down (prepare_for_shutdown_handler K arming s)"
  by (simp_all add: prepare_for_shutdown_handler_def graceful_shutdown_def Let_def)

text \<open>Signals that decode are forwarded in order while the compositor listens.\<close>

lemma shutdown_loop_forwards:
  "(\<And>k. open_at k) \<Longrightarrow> prepare_for_shutdown_loop msgs open_at n = List.map_filter (\<lambda>m. m) msgs"
  by (induction msgs open_at n rule: prepare_for_shutdown_loop.induct) (simp_all add: List.map_filter_simps)

end
