(* ===== verification/Spec2Isabelle.thy ===== *)
theory Spec2Isabelle
  imports Broker_Episode Swap_Gate Session_Broker Pam_Session Kushuh_Config Decoder_Relay Luks_Agent Compositor_Sources
    Process_Inheritance Pivot Event_Loop Drm_Device Vt_Switch Decoder_Sandbox Decoder_Process
    Drm_Pipeline Frame_Audit Observability
begin

text \<open>
  \<^bold>\<open>Verification of halmasuit.\<close>

  halmasuit is a Wayland system compositor that owns the display from boot to shutdown and
  logs users in without ever running privileged code itself.  A login crosses four
  processes: the greeter (an untrusted client that speaks the greetd protocol), the
  compositor (unprivileged; it terminates greetd and relays to the broker), the session broker
  (root; it admits one compositor and runs at most one worker) and the worker (root; it owns the
  PAM handle and forks the privilege-dropped session leader).  This development models that
  path, from the bytes the greeter writes to the \<open>execve\<close> of the session, and the gates that
  decide which client is visible; the life of the compositor around it, from the initramfs
  through the pivot and the privilege drop to the end of its main loop; and beside it the parts
  that face untrusted input: the sandboxed media decoder and the relay to it, the LUKS
  passphrase agent of the initramfs, and the configuration parser of kushuh.  On the other side
  stands what the user sees: the wallpaper with its back ends, the scene of a frame and the loop
  that renders it, and the ways to observe the compositor.

  \<^bold>\<open>Theories and the code they model\<close> (paths below \<open>src/crates\<close>):

  \<^item> \<open>Prelude\<close>: result types, runs of a step function (\<open>outputs\<close>, \<open>final\<close>), UTF-8, native-endian
    length words, shared lemmas.
  \<^item> \<open>Rust_Text\<close>: the string functions of the standard library the parsers use.
  \<^item> \<open>Sliding_Window\<close>: instants, durations and the bound a pruned list of instants gives; the
    churn bound of the slot and the restart budget of the decoder rest on it.
  \<^item> \<open>Wire_Codec\<close>: the length-prefixed framing both protocols use, as the locale
    \<open>framed_codec\<close> (round trip, partial frames, streams of frames, bounds).
  \<^item> \<open>Greetd\<close>: \<open>halmasuit-greetd/src/lib.rs\<close>: \<open>SessionState\<close> with \<open>on_request\<close> and
    \<open>on_pam_result\<close>, error descriptions and their truncation, the codec.
  \<^item> \<open>Greetd_Server\<close>: \<open>halmasuit-greetd/src/server.rs\<close>: the sans-IO \<open>Connection\<close> with its read
    buffer, \<open>feed_greeter\<close>, \<open>resume_pam\<close>, \<open>broker_closed\<close>, \<open>drive\<close>; socket binding and the
    peer gate.
  \<^item> \<open>Session_Ipc\<close>: \<open>halmasuit-session-ipc/src/lib.rs\<close>: the frames between compositor and
    broker, and their codec.
  \<^item> \<open>Broker_Relay\<close>: \<open>halmasuit/src/broker_relay.rs\<close>: the phase machine \<open>BrokerRelay\<close> and the
    FIFO that pairs greeter answers with PAM messages.
  \<^item> \<open>Broker_Episode\<close>: \<open>halmasuit/src/broker_session.rs\<close>: one greeter connection from accept to
    session end, composed of a greetd connection, a relay and the broker channel.
  \<^item> \<open>Swap_Gate\<close>: \<open>halmasuit/src/swap_gate.rs\<close>: the two-key gates for greeter and session.
  \<^item> \<open>Auth_Slot\<close>: \<open>halmasuit-session/src/slot.rs\<close>: the single-worker slot with its churn bound,
    and the locale \<open>worker_slot\<close> the broker's proofs rest on.
  \<^item> \<open>Session_Leader\<close>: \<open>halmasuit-session/src/session_leader.rs\<close> and the launching half of
    \<open>worker.rs\<close>: validation, groups, privilege drop of the session leader and of the greeter.
  \<^item> \<open>Session_Transport\<close>: \<open>halmasuit-session/src/transport.rs\<close> and the framed send and receive
    of \<open>worker.rs\<close>.
  \<^item> \<open>Session_Broker\<close>: \<open>halmasuit-session/src/broker.rs\<close>: the relay, the refusal log and every
    handler of the broker's event loop.
  \<^item> \<open>Pam_Session\<close>: \<open>conv.rs\<close>, \<open>responder.rs\<close>, \<open>pam_ffi.rs\<close>, \<open>auth.rs\<close> and \<open>session.rs\<close> of
    \<open>halmasuit-session\<close>: the conversation callback and the one-handle PAM lifecycle.
  \<^item> \<open>Compositor\<close>: the login half of \<open>halmasuit/src/main.rs\<close>: the greetd listener, the greeter,
    broker and leader sources of a connection, the session uid, the gate for Wayland peers,
    swap and revert of the scene, toplevels, reaping, signals and shutdown; the abstract
    \<open>scene\<close> it refines.
  \<^item> \<open>Compositor_Sources\<close>: sources and borrowed descriptors over all states the loop reaches.
  \<^item> \<open>Task_Caps\<close>: \<open>halmasuit/src/task_caps.rs\<close> and the privilege drop of \<open>main.rs\<close>: reading
    \<open>/proc/self/task\<close>, the audit of every thread, \<open>drop_privileges\<close>.
  \<^item> \<open>Pivot\<close>: the timer of \<open>main.rs\<close> that waits for the pivot out of the initramfs, migrates to the
    root of the broker and runs the post-pivot setup.
  \<^item> \<open>Event_Loop\<close>: the main loop of \<open>main.rs\<close> over the sources of \<open>Compositor\<close> and the timer of \<open>Pivot\<close>, with its
    handling of failed iterations and its exit.
  \<^item> \<open>Drm_Device\<close>: the choice of the DRM device, \<open>halmasuit/src/drm.rs\<close> and its environment.
  \<^item> \<open>Vt_Switch\<close>: \<open>halmasuit/src/vt_switch.rs\<close>, \<open>diagnostic.rs\<close> and their handlers in \<open>main.rs\<close>:
    system chords, the overlay, the home terminal and its signals.
  \<^item> \<open>Descriptors\<close>, \<open>Process_Inheritance\<close>: descriptor tables across \<open>dup2\<close> and \<open>execve\<close>; the broker's
    binary and \<open>spawn_worker\<close>, and what a session inherits through the two forks.
  \<^item> \<open>Decoder_Sandbox\<close>, \<open>Media_Decode\<close>, \<open>Decoder_Process\<close>: \<open>sandbox.rs\<close>, \<open>decode.rs\<close> and \<open>main.rs\<close> of
    \<open>halmasuit-decoder\<close>: entering the sandbox and its filter, the file callbacks and the decoding
    loop over an arbitrary FFmpeg, and the lifecycle with its pacing.
  \<^item> \<open>Decoder_Ipc\<close>: \<open>halmasuit-decoder-ipc/src/lib.rs\<close>: control messages, frame datagrams and the
    check of frame headers.
  \<^item> \<open>Decoder_Relay\<close>: \<open>halmasuit/src/wallpaper/decoder_relay.rs\<close>: spawning the decoder with every
    descriptor, receiving from it, and the restart budget.
  \<^item> \<open>Luks_Agent\<close>: \<open>halmasuit-luks/src\<close>: ask files, the prompt's state machine, the unattended
    responder.
  \<^item> \<open>Kushuh_Config\<close>: \<open>kushuh/src/config\<close>: the validated configuration, the input guard and the
    schema parser over the node interface of the \<open>kdl\<close> crate.
  \<^item> \<open>Lifecycle_Events\<close>: \<open>halmasuit-introspect/src/lib.rs\<close> and \<open>halmasuit-events/src/lib.rs\<close>: phases,
    events, their canonical names, the listeners and \<open>emit\<close>.
  \<^item> \<open>Wallpaper\<close>: \<open>halmasuit/src/wallpaper\<close>: the configuration, the shader source and its uniforms,
    the three back ends, the engine with its fallback, and the consumer of the events.
  \<^item> \<open>Console_Font\<close>, \<open>Cursor_Theme\<close>: \<open>console_font.rs\<close> with its font, and \<open>cursor.rs\<close>.
  \<^item> \<open>Scene_Render\<close>: the rendering half of \<open>drm.rs\<close>: cursor, overlay and scene, frames on every
    output; the vblank handler, the repaint and the keepalive tick of \<open>main.rs\<close>.
  \<^item> \<open>Drm_Pipeline\<close>: the setup half of \<open>drm.rs\<close>: connectors and their names, the primary output, CRTCs,
    modes and the layout of the outputs.
  \<^item> \<open>Frame_Audit\<close>: \<open>frame_audit.rs\<close>, \<open>offscreen.rs\<close>, the audit hooks of \<open>drm.rs\<close> and the snapshot
    object of \<open>dbus.rs\<close>.
  \<^item> \<open>Observability\<close>: \<open>dbus_compositor1.rs\<close>, the client \<open>halmasuit-cli\<close>, \<open>connect_broker\<close>, the wire
    trace of the broker, the watchdog and the shutdown watcher.
  \<^item> this theory: what spans the worker, the broker and the compositor.

  \<^bold>\<open>Conventions.\<close>  A Rust struct is a record, an enum a datatype, \<open>Result<T, E>\<close> is \<open>'e + 'a\<close>
  with \<open>Inl\<close> the error; a method on \<open>&mut self\<close> returns its result and the new state.  A
  \<open>String\<close> is a list of its UTF-8 bytes as characters, wire data a list of 8-bit words, \<open>u32\<close>,
  \<open>u64\<close> and \<open>i32\<close> are words and integers of their width.  Code outside the repository is an
  argument: \<open>serde_json\<close>, the kernel (\<open>sendmsg\<close>, \<open>recvmsg\<close>, \<open>waitpid\<close>, \<open>setresuid\<close> and so
  on), NSS, calloop's registrations and libpam, each of whose entry points is a tree of
  conversation callbacks that ends in a status; procfs, sysfs and FFmpeg likewise.  Theorems quantify over these arguments;
  what a theorem assumes of them is written in it (\<open>honest_kernel\<close>: the kernel reports the
  credentials a process has; that JSON decodes what it encoded) and holds of the instance
  its witness uses.  Effects whose order matters are lists in the state: the frames that
  left a channel, the calls on worker processes, the calls on the PAM handle, the sources
  registered with the event loop.

  \<^bold>\<open>What is shown.\<close>  Authorisation: a spawn needs a PAM success for exactly that identity at the
  greetd machine, the connection, the relay and the episode, for every interleaving of
  inputs; the identity is the one PAM resolved in the worker, through broker and relay.
  Confinement: a launched session or greeter has the validated ids, groups and
  environment.  Liveness of the worker population: at most one worker, every worker waited
  for, bounded churn, the broker's loop invariant.  Protocol order: what each side
  puts on the wire, the answers matched to the prompts, the PAM lifecycle in order.
  Failing closed: losing the broker, malformed data, out-of-phase frames.  Codec round trips,
  bounds of buffers and texts, exact behaviour of the smaller functions.  The compositor: its
  login path refines the abstract scene, only authenticated users pass its Wayland gate, and
  borrowed descriptors outlive the sources over them.  Its life: the pivot always reaches the
  setup, stop signals are obeyed only once every thread is confined, the main loop ends for a
  stop signal that no announcement of a shutdown precedes, in a boot from the initramfs only after the
  privilege drop, and for nothing else, the device it opens is a card of \<open>/dev/dri\<close> and the search
  for it ends.  The decoder: what reaches the renderer is a well-formed frame and what the
  decoder sends is accepted, the sandbox is complete, the callbacks serve the mapped file,
  rewinding starts it again, restarts are bounded, descriptors are accounted for.  The LUKS
  agent: a passphrase goes to the request it was typed for, once.  kushuh: accepted
  configurations are valid, and every valid one has a document.  The picture: wallpaper
  elements are well-formed through every swap, uniforms carry the events of the bus and the
  markers do not feed back, a dead decoder gives way to its fallback, the outputs tile the desktop,
  every frame consists of exactly the cursor, the overlay, the surfaces and the wallpaper in this order
  and a cursor is always found, the font is painted pixel by pixel and nothing else is touched, the audit of a frame is
  exact.  Observation: the status printed is the history, and the trace hides secrets.  Behaviours that contradict
  the code's own documentation or intent are proved as such, among them that the session comes
  to the foreground at most once in the compositor's life, that a user's session inherits the
  broker's sockets, and that a looping video with delayed frames stops the decoder.

  \<^bold>\<open>Bounds and termination.\<close>  Every loop is a total function: \<open>drive\<close> terminates because each
  round consumes a frame of the buffer, the conversation loop is structural in the messages,
  libpam trees are finite (a blocking call that returns).  Loops that wait for the outside world
  run over the list of its answers, one element for each tick, pass or iteration, and theorems
  quantify over that list; only the search for the DRM device, whose clock decides, is a
  \<open>partial_function\<close>, with its end proved in \<open>resolve_ends\<close>.  No fuel is used.

  \<^bold>\<open>Not modelled.\<close>  Pointer and touch routing and the Wayland protocol glue of the compositor binary
  (surfaces are numbers), what GBM, EGL, the DRM surfaces and the GPU do inside smithay's calls and
  the drawing itself; FFmpeg and its generated bindings; the transport and the
  threads of D-Bus; test clients and probes, which are programs that exercise the others; log
  texts, and the system calls themselves.
\<close>

section \<open>From PAM to the compositor\<close>

text \<open>
  What the broker's relay forwards as a success is exactly what the worker reported as one.
\<close>

lemma relayed_auth_ok:
  assumes "on_worker_readable B phase slot received sys_send = (res, phase', sends)"
    and "ToCompositor (AuthOkFrame u uid gid) fd \<in> set sends"
    and "fst (recv_frame_with_fd (be_le B) (be_pm_from_slice B) received) = Inr (m, fd')"
  shows "m = Outcome (WorkerAuthOk u uid gid)"
  using assms
  by (auto simp: on_worker_readable_def send_then_def Let_def split: if_splits sum.splits parent_message.splits
      broker_to_compositor.splits worker_outcome.splits)

lemma accepted_pam_success:
  "on_broker_frame r f = (Inr (RelayPam (PamSuccess u uid gid)), r') \<Longrightarrow> f = AuthOkFrame u uid gid"
  by (cases "br_phase r"; cases f) (auto simp: on_broker_frame_def)

text \<open>
  C2: the identity the compositor acts on is the one PAM resolved.  Take any run of the worker,
  any frame it sent, a datagram the broker decodes as that frame, whatever the broker then
  forwards to the compositor: if the compositor's relay turns it into a PAM success for a
  name, uid and gid, the worker's authenticate, account management, user lookup and establish
  credentials had all succeeded, in this order, and the identity is PAM's user item with
  the ids of its passwd entry.
\<close>

theorem compositor_identity_is_pams:
  assumes "run_session W L S service username (worker_start input) = (r, s)"
    and "(m, wfd) \<in> set (wc_sent (se_chan s))"
    and "fst (recv_frame_with_fd (be_le B) (be_pm_from_slice B) received) = Inr (m, bfd)"
    and "on_worker_readable B phase slot received sys_send = (res, phase', sends)"
    and "ToCompositor f cfd \<in> set sends"
    and "on_broker_frame relay f = (Inr (RelayPam (PamSuccess u uid gid)), relay')"
  shows "\<exists>cs. se_calls s = (CallStart, True) # oks auth_calls @ cs \<and>
    pam_identity L S \<lparr>ri_username = u, ri_uid = uid, ri_gid = gid\<rparr>"
proof -
  have m: "m = Outcome (WorkerAuthOk u uid gid)"
    using relayed_auth_ok [OF assms(4) _ assms(3)] assms(5) accepted_pam_success [OF assms(6)] by simp
  obtain cs st where "se_calls s = (CallStart, True) # cs @ [(CallEnd st, True)]" "frame_justified L S cs m"
    using run_session_lifecycle [OF assms(1)] assms(2) by (fastforce simp: worker_start_def)
  then show ?thesis by (auto simp: m prefix_def oks_def)
qed

definition demo_worker_run :: "libpam \<Rightarrow> (session_error + unit) \<times> session_state_rec" where
  "demo_worker_run L = run_session demo_worker_env L demo_os ''login'' ''al'' (worker_start (demo_input [1, 3]))"

text \<open>A broker whose next datagram from the worker is \<open>m\<close>, with that worker in the slot.\<close>

definition demo_relayed :: "parent_message \<Rightarrow> relay_out" where
  "demo_relayed m = on_worker_readable (demo_broker_env\<lparr>be_pm_from_slice := (\<lambda>b. Inr m)\<rparr>) AwaitWorker
     ((with_defaults 1000)\<lparr>inflight := Some \<lparr>if_pid = 7, if_handle = \<lparr>wh_pid = 7, wh_pidfd = 8\<rparr>, if_chan = 9\<rparr>\<rparr>)
     (Inr ([1, 0, 0, 0, 1], Inr [])) (\<lambda>b fds. Inr (length b))"

lemmas relayed_eval = demo_relayed_def on_worker_readable_def send_then_def slot_current_def with_defaults_def new_auth_slot_def
  demo_broker_env_def recv_frame_with_fd_def transport_send_def

lemma demo_worker_frames:
  "map fst (wc_sent (se_chan (snd (demo_worker_run (demo_pam ''al''))))) =
     [Conv (ConvPrompt PromptSecret ''Pw''), Outcome (WorkerAuthOk ''al'' 1000 1000),
      Outcome (WorkerSessionOpened ''al'' 1000 1000), Outcome (WorkerSessionEnded (Exited 0))]"
  by (simp add: demo_worker_run_def session_eval)

theorem compositor_identity_is_pams_witness:
  "\<exists>cs. se_calls (snd (demo_worker_run (demo_pam ''al''))) = (CallStart, True) # oks auth_calls @ cs \<and>
     pam_identity (demo_pam ''al'') demo_os \<lparr>ri_username = ''al'', ri_uid = 1000, ri_gid = 1000\<rparr>"
proof -
  let ?m = "Outcome (WorkerAuthOk ''al'' 1000 1000)" and ?f = "AuthOkFrame ''al'' 1000 1000"
  let ?B = "demo_broker_env\<lparr>be_pm_from_slice := (\<lambda>b. Inr ?m)\<rparr>"
  have "?m \<in> set (map fst (wc_sent (se_chan (snd (demo_worker_run (demo_pam ''al''))))))"
    unfolding demo_worker_frames by simp
  then obtain wfd where sent: "(?m, wfd) \<in> set (wc_sent (se_chan (snd (demo_worker_run (demo_pam ''al'')))))" by auto
  have run: "run_session demo_worker_env (demo_pam ''al'') demo_os ''login'' ''al'' (worker_start (demo_input [1, 3]))
    = (fst (demo_worker_run (demo_pam ''al'')), snd (demo_worker_run (demo_pam ''al'')))"
    by (simp add: demo_worker_run_def)
  have recv: "fst (recv_frame_with_fd (be_le ?B) (be_pm_from_slice ?B) (Inr ([1, 0, 0, 0, 1], Inr []))) = Inr (?m, None)"
    by (simp add: demo_broker_env_def recv_frame_with_fd_def worker_eval)
  have relayed: "demo_relayed ?m = (Inr RelayContinue, AwaitGreeterStartSession, [ToCompositor ?f None])"
    by (simp add: relayed_eval worker_eval)
  have accepted: "on_broker_frame ((new_broker_relay ''login'' ''al'')\<lparr>br_phase := Authing\<rparr>) ?f
    = (Inr (RelayPam (PamSuccess ''al'' 1000 1000)), (new_broker_relay ''login'' ''al'')\<lparr>br_phase := Authed\<rparr>)"
    by (simp add: on_broker_frame_def new_broker_relay_def)
  show ?thesis
    by (rule compositor_identity_is_pams [OF run sent recv relayed [unfolded demo_relayed_def] _ accepted]) simp
qed

text \<open>
  a PAM stack that speaks while it opens the session, as a last-login or message-of-the-day
  module does, cannot log anybody in.  The worker's run is a complete success and the
  broker relays the display message, but it reaches the compositor after \<open>StartSession\<close>,
  where the relay knows no conversation: the episode fails closed before \<open>SessionOpened\<close>.
\<close>

theorem display_while_opening_fails_login:
  "let L = (demo_pam ''al'')\<lparr>lp_open_session := PamConv demo_alloc [Some (4, Some ''Welcome'')] (\<lambda>r. PamReturn 0)\<rparr>;
       (r, s) = demo_worker_run L;
       ep = final (ep_step demo_episode_env) (fresh_episode ''login'')
         [request_bytes 1, datagram 1, request_bytes 2, datagram 3, request_bytes 3];
       shown = ConvDisplay DisplayInfo ''Welcome'' in
   r = Inr () \<and>
   map fst (wc_sent (se_chan s)) = [Conv (ConvPrompt PromptSecret ''Pw''), Outcome (WorkerAuthOk ''al'' 1000 1000),
     Conv shown, Outcome (WorkerSessionOpened ''al'' 1000 1000), Outcome (WorkerSessionEnded (Exited 0))] \<and>
   demo_relayed (Conv shown) = (Inr RelayContinue, AwaitWorker, [ToCompositor shown None]) \<and>
   ee_frame_from_slice demo_episode_env [2] = Inr shown \<and>
   terminate (snd (ep_step demo_episode_env ep (datagram 2))) \<and>
   \<not> terminate (snd (ep_step demo_episode_env ep (datagram 4)))"
proof -
  have a: "demo_worker_run ((demo_pam ''al'')\<lparr>lp_open_session := PamConv demo_alloc [Some (4, Some ''Welcome'')] (\<lambda>r. PamReturn 0)\<rparr>)
    = (Inr (), snd (demo_worker_run ((demo_pam ''al'')\<lparr>lp_open_session := PamConv demo_alloc [Some (4, Some ''Welcome'')] (\<lambda>r. PamReturn 0)\<rparr>)))"
    by (simp add: demo_worker_run_def session_eval)
  have b: "map fst (wc_sent (se_chan (snd (demo_worker_run ((demo_pam ''al'')\<lparr>lp_open_session := PamConv demo_alloc [Some (4, Some ''Welcome'')] (\<lambda>r. PamReturn 0)\<rparr>)))))
    = [Conv (ConvPrompt PromptSecret ''Pw''), Outcome (WorkerAuthOk ''al'' 1000 1000), Conv (ConvDisplay DisplayInfo ''Welcome''),
       Outcome (WorkerSessionOpened ''al'' 1000 1000), Outcome (WorkerSessionEnded (Exited 0))]"
    by (simp add: demo_worker_run_def session_eval)
  have c: "demo_relayed (Conv (ConvDisplay DisplayInfo ''Welcome''))
    = (Inr RelayContinue, AwaitWorker, [ToCompositor (ConvDisplay DisplayInfo ''Welcome'') None])"
    by (simp add: relayed_eval worker_eval)
  show ?thesis unfolding Let_def using b c
    by (subst a) (simp add: episode_eval)
qed

end
